(* ===== verification/Kprelude.thy ===== *)
theory Kprelude
  imports Main "HOL-Library.Word"
begin

text \<open>
  Shared vocabulary of the kernel model: the fixed-width integer types of
  \<^verbatim>\<open>types.h\<close>, byte memories, the outcomes of C code that leaves defined
  behaviour, and the word, list and memory lemmas the component theories share.
\<close>

unbundle bit_operations_syntax

named_theorems mem_simps \<open>reads after writes to byte memory\<close>

named_theorems state_defs \<open>unfolding of small state transformers\<close>

type_synonym u8 = "8 word"

type_synonym u16 = "16 word"

type_synonym u32 = "32 word"

text \<open>A memory maps every 32-bit address to a byte. A readable C pointer is the function
  that gives the byte at each index from it.\<close>

type_synonym mem = "u32 \<Rightarrow> u8"

type_synonym cptr = "u32 \<Rightarrow> u8"

abbreviation (input) ptr_at :: "mem \<Rightarrow> u32 \<Rightarrow> cptr" where
  "ptr_at m p \<equiv> (\<lambda>i. m (p + i))"

text \<open>
  What can go wrong in C code that the source does not guard: an array access outside its
  bounds, a call or an access through a null pointer, a division error, a loop that never
  ends, and the use of a variable that was never written. \<open>Unmodelled\<close> marks the few states the
  model has no view of.
\<close>

datatype fault = Bounds | Null_pointer | Divide_error | No_return | Uninitialised | Unmodelled

type_synonym 'a res = "fault + 'a"

definition res_bind :: "'a res \<Rightarrow> ('a \<Rightarrow> 'b res) \<Rightarrow> 'b res" where
  "res_bind r f = (case r of Inl e \<Rightarrow> Inl e | Inr x \<Rightarrow> f x)"

definition opt_res :: "fault \<Rightarrow> 'a option \<Rightarrow> 'a res" where
  "opt_res e r = (case r of None \<Rightarrow> Inl e | Some x \<Rightarrow> Inr x)"

text \<open>Little-endian 32-bit access, as the x86 does it.\<close>

definition load32 :: "mem \<Rightarrow> u32 \<Rightarrow> u32" where
  "load32 m a = ucast (m a) OR push_bit 8 (ucast (m (a + 1)))
     OR push_bit 16 (ucast (m (a + 2))) OR push_bit 24 (ucast (m (a + 3)))"

definition store32 :: "mem \<Rightarrow> u32 \<Rightarrow> u32 \<Rightarrow> mem" where
  "store32 m a v = m(a := ucast v, a + 1 := ucast (drop_bit 8 v),
     a + 2 := ucast (drop_bit 16 v), a + 3 := ucast (drop_bit 24 v))"

text \<open>
  The reference for every bulk write: the \<open>n\<close> bytes from \<open>d\<close> on are given by \<open>f\<close>, all
  other bytes stay. Addresses wrap around at \<open>2 ^ 32\<close>, as they do on the machine.
\<close>

definition blit :: "mem \<Rightarrow> u32 \<Rightarrow> nat \<Rightarrow> (nat \<Rightarrow> u8) \<Rightarrow> mem" where
  "blit m d n f = (\<lambda>a. if unat (a - d) < n then f (unat (a - d)) else m a)"

text \<open>The bytes of a zero-terminated string at a pointer.\<close>

definition holds_str :: "cptr \<Rightarrow> u8 list \<Rightarrow> bool" where
  "holds_str s xs \<longleftrightarrow> length xs < 2 ^ 32 \<and> (\<forall>i < length xs. s (of_nat i) = xs ! i \<and> xs ! i \<noteq> 0)
     \<and> s (of_nat (length xs)) = 0"

lemma res_bind_simps [simp]:
  "res_bind (Inl e) f = Inl e"
  "res_bind (Inr x) f = f x"
  by (simp_all add: res_bind_def)

lemma res_bind_eq_Inr:
  "res_bind r f = Inr y \<longleftrightarrow> (\<exists>x. r = Inr x \<and> f x = Inr y)"
  by (cases r) simp_all

lemma res_bindE:
  assumes "res_bind r f = Inr y"
  obtains x where "r = Inr x" "f x = Inr y"
  using assms by (auto simp: res_bind_eq_Inr)

lemma opt_res_simps [simp]:
  "opt_res e None = Inl e"
  "opt_res e (Some x) = Inr x"
  by (simp_all add: opt_res_def)

lemma unat_of_nat32: "n < 2 ^ 32 \<Longrightarrow> unat (of_nat n :: u32) = n"
  by (simp add: unat_of_nat take_bit_nat_eq_self)

lemma unat_lt32: "unat (x :: u32) < 2 ^ 32"
  using unsigned_less [of x] by simp

lemma unat_minus_of_nat32:
  "n \<le> unat x \<Longrightarrow> unat (x - of_nat n :: u32) = unat x - n"
proof -
  assume n: "n \<le> unat x"
  then have "n < 2 ^ 32" using unat_lt32 [of x] by simp
  then have "unat (of_nat n :: u32) = n" by (rule unat_of_nat32)
  with n show ?thesis by (simp add: unat_sub_if')
qed

lemma unat_minus_of_nat32_wrap:
  "unat x < n \<Longrightarrow> n \<le> 2 ^ 32 \<Longrightarrow> unat (x - of_nat n :: u32) = 2 ^ 32 + unat x - n"
proof -
  assume x: "unat x < n" and n: "n \<le> 2 ^ 32"
  show ?thesis
  proof (cases "n = 2 ^ 32")
    case True
    then have "(of_nat n :: u32) = 0" by simp
    then have "x - of_nat n = x" by (simp only: diff_zero)
    with True show ?thesis by (simp only: diff_add_inverse)
  next
    case False
    with n have "unat (of_nat n :: u32) = n" by (intro unat_of_nat32) simp
    with x show ?thesis by (simp add: unat_sub_if')
  qed
qed

lemma blit_0 [simp]: "blit m d 0 f = m"
  by (simp add: blit_def)

lemma blit_cong: "(\<And>i. i < n \<Longrightarrow> f i = g i) \<Longrightarrow> blit m d n f = blit m d n g"
  by (simp add: blit_def fun_eq_iff)

lemma blit_in [mem_simps]:
  "i < n \<Longrightarrow> n \<le> 2 ^ 32 \<Longrightarrow> blit m d n f (d + of_nat i) = f i"
  by (simp add: blit_def unat_of_nat32)

lemma blit_out [mem_simps]:
  "n \<le> unat (a - d) \<Longrightarrow> blit m d n f a = m a"
  by (simp add: blit_def)

lemma blit_append:
  assumes "n + k \<le> 2 ^ 32"
  shows "blit (blit m d n f) (d + of_nat n) k g
    = blit m d (n + k) (\<lambda>i. if i < n then f i else g (i - n))"
proof
  fix a
  let ?x = "a - d"
  have split: "a - (d + of_nat n) = ?x - of_nat n" by simp
  show "blit (blit m d n f) (d + of_nat n) k g a
    = blit m d (n + k) (\<lambda>i. if i < n then f i else g (i - n)) a"
  proof (cases "unat ?x < n")
    case True
    with assms have "unat (?x - of_nat n) = 2 ^ 32 + unat ?x - n"
      by (intro unat_minus_of_nat32_wrap) simp_all
    with True assms have "\<not> unat (?x - of_nat n) < k" by linarith
    with True show ?thesis by (simp add: blit_def split)
  next
    case False
    then have "unat (?x - of_nat n) = unat ?x - n"
      by (intro unat_minus_of_nat32) simp
    with False show ?thesis by (auto simp: blit_def split)
  qed
qed

lemma blit_update: "m(d := v) = blit m d 1 (\<lambda>_. v)"
  by (auto simp: blit_def fun_eq_iff unat_eq_zero)

lemma bit_u8_high: "8 \<le> n \<Longrightarrow> \<not> bit (x :: u8) n"
  by (auto dest: bit_imp_le_length)

lemma load32_bytes:
  "ucast (load32 m a) = m a"
  "ucast (drop_bit 8 (load32 m a)) = m (a + 1)"
  "ucast (drop_bit 16 (load32 m a)) = m (a + 2)"
  "ucast (drop_bit 24 (load32 m a)) = m (a + 3)"
  by (auto intro!: bit_word_eqI simp: load32_def bit_simps bit_u8_high)

lemma load32_store32 [mem_simps]: "load32 (store32 m a v) a = v"
proof (rule bit_word_eqI)
  fix n :: nat
  assume "n < LENGTH(32)"
  then consider "n < 8" | "8 \<le> n" "n < 16" | "16 \<le> n" "n < 24" | "24 \<le> n" "n < 32"
    by fastforce
  then show "bit (load32 (store32 m a v) a) n = bit v n"
    by cases (auto simp: load32_def store32_def bit_simps)
qed

lemma store32_load32:
  "store32 m d (load32 m s)
     = m(d := m s, d + 1 := m (s + 1), d + 2 := m (s + 2), d + 3 := m (s + 3))"
  by (simp add: store32_def load32_bytes)

lemma unat_split4: "unat (x :: u32) = 4 * unat (drop_bit 2 x) + unat (x AND 3)"
proof -
  have "unat (drop_bit 2 x) = drop_bit 2 (unat x)"
    by (rule unat_drop_bit_eq)
  then have "unat (drop_bit 2 x) = unat x div 4"
    by (simp only: drop_bit_eq_div) simp
  moreover have "x AND 3 = take_bit 2 x"
    by (simp add: take_bit_eq_mask mask_numeral)
  then have "unat (x AND 3) = take_bit 2 (unat x)"
    by (simp only: unsigned_take_bit_eq)
  then have "unat (x AND 3) = unat x mod 4"
    by (simp only: take_bit_eq_mod) simp
  ultimately show ?thesis by simp
qed

lemma unat_Suc_less: "(i :: u32) < n \<Longrightarrow> unat (i + 1) = Suc (unat i)"
  using unat_lt32 [of n] by (simp add: word_less_nat_alt unat_word_ariths)

lemma loop_decreases: "(i :: u32) < n \<Longrightarrow> unat n - unat (i + 1) < unat n - unat i"
  by (simp add: unat_Suc_less word_less_nat_alt)

lemma u32_gt_1: "(x :: u32) \<noteq> 0 \<Longrightarrow> x \<noteq> 1 \<Longrightarrow> 1 < unat x"
  by (metis less_one linorder_neqE_nat unat_1 unat_eq_zero word_unat_eq_iff)

lemma sint_u8_eq_iff [simp]: "sint (x :: u8) = sint y \<longleftrightarrow> x = y"
  by (auto intro: signed_word_eqI)

lemma bit_64: "bit (64 :: int) n \<longleftrightarrow> n = 6" "bit (64 :: nat) n \<longleftrightarrow> n = 6"
proof -
  have "(64 :: int) = push_bit 6 1" "(64 :: nat) = push_bit 6 1" by (simp_all add: push_bit_eq_mult)
  then show "bit (64 :: int) n \<longleftrightarrow> n = 6" "bit (64 :: nat) n \<longleftrightarrow> n = 6" by (simp_all only: bit_simps) auto
qed

lemma bit_128: "bit (128 :: int) n \<longleftrightarrow> n = 7" "bit (128 :: nat) n \<longleftrightarrow> n = 7"
proof -
  have "(128 :: int) = push_bit 7 1" "(128 :: nat) = push_bit 7 1" by (simp_all add: push_bit_eq_mult)
  then show "bit (128 :: int) n \<longleftrightarrow> n = 7" "bit (128 :: nat) n \<longleftrightarrow> n = 7" by (simp_all only: bit_simps) auto
qed

lemma byte_of_u32 [simp]: "(ucast (ucast (x :: u8) :: u32) :: u8) = x"
  by (rule bit_word_eqI) (simp add: bit_simps)

text \<open>String constants: the bytes of a literal, then zeros.\<close>

definition str_ptr :: "u8 list \<Rightarrow> cptr" where
  "str_ptr xs = (\<lambda>i. if unat i < length xs then xs ! unat i else 0)"

lemma holds_str_ptr: "0 \<notin> set xs \<Longrightarrow> length xs < 2 ^ 32 \<Longrightarrow> holds_str (str_ptr xs) xs"
  by (auto simp: holds_str_def str_ptr_def unat_of_nat32 in_set_conv_nth)

end
