(* ===== verification/Klib_Mem.thy ===== *)
theory Klib_Mem
  imports Kprelude
begin

text \<open>
  The block operations of \<^verbatim>\<open>lib.c\<close>: \<open>memset\<close>, \<open>memset_word\<close>, \<open>memset_dword\<close>, \<open>memcpy\<close>
  and \<open>memmove\<close>, translated from their inline assembly register by register (\<open>edi\<close> and
  \<open>esi\<close> are the pointers, \<open>ecx\<close> and \<open>edx\<close> the counters). The lemmas show that the
  aligned double-word loops do what a plain byte loop does.
\<close>

section \<open>The assembly loops\<close>

text \<open>\<open>rep stosl\<close> and \<open>rep movsl\<close> with the direction flag clear; \<open>rep movsb\<close> in either direction.\<close>

fun rep_stosl :: "u32 \<Rightarrow> nat \<Rightarrow> mem \<times> u32 \<Rightarrow> mem \<times> u32" where
  "rep_stosl eax 0 (m, edi) = (m, edi)"
| "rep_stosl eax (Suc ecx) (m, edi) = rep_stosl eax ecx (store32 m edi eax, edi + 4)"

fun rep_stosw :: "u16 \<Rightarrow> nat \<Rightarrow> mem \<times> u32 \<Rightarrow> mem \<times> u32" where
  "rep_stosw ax 0 (m, edi) = (m, edi)"
| "rep_stosw ax (Suc ecx) (m, edi) =
     rep_stosw ax ecx (m(edi := ucast ax, edi + 1 := ucast (drop_bit 8 ax)), edi + 2)"

fun rep_movsl :: "nat \<Rightarrow> mem \<times> u32 \<times> u32 \<Rightarrow> mem \<times> u32 \<times> u32" where
  "rep_movsl 0 (m, edi, esi) = (m, edi, esi)"
| "rep_movsl (Suc ecx) (m, edi, esi) =
     rep_movsl ecx (store32 m edi (load32 m esi), edi + 4, esi + 4)"

fun rep_movsb :: "bool \<Rightarrow> nat \<Rightarrow> mem \<times> u32 \<times> u32 \<Rightarrow> mem" where
  "rep_movsb df 0 (m, edi, esi) = m"
| "rep_movsb df (Suc ecx) (m, edi, esi) =
     rep_movsb df ecx (m(edi := m esi), (if df then edi - 1 else edi + 1),
       (if df then esi - 1 else esi + 1))"

text \<open>The labels \<open>.memset_top\<close> (bytes until \<open>edi\<close> is a multiple of four) and \<open>.memset_bottom\<close>.\<close>

function memset_top :: "u8 \<Rightarrow> mem \<times> u32 \<times> u32 \<Rightarrow> mem \<times> u32 \<times> u32" where
  "memset_top al (m, edi, ecx) =
     (if ecx = 0 \<or> edi AND 3 = 0 then (m, edi, ecx)
      else memset_top al (m(edi := al), edi + 1, ecx - 1))"
  by pat_completeness auto
termination
  by (relation "measure (\<lambda>(al, m, edi, ecx). unat ecx)") (auto simp: unat_minus_one unat_gt_0)

function memset_bottom :: "u8 \<Rightarrow> mem \<times> u32 \<times> u32 \<Rightarrow> mem" where
  "memset_bottom al (m, edi, edx) =
     (if edx = 0 then m else memset_bottom al (m(edi := al), edi + 1, edx - 1))"
  by pat_completeness auto
termination
  by (relation "measure (\<lambda>(al, m, edi, edx). unat edx)") (auto simp: unat_minus_one unat_gt_0)

definition memset :: "mem \<Rightarrow> u32 \<Rightarrow> u32 \<Rightarrow> u32 \<Rightarrow> mem" where
  "memset m s c n =
     (let c' = c AND 0xFF;
          eax = push_bit 24 c' OR push_bit 16 c' OR push_bit 8 c' OR c';
          (m1, edi, ecx) = memset_top (ucast eax) (m, s, n)
      in if ecx = 0 then m1
         else let edx = ecx AND 3;
                  (m2, edi2) = rep_stosl eax (unat (drop_bit 2 ecx)) (m1, edi)
              in memset_bottom (ucast eax) (m2, edi2, edx))"

definition memset_word :: "mem \<Rightarrow> u32 \<Rightarrow> u32 \<Rightarrow> u32 \<Rightarrow> mem" where
  "memset_word m s c n = fst (rep_stosw (ucast c) (unat n) (m, s))"

definition memset_dword :: "mem \<Rightarrow> u32 \<Rightarrow> u32 \<Rightarrow> u32 \<Rightarrow> mem" where
  "memset_dword m s c n = fst (rep_stosl c (unat n) (m, s))"

text \<open>The labels \<open>.memcpy_top\<close> and \<open>.memcpy_bottom\<close>.\<close>

function memcpy_top :: "mem \<times> u32 \<times> u32 \<times> u32 \<Rightarrow> mem \<times> u32 \<times> u32 \<times> u32" where
  "memcpy_top (m, edi, esi, ecx) =
     (if ecx = 0 \<or> edi AND 3 = 0 then (m, edi, esi, ecx)
      else memcpy_top (m(edi := m esi), edi + 1, esi + 1, ecx - 1))"
  by pat_completeness auto
termination
  by (relation "measure (\<lambda>(m, edi, esi, ecx). unat ecx)") (auto simp: unat_minus_one unat_gt_0)

function memcpy_bottom :: "mem \<times> u32 \<times> u32 \<times> u32 \<Rightarrow> mem" where
  "memcpy_bottom (m, edi, esi, edx) =
     (if edx = 0 then m else memcpy_bottom (m(edi := m esi), edi + 1, esi + 1, edx - 1))"
  by pat_completeness auto
termination
  by (relation "measure (\<lambda>(m, edi, esi, edx). unat edx)") (auto simp: unat_minus_one unat_gt_0)

definition memcpy :: "mem \<Rightarrow> u32 \<Rightarrow> u32 \<Rightarrow> u32 \<Rightarrow> mem" where
  "memcpy m dest src n =
     (let (m1, edi, esi, ecx) = memcpy_top (m, dest, src, n)
      in if ecx = 0 then m1
         else let edx = ecx AND 3;
                  (m2, edi2, esi2) = rep_movsl (unat (drop_bit 2 ecx)) (m1, edi, esi)
              in memcpy_bottom (m2, edi2, esi2, edx))"

text \<open>
  \<open>memmove\<close> also gives the direction flag on return: it is set by \<open>std\<close> on the backward
  branch and no instruction of the function clears it again.
\<close>

definition memmove :: "mem \<Rightarrow> u32 \<Rightarrow> u32 \<Rightarrow> u32 \<Rightarrow> mem \<times> bool" where
  "memmove m dest src n =
     (if dest \<le> src then (rep_movsb False (unat n) (m, dest, src), False)
      else (rep_movsb True (unat n) (m, dest + n - 1, src + n - 1), True))"

declare memset_top.simps [simp del] memset_bottom.simps [simp del]
  memcpy_top.simps [simp del] memcpy_bottom.simps [simp del]

section \<open>The byte loops they stand for\<close>

fun fill_fwd :: "nat \<Rightarrow> u8 \<Rightarrow> mem \<Rightarrow> u32 \<Rightarrow> mem" where
  "fill_fwd 0 v m d = m"
| "fill_fwd (Suc n) v m d = fill_fwd n v (m(d := v)) (d + 1)"

fun copy_fwd :: "nat \<Rightarrow> mem \<Rightarrow> u32 \<Rightarrow> u32 \<Rightarrow> mem" where
  "copy_fwd 0 m d s = m"
| "copy_fwd (Suc n) m d s = copy_fwd n (m(d := m s)) (d + 1) (s + 1)"

lemma fill_fwd_add:
  "fill_fwd (a + b) v m d = fill_fwd b v (fill_fwd a v m d) (d + of_nat a)"
  by (induction a arbitrary: m d) (simp_all add: ac_simps)

lemma copy_fwd_add:
  "copy_fwd (a + b) m d s = copy_fwd b (copy_fwd a m d s) (d + of_nat a) (s + of_nat a)"
  by (induction a arbitrary: m d s) (simp_all add: ac_simps)

lemma fill_fwd_blit:
  "n \<le> 2 ^ 32 \<Longrightarrow> fill_fwd n v m d = blit m d n (\<lambda>_. v)"
proof (induction n)
  case 0
  show ?case by simp
next
  case (Suc n)
  have "fill_fwd (Suc n) v m d = (fill_fwd n v m d)(d + of_nat n := v)"
    using fill_fwd_add [of n 1 v m d] by simp
  also have "\<dots> = blit (blit m d n (\<lambda>_. v)) (d + of_nat n) 1 (\<lambda>_. v)"
    using Suc by (simp add: blit_update)
  also have "\<dots> = blit m d (n + 1) (\<lambda>_. v)"
    using Suc.prems by (subst blit_append) (simp_all cong: blit_cong)
  finally show ?case by simp
qed

text \<open>A forward byte copy is right unless the destination starts inside the source.\<close>

lemma copy_fwd_blit:
  assumes "n \<le> 2 ^ 32" and "d = s \<or> n \<le> unat (d - s)"
  shows "copy_fwd n m d s = blit m d n (\<lambda>i. m (s + of_nat i))"
  using assms
proof (induction n)
  case 0
  show ?case by simp
next
  case (Suc n)
  have IH: "copy_fwd n m d s = blit m d n (\<lambda>i. m (s + of_nat i))"
    using Suc by auto
  have src: "copy_fwd n m d s (s + of_nat n) = m (s + of_nat n)"
  proof (cases "d = s")
    case True
    with Suc.prems(1) show ?thesis
      unfolding IH by (simp add: blit_def unat_of_nat32)
  next
    case False
    with Suc.prems have le: "Suc n \<le> unat (d - s)" by simp
    let ?w = "d - s"
    have nat_n: "unat (of_nat n :: u32) = n"
      using Suc.prems(1) by (intro unat_of_nat32) simp
    have eq: "s + of_nat n - d = of_nat n - ?w" by simp
    have "unat (s + of_nat n - d) = n + 2 ^ 32 - unat ?w"
      using le nat_n unat_sub_if' [of "of_nat n :: u32" ?w] unfolding eq by simp
    then have "n \<le> unat (s + of_nat n - d)" using unat_lt32 [of ?w] by simp
    then show ?thesis by (simp add: IH blit_def)
  qed
  have "copy_fwd (Suc n) m d s = (copy_fwd n m d s)(d + of_nat n := m (s + of_nat n))"
    using copy_fwd_add [of n 1 m d s] src by simp
  also have "\<dots> = blit (blit m d n (\<lambda>i. m (s + of_nat i))) (d + of_nat n) 1 (\<lambda>_. m (s + of_nat n))"
    by (simp add: IH blit_update)
  also have "\<dots> = blit m d (n + 1) (\<lambda>i. m (s + of_nat i))"
    using Suc.prems(1) by (subst blit_append) (auto intro!: blit_cong simp: less_Suc_eq)
  finally show ?case by simp
qed

section \<open>The assembly loops are byte loops\<close>

lemma memset_top_fill:
  "\<exists>k. memset_top al (m, edi, ecx) = (fill_fwd k al m edi, edi + of_nat k, ecx - of_nat k)
     \<and> k \<le> unat ecx"
proof (induction al "(m, edi, ecx)" arbitrary: m edi ecx rule: memset_top.induct)
  case (1 al m edi ecx)
  show ?case
  proof (cases "ecx = 0 \<or> edi AND 3 = 0")
    case True
    then show ?thesis by (intro exI [of _ 0]) (simp add: memset_top.simps)
  next
    case False
    then obtain k where k: "memset_top al (m(edi := al), edi + 1, ecx - 1)
        = (fill_fwd k al (m(edi := al)) (edi + 1), edi + 1 + of_nat k, ecx - 1 - of_nat k)"
      and "k \<le> unat (ecx - 1)" using "1" by blast
    moreover have "unat (ecx - 1) = unat ecx - 1" and "0 < unat ecx"
      using False by (simp_all add: unat_minus_one unat_gt_0)
    ultimately show ?thesis
      using False by (intro exI [of _ "Suc k"]) (simp add: memset_top.simps [of al m edi] algebra_simps)
  qed
qed

lemma memset_bottom_fill: "memset_bottom al (m, edi, edx) = fill_fwd (unat edx) al m edi"
proof (induction al "(m, edi, edx)" arbitrary: m edi edx rule: memset_bottom.induct)
  case (1 al m edi edx)
  show ?case
  proof (cases "edx = 0")
    case True
    then show ?thesis by (simp add: memset_bottom.simps)
  next
    case False
    then have "unat edx = Suc (unat (edx - 1))"
      by (simp add: unat_minus_one unat_gt_0)
    with False "1" show ?thesis by (simp add: memset_bottom.simps [of al m edi])
  qed
qed

lemma memcpy_top_copy:
  "\<exists>k. memcpy_top (m, edi, esi, ecx)
     = (copy_fwd k m edi esi, edi + of_nat k, esi + of_nat k, ecx - of_nat k) \<and> k \<le> unat ecx"
proof (induction "(m, edi, esi, ecx)" arbitrary: m edi esi ecx rule: memcpy_top.induct)
  case (1 m edi esi ecx)
  show ?case
  proof (cases "ecx = 0 \<or> edi AND 3 = 0")
    case True
    then show ?thesis by (intro exI [of _ 0]) (simp add: memcpy_top.simps)
  next
    case False
    then obtain k where k: "memcpy_top (m(edi := m esi), edi + 1, esi + 1, ecx - 1)
        = (copy_fwd k (m(edi := m esi)) (edi + 1) (esi + 1), edi + 1 + of_nat k,
           esi + 1 + of_nat k, ecx - 1 - of_nat k)"
      and "k \<le> unat (ecx - 1)" using "1" by blast
    moreover have "unat (ecx - 1) = unat ecx - 1" and "0 < unat ecx"
      using False by (simp_all add: unat_minus_one unat_gt_0)
    ultimately show ?thesis
      using False by (intro exI [of _ "Suc k"]) (simp add: memcpy_top.simps [of m edi] algebra_simps)
  qed
qed

lemma memcpy_bottom_copy: "memcpy_bottom (m, edi, esi, edx) = copy_fwd (unat edx) m edi esi"
proof (induction "(m, edi, esi, edx)" arbitrary: m edi esi edx rule: memcpy_bottom.induct)
  case (1 m edi esi edx)
  show ?case
  proof (cases "edx = 0")
    case True
    then show ?thesis by (simp add: memcpy_bottom.simps)
  next
    case False
    then have "unat edx = Suc (unat (edx - 1))"
      by (simp add: unat_minus_one unat_gt_0)
    with False "1" show ?thesis by (simp add: memcpy_bottom.simps [of m edi])
  qed
qed

lemma copy_fwd_4:
  assumes "d - s \<notin> {1, 2, 3}"
  shows "copy_fwd 4 m d s = store32 m d (load32 m s)"
proof -
  have "s + 1 \<noteq> d" "s + 2 \<noteq> d" "s + 3 \<noteq> d" using assms by auto
  moreover have "s + 2 \<noteq> d + 1" "s + 3 \<noteq> d + 1" "s + 3 \<noteq> d + 2"
    using assms by (auto simp: algebra_simps)
  ultimately show ?thesis
    by (simp add: store32_load32 numeral_eq_Suc add.assoc)
qed

lemma rep_movsl_copy:
  "n = 0 \<or> d - s \<notin> {1, 2, 3} \<Longrightarrow> rep_movsl n (m, d, s)
     = (copy_fwd (4 * n) m d s, d + of_nat (4 * n), s + of_nat (4 * n))"
proof (induction n arbitrary: m d s)
  case 0
  show ?case by simp
next
  case (Suc n)
  then have ov: "d - s \<notin> {1, 2, 3}" by simp
  then have "rep_movsl n (store32 m d (load32 m s), d + 4, s + 4)
      = (copy_fwd (4 * n) (copy_fwd 4 m d s) (d + 4) (s + 4),
         d + 4 + of_nat (4 * n), s + 4 + of_nat (4 * n))"
    by (subst Suc.IH) (simp_all add: copy_fwd_4)
  moreover have "copy_fwd (4 * Suc n) m d s = copy_fwd (4 * n) (copy_fwd 4 m d s) (d + 4) (s + 4)"
    using copy_fwd_add [of 4 "4 * n" m d s] by simp
  ultimately show ?case by (simp add: algebra_simps)
qed

lemma rep_stosl_fill:
  assumes "\<And>i. i \<in> {0, 8, 16, 24} \<Longrightarrow> ucast (drop_bit i eax) = al"
  shows "rep_stosl eax n (m, d) = (fill_fwd (4 * n) al m d, d + of_nat (4 * n))"
proof (induction n arbitrary: m d)
  case 0
  show ?case by simp
next
  case (Suc n)
  have "store32 m d eax = fill_fwd 4 al m d"
    using assms [of 0] assms [of 8] assms [of 16] assms [of 24]
    by (simp add: store32_def numeral_eq_Suc add.assoc)
  moreover have "fill_fwd (4 * Suc n) al m d = fill_fwd (4 * n) al (fill_fwd 4 al m d) (d + 4)"
    using fill_fwd_add [of 4 "4 * n" al m d] by simp
  ultimately show ?case by (simp add: Suc algebra_simps)
qed

lemma memcpy_copy:
  assumes "dest - src \<notin> {1, 2, 3} \<or> n < 4"
  shows "memcpy m dest src n = copy_fwd (unat n) m dest src"
proof -
  obtain k where k: "memcpy_top (m, dest, src, n)
      = (copy_fwd k m dest src, dest + of_nat k, src + of_nat k, n - of_nat k)" and "k \<le> unat n"
    using memcpy_top_copy by blast
  let ?c = "n - of_nat k"
  have c: "unat n = k + unat ?c"
    using \<open>k \<le> unat n\<close> by (simp add: unat_minus_of_nat32)
  have "unat (drop_bit 2 ?c) = 0 \<or> dest + of_nat k - (src + of_nat k) \<notin> {1, 2, 3}"
  proof (cases "n < 4")
    case True
    then have "unat ?c < 4" using c by (simp add: word_less_nat_alt)
    then show ?thesis using unat_split4 [of ?c] by simp
  next
    case False
    with assms show ?thesis by simp
  qed
  note mv = rep_movsl_copy [OF this, of "copy_fwd k m dest src"]
  have split: "copy_fwd (unat n) m dest src
      = copy_fwd (unat (?c AND 3)) (copy_fwd (4 * unat (drop_bit 2 ?c)) (copy_fwd k m dest src)
          (dest + of_nat k) (src + of_nat k))
          (dest + of_nat k + of_nat (4 * unat (drop_bit 2 ?c)))
          (src + of_nat k + of_nat (4 * unat (drop_bit 2 ?c)))"
    unfolding c by (subst unat_split4 [of ?c]) (simp only: copy_fwd_add)
  show ?thesis
  proof (cases "?c = 0")
    case True
    have "memcpy m dest src n = copy_fwd k m dest src"
      unfolding memcpy_def k using True by simp
    with True c show ?thesis by simp
  next
    case False
    then show ?thesis unfolding split by (simp add: memcpy_def k mv memcpy_bottom_copy Let_def)
  qed
qed

lemma copy_bwd_blit:
  assumes "n \<le> 2 ^ 32" and "d = s \<or> n \<le> unat (s - d)"
  shows "rep_movsb True n (m, d + of_nat n - 1, s + of_nat n - 1) = blit m d n (\<lambda>i. m (s + of_nat i))"
  using assms
proof (induction n arbitrary: m)
  case 0
  show ?case by simp
next
  case (Suc n)
  let ?m = "m(d + of_nat n := m (s + of_nat n))"
  have same: "?m (s + of_nat i) = m (s + of_nat i)" if i: "i < n" for i
  proof -
    have "s + of_nat i \<noteq> d + of_nat n"
    proof
      assume "s + of_nat i = d + of_nat n"
      then have "s - d = of_nat (n - i)" using i by (simp add: of_nat_diff algebra_simps)
      moreover have "unat (of_nat (n - i) :: u32) = n - i"
        using Suc.prems(1) by (intro unat_of_nat32) simp
      ultimately have "unat (s - d) = n - i" by simp
      with Suc.prems(2) i show False by auto
    qed
    then show ?thesis by simp
  qed
  have "rep_movsb True (Suc n) (m, d + of_nat (Suc n) - 1, s + of_nat (Suc n) - 1)
      = rep_movsb True n (?m, d + of_nat n - 1, s + of_nat n - 1)"
    by (simp add: algebra_simps)
  also have "\<dots> = blit ?m d n (\<lambda>i. ?m (s + of_nat i))"
    using Suc.prems by (intro Suc.IH) auto
  also have "\<dots> = blit ?m d n (\<lambda>i. m (s + of_nat i))"
    by (rule blit_cong) (rule same)
  also have "\<dots> = (blit m d n (\<lambda>i. m (s + of_nat i)))(d + of_nat n := m (s + of_nat n))"
    using Suc.prems(1) by (auto simp: blit_def fun_eq_iff unat_of_nat32)
  also have "\<dots> = blit m d (Suc n) (\<lambda>i. m (s + of_nat i))"
    using Suc.prems(1) unfolding blit_update
    by (subst blit_append) (auto intro!: blit_cong simp: less_Suc_eq)
  finally show ?case .
qed

lemma rep_movsb_fwd: "rep_movsb False n (m, d, s) = copy_fwd n m d s"
  by (induction n arbitrary: m d s) simp_all

section \<open>Correctness of the block operations\<close>

lemma memset_pattern:
  fixes c :: u32
  assumes "c' = c AND 0xFF" and "i \<in> {0, 8, 16, 24}"
  shows "ucast (drop_bit i (push_bit 24 c' OR push_bit 16 c' OR push_bit 8 c' OR c')) = (ucast c :: u8)"
proof -
  have c': "c' = take_bit 8 c"
    unfolding assms(1) by (simp add: take_bit_eq_mask mask_numeral)
  show ?thesis
    using assms(2) unfolding c' by (auto intro!: bit_word_eqI simp: bit_simps)
qed

lemma memcpy_blit:
  assumes "dest = src \<or> n \<le> dest - src"
  shows "memcpy m dest src n = blit m dest (unat n) (\<lambda>i. m (src + of_nat i))"
proof -
  have "dest - src \<notin> {1, 2, 3} \<or> n < 4"
  proof (cases "dest = src")
    case True
    then show ?thesis by simp
  next
    case False
    with assms have "n \<le> dest - src" by simp
    then show ?thesis by (cases "dest - src \<in> {1, 2, 3}") (auto simp: word_le_nat_alt word_less_nat_alt)
  qed
  then have "memcpy m dest src n = copy_fwd (unat n) m dest src"
    by (rule memcpy_copy)
  also have "\<dots> = blit m dest (unat n) (\<lambda>i. m (src + of_nat i))"
    using assms unat_lt32 [of n] by (intro copy_fwd_blit) (auto simp: word_le_nat_alt)
  finally show ?thesis .
qed

text \<open>
  C4. \<open>memcpy\<close> with its alignment prologue, its double-word loop and its byte epilogue copies
  exactly the \<open>n\<close> bytes from \<open>src\<close> to \<open>dest\<close> and changes nothing else, whenever \<open>dest\<close> does
  not start strictly inside the source block (so it is also right for downward overlaps).
\<close>

theorem memcpy_correct:
  assumes "dest = src \<or> n \<le> dest - src"
  shows "memcpy m dest src n = blit m dest (unat n) (\<lambda>i. m (src + of_nat i))"
  using assms by (rule memcpy_blit)

theorem memcpy_correct_witness:
  "memcpy (\<lambda>a. ucast a) 0x101 0x203 7 = blit (\<lambda>a. ucast a) 0x101 7 (\<lambda>i. ucast (0x203 + of_nat i :: u32))"
  using memcpy_correct [of "0x101" "0x203" 7 "\<lambda>a. ucast a"] by simp

text \<open>
  \<open>memset\<close> writes the low byte of \<open>c\<close> to exactly the \<open>n\<close> bytes from \<open>s\<close> on, for every
  alignment of \<open>s\<close> and every \<open>n\<close>.
\<close>

theorem memset_correct: "memset m s c n = blit m s (unat n) (\<lambda>_. ucast c)"
proof -
  define c' where "c' = c AND 0xFF"
  define eax where "eax = push_bit 24 c' OR push_bit 16 c' OR push_bit 8 c' OR c'"
  have pat: "ucast (drop_bit i eax) = (ucast c :: u8)" if "i \<in> {0, 8, 16, 24}" for i
    unfolding eax_def using that by (rule memset_pattern [OF c'_def])
  then have al: "ucast eax = (ucast c :: u8)" using pat [of 0] by simp
  have sto: "rep_stosl eax j (m', d) = (fill_fwd (4 * j) (ucast c) m' d, d + of_nat (4 * j))" for j m' d
    by (rule rep_stosl_fill) (rule pat)
  obtain k where k: "memset_top (ucast c) (m, s, n)
      = (fill_fwd k (ucast c) m s, s + of_nat k, n - of_nat k)" and "k \<le> unat n"
    using memset_top_fill by blast
  let ?c = "n - of_nat k"
  have c: "unat n = k + unat ?c"
    using \<open>k \<le> unat n\<close> by (simp add: unat_minus_of_nat32)
  have split: "fill_fwd (unat n) (ucast c) m s
      = fill_fwd (unat (?c AND 3)) (ucast c)
          (fill_fwd (4 * unat (drop_bit 2 ?c)) (ucast c) (fill_fwd k (ucast c) m s) (s + of_nat k))
          (s + of_nat k + of_nat (4 * unat (drop_bit 2 ?c)))"
    unfolding c by (subst unat_split4 [of ?c]) (simp only: fill_fwd_add)
  have unf: "memset m s c n = (let (m1, edi, ecx) = memset_top (ucast c) (m, s, n)
      in if ecx = 0 then m1
         else let edx = ecx AND 3;
                  (m2, edi2) = rep_stosl eax (unat (drop_bit 2 ecx)) (m1, edi)
              in memset_bottom (ucast c) (m2, edi2, edx))"
    unfolding memset_def Let_def c'_def [symmetric] eax_def [symmetric] al ..
  have "memset m s c n = fill_fwd (unat n) (ucast c) m s"
  proof (cases "?c = 0")
    case True
    have "memset m s c n = fill_fwd k (ucast c) m s" unfolding unf k using True by simp
    with True c show ?thesis by simp
  next
    case False
    then show ?thesis unfolding split unf k
      by (simp add: sto memset_bottom_fill Let_def)
  qed
  also have "\<dots> = blit m s (unat n) (\<lambda>_. ucast c)"
    using unat_lt32 [of n] by (intro fill_fwd_blit) simp
  finally show ?thesis .
qed

text \<open>
  \<open>memmove\<close> copies the block correctly for every overlap of two blocks that do not wrap
  around the end of the address space, and it returns with the direction flag set exactly
  when it copied backwards (\<open>src < dest\<close>).
\<close>

theorem memmove_correct:
  assumes "unat dest + unat n \<le> 2 ^ 32" and "unat src + unat n \<le> 2 ^ 32"
  shows "memmove m dest src n = (blit m dest (unat n) (\<lambda>i. m (src + of_nat i)), src < dest)"
proof (cases "dest \<le> src")
  case True
  have "dest = src \<or> unat n \<le> unat (dest - src)"
    using True assms(2) by (cases "dest = src") (auto simp: unat_sub_if' word_le_nat_alt word_unat_eq_iff)
  then have "copy_fwd (unat n) m dest src = blit m dest (unat n) (\<lambda>i. m (src + of_nat i))"
    using unat_lt32 [of n] by (intro copy_fwd_blit) simp_all
  with True show ?thesis by (auto simp: memmove_def rep_movsb_fwd)
next
  case False
  then have "unat n \<le> unat (src - dest)"
    using assms(1) by (auto simp: unat_sub_if' word_le_nat_alt)
  then have "rep_movsb True (unat n) (m, dest + of_nat (unat n) - 1, src + of_nat (unat n) - 1)
      = blit m dest (unat n) (\<lambda>i. m (src + of_nat i))"
    using unat_lt32 [of n] by (intro copy_bwd_blit) simp_all
  with False show ?thesis by (auto simp: memmove_def)
qed

theorem memmove_correct_witness:
  "memmove (\<lambda>a. ucast a) 0x102 0x100 8 = (blit (\<lambda>a. ucast a) 0x102 8 (\<lambda>i. ucast (0x100 + of_nat i :: u32)), True)"
  using memmove_correct [of "0x102" 8 "0x100" "\<lambda>a. ucast a"] by simp

end
