(* ===== verification/Klib_String.thy ===== *)
theory Klib_String
  imports Klib_Mem
begin

text \<open>
  The string operations of \<^verbatim>\<open>lib.c\<close>: \<open>strlen\<close>, \<open>strncmp\<close>, \<open>strcpy\<close>, \<open>strncpy\<close>, \<open>strrev\<close> and
  \<open>itoa\<close>. A string argument is a readable pointer; \<open>strlen\<close> and \<open>strcpy\<close> scan for the
  terminating zero and return \<open>None\<close> when there is none. The source of a copy is a function
  of the memory, so that one definition serves a source in memory (\<open>\<lambda>m. ptr_at m p\<close>) and a
  source in a kernel variable. \<open>int8_t\<close> is \<open>char\<close>, which is signed.
\<close>

section \<open>Definitions\<close>

partial_function (option) strlen_from :: "cptr \<Rightarrow> u32 \<Rightarrow> u32 option" where
  "strlen_from s len = (if s len \<noteq> 0 then strlen_from s (len + 1) else Some len)"

definition strlen :: "cptr \<Rightarrow> u32 option" where
  "strlen s = strlen_from s 0"

function strncmp_from :: "cptr \<Rightarrow> cptr \<Rightarrow> u32 \<Rightarrow> u32 \<Rightarrow> int" where
  "strncmp_from s1 s2 n i =
     (if i < n then
        (if s1 i \<noteq> s2 i \<or> s1 i = 0 then sint (s1 i) - sint (s2 i)
         else strncmp_from s1 s2 n (i + 1))
      else 0)"
  by pat_completeness auto
termination
  by (relation "measure (\<lambda>(s1, s2, n, i). unat n - unat i)")
    (auto simp: loop_decreases)

definition strncmp :: "cptr \<Rightarrow> cptr \<Rightarrow> u32 \<Rightarrow> int" where
  "strncmp s1 s2 n = strncmp_from s1 s2 n 0"

partial_function (option) strcpy_from :: "mem \<Rightarrow> u32 \<Rightarrow> (mem \<Rightarrow> cptr) \<Rightarrow> u32 \<Rightarrow> mem option" where
  "strcpy_from m dest src i =
     (if src m i \<noteq> 0 then strcpy_from (m(dest + i := src m i)) dest src (i + 1)
      else Some (m(dest + i := 0)))"

definition strcpy :: "mem \<Rightarrow> u32 \<Rightarrow> (mem \<Rightarrow> cptr) \<Rightarrow> mem option" where
  "strcpy m dest src = strcpy_from m dest src 0"

function strncpy_copy :: "mem \<Rightarrow> u32 \<Rightarrow> (mem \<Rightarrow> cptr) \<Rightarrow> u32 \<Rightarrow> u32 \<Rightarrow> mem \<times> u32" where
  "strncpy_copy m dest src n i =
     (if src m i \<noteq> 0 \<and> i < n then strncpy_copy (m(dest + i := src m i)) dest src n (i + 1)
      else (m, i))"
  by pat_completeness auto
termination
  by (relation "measure (\<lambda>(m, dest, src, n, i). unat n - unat i)")
    (auto simp: loop_decreases)

function strncpy_pad :: "mem \<Rightarrow> u32 \<Rightarrow> u32 \<Rightarrow> u32 \<Rightarrow> mem" where
  "strncpy_pad m dest n i = (if i < n then strncpy_pad (m(dest + i := 0)) dest n (i + 1) else m)"
  by pat_completeness auto
termination
  by (relation "measure (\<lambda>(m, dest, n, i). unat n - unat i)")
    (auto simp: loop_decreases)

definition strncpy :: "mem \<Rightarrow> u32 \<Rightarrow> (mem \<Rightarrow> cptr) \<Rightarrow> u32 \<Rightarrow> mem" where
  "strncpy m dest src n = (let (m1, i) = strncpy_copy m dest src n 0 in strncpy_pad m1 dest n i)"

text \<open>\<open>strrev\<close> and \<open>itoa\<close> on the bytes written to the buffer before its final zero. The length that \<open>strrev\<close> reverses is
  that of the string, which ends at the first zero byte.\<close>

function strrev_loop :: "u8 list \<Rightarrow> int \<Rightarrow> int \<Rightarrow> u8 list" where
  "strrev_loop s b e =
     (if b < e then strrev_loop (s[nat e := s ! nat b, nat b := s ! nat e]) (b + 1) (e - 1) else s)"
  by pat_completeness auto
termination
  by (relation "measure (\<lambda>(s, b, e). nat (e - b))") auto

definition strrev :: "u8 list \<Rightarrow> u8 list" where
  "strrev s = strrev_loop s 0 (int (length (takeWhile (\<lambda>c. c \<noteq> 0) s)) - 1)"

definition lookup_digits :: "u8 list" where
  "lookup_digits = map of_char ''0123456789ABCDEFGHIJKLMNOPQRSTUVWXYZ'' @ [0]"

text \<open>
  The digit loop of \<open>itoa\<close>. A radix of zero divides by zero, a radix of one never makes
  \<open>newval\<close> smaller, and a remainder of 37 or more indexes outside \<open>lookup\<close>.
\<close>

function itoa_loop :: "u32 \<Rightarrow> u32 \<Rightarrow> u8 list \<Rightarrow> u8 list res" where
  "itoa_loop newval radix buf =
     (if newval = 0 then Inr buf
      else if radix = 0 then Inl Divide_error
      else if length lookup_digits \<le> unat (newval mod radix) then Inl Bounds
      else if radix = 1 then Inl No_return
      else itoa_loop (newval div radix) radix (buf @ [lookup_digits ! unat (newval mod radix)]))"
  by pat_completeness auto
termination
proof (relation "measure (\<lambda>(newval, radix, buf). unat newval)")
  fix newval radix :: u32 and buf :: "u8 list"
  assume nz: "newval \<noteq> 0" and r: "radix \<noteq> 0" "radix \<noteq> 1"
  then have "1 < unat radix" by (intro u32_gt_1)
  moreover have "0 < unat newval" using nz by (simp add: unat_gt_0)
  ultimately show "((newval div radix, radix, buf @ [lookup_digits ! unat (newval mod radix)]),
      newval, radix, buf) \<in> measure (\<lambda>(newval, radix, buf). unat newval)"
    by (simp add: unat_div)
qed simp

definition itoa :: "u32 \<Rightarrow> u32 \<Rightarrow> u8 list res" where
  "itoa value radix =
     (if value = 0 then Inr [of_char (CHR ''0'')]
      else res_bind (itoa_loop value radix []) (\<lambda>buf. Inr (strrev buf)))"

declare strncmp_from.simps [simp del] strncpy_copy.simps [simp del] strncpy_pad.simps [simp del]
  strrev_loop.simps [simp del] itoa_loop.simps [simp del]

section \<open>Scanning and comparing\<close>

lemma strlen_from_holds:
  assumes "holds_str s xs" and "i \<le> length xs"
  shows "strlen_from s (of_nat i) = Some (of_nat (length xs))"
  using assms(2)
proof (induction "length xs - i" arbitrary: i)
  case 0
  with assms show ?case by (simp add: strlen_from.simps [of s] holds_str_def)
next
  case (Suc d)
  then have "i < length xs" by simp
  with assms(1) have "s (of_nat i) \<noteq> 0" by (simp add: holds_str_def)
  moreover have "strlen_from s (of_nat (Suc i)) = Some (of_nat (length xs))"
    using Suc by (intro Suc.hyps) auto
  ultimately show ?case by (simp add: strlen_from.simps [of s "of_nat i"] add.commute)
qed

lemma strlen_holds: "holds_str s xs \<Longrightarrow> strlen s = Some (of_nat (length xs))"
  using strlen_from_holds [of s xs 0] by (simp add: strlen_def)

lemma strlen_from_sound:
  assumes "strlen_from s len = Some r"
  shows "s r = 0 \<and> (\<forall>k < r - len. s (len + k) \<noteq> 0)"
proof (rule strlen_from.raw_induct [where P = "\<lambda>s len r. s r = 0 \<and> (\<forall>k < r - len. s (len + k) \<noteq> 0)", OF _ assms])
  fix f and s :: cptr and len r :: u32
  assume IH: "\<And>s len r. f s len = Some r \<Longrightarrow> s r = 0 \<and> (\<forall>k < r - len. s (len + k) \<noteq> (0 :: u8))"
    and eq: "(if s len \<noteq> 0 then f s (len + 1) else Some len) = Some r"
  show "s r = 0 \<and> (\<forall>k < r - len. s (len + k) \<noteq> 0)"
  proof (cases "s len = 0")
    case True
    with eq have "r = len" "s r = 0" by simp_all
    then show ?thesis by simp
  next
    case False
    with eq have rest: "s r = 0" "\<forall>k < r - (len + 1). s (len + 1 + k) \<noteq> 0"
      using IH [of s "len + 1" r] by simp_all
    have "s (len + k) \<noteq> 0" if k: "k < r - len" for k
    proof (cases "k = 0")
      case True
      with False show ?thesis by simp
    next
      case nz: False
      have "unat (k - 1) = unat k - 1" using nz by (rule unat_minus_one)
      moreover have "r - len \<noteq> 0" using k by auto
      then have "unat (r - len - 1) = unat (r - len) - 1" by (rule unat_minus_one)
      moreover have "0 < unat k" using nz by (simp add: unat_gt_0)
      ultimately have "k - 1 < r - len - 1" using k by (simp add: word_less_nat_alt)
      then have "k - 1 < r - (len + 1)" by (simp add: algebra_simps)
      with rest(2) have "s (len + 1 + (k - 1)) \<noteq> 0" by blast
      then show ?thesis by simp
    qed
    with rest(1) show ?thesis by blast
  qed
qed

text \<open>
  \<open>strlen\<close> returns exactly when there is a terminating zero, and then it returns the length
  of the string: the number of bytes before the first zero.
\<close>

theorem strlen_exact:
  "strlen s = Some n \<longleftrightarrow> holds_str s (map (\<lambda>i. s (of_nat i)) [0..<unat n])"
proof
  assume "strlen s = Some n"
  then have "s n = 0" and nz: "\<forall>k < n. s k \<noteq> 0"
    using strlen_from_sound [of s 0 n] by (simp_all add: strlen_def)
  moreover have "s (of_nat i) \<noteq> 0" if "i < unat n" for i
  proof -
    have "unat (of_nat i :: u32) = i"
      using that unat_lt32 [of n] by (intro unat_of_nat32) simp
    with that nz show ?thesis by (simp add: word_less_nat_alt)
  qed
  ultimately show "holds_str s (map (\<lambda>i. s (of_nat i)) [0..<unat n])"
    using unat_lt32 [of n] by (simp add: holds_str_def)
next
  assume "holds_str s (map (\<lambda>i. s (of_nat i)) [0..<unat n])"
  then show "strlen s = Some n" using strlen_holds by fastforce
qed

lemma strncmp_from_holds:
  assumes xs: "holds_str s1 xs" and ys: "holds_str s2 ys"
    and eq: "take i xs = take i ys" and i: "i \<le> length xs" "i \<le> length ys" "i \<le> unat n"
  shows "strncmp_from s1 s2 n (of_nat i) = 0 \<longleftrightarrow> take (unat n) xs = take (unat n) ys"
  using eq i
proof (induction "unat n - i" arbitrary: i)
  case 0
  then have "i = unat n" by simp
  with 0 show ?case by (simp add: strncmp_from.simps [of s1 s2 n])
next
  case (Suc d)
  have ni: "unat (of_nat i :: u32) = i"
    using Suc unat_lt32 [of n] by (intro unat_of_nat32) simp
  have less: "of_nat i < n" using Suc ni by (simp add: word_less_nat_alt)
  have split: "(if j < length zs then s (of_nat j) = zs ! j \<and> zs ! j \<noteq> 0 else s (of_nat j) = 0)"
    if "holds_str s zs" "j \<le> length zs" for s zs j
    using that by (auto simp: holds_str_def not_less)
  note step = strncmp_from.simps [of s1 s2 n "of_nat i"]
  consider (both) "i < length xs" "i < length ys" "xs ! i = ys ! i"
    | (differ) "i < length xs" "i < length ys" "xs ! i \<noteq> ys ! i"
    | (short) "i = length xs \<or> i = length ys"
    using Suc.prems by fastforce
  then show ?case
  proof cases
    case both
    then have "take (Suc i) xs = take (Suc i) ys"
      using Suc.prems by (simp add: take_Suc_conv_app_nth)
    then have "strncmp_from s1 s2 n (of_nat (Suc i)) = 0 \<longleftrightarrow> take (unat n) xs = take (unat n) ys"
      using both Suc by (intro Suc.hyps) auto
    with both less show ?thesis
      using split [OF xs, of i] split [OF ys, of i] by (simp add: step add.commute)
  next
    case differ
    then have "take (unat n) xs \<noteq> take (unat n) ys"
      using Suc.hyps(2) by (metis nth_take zero_less_Suc zero_less_diff)
    with differ less show ?thesis
      using split [OF xs, of i] split [OF ys, of i] by (simp add: step)
  next
    case short
    have sx: "s1 (of_nat i) = 0 \<longleftrightarrow> i = length xs" and sy: "s2 (of_nat i) = 0 \<longleftrightarrow> i = length ys"
      using split [OF xs Suc.prems(2)] split [OF ys Suc.prems(3)] Suc.prems(2,3)
      by (auto split: if_splits)
    have "take (unat n) xs = take (unat n) ys \<longleftrightarrow> length xs = length ys"
    proof
      assume "take (unat n) xs = take (unat n) ys"
      then have "min (length xs) (unat n) = min (length ys) (unat n)" by (metis length_take)
      with short Suc.hyps(2) Suc.prems(2,3) show "length xs = length ys" by auto
    next
      assume "length xs = length ys"
      with short Suc.prems have "xs = ys" by auto
      then show "take (unat n) xs = take (unat n) ys" by simp
    qed
    moreover have "strncmp_from s1 s2 n (of_nat i) = sint (s1 (of_nat i)) - sint (s2 (of_nat i))"
      using less short sx sy by (auto simp: step)
    moreover have "s1 (of_nat i) = s2 (of_nat i) \<longleftrightarrow> length xs = length ys"
      using short sx sy by metis
    ultimately show ?thesis by simp
  qed
qed

lemma strncmp_holds:
  assumes "holds_str s1 xs" and "holds_str s2 ys"
  shows "strncmp s1 s2 n = 0 \<longleftrightarrow> take (unat n) xs = take (unat n) ys"
  using strncmp_from_holds [OF assms, of 0 n] by (simp add: strncmp_def)

text \<open>
  For two zero-terminated strings, \<open>strncmp\<close> with bound \<open>n\<close> is zero exactly when their first
  \<open>n\<close> characters form the same string.
\<close>

theorem strncmp_zero_iff:
  assumes "holds_str s1 xs" and "holds_str s2 ys"
  shows "strncmp s1 s2 n = 0 \<longleftrightarrow> take (unat n) xs = take (unat n) ys"
  using assms by (rule strncmp_holds)

theorem strncmp_zero_iff_witness:
  "strncmp (str_ptr [65, 66]) (str_ptr [65, 66, 67]) 2 = 0
     \<longleftrightarrow> take 2 [65, 66] = take 2 [65, 66, 67 :: u8]"
  using strncmp_zero_iff [OF holds_str_ptr holds_str_ptr, of "[65, 66]" "[65, 66, 67]" 2] by simp

section \<open>Copying\<close>

lemma strcpy_from_copy:
  assumes str: "holds_str (src m) xs"
    and frame: "\<And>m' j k. j \<le> length xs \<Longrightarrow> k < j \<Longrightarrow> src (m'(dest + of_nat k := v k)) (of_nat j) = src m' (of_nat j)"
    and v: "\<And>k. k < length xs \<Longrightarrow> v k = xs ! k"
    and i: "i \<le> length xs"
    and m1: "m1 = blit m dest i (\<lambda>k. xs ! k)" "\<And>j. i \<le> j \<Longrightarrow> j \<le> length xs \<Longrightarrow> src m1 (of_nat j) = src m (of_nat j)"
  shows "strcpy_from m1 dest src (of_nat i)
    = Some (blit m dest (Suc (length xs)) (\<lambda>k. if k < length xs then xs ! k else 0))"
  using i m1
proof (induction "length xs - i" arbitrary: i m1)
  case 0
  then have "i = length xs" by simp
  moreover have "src m1 (of_nat i) = 0" using 0 str by (simp add: holds_str_def)
  moreover have "blit (blit m dest (length xs) (\<lambda>k. xs ! k)) (dest + of_nat (length xs)) 1 (\<lambda>_. 0)
      = blit m dest (length xs + 1) (\<lambda>k. if k < length xs then xs ! k else 0)"
    using str by (subst blit_append) (simp_all add: holds_str_def)
  ultimately show ?case
    using 0(3) by (subst strcpy_from.simps) (simp add: blit_update)
next
  case (Suc d)
  then have lt: "i < length xs" by simp
  with Suc.prems(3) [of i] str have c: "src m1 (of_nat i) = xs ! i" "xs ! i \<noteq> 0"
    by (simp_all add: holds_str_def)
  let ?m = "m1(dest + of_nat i := xs ! i)"
  have "?m = blit m dest (Suc i) (\<lambda>k. xs ! k)"
    unfolding blit_update Suc.prems(2) using lt str
    by (subst blit_append) (auto intro!: blit_cong simp: holds_str_def less_Suc_eq)
  moreover have "src ?m (of_nat j) = src m (of_nat j)" if "Suc i \<le> j" "j \<le> length xs" for j
    using frame [of j i m1] that v [OF lt] Suc.prems(3) [of j] by simp
  ultimately have "strcpy_from ?m dest src (of_nat (Suc i))
      = Some (blit m dest (Suc (length xs)) (\<lambda>k. if k < length xs then xs ! k else 0))"
    using Suc lt by (intro Suc.hyps) auto
  with c show ?case by (subst strcpy_from.simps) (simp add: add.commute)
qed

lemma strcpy_copy:
  assumes "holds_str (src m) xs"
    and "\<And>m' v j k. j \<le> length xs \<Longrightarrow> k < j \<Longrightarrow> src (m'(dest + of_nat k := v)) (of_nat j) = src m' (of_nat j)"
  shows "strcpy m dest src = Some (blit m dest (Suc (length xs)) (\<lambda>k. if k < length xs then xs ! k else 0))"
  using strcpy_from_copy [of src m xs dest "\<lambda>k. xs ! k" 0 m] assms by (simp add: strcpy_def)

lemma strcpy_const:
  "holds_str s xs \<Longrightarrow> strcpy m dest (\<lambda>_. s)
     = Some (blit m dest (Suc (length xs)) (\<lambda>k. if k < length xs then xs ! k else 0))"
  by (rule strcpy_copy) simp_all

lemma ptr_frame:
  assumes "dest = src \<or> n < unat (dest - src)" and "k < j" "j \<le> n" "n < 2 ^ 32"
  shows "dest + of_nat k \<noteq> src + (of_nat j :: u32)"
proof
  assume "dest + of_nat k = src + of_nat j"
  then have "dest - src = of_nat (j - k)" using assms(2) by (simp add: of_nat_diff algebra_simps)
  moreover have "unat (of_nat (j - k) :: u32) = j - k"
    using assms by (intro unat_of_nat32) simp
  ultimately have "unat (dest - src) = j - k" by simp
  with assms show False by auto
qed

lemma blit_holds_str:
  assumes "holds_str s xs"
  shows "holds_str (ptr_at (blit m dest (Suc (length xs)) (\<lambda>k. if k < length xs then xs ! k else 0)) dest) xs"
  using assms by (auto simp: holds_str_def blit_in)

text \<open>
  \<open>strcpy\<close> of a zero-terminated string returns, leaves exactly that string at the destination,
  and changes no byte outside the \<open>length + 1\<close> bytes it writes, provided the destination does
  not start inside the source string.
\<close>

theorem strcpy_correct:
  assumes str: "holds_str (ptr_at m src) xs" and ov: "dest = src \<or> length xs < unat (dest - src)"
  shows "\<exists>m'. strcpy m dest (\<lambda>m. ptr_at m src) = Some m' \<and> holds_str (ptr_at m' dest) xs
    \<and> (\<forall>a. Suc (length xs) \<le> unat (a - dest) \<longrightarrow> m' a = m a)"
proof -
  let ?m' = "blit m dest (Suc (length xs)) (\<lambda>k. if k < length xs then xs ! k else 0)"
  have "strcpy m dest (\<lambda>m. ptr_at m src) = Some ?m'"
  proof (rule strcpy_copy)
    show "holds_str (ptr_at m src) xs" by (rule str)
  next
    fix m' :: mem and v :: u8 and j k
    assume "j \<le> length xs" "k < j"
    with ov str have "dest + of_nat k \<noteq> src + of_nat j"
      by (intro ptr_frame [of _ _ "length xs"]) (auto simp: holds_str_def)
    then show "(m'(dest + of_nat k := v)) (src + of_nat j) = m' (src + of_nat j)" by auto
  qed
  moreover have "holds_str (ptr_at ?m' dest) xs" using str by (rule blit_holds_str)
  ultimately show ?thesis by (auto simp: blit_out)
qed

theorem strcpy_correct_witness:
  "\<exists>m'. strcpy (str_ptr [104, 105]) 8 (\<lambda>m. ptr_at m 0) = Some m' \<and> holds_str (ptr_at m' 8) [104, 105]
    \<and> (\<forall>a. Suc (length [104, 105 :: u8]) \<le> unat (a - 8) \<longrightarrow> m' a = str_ptr [104, 105] a)"
  using strcpy_correct [of "str_ptr [104, 105]" 0 "[104, 105]" 8] holds_str_ptr [of "[104, 105]"] by simp

lemma strncpy_copy_spec:
  assumes str: "holds_str (src m) xs"
    and frame: "\<And>m' v j k. j \<le> length xs \<Longrightarrow> k < j \<Longrightarrow> src (m'(dest + of_nat k := v)) (of_nat j) = src m' (of_nat j)"
    and i: "i \<le> length xs" "i \<le> unat n"
    and m1: "m1 = blit m dest i (\<lambda>k. xs ! k)" "\<And>j. i \<le> j \<Longrightarrow> j \<le> length xs \<Longrightarrow> src m1 (of_nat j) = src m (of_nat j)"
  shows "strncpy_copy m1 dest src n (of_nat i)
    = (blit m dest (min (unat n) (length xs)) (\<lambda>k. xs ! k), of_nat (min (unat n) (length xs)))"
  using i m1
proof (induction "min (unat n) (length xs) - i" arbitrary: i m1)
  case 0
  then have i: "i = min (unat n) (length xs)" by simp
  have "\<not> (src m1 (of_nat i) \<noteq> 0 \<and> of_nat i < n)"
  proof (cases "i = length xs")
    case True
    with 0(5) [of i] str show ?thesis by (simp add: holds_str_def)
  next
    case False
    with i have "i = unat n" by auto
    then show ?thesis by simp
  qed
  then show ?case using 0(4) i by (subst strncpy_copy.simps) auto
next
  case (Suc d)
  then have lt: "i < length xs" "i < unat n" by simp_all
  with Suc.prems(4) [of i] str have c: "src m1 (of_nat i) = xs ! i" "xs ! i \<noteq> 0"
    by (simp_all add: holds_str_def)
  have less: "of_nat i < n"
    using lt unat_lt32 [of n] by (simp add: word_less_nat_alt unat_of_nat32)
  let ?m = "m1(dest + of_nat i := xs ! i)"
  have "?m = blit m dest (Suc i) (\<lambda>k. xs ! k)"
    unfolding blit_update Suc.prems(3) using lt str
    by (subst blit_append) (auto intro!: blit_cong simp: holds_str_def less_Suc_eq)
  moreover have "src ?m (of_nat j) = src m (of_nat j)" if "Suc i \<le> j" "j \<le> length xs" for j
    using frame [of j i m1 "xs ! i"] that Suc.prems(4) [of j] by simp
  ultimately have "strncpy_copy ?m dest src n (of_nat (Suc i))
      = (blit m dest (min (unat n) (length xs)) (\<lambda>k. xs ! k), of_nat (min (unat n) (length xs)))"
    using Suc lt by (intro Suc.hyps) auto
  with c less show ?case by (subst strncpy_copy.simps) (simp add: add.commute)
qed

lemma strncpy_pad_spec:
  "i \<le> n \<Longrightarrow> strncpy_pad m dest n i = blit m (dest + i) (unat n - unat i) (\<lambda>_. 0)"
proof (induction m dest n i rule: strncpy_pad.induct)
  case (1 m dest n i)
  show ?case
  proof (cases "i < n")
    case True
    then have s: "unat (i + 1) = Suc (unat i)" by (rule unat_Suc_less)
    have "i + 1 \<le> n" using True s by (simp add: word_le_nat_alt word_less_nat_alt)
    then have "strncpy_pad (m(dest + i := 0)) dest n (i + 1)
        = blit (blit m (dest + i) 1 (\<lambda>_. 0)) (dest + i + of_nat 1) (unat n - Suc (unat i)) (\<lambda>_. 0)"
      using "1.IH" [OF True] by (simp add: s blit_update add.assoc)
    also have "\<dots> = blit m (dest + i) (1 + (unat n - Suc (unat i))) (\<lambda>_. 0)"
      using unat_lt32 [of n] by (subst blit_append) (simp_all cong: blit_cong)
    also have "1 + (unat n - Suc (unat i)) = unat n - unat i"
      using True by (simp add: word_less_nat_alt)
    finally show ?thesis using True by (subst strncpy_pad.simps) (simp only: if_True)
  next
    case False
    with "1.prems" have "i = n" by simp
    then show ?thesis by (subst strncpy_pad.simps) simp
  qed
qed

text \<open>
  \<open>strncpy\<close> writes exactly \<open>n\<close> bytes: the string cut at \<open>n\<close> characters and then zeros, so the
  result is zero-terminated only when the string is shorter than \<open>n\<close>.
\<close>

theorem strncpy_correct:
  assumes str: "holds_str (ptr_at m src) xs" and ov: "dest = src \<or> length xs < unat (dest - src)"
  shows "strncpy m dest (\<lambda>m. ptr_at m src) n
    = blit m dest (unat n) (\<lambda>k. if k < length xs then xs ! k else 0)"
proof -
  let ?k = "min (unat n) (length xs)"
  have "strncpy_copy m dest (\<lambda>m. ptr_at m src) n (of_nat 0) = (blit m dest ?k (\<lambda>k. xs ! k), of_nat ?k)"
  proof (rule strncpy_copy_spec)
    show "holds_str (ptr_at m src) xs" by (rule str)
  next
    fix m' :: mem and v :: u8 and j k
    assume "j \<le> length xs" "k < j"
    with ov str have "dest + of_nat k \<noteq> src + of_nat j"
      by (intro ptr_frame [of _ _ "length xs"]) (auto simp: holds_str_def)
    then show "(m'(dest + of_nat k := v)) (src + of_nat j) = m' (src + of_nat j)" by auto
  qed simp_all
  moreover have k: "unat (of_nat ?k :: u32) = ?k"
    using unat_lt32 [of n] by (intro unat_of_nat32) simp
  then have "of_nat ?k \<le> n" by (simp add: word_le_nat_alt)
  ultimately have "strncpy m dest (\<lambda>m. ptr_at m src) n
      = blit (blit m dest ?k (\<lambda>k. xs ! k)) (dest + of_nat ?k) (unat n - ?k) (\<lambda>_. 0)"
    by (simp add: strncpy_def strncpy_pad_spec k)
  also have "\<dots> = blit m dest (?k + (unat n - ?k)) (\<lambda>i. if i < ?k then xs ! i else 0)"
    using unat_lt32 [of n] by (intro blit_append) simp
  also have "\<dots> = blit m dest (unat n) (\<lambda>k. if k < length xs then xs ! k else 0)"
    by (auto intro!: blit_cong)
  finally show ?thesis .
qed

theorem strncpy_correct_witness:
  "strncpy (str_ptr [104, 105]) 8 (\<lambda>m. ptr_at m 0) 5
    = blit (str_ptr [104, 105]) 8 (unat (5 :: u32)) (\<lambda>k. if k < length [104, 105 :: u8] then [104, 105] ! k else 0)"
  using strncpy_correct [of "str_ptr [104, 105]" 0 "[104, 105]" 8 5] holds_str_ptr [of "[104, 105]"] by simp

section \<open>Reversing and printing numbers\<close>

lemma length_strrev_loop [simp]: "length (strrev_loop s b e) = length s"
  by (induction s b e rule: strrev_loop.induct) (simp add: strrev_loop.simps)

lemma nth_strrev_loop:
  assumes "0 \<le> b" and "e < int (length s)" and "k < length s"
  shows "strrev_loop s b e ! k = (if b \<le> int k \<and> int k \<le> e then s ! nat (b + e - int k) else s ! k)"
  using assms
proof (induction s b e rule: strrev_loop.induct)
  case (1 s b e)
  let ?t = "s[nat e := s ! nat b, nat b := s ! nat e]"
  show ?case
  proof (cases "b < e")
    case True
    have "strrev_loop ?t (b + 1) (e - 1) ! k
        = (if b + 1 \<le> int k \<and> int k \<le> e - 1 then ?t ! nat (b + 1 + (e - 1) - int k) else ?t ! k)"
      using "1.prems" True by (intro "1.IH") simp_all
    moreover have "?t ! k = (if int k = b then s ! nat e else if int k = e then s ! nat b else s ! k)"
      using "1.prems" True by (auto simp: nth_list_update)
    moreover have "?t ! nat (b + e - int k) = s ! nat (b + e - int k)" if "b < int k" "int k < e"
      using that "1.prems" by (auto simp: nth_list_update nat_eq_iff2)
    ultimately show ?thesis
      using True by (subst strrev_loop.simps) (auto simp: nat_eq_iff2)
  next
    case False
    then show ?thesis by (subst strrev_loop.simps) (auto intro!: arg_cong [where f = "(!) s"])
  qed
qed

lemma strrev_rev: "0 \<notin> set s \<Longrightarrow> strrev s = rev s"
proof -
  assume "0 \<notin> set s"
  then have "takeWhile (\<lambda>c. c \<noteq> 0) s = s" by (auto intro: takeWhile_eq_all_conv [THEN iffD2])
  then have "strrev s = strrev_loop s 0 (int (length s) - 1)" by (simp only: strrev_def)
  then show ?thesis
    by (intro nth_equalityI) (auto simp: nth_strrev_loop rev_nth nat_diff_distrib' intro!: arg_cong [where f = "(!) s"])
qed

lemma lookup_digit_nonzero: "d < 36 \<Longrightarrow> lookup_digits ! d \<noteq> 0"
  by (simp add: lookup_digits_def less_Suc_eq numeral_eq_Suc) auto

text \<open>The value of a digit list, most significant digit first.\<close>

definition digits_value :: "nat \<Rightarrow> nat list \<Rightarrow> nat" where
  "digits_value r ds = foldl (\<lambda>a d. a * r + d) 0 ds"

lemma digits_value_snoc [simp]: "digits_value r (ds @ [d]) = digits_value r ds * r + d"
  by (simp add: digits_value_def)

lemma digits_value_Nil [simp]: "digits_value r [] = 0"
  by (simp add: digits_value_def)

lemma length_lookup_digits [simp]: "length lookup_digits = 37"
  by (simp add: lookup_digits_def)

lemma itoa_loop_digits:
  assumes "2 \<le> unat radix" "unat radix \<le> 36"
  shows "\<exists>ds. itoa_loop newval radix buf = Inr (buf @ rev (map ((!) lookup_digits) ds))
    \<and> digits_value (unat radix) ds = unat newval \<and> (\<forall>d \<in> set ds. d < unat radix)
    \<and> (ds \<noteq> [] \<longrightarrow> hd ds \<noteq> 0) \<and> length ds \<le> 32 \<and> (ds = [] \<longleftrightarrow> newval = 0)
    \<and> (ds \<noteq> [] \<longrightarrow> unat radix ^ (length ds - 1) \<le> unat newval)"
  using assms
proof (induction newval radix buf rule: itoa_loop.induct)
  case (1 newval radix buf)
  show ?case
  proof (cases "newval = 0")
    case True
    then show ?thesis by (intro exI [of _ "[]"]) (simp add: itoa_loop.simps)
  next
    case False
    let ?d = "unat (newval mod radix)" and ?q = "newval div radix"
    have r: "radix \<noteq> 0" "radix \<noteq> 1" using "1.prems" by auto
    have d: "?d = unat newval mod unat radix" and q: "unat ?q = unat newval div unat radix"
      by (simp_all add: unat_mod unat_div)
    have dlt: "?d < unat radix" using "1.prems" by (simp add: d)
    then have ok: "\<not> 37 \<le> ?d" using "1.prems" by simp
    obtain ds where ds: "itoa_loop ?q radix (buf @ [lookup_digits ! ?d])
          = Inr ((buf @ [lookup_digits ! ?d]) @ rev (map ((!) lookup_digits) ds))"
      "digits_value (unat radix) ds = unat ?q" "\<forall>d \<in> set ds. d < unat radix"
      "ds \<noteq> [] \<longrightarrow> hd ds \<noteq> 0" "length ds \<le> 32" "ds = [] \<longleftrightarrow> ?q = 0"
      "ds \<noteq> [] \<longrightarrow> unat radix ^ (length ds - 1) \<le> unat ?q"
      using "1.IH" [OF False r(1) _ r(2) "1.prems"] ok by auto
    have val: "unat ?q * unat radix + ?d = unat newval"
      by (simp add: d q)
    have hd: "hd (ds @ [?d]) \<noteq> 0"
    proof (cases "ds = []")
      case True
      then have "unat ?q = 0" using ds(6) by simp
      then have "?d = unat newval" using val by simp
      with False True show ?thesis by (simp add: unat_eq_zero)
    next
      case False
      with ds(4) show ?thesis by simp
    qed
    have big: "unat radix ^ length ds \<le> unat newval"
    proof (cases "ds = []")
      case True
      with False show ?thesis by (simp add: unat_gt_0 Suc_le_eq)
    next
      case nn: False
      then have "unat radix ^ length ds = unat radix * unat radix ^ (length ds - 1)"
        by (cases ds) simp_all
      also have "\<dots> \<le> unat radix * unat ?q"
        using ds(7) nn by (intro mult_le_mono) simp_all
      also have "\<dots> \<le> unat newval" using val by (simp add: mult.commute)
      finally show ?thesis .
    qed
    have "length ds < 32"
    proof (rule ccontr)
      assume "\<not> length ds < 32"
      then have "(2 :: nat) ^ 32 \<le> 2 ^ length ds" by (intro power_increasing) simp_all
      also have "\<dots> \<le> unat radix ^ length ds" using "1.prems"(1) by (intro power_mono) simp_all
      finally show False using big unat_lt32 [of newval] by simp
    qed
    with False r ok ds val dlt hd big show ?thesis
      by (intro exI [of _ "ds @ [?d]"]) (simp add: itoa_loop.simps [of newval radix buf])
  qed
qed

lemma itoa_digits:
  assumes "2 \<le> unat radix" "unat radix \<le> 36" and "value \<noteq> 0"
  shows "\<exists>ds. itoa value radix = Inr (map ((!) lookup_digits) ds)
    \<and> digits_value (unat radix) ds = unat value \<and> (\<forall>d \<in> set ds. d < unat radix)
    \<and> ds \<noteq> [] \<and> hd ds \<noteq> 0 \<and> length ds \<le> 32 \<and> unat radix ^ (length ds - 1) \<le> unat value"
proof -
  obtain ds where ds: "itoa_loop value radix [] = Inr (rev (map ((!) lookup_digits) ds))" "digits_value (unat radix) ds = unat value"
      "\<forall>d \<in> set ds. d < unat radix" "ds \<noteq> [] \<longrightarrow> hd ds \<noteq> 0" "length ds \<le> 32" "ds = [] \<longleftrightarrow> value = 0"
      "ds \<noteq> [] \<longrightarrow> unat radix ^ (length ds - 1) \<le> unat value"
    using itoa_loop_digits [OF assms(1,2), of "value" "[]"] by auto
  have "lookup_digits ! d \<noteq> 0" if "d \<in> set ds" for d using that ds(3) assms(2) by (intro lookup_digit_nonzero) fastforce
  then have "0 \<notin> set (rev (map ((!) lookup_digits) ds))" by (metis (no_types, lifting) imageE set_map set_rev)
  then show ?thesis using ds assms(3) by (auto simp: itoa_def strrev_rev)
qed

text \<open>
  C35. For every radix from 2 to 36, \<open>itoa\<close> returns the numeral of the value: reading the digits
  back gives the value, every digit is below the radix, there is no leading zero, and with
  its terminator the result needs at most 33 bytes, so the 36-byte and 64-byte buffers of
  \<open>printf\<close> are large enough.
\<close>

theorem itoa_roundtrip:
  assumes "2 \<le> unat radix" "unat radix \<le> 36"
  shows "\<exists>ds. itoa value radix = Inr (map ((!) lookup_digits) ds)
    \<and> digits_value (unat radix) ds = unat value \<and> (\<forall>d \<in> set ds. d < unat radix)
    \<and> ds \<noteq> [] \<and> (hd ds = 0 \<longrightarrow> ds = [0]) \<and> length ds + 1 \<le> 33"
proof (cases "value = 0")
  case True
  with assms show ?thesis
    by (intro exI [of _ "[0]"]) (simp add: itoa_def lookup_digits_def digits_value_def)
next
  case False
  with itoa_digits [OF assms] show ?thesis by fastforce
qed

theorem itoa_roundtrip_witness:
  "\<exists>ds. itoa 255 16 = Inr (map ((!) lookup_digits) ds)
    \<and> digits_value (unat (16 :: u32)) ds = unat (255 :: u32) \<and> (\<forall>d \<in> set ds. d < unat (16 :: u32))
    \<and> ds \<noteq> [] \<and> (hd ds = 0 \<longrightarrow> ds = [0]) \<and> length ds + 1 \<le> 33"
  using itoa_roundtrip [of 16 255] by simp

end
