(* ===== verification/Machine.thy ===== *)
theory Machine
  imports Klib_String
begin

text \<open>
  The machine under the kernel and the accessors of \<^verbatim>\<open>lib.h\<close>: byte memory, the log of port
  input and output, and the interrupt flag. What a port read returns is decided by a
  parameter \<open>env\<close>, a function of the port and of the log so far, so it can be any device.
  The record is extended by every later component, and operations are defined on record
  schemes, so that a driver runs unchanged in the larger state of the whole kernel.
\<close>

datatype io_event = Out u16 u8 | In u16 u8

text \<open>The newest event is at the head of the log.\<close>

record machine =
  mem :: mem
  io :: "io_event list"
  iflag :: bool

type_synonym env = "u16 \<Rightarrow> io_event list \<Rightarrow> u8"

definition inb :: "env \<Rightarrow> u16 \<Rightarrow> 'a machine_scheme \<Rightarrow> u32 \<times> 'a machine_scheme" where
  "inb env port s = (let v = env port (io s) in (ucast v, s\<lparr>io := In port v # io s\<rparr>))"

definition outb :: "u32 \<Rightarrow> u16 \<Rightarrow> 'a machine_scheme \<Rightarrow> 'a machine_scheme" where
  "outb data port s = s\<lparr>io := Out port (ucast data) # io s\<rparr>"

text \<open>The wider accesses go to consecutive ports, the low byte first.\<close>

definition inw :: "env \<Rightarrow> u16 \<Rightarrow> 'a machine_scheme \<Rightarrow> u32 \<times> 'a machine_scheme" where
  "inw env port s =
     (let (lo, s) = inb env port s;
          (hi, s) = inb env (port + 1) s
      in (lo OR push_bit 8 hi, s))"

definition inl :: "env \<Rightarrow> u16 \<Rightarrow> 'a machine_scheme \<Rightarrow> u32 \<times> 'a machine_scheme" where
  "inl env port s =
     (let (lo, s) = inw env port s;
          (hi, s) = inw env (port + 2) s
      in (lo OR push_bit 16 hi, s))"

definition outw :: "u32 \<Rightarrow> u16 \<Rightarrow> 'a machine_scheme \<Rightarrow> 'a machine_scheme" where
  "outw data port s = outb (drop_bit 8 data) (port + 1) (outb data port s)"

definition outl :: "u32 \<Rightarrow> u16 \<Rightarrow> 'a machine_scheme \<Rightarrow> 'a machine_scheme" where
  "outl data port s = outw (drop_bit 16 data) (port + 2) (outw data port s)"

definition cli :: "'a machine_scheme \<Rightarrow> 'a machine_scheme" where
  "cli s = s\<lparr>iflag := False\<rparr>"

definition sti :: "'a machine_scheme \<Rightarrow> 'a machine_scheme" where
  "sti s = s\<lparr>iflag := True\<rparr>"

definition cli_and_save :: "'a machine_scheme \<Rightarrow> bool \<times> 'a machine_scheme" where
  "cli_and_save s = (iflag s, s\<lparr>iflag := False\<rparr>)"

definition restore_flags :: "bool \<Rightarrow> 'a machine_scheme \<Rightarrow> 'a machine_scheme" where
  "restore_flags flags s = s\<lparr>iflag := flags\<rparr>"

text \<open>The value last written to a port, newest first.\<close>

fun last_out :: "u16 \<Rightarrow> io_event list \<Rightarrow> u8 option" where
  "last_out p [] = None"
| "last_out p (Out q v # es) = (if q = p then Some v else last_out p es)"
| "last_out p (In q v # es) = last_out p es"

lemma outb_simps [simp]:
  "mem (outb d p s) = mem s" "iflag (outb d p s) = iflag s"
  "io (outb d p s) = Out p (ucast d) # io s" "machine.more (outb d p s) = machine.more s"
  by (simp_all add: outb_def)

lemma inb_simps [simp]:
  "fst (inb env p s) = ucast (env p (io s))"
  "mem (snd (inb env p s)) = mem s" "iflag (snd (inb env p s)) = iflag s"
  "io (snd (inb env p s)) = In p (env p (io s)) # io s"
  "machine.more (snd (inb env p s)) = machine.more s"
  by (simp_all add: inb_def Let_def)

lemma flag_simps [simp]:
  "mem (cli s) = mem s" "io (cli s) = io s" "iflag (cli s) = False" "machine.more (cli s) = machine.more s"
  "mem (sti s) = mem s" "io (sti s) = io s" "iflag (sti s) = True" "machine.more (sti s) = machine.more s"
  "mem (restore_flags f s) = mem s" "io (restore_flags f s) = io s" "iflag (restore_flags f s) = f"
  "machine.more (restore_flags f s) = machine.more s"
  by (simp_all add: cli_def sti_def restore_flags_def)

lemma restore_after_save:
  "cli_and_save s = (f, t) \<Longrightarrow> iflag t = False \<and> restore_flags f t = s"
  by (auto simp: cli_and_save_def restore_flags_def)

declare outb_def [state_defs] inb_def [state_defs] cli_def [state_defs] sti_def [state_defs]
  cli_and_save_def [state_defs] restore_flags_def [state_defs]

text \<open>A device that gives back on each port what was last written there returns a double word as it was written.\<close>

definition echo :: env where
  "echo p es = (case last_out p es of Some v \<Rightarrow> v | None \<Rightarrow> 0)"

lemma outl_inl_echo: "fst (inl echo port (outl data port s)) = data"
proof -
  have ne: "port + 1 \<noteq> port" "port + 2 \<noteq> port" "port + 3 \<noteq> port" "port + 2 \<noteq> port + 1" "port + 3 \<noteq> port + 1"
    "port + 3 \<noteq> port + 2" by simp_all
  have "fst (inl echo port (outl data port s)) = ucast (ucast data :: u8) OR push_bit 8 (ucast (ucast (drop_bit 8 data) :: u8))
      OR push_bit 16 (ucast (ucast (drop_bit 16 data) :: u8) OR push_bit 8 (ucast (ucast (drop_bit 24 data) :: u8)))"
    by (simp add: inl_def inw_def outl_def outw_def outb_def inb_def Let_def echo_def ne ne [symmetric] drop_bit_drop_bit or.assoc)
  also have "\<dots> = data"
  proof (rule bit_word_eqI)
    fix n :: nat
    assume "n < LENGTH(32)"
    then consider "n < 8" | "8 \<le> n" "n < 16" | "16 \<le> n" "n < 24" | "24 \<le> n" "n < 32" by fastforce
    then show "bit (ucast (ucast data :: u8) OR push_bit 8 (ucast (ucast (drop_bit 8 data) :: u8))
        OR push_bit 16 (ucast (ucast (drop_bit 16 data) :: u8) OR push_bit 8 (ucast (ucast (drop_bit 24 data) :: u8))) :: u32) n = bit data n"
      by cases (auto simp: bit_simps)
  qed
  finally show ?thesis .
qed

end
