(* ===== verification/Console.thy ===== *)
theory Console
  imports Machine
begin

text \<open>
  The console of \<^verbatim>\<open>lib.c\<close>: \<open>clear\<close>, \<open>scroll_down\<close>, \<open>putc\<close>, \<open>puts\<close>, \<open>printf\<close> and
  \<open>test_interrupts\<close> on text-mode video memory, with the cursor in \<open>screen_x\<close> and \<open>screen_y\<close>.
  The locale \<open>text_console\<close> is the contract of a character writer on one text page; it is
  proved once to keep the cursor on the screen, to touch no byte outside the page and to
  refine an abstract terminal. \<open>putc\<close> is an instance here; \<open>term_putc\<close>, which repeats the
  code for the hidden pages, is an instance in the terminal theory.
\<close>

section \<open>Text pages\<close>

record console = machine +
  screen_x :: int
  screen_y :: int

abbreviation (input) VIDEO :: u32 where "VIDEO \<equiv> 0xB8000"

abbreviation (input) NUM_COLS :: int where "NUM_COLS \<equiv> 80"

abbreviation (input) NUM_ROWS :: int where "NUM_ROWS \<equiv> 25"

abbreviation (input) ATTRIB :: u8 where "ATTRIB \<equiv> 0x7"

text \<open>The address \<open>base + ((NUM_COLS*y + x) << 1)\<close> of a character cell; its attribute byte follows.\<close>

definition cell :: "u32 \<Rightarrow> int \<Rightarrow> int \<Rightarrow> u32" where
  "cell base y x = base + word_of_int (2 * (NUM_COLS * y + x))"

text \<open>The loops of \<open>scroll_down\<close>: the character bytes of rows 1 to 24 move up one row, then the
  characters of the last row become spaces. Attribute bytes are not touched.\<close>

definition scroll_row :: "u32 \<Rightarrow> int \<Rightarrow> mem \<Rightarrow> mem" where
  "scroll_row base y m = fold (\<lambda>x m. m(cell base y x := m (cell base (y + 1) x))) [0..NUM_COLS - 1] m"

definition scroll_page :: "u32 \<Rightarrow> mem \<Rightarrow> mem" where
  "scroll_page base m =
     fold (\<lambda>x m. m(cell base (NUM_ROWS - 1) x := of_char (CHR '' ''))) [0..NUM_COLS - 1]
       (fold (scroll_row base) [0..NUM_ROWS - 2] m)"

definition scroll_down :: "'a console_scheme \<Rightarrow> 'a console_scheme" where
  "scroll_down s = s\<lparr>mem := scroll_page VIDEO (mem s)\<rparr>"

definition clear :: "'a console_scheme \<Rightarrow> 'a console_scheme" where
  "clear s = s\<lparr>mem := fold (\<lambda>i m. m(VIDEO + word_of_int (2 * i) := of_char (CHR '' ''),
     VIDEO + word_of_int (2 * i) + 1 := ATTRIB)) [0..NUM_ROWS * NUM_COLS - 1] (mem s)\<rparr>"

definition putc :: "u8 \<Rightarrow> 'a console_scheme \<Rightarrow> 'a console_scheme" where
  "putc c s =
     (if c = 10 \<or> c = 13 then
        (let s = s\<lparr>screen_y := screen_y s + 1, screen_x := 0\<rparr>
         in if NUM_ROWS \<le> screen_y s then (scroll_down s)\<lparr>screen_y := NUM_ROWS - 1\<rparr> else s)
      else
        (let p = cell VIDEO (screen_y s) (screen_x s);
             s = s\<lparr>mem := (mem s)(p := c, p + 1 := ATTRIB), screen_x := screen_x s + 1\<rparr>
         in if NUM_COLS \<le> screen_x s then
              (let s = s\<lparr>screen_y := screen_y s + 1\<rparr>;
                   s = (if NUM_ROWS \<le> screen_y s then (scroll_down s)\<lparr>screen_y := NUM_ROWS - 1\<rparr> else s)
               in s\<lparr>screen_x := 0\<rparr>)
            else s))"

partial_function (option) puts_from ::
  "(mem \<Rightarrow> cptr) \<Rightarrow> u32 \<Rightarrow> 'a console_scheme \<Rightarrow> (u32 \<times> 'a console_scheme) option" where
  "puts_from str index s =
     (if str (mem s) index \<noteq> 0 then puts_from str (index + 1) (putc (str (mem s) index) s)
      else Some (index, s))"

definition puts :: "(mem \<Rightarrow> cptr) \<Rightarrow> 'a console_scheme \<Rightarrow> (u32 \<times> 'a console_scheme) option" where
  "puts str s = puts_from str 0 s"

definition test_interrupts :: "'a console_scheme \<Rightarrow> 'a console_scheme" where
  "test_interrupts s = s\<lparr>mem := fold (\<lambda>i m. if NUM_ROWS * NUM_COLS div 2 = i
     then m(VIDEO + word_of_int (2 * i) := m (VIDEO + word_of_int (2 * i)) + 1) else m)
     [0..NUM_ROWS * NUM_COLS - 1] (mem s)\<rparr>"

section \<open>Formatted output\<close>

text \<open>
  \<open>printf\<close> on the bytes of its format and the list of its 32-bit arguments. A conversion
  without an argument reads stack bytes the caller never pushed, and a percent sign at the
  end of the format makes the scan run past the terminating zero.
\<close>

definition put_list :: "u8 list \<Rightarrow> 'a console_scheme \<Rightarrow> 'a console_scheme res" where
  "put_list bs s = opt_res No_return (map_option snd (puts (\<lambda>_. str_ptr bs) s))"

fun format_char :: "bool \<Rightarrow> u8 list \<Rightarrow> u32 list \<Rightarrow> 'a console_scheme
    \<Rightarrow> (u8 list \<times> u32 list \<times> 'a console_scheme) res" where
  "format_char alternate [] esp s = Inl Bounds"
| "format_char alternate (c # buf) esp s =
     (if c = of_char (CHR ''%'') then Inr (buf, esp, putc (of_char (CHR ''%'')) s)
      else if c = of_char (CHR ''#'') then format_char True buf esp s
      else if c = of_char (CHR ''x'') then
        (case esp of [] \<Rightarrow> Inl Uninitialised
         | a # esp' \<Rightarrow> res_bind (itoa a 16) (\<lambda>ds.
             res_bind (put_list (if alternate then replicate (8 - length ds) (of_char (CHR ''0'')) @ ds else ds) s)
               (\<lambda>s. Inr (buf, esp', s))))
      else if c = of_char (CHR ''u'') then
        (case esp of [] \<Rightarrow> Inl Uninitialised
         | a # esp' \<Rightarrow> res_bind (itoa a 10) (\<lambda>ds. res_bind (put_list ds s) (\<lambda>s. Inr (buf, esp', s))))
      else if c = of_char (CHR ''d'') then
        (case esp of [] \<Rightarrow> Inl Uninitialised
         | a # esp' \<Rightarrow>
             (if a <s 0 then res_bind (itoa (- a) 10) (\<lambda>ds.
                res_bind (put_list (of_char (CHR ''-'') # ds) s) (\<lambda>s. Inr (buf, esp', s)))
              else res_bind (itoa a 10) (\<lambda>ds. res_bind (put_list ds s) (\<lambda>s. Inr (buf, esp', s)))))
      else if c = of_char (CHR ''c'') then
        (case esp of [] \<Rightarrow> Inl Uninitialised | a # esp' \<Rightarrow> Inr (buf, esp', putc (ucast a) s))
      else if c = of_char (CHR ''s'') then
        (case esp of [] \<Rightarrow> Inl Uninitialised
         | a # esp' \<Rightarrow> res_bind (opt_res No_return (puts (\<lambda>m. ptr_at m a) s)) (\<lambda>(n, s). Inr (buf, esp', s)))
      else Inr (buf, esp, s))"

lemma format_char_shorter:
  "format_char alternate buf esp s = Inr (buf', esp', s') \<Longrightarrow> length buf' < length buf"
  by (induction alternate buf esp s rule: format_char.induct)
    (auto simp: res_bind_eq_Inr split: if_splits list.splits)

function printf_loop :: "u8 list \<Rightarrow> u32 list \<Rightarrow> 'a console_scheme \<Rightarrow> 'a console_scheme res" where
  "printf_loop buf esp s =
     (case buf of [] \<Rightarrow> Inr s
      | c # buf' \<Rightarrow>
          (if c = of_char (CHR ''%'') then
             (case format_char False buf' esp s of Inl e \<Rightarrow> Inl e
              | Inr (buf'', esp'', s'') \<Rightarrow> printf_loop buf'' esp'' s'')
           else printf_loop buf' esp (putc c s)))"
  by pat_completeness auto
termination
  by (relation "measure (\<lambda>(buf, esp, s). length buf)") (auto dest: format_char_shorter)

definition printf :: "string \<Rightarrow> u32 list \<Rightarrow> 'a console_scheme \<Rightarrow> (u32 \<times> 'a console_scheme) res" where
  "printf format esp s =
     res_bind (printf_loop (map of_char format) esp s) (\<lambda>s'. Inr (of_nat (length format), s'))"

declare printf_loop.simps [simp del] format_char.simps [simp del]

section \<open>Cells of a page\<close>

definition on_screen :: "int \<Rightarrow> int \<Rightarrow> bool" where
  "on_screen y x \<longleftrightarrow> 0 \<le> y \<and> y < NUM_ROWS \<and> 0 \<le> x \<and> x < NUM_COLS"

abbreviation (input) page_size :: nat where "page_size \<equiv> 4000"

lemma offset_eq:
  fixes base :: u32
  assumes "0 \<le> k" "k < 2 ^ 32" "0 \<le> l" "l < 2 ^ 32"
  shows "base + word_of_int k = base + word_of_int l \<longleftrightarrow> k = l"
  using assms by (simp add: word_of_int_eq_iff take_bit_int_eq_self)

lemma row_col_unique:
  fixes x y :: int
  assumes "160 * y + 2 * x = 160 * y' + 2 * x'" "0 \<le> x" "x < 80" "0 \<le> x'" "x' < 80"
  shows "y = y' \<and> x = x'"
proof -
  have "\<not> y < y'" "\<not> y' < y" using assms by linarith+
  with assms(1) show ?thesis by simp
qed

lemma even_neq_odd: "2 * k \<noteq> 2 * l + (1 :: int)"
  by presburger

lemma cell_eq_iff:
  "on_screen y x \<Longrightarrow> on_screen y' x' \<Longrightarrow> cell base y x = cell base y' x' \<longleftrightarrow> y = y' \<and> x = x'"
  unfolding cell_def by (subst offset_eq) (auto simp: on_screen_def dest: row_col_unique)

lemma cell_attr: "cell base y x + 1 = base + word_of_int (2 * (80 * y + x) + 1)"
  by (simp add: cell_def)

lemma cell_attr_neq:
  "on_screen y x \<Longrightarrow> on_screen y' x' \<Longrightarrow> cell base y x \<noteq> cell base y' x' + 1"
proof -
  assume "on_screen y x" "on_screen y' x'"
  then have "cell base y x = cell base y' x' + 1 \<longleftrightarrow> 2 * (80 * y + x) = 2 * (80 * y' + x') + 1"
    unfolding cell_attr unfolding cell_def by (intro offset_eq) (auto simp: on_screen_def)
  then show ?thesis using even_neq_odd [of "80 * y + x" "80 * y' + x'"] by simp
qed

lemma unat_offset:
  fixes base :: u32
  assumes "0 \<le> k" "k < 2 ^ 32"
  shows "unat (base + word_of_int k - base) = nat k"
  using assms by (simp add: unsigned_of_int take_bit_int_eq_self nat_take_bit_eq [symmetric] take_bit_nat_eq_self nat_less_iff)

lemma cell_in_page:
  "on_screen y x \<Longrightarrow> unat (cell base y x - base) < page_size"
  "on_screen y x \<Longrightarrow> unat (cell base y x + 1 - base) < page_size"
  unfolding cell_attr unfolding cell_def by (subst unat_offset; auto simp: on_screen_def nat_less_iff)+

lemma fold_move:
  fixes p q :: "'i \<Rightarrow> u32"
  assumes "distinct xs" and "inj_on p (set xs)" and "\<And>x. x \<in> set xs \<Longrightarrow> q x \<notin> p ` set xs"
  shows "fold (\<lambda>x m. m(p x := m (q x))) xs m a
    = (if a \<in> p ` set xs then m (q (the_inv_into (set xs) p a)) else m a)"
  using assms
proof (induction xs arbitrary: m)
  case Nil
  show ?case by simp
next
  case (Cons z xs)
  let ?m = "m(p z := m (q z))"
  have qz: "?m (q x) = m (q x)" if "x \<in> set (z # xs)" for x
    using Cons.prems(3) [OF that] by auto
  have IH: "fold (\<lambda>x m. m(p x := m (q x))) xs ?m a
      = (if a \<in> p ` set xs then ?m (q (the_inv_into (set xs) p a)) else ?m a)"
    using Cons.prems by (intro Cons.IH) auto
  show ?case
  proof (cases "a \<in> p ` set xs")
    case True
    then obtain w where w: "w \<in> set xs" "a = p w" by auto
    have "inj_on p (set xs)" using Cons.prems(2) by simp
    then have "the_inv_into (set xs) p a = w"
      using w by (intro the_inv_into_f_eq) auto
    moreover have "the_inv_into (set (z # xs)) p a = w"
      using w Cons.prems(2) by (intro the_inv_into_f_eq) auto
    moreover have "a \<in> p ` set (z # xs)" using True by simp
    moreover have "?m (q w) = m (q w)" using w by (intro qz) simp
    ultimately show ?thesis using True IH by (simp only: fold_simps if_True)
  next
    case False
    show ?thesis
    proof (cases "a = p z")
      case True
      then have "the_inv_into (set (z # xs)) p a = z"
        using Cons.prems(2) by (intro the_inv_into_f_eq) auto
      moreover have "a \<in> p ` set (z # xs)" using True by simp
      moreover have "?m a = m (q z)" using True by simp
      ultimately show ?thesis using False IH by (simp only: fold_simps if_True if_False)
    next
      case neq: False
      then have "a \<notin> p ` set (z # xs)" "?m a = m a" using False by simp_all
      then show ?thesis using False IH by (simp only: fold_simps if_False)
    qed
  qed
qed

lemma fold_const:
  "fold (\<lambda>x m. m(p x := v)) xs m a = (if a \<in> p ` set xs then v else m a)"
  by (induction xs arbitrary: m) auto

lemma scroll_row_cell:
  assumes "0 \<le> y" "y < 24" and "on_screen r x"
  shows "scroll_row base y m (cell base r x) = (if r = y then m (cell base (y + 1) x) else m (cell base r x))"
proof -
  have inj: "inj_on (cell base y) (set [0..79])"
    using assms by (intro inj_onI) (simp add: cell_eq_iff on_screen_def)
  have q: "cell base (y + 1) z \<notin> cell base y ` set [0..79]" if "z \<in> set [0..79]" for z
    using assms that by (auto simp: cell_eq_iff on_screen_def)
  have mem: "cell base r x \<in> cell base y ` set [0..79] \<longleftrightarrow> r = y"
    using assms by (auto simp: cell_eq_iff on_screen_def image_iff)
  have inv: "the_inv_into (set [0..79]) (cell base y) (cell base y x) = x"
    using assms(3) by (intro the_inv_into_f_f inj) (simp add: on_screen_def)
  show ?thesis
    unfolding scroll_row_def using fold_move [OF _ inj q, where m = m and a = "cell base r x"] mem inv by auto
qed

lemma scroll_row_other:
  assumes "0 \<le> y" "y < 24" and "\<And>x. on_screen y x \<Longrightarrow> a \<noteq> cell base y x"
  shows "scroll_row base y m a = m a"
proof -
  have inj: "inj_on (cell base y) (set [0..79])"
    using assms by (intro inj_onI) (simp add: cell_eq_iff on_screen_def)
  have q: "cell base (y + 1) z \<notin> cell base y ` set [0..79]" if "z \<in> set [0..79]" for z
    using assms that by (auto simp: cell_eq_iff on_screen_def)
  have "a \<notin> cell base y ` set [0..79]"
  proof
    assume "a \<in> cell base y ` set [0..79]"
    then obtain x where x: "0 \<le> x" "x \<le> 79" "a = cell base y x" by auto
    with assms(1,2) have "on_screen y x" by (simp add: on_screen_def)
    with assms(3) x(3) show False by blast
  qed
  then show ?thesis
    unfolding scroll_row_def using fold_move [OF _ inj q, where m = m and a = a] by auto
qed

lemma rows_upto: "[0..23 :: int] = map int [0..<24]"
  by (simp add: upto.simps upt_rec)

lemma scroll_rows_cell:
  "k \<le> 24 \<Longrightarrow> on_screen r x \<Longrightarrow> fold (scroll_row base) (map int [0..<k]) m (cell base r x)
    = (if r < int k then m (cell base (r + 1) x) else m (cell base r x))"
proof (induction k arbitrary: r)
  case 0
  then show ?case by (simp add: on_screen_def)
next
  case (Suc k)
  let ?m = "fold (scroll_row base) (map int [0..<k]) m"
  have "scroll_row base (int k) ?m (cell base r x)
      = (if r = int k then ?m (cell base (int k + 1) x) else ?m (cell base r x))"
    using Suc.prems by (intro scroll_row_cell) simp_all
  moreover have "?m (cell base (int k + 1) x) = m (cell base (int k + 1) x)"
    using Suc.IH [of "int k + 1"] Suc.prems by (simp add: on_screen_def)
  ultimately show ?case using Suc.IH [of r] Suc.prems by auto
qed

lemma scroll_rows_other:
  "k \<le> 24 \<Longrightarrow> (\<And>y x. on_screen y x \<Longrightarrow> a \<noteq> cell base y x)
    \<Longrightarrow> fold (scroll_row base) (map int [0..<k]) m a = m a"
  by (induction k) (simp_all add: scroll_row_other)

lemma scroll_page_cell:
  assumes "on_screen y x"
  shows "scroll_page base m (cell base y x) = (if y < 24 then m (cell base (y + 1) x) else 32)"
proof -
  have "cell base y x \<in> cell base 24 ` set [0..79] \<longleftrightarrow> y = 24"
    using assms by (auto simp: cell_eq_iff on_screen_def image_iff)
  then show ?thesis
    using assms scroll_rows_cell [of 24 y x base m]
    by (auto simp: scroll_page_def rows_upto fold_const on_screen_def)
qed

lemma scroll_page_other:
  assumes "\<And>y x. on_screen y x \<Longrightarrow> a \<noteq> cell base y x"
  shows "scroll_page base m a = m a"
proof -
  have "a \<notin> cell base 24 ` set [0..79]"
  proof
    assume "a \<in> cell base 24 ` set [0..79]"
    then obtain x where x: "0 \<le> x" "x \<le> 79" "a = cell base 24 x" by auto
    then have "on_screen 24 x" by (simp add: on_screen_def)
    with assms x(3) show False by blast
  qed
  then show ?thesis
    using scroll_rows_other [of 24 a base m] assms
    by (simp add: scroll_page_def rows_upto fold_const)
qed

section \<open>The abstract terminal\<close>

text \<open>
  What a character terminal promises: a grid of 25 rows of 80 glyphs and a cursor. A line
  feed or carriage return starts a new line, any other character is placed at the cursor,
  the line wraps at column 80, and the grid scrolls instead of leaving the last row.
\<close>

record tty =
  glyph :: "int \<Rightarrow> int \<Rightarrow> u8"
  tx :: int
  ty :: int

definition tty_new_row :: "tty \<Rightarrow> tty" where
  "tty_new_row t =
     (if ty t < NUM_ROWS - 1 then t\<lparr>tx := 0, ty := ty t + 1\<rparr>
      else t\<lparr>glyph := (\<lambda>y x. if \<not> on_screen y x then 0
                          else if y < NUM_ROWS - 1 then glyph t (y + 1) x else 32),
             tx := 0, ty := NUM_ROWS - 1\<rparr>)"

definition tty_put :: "u8 \<Rightarrow> tty \<Rightarrow> tty" where
  "tty_put c t =
     (if c = 10 \<or> c = 13 then tty_new_row t
      else let t = t\<lparr>glyph := (glyph t)(ty t := (glyph t (ty t))(tx t := c))\<rparr>
           in if tx t < NUM_COLS - 1 then t\<lparr>tx := tx t + 1\<rparr> else tty_new_row t)"

text \<open>The terminal shown by the text page at \<open>base\<close> of a memory.\<close>

definition page_view :: "u32 \<Rightarrow> mem \<Rightarrow> int \<Rightarrow> int \<Rightarrow> tty" where
  "page_view base m x y =
     \<lparr>glyph = (\<lambda>r c. if on_screen r c then m (cell base r c) else 0), tx = x, ty = y\<rparr>"

lemma page_view_new_row:
  "tty_new_row (page_view base m x y)
    = page_view base (if 24 \<le> y then scroll_page base m else m) 0 (if 24 \<le> y then 24 else y + 1)"
  by (auto simp: tty_new_row_def page_view_def scroll_page_cell on_screen_def fun_eq_iff)

lemma page_view_write:
  assumes "on_screen y x"
  shows "page_view base (m(cell base y x := c, cell base y x + 1 := v)) x' y'
    = (let t = page_view base m x' y' in t\<lparr>glyph := (glyph t)(y := (glyph t y)(x := c))\<rparr>)"
  using assms by (auto simp: page_view_def fun_eq_iff cell_eq_iff cell_attr_neq)

lemma page_view_sel [simp]: "tx (page_view base m x y) = x" "ty (page_view base m x y) = y"
  by (simp_all add: page_view_def)

lemma page_view_move: "page_view base m x' y' = (page_view base m x y)\<lparr>tx := x', ty := y'\<rparr>"
  by (simp add: page_view_def)

section \<open>The contract of a character writer\<close>

locale text_console =
  fixes base :: u32
    and memf :: "'s \<Rightarrow> mem"
    and xf yf :: "'s \<Rightarrow> int"
    and put :: "u8 \<Rightarrow> 's \<Rightarrow> 's"
    and ok :: "'s \<Rightarrow> bool"
  assumes ok_put: "ok s \<Longrightarrow> ok (put c s)"
    and put_newline: "ok s \<Longrightarrow> c = 10 \<or> c = 13 \<Longrightarrow>
      xf (put c s) = 0 \<and> yf (put c s) = (if 24 \<le> yf s then 24 else yf s + 1)
      \<and> memf (put c s) = (if 24 \<le> yf s then scroll_page base (memf s) else memf s)"
    and put_inside: "ok s \<Longrightarrow> \<not> (c = 10 \<or> c = 13) \<Longrightarrow> xf s < 79 \<Longrightarrow>
      xf (put c s) = xf s + 1 \<and> yf (put c s) = yf s
      \<and> memf (put c s) = (memf s)(cell base (yf s) (xf s) := c, cell base (yf s) (xf s) + 1 := 7)"
    and put_wrap: "ok s \<Longrightarrow> \<not> (c = 10 \<or> c = 13) \<Longrightarrow> 79 \<le> xf s \<Longrightarrow>
      xf (put c s) = 0 \<and> yf (put c s) = (if 24 \<le> yf s then 24 else yf s + 1)
      \<and> memf (put c s) =
        (let m = (memf s)(cell base (yf s) (xf s) := c, cell base (yf s) (xf s) + 1 := 7)
         in if 24 \<le> yf s then scroll_page base m else m)"
begin

definition cursor_ok :: "'s \<Rightarrow> bool" where
  "cursor_ok s \<longleftrightarrow> ok s \<and> on_screen (yf s) (xf s)"

definition view :: "'s \<Rightarrow> tty" where
  "view s = page_view base (memf s) (xf s) (yf s)"

lemma put_cases:
  fixes c :: u8 and s :: 's
  obtains (newline) "c = 10 \<or> c = 13" | (inside) "\<not> (c = 10 \<or> c = 13)" "xf s < 79"
    | (wrap) "\<not> (c = 10 \<or> c = 13)" "79 \<le> xf s"
  by linarith

lemma put_cursor: "cursor_ok s \<Longrightarrow> cursor_ok (put c s)"
  by (cases rule: put_cases [where c = c and s = s])
    (auto simp: cursor_ok_def ok_put put_newline put_inside put_wrap on_screen_def)

lemma scroll_outside: "page_size \<le> unat (a - base) \<Longrightarrow> scroll_page base m a = m a"
proof (rule scroll_page_other)
  fix y x
  assume "page_size \<le> unat (a - base)" "on_screen y x"
  with cell_in_page(1) [of y x base] show "a \<noteq> cell base y x" by auto
qed

lemma put_outside:
  assumes "cursor_ok s" and out: "page_size \<le> unat (a - base)"
  shows "memf (put c s) a = memf s a"
proof -
  have scr: "on_screen (yf s) (xf s)" "ok s" using assms(1) by (simp_all add: cursor_ok_def)
  have "a \<noteq> cell base (yf s) (xf s)" "a \<noteq> cell base (yf s) (xf s) + 1"
    using cell_in_page [OF scr(1), of base] out by auto
  then show ?thesis
    using scr(2) by (cases rule: put_cases [where c = c and s = s])
      (simp_all add: put_newline put_inside put_wrap scroll_outside [OF out] Let_def)
qed

theorem put_refines_tty:
  assumes "cursor_ok s"
  shows "view (put c s) = tty_put c (view s)"
proof -
  have scr: "on_screen (yf s) (xf s)" "ok s" using assms by (simp_all add: cursor_ok_def)
  show ?thesis
  proof (cases rule: put_cases [where c = c and s = s])
    case newline
    then show ?thesis using scr(2)
      by (simp add: view_def put_newline tty_put_def page_view_new_row)
  next
    case inside
    then show ?thesis using scr
      by (simp add: view_def put_inside tty_put_def page_view_write Let_def
          page_view_move [of base "memf s" "xf s + 1" "yf s" "xf s" "yf s"])
  next
    case wrap
    let ?m = "(memf s)(cell base (yf s) (xf s) := c, cell base (yf s) (xf s) + 1 := 7)"
    have "tty_put c (view s) = tty_new_row (page_view base ?m (xf s) (yf s))"
      using wrap scr(1) by (simp add: view_def tty_put_def page_view_write Let_def)
    also have "\<dots> = view (put c s)"
      using wrap scr(2) by (simp add: view_def put_wrap page_view_new_row Let_def)
    finally show ?thesis ..
  qed
qed

lemma run_cursor: "cursor_ok s \<Longrightarrow> cursor_ok (fold put cs s)"
  by (induction cs arbitrary: s) (simp_all add: put_cursor)

lemma run_outside:
  "cursor_ok s \<Longrightarrow> page_size \<le> unat (a - base) \<Longrightarrow> memf (fold put cs s) a = memf s a"
  by (induction cs arbitrary: s) (simp_all add: put_cursor put_outside)

lemma run_refines_tty: "cursor_ok s \<Longrightarrow> view (fold put cs s) = fold tty_put cs (view s)"
  by (induction cs arbitrary: s) (simp_all add: put_cursor put_refines_tty)

end

interpretation con: text_console VIDEO mem screen_x screen_y putc "\<lambda>_ :: 'a console_scheme. True"
  by unfold_locales (auto simp: putc_def scroll_down_def Let_def)

lemma putc_frame [simp]:
  "io (putc c s) = io s" "iflag (putc c s) = iflag s" "console.more (putc c s) = console.more s"
  by (simp_all add: putc_def scroll_down_def Let_def)

lemma fold_putc_frame [simp]:
  "io (fold putc cs s) = io s" "iflag (fold putc cs s) = iflag s"
  "console.more (fold putc cs s) = console.more s"
  by (induction cs arbitrary: s) simp_all

section \<open>Properties of the console\<close>

text \<open>
  However many characters are written, the cursor stays on the 80 by 25 screen and no byte
  of memory outside the 4000 bytes of the text page is changed.
\<close>

theorem putc_memory_safe:
  assumes "on_screen (screen_y s) (screen_x s)"
  shows "on_screen (screen_y (fold putc cs s)) (screen_x (fold putc cs s))
    \<and> (\<forall>a. page_size \<le> unat (a - VIDEO) \<longrightarrow> mem (fold putc cs s) a = mem s a)"
  using con.run_cursor [of s cs] con.run_outside [of s _ cs] assms by (simp add: con.cursor_ok_def)

theorem putc_memory_safe_witness:
  "on_screen (screen_y (fold putc [65, 10] \<lparr>mem = (\<lambda>_. 0), io = [], iflag = True, screen_x = 79, screen_y = 24\<rparr>))
      (screen_x (fold putc [65, 10] \<lparr>mem = (\<lambda>_. 0), io = [], iflag = True, screen_x = 79, screen_y = 24\<rparr>))
    \<and> mem (fold putc [65, 10] \<lparr>mem = (\<lambda>_. 0), io = [], iflag = True, screen_x = 79, screen_y = 24\<rparr>) 0xB9000 = 0"
  using putc_memory_safe [of "\<lparr>mem = (\<lambda>_. 0), io = [], iflag = True, screen_x = 79, screen_y = 24\<rparr>" "[65, 10]"]
  by (simp add: on_screen_def)

text \<open>
  C29. Writing text with \<open>putc\<close> implements the abstract terminal: the grid of glyphs in video
  memory and the cursor are those of the terminal after the same characters, including line
  wrap and scrolling.
\<close>

theorem putc_refines_tty:
  assumes "on_screen (screen_y s) (screen_x s)"
  shows "page_view VIDEO (mem (fold putc cs s)) (screen_x (fold putc cs s)) (screen_y (fold putc cs s))
    = fold tty_put cs (page_view VIDEO (mem s) (screen_x s) (screen_y s))"
  using con.run_refines_tty [of s cs] assms by (simp add: con.cursor_ok_def con.view_def)

theorem putc_refines_tty_witness:
  "let s = \<lparr>mem = (\<lambda>_. 0), io = [], iflag = True, screen_x = 0, screen_y = 0\<rparr>
   in page_view VIDEO (mem (fold putc [72, 105] s)) (screen_x (fold putc [72, 105] s)) (screen_y (fold putc [72, 105] s))
    = fold tty_put [72, 105] (page_view VIDEO (mem s) (screen_x s) (screen_y s))"
  using putc_refines_tty [of "\<lparr>mem = (\<lambda>_. 0), io = [], iflag = True, screen_x = 0, screen_y = 0\<rparr>" "[72, 105]"]
  by (simp add: on_screen_def Let_def)

lemma puts_from_const:
  assumes "holds_str p xs" and "i \<le> length xs"
  shows "puts_from (\<lambda>_. p) (of_nat i) s = Some (of_nat (length xs), fold putc (drop i xs) s)"
  using assms(2)
proof (induction "length xs - i" arbitrary: i s)
  case 0
  with assms show ?case by (subst puts_from.simps) (simp add: holds_str_def)
next
  case (Suc d)
  then have "i < length xs" by simp
  then have "p (of_nat i) = xs ! i" "xs ! i \<noteq> 0" "drop i xs = xs ! i # drop (Suc i) xs"
    using assms(1) by (simp_all add: holds_str_def Cons_nth_drop_Suc)
  moreover have "puts_from (\<lambda>_. p) (of_nat (Suc i)) (putc (xs ! i) s)
      = Some (of_nat (length xs), fold putc (drop (Suc i) xs) (putc (xs ! i) s))"
    using Suc by (intro Suc.hyps) auto
  ultimately show ?case by (subst puts_from.simps) (simp add: add.commute)
qed

lemma puts_const: "holds_str p xs \<Longrightarrow> puts (\<lambda>_. p) s = Some (of_nat (length xs), fold putc xs s)"
  using puts_from_const [of p xs 0 s] by (simp add: puts_def)

lemma put_list_eq: "0 \<notin> set xs \<Longrightarrow> length xs < 2 ^ 32 \<Longrightarrow> put_list xs s = Inr (fold putc xs s)"
  using puts_const [OF holds_str_ptr, of xs s] by (simp add: put_list_def)

lemma digits_value_zeros: "digits_value r (replicate k 0 @ ds) = digits_value r ds"
  by (induction k) (simp_all add: digits_value_def)

lemma itoa_hex:
  "\<exists>ds. itoa v 16 = Inr (map ((!) lookup_digits) ds) \<and> digits_value 16 ds = unat v
     \<and> (\<forall>d \<in> set ds. d < 16) \<and> length ds \<le> 8"
proof (cases "v = 0")
  case True
  then show ?thesis by (intro exI [of _ "[0]"]) (simp add: itoa_def lookup_digits_def digits_value_def)
next
  case False
  then obtain ds where ds: "itoa v 16 = Inr (map ((!) lookup_digits) ds)" "digits_value 16 ds = unat v"
    "\<forall>d \<in> set ds. d < 16" and big: "16 ^ (length ds - 1) \<le> unat v"
    using itoa_digits [of 16 v] by auto
  have "length ds - 1 < 8"
  proof (rule ccontr)
    assume "\<not> length ds - 1 < 8"
    then have "(16 :: nat) ^ 8 \<le> 16 ^ (length ds - 1)" by (intro power_increasing) simp_all
    with big unat_lt32 [of v] show False by simp
  qed
  with ds show ?thesis by (intro exI [of _ ds]) simp
qed

text \<open>
  The conversion \<open>%#x\<close> of \<open>printf\<close> prints exactly eight hexadecimal digits, padded with
  zeros on the left, whose value is the argument.
\<close>

theorem printf_alternate_hex:
  "\<exists>ds. length ds = 8 \<and> (\<forall>d \<in> set ds. d < 16) \<and> digits_value 16 ds = unat v
     \<and> printf ''%#x'' [v] s = Inr (3, fold putc (map ((!) lookup_digits) ds) s)"
proof -
  obtain ds where ds: "itoa v 16 = Inr (map ((!) lookup_digits) ds)" "digits_value 16 ds = unat v"
    "\<forall>d \<in> set ds. d < 16" "length ds \<le> 8" using itoa_hex by blast
  let ?ds = "replicate (8 - length ds) 0 @ ds"
  define bs where "bs = map ((!) lookup_digits) ?ds"
  have bytes: "replicate (8 - length ds) 48 @ map ((!) lookup_digits) ds = bs"
    by (simp add: lookup_digits_def bs_def)
  have lt: "\<forall>d \<in> set ?ds. d < 16" using ds(3) by (auto simp: set_replicate_conv_if)
  have "lookup_digits ! d \<noteq> 0" if "d \<in> set ?ds" for d
  proof -
    have "d < 36" using lt that by fastforce
    then show ?thesis by (rule lookup_digit_nonzero)
  qed
  then have "0 \<notin> set (map ((!) lookup_digits) ?ds)"
    by (metis (no_types, lifting) imageE set_map)
  then have "put_list bs s = Inr (fold putc bs s)"
    unfolding bs_def using ds(4) by (intro put_list_eq) simp_all
  then have "printf ''%#x'' [v] s = Inr (3, fold putc bs s)"
    by (simp add: printf_def printf_loop.simps format_char.simps ds(1) bytes)
  with ds lt show ?thesis by (intro exI [of _ ?ds]) (simp add: digits_value_zeros bs_def)
qed

theorem printf_alternate_hex_witness:
  "\<exists>ds. length ds = 8 \<and> digits_value 16 ds = 255
     \<and> printf ''%#x'' [255] \<lparr>mem = (\<lambda>_. 0), io = [], iflag = True, screen_x = 0, screen_y = 0\<rparr>
       = Inr (3, fold putc (map ((!) lookup_digits) ds) \<lparr>mem = (\<lambda>_. 0), io = [], iflag = True, screen_x = 0, screen_y = 0\<rparr>)"
  using printf_alternate_hex [of 255 "\<lparr>mem = (\<lambda>_. 0), io = [], iflag = True, screen_x = 0, screen_y = 0\<rparr>"] by auto

end
