(* ===== verification/Pic.thy ===== *)
theory Pic
  imports Console
begin

text \<open>
  The interrupt controller of \<^verbatim>\<open>i8259.c\<close> and the interval timer of \<^verbatim>\<open>pit.c\<close>. The drivers
  are translated to port input and output. The behaviour of the 8259A itself is the named
  hypothesis \<open>pic_env\<close>: a read of the data port gives the interrupt mask register, which the
  initialisation words clear and every later write to the data port sets.
\<close>

section \<open>Drivers\<close>

record pic = console +
  master_mask :: u8
  slave_mask :: u8

abbreviation (input) MASTER_8259_PORT :: u16 where "MASTER_8259_PORT \<equiv> 0x20"

abbreviation (input) MASTER_8259_DATA :: u16 where "MASTER_8259_DATA \<equiv> 0x21"

abbreviation (input) SLAVE_8259_PORT :: u16 where "SLAVE_8259_PORT \<equiv> 0xA0"

abbreviation (input) SLAVE_8259_DATA :: u16 where "SLAVE_8259_DATA \<equiv> 0xA1"

abbreviation (input) IRQ_SLAVE :: u32 where "IRQ_SLAVE \<equiv> 8"

definition i8259_init :: "'a pic_scheme \<Rightarrow> 'a pic_scheme" where
  "i8259_init s =
     (let s = outb 0x11 MASTER_8259_PORT s;
          s = outb 0x20 MASTER_8259_DATA s;
          s = outb 0x04 MASTER_8259_DATA s;
          s = outb 0x01 MASTER_8259_DATA s;
          s = outb 0x11 SLAVE_8259_PORT s;
          s = outb 0x28 SLAVE_8259_DATA s;
          s = outb 0x02 SLAVE_8259_DATA s
      in outb 0x01 SLAVE_8259_DATA s)"

text \<open>\<open>1 << n\<close> on 32-bit operands; the x86 takes the shift count modulo 32.\<close>

definition shl1 :: "u32 \<Rightarrow> u32" where
  "shl1 n = push_bit (unat n mod 32) 1"

definition enable_irq :: "env \<Rightarrow> u32 \<Rightarrow> 'a pic_scheme \<Rightarrow> 'a pic_scheme" where
  "enable_irq env irq_num s =
     (if IRQ_SLAVE \<le> irq_num then
        (let (v, s) = inb env SLAVE_8259_DATA s;
             s = s\<lparr>slave_mask := ucast (v AND NOT (shl1 (irq_num - IRQ_SLAVE)))\<rparr>
         in outb (ucast (slave_mask s)) SLAVE_8259_DATA s)
      else
        (let (v, s) = inb env MASTER_8259_DATA s;
             s = s\<lparr>master_mask := ucast (v AND NOT (shl1 irq_num))\<rparr>
         in outb (ucast (master_mask s)) MASTER_8259_DATA s))"

definition disable_irq :: "env \<Rightarrow> u32 \<Rightarrow> 'a pic_scheme \<Rightarrow> 'a pic_scheme" where
  "disable_irq env irq_num s =
     (if IRQ_SLAVE \<le> irq_num then
        (let (v, s) = inb env SLAVE_8259_DATA s;
             s = s\<lparr>slave_mask := ucast (v OR shl1 (irq_num - IRQ_SLAVE))\<rparr>
         in outb (ucast (slave_mask s)) SLAVE_8259_DATA s)
      else
        (let (v, s) = inb env MASTER_8259_DATA s;
             s = s\<lparr>master_mask := ucast (v OR shl1 irq_num)\<rparr>
         in outb (ucast (master_mask s)) MASTER_8259_DATA s))"

function send_eoi :: "u32 \<Rightarrow> 'a pic_scheme \<Rightarrow> 'a pic_scheme" where
  "send_eoi irq_num s =
     (if IRQ_SLAVE \<le> irq_num
      then send_eoi 2 (outb (0x60 OR (irq_num - IRQ_SLAVE)) SLAVE_8259_PORT s)
      else outb (0x60 OR irq_num) MASTER_8259_PORT s)"
  by pat_completeness auto
termination
  by (relation "measure (\<lambda>(irq_num, s). if IRQ_SLAVE \<le> irq_num then 1 else 0)") auto

declare send_eoi.simps [simp del]

definition pit_init :: "env \<Rightarrow> u32 \<Rightarrow> 'a pic_scheme \<Rightarrow> 'a pic_scheme res" where
  "pit_init env frequency s =
     (if frequency = 0 then Inl Divide_error
      else let divisor = 1193180 div frequency;
               s = outb 0x36 0x43 s;
               l = ucast (divisor AND 0xFF) :: u8;
               h = ucast (drop_bit 8 divisor AND 0xFF) :: u8;
               s = outb (ucast l) 0x40 s;
               s = outb (ucast h) 0x40 s
           in Inr (enable_irq env 0 s))"

section \<open>The 8259A\<close>

text \<open>
  The state of one controller after a log of port events: how many initialisation words it
  still expects on its data port, and its mask register.
\<close>

fun pic_state :: "u16 \<Rightarrow> u16 \<Rightarrow> io_event list \<Rightarrow> nat \<times> u8" where
  "pic_state cmd dat [] = (0, 0)"
| "pic_state cmd dat (In p v # es) = pic_state cmd dat es"
| "pic_state cmd dat (Out p v # es) =
     (let (k, imr) = pic_state cmd dat es
      in if p = cmd \<and> bit v 4 then (3, 0)
         else if p = dat then (if k = 0 then (0, v) else (k - 1, imr))
         else (k, imr))"

definition pic_env :: "env \<Rightarrow> bool" where
  "pic_env env \<longleftrightarrow> (\<forall>es. env MASTER_8259_DATA es = snd (pic_state MASTER_8259_PORT MASTER_8259_DATA es))
     \<and> (\<forall>es. env SLAVE_8259_DATA es = snd (pic_state SLAVE_8259_PORT SLAVE_8259_DATA es))"

definition pic_ready :: "'a pic_scheme \<Rightarrow> bool" where
  "pic_ready s \<longleftrightarrow> fst (pic_state MASTER_8259_PORT MASTER_8259_DATA (io s)) = 0
     \<and> fst (pic_state SLAVE_8259_PORT SLAVE_8259_DATA (io s)) = 0"

definition irq_enabled :: "'a pic_scheme \<Rightarrow> nat \<Rightarrow> bool" where
  "irq_enabled s n = (if n < 8
     then \<not> bit (snd (pic_state MASTER_8259_PORT MASTER_8259_DATA (io s))) n
     else \<not> bit (snd (pic_state SLAVE_8259_PORT SLAVE_8259_DATA (io s))) (n - 8))"

text \<open>A device that behaves so, with zero on every other port.\<close>

definition pic_device :: env where
  "pic_device p es = (if p = MASTER_8259_DATA then snd (pic_state MASTER_8259_PORT MASTER_8259_DATA es)
     else if p = SLAVE_8259_DATA then snd (pic_state SLAVE_8259_PORT SLAVE_8259_DATA es) else 0)"

lemma pic_env_device: "pic_env pic_device"
  by (simp add: pic_env_def pic_device_def)

lemma u32_of_nat_cases:
  assumes "n < 16"
  shows "8 \<le> (of_nat n :: u32) \<longleftrightarrow> 8 \<le> n" "unat (of_nat n :: u32) = n"
    "8 \<le> n \<Longrightarrow> unat (of_nat n - 8 :: u32) = n - 8"
proof -
  show n: "unat (of_nat n :: u32) = n" using assms by (intro unat_of_nat32) simp
  then show "8 \<le> (of_nat n :: u32) \<longleftrightarrow> 8 \<le> n" by (simp add: word_le_nat_alt)
  show "unat (of_nat n - 8 :: u32) = n - 8" if "8 \<le> n"
    using unat_minus_of_nat32 [of 8 "of_nat n"] that n by simp
qed

lemma shl1_small: "n < 16 \<Longrightarrow> shl1 (of_nat n) = push_bit n 1"
  "n < 16 \<Longrightarrow> 8 \<le> n \<Longrightarrow> shl1 (of_nat n - 8) = push_bit (n - 8) 1"
  by (simp_all add: shl1_def u32_of_nat_cases)

lemma enable_law:
  assumes "pic_env env" "pic_ready s" "n < 16" "m < 16"
  shows "irq_enabled (enable_irq env (of_nat n) s) m \<longleftrightarrow> m = n \<or> irq_enabled s m"
  using assms
  by (auto simp: enable_irq_def pic_env_def pic_ready_def irq_enabled_def inb_def Let_def case_prod_beta
      u32_of_nat_cases shl1_small bit_simps)

lemma disable_law:
  assumes "pic_env env" "pic_ready s" "n < 16" "m < 16"
  shows "irq_enabled (disable_irq env (of_nat n) s) m \<longleftrightarrow> m \<noteq> n \<and> irq_enabled s m"
  using assms
  by (auto simp: disable_irq_def pic_env_def pic_ready_def irq_enabled_def inb_def Let_def case_prod_beta
      u32_of_nat_cases shl1_small bit_simps)

lemma ready_laws:
  assumes "pic_ready s"
  shows "pic_ready (enable_irq env n s)" "pic_ready (disable_irq env n s)"
  using assms by (auto simp: enable_irq_def disable_irq_def pic_ready_def inb_def Let_def case_prod_beta)

lemma init_ready: "pic_ready (i8259_init s)" "irq_enabled (i8259_init s) n"
  by (simp_all add: i8259_init_def pic_ready_def irq_enabled_def Let_def bit_simps)

section \<open>The contract of an interrupt controller\<close>

text \<open>
  What a client may assume of a controller with 16 lines: enabling or disabling a line
  changes that line only. The client lemma is about any sequence of such calls.
\<close>

definition irq_call :: "(u32 \<Rightarrow> 's \<Rightarrow> 's) \<Rightarrow> (u32 \<Rightarrow> 's \<Rightarrow> 's) \<Rightarrow> bool \<times> nat \<Rightarrow> 's \<Rightarrow> 's" where
  "irq_call enable disable c s = (if fst c then enable (of_nat (snd c)) s else disable (of_nat (snd c)) s)"

locale irq_controller =
  fixes ready :: "'s \<Rightarrow> bool"
    and enabled :: "'s \<Rightarrow> nat \<Rightarrow> bool"
    and enable disable :: "u32 \<Rightarrow> 's \<Rightarrow> 's"
  assumes ready_enable: "ready s \<Longrightarrow> ready (enable i s)"
    and ready_disable: "ready s \<Longrightarrow> ready (disable i s)"
    and enabled_enable: "ready s \<Longrightarrow> n < 16 \<Longrightarrow> m < 16 \<Longrightarrow>
      enabled (enable (of_nat n) s) m \<longleftrightarrow> m = n \<or> enabled s m"
    and enabled_disable: "ready s \<Longrightarrow> n < 16 \<Longrightarrow> m < 16 \<Longrightarrow>
      enabled (disable (of_nat n) s) m \<longleftrightarrow> m \<noteq> n \<and> enabled s m"
begin

abbreviation call :: "bool \<times> nat \<Rightarrow> 's \<Rightarrow> 's" where
  "call \<equiv> irq_call enable disable"

lemma ready_call: "ready s \<Longrightarrow> ready (call c s)"
  by (simp add: irq_call_def ready_enable ready_disable)

lemma enabled_call:
  "ready s \<Longrightarrow> snd c < 16 \<Longrightarrow> m < 16 \<Longrightarrow> enabled (call c s) m = (if snd c = m then fst c else enabled s m)"
  by (auto simp: irq_call_def enabled_enable enabled_disable)

lemma enabled_calls:
  "ready s \<Longrightarrow> \<forall>c \<in> set cs. snd c < 16 \<Longrightarrow> m < 16 \<Longrightarrow>
    enabled (fold call cs s) m = fold (\<lambda>c b. if snd c = m then fst c else b) cs (enabled s m)"
  by (induction cs arbitrary: s) (auto simp: ready_call enabled_call)

end

text \<open>The drivers meet the contract on every machine whose two controllers behave as 8259As do.\<close>

locale pc_pic =
  fixes env :: env
  assumes device: "pic_env env"
begin

lemma enable_contract:
  "pic_ready s \<Longrightarrow> n < 16 \<Longrightarrow> m < 16 \<Longrightarrow> irq_enabled (enable_irq env (of_nat n) s) m \<longleftrightarrow> m = n \<or> irq_enabled s m"
  by (rule enable_law [OF device])

end

sublocale pc_pic \<subseteq> irq: irq_controller pic_ready irq_enabled "enable_irq env" "disable_irq env"
  by unfold_locales (simp_all add: ready_laws enable_contract disable_law [OF device])

context pc_pic
begin

lemma enabled_after_calls:
  "\<forall>c \<in> set cs. snd c < 16 \<Longrightarrow> m < 16 \<Longrightarrow>
    irq_enabled (fold (irq_call (enable_irq env) (disable_irq env)) cs (i8259_init s)) m
    = fold (\<lambda>c b. if snd c = m then fst c else b) cs True"
  using irq.enabled_calls [OF init_ready(1), of cs m s] by (simp only: init_ready(2))

end

interpretation pcp: pc_pic pic_device
  by unfold_locales (rule pic_env_device)

section \<open>Properties of the interrupt controller and the timer\<close>

text \<open>
  On a machine with two 8259A controllers, after \<open>i8259_init\<close> and any sequence of
  \<open>enable_irq\<close> and \<open>disable_irq\<close> calls on the lines 0 to 15, a line is enabled exactly when
  the last call that named it enabled it, or no call named it.
\<close>

theorem irq_last_call_decides:
  assumes "pic_env env" and "\<forall>c \<in> set cs. snd c < 16" and "m < 16"
  shows "irq_enabled (fold (irq_call (enable_irq env) (disable_irq env)) cs (i8259_init s)) m
    = fold (\<lambda>c b. if snd c = m then fst c else b) cs True"
  using assms by (intro pc_pic.enabled_after_calls pc_pic.intro)

theorem irq_last_call_decides_witness:
  "\<not> irq_enabled (fold (irq_call (enable_irq pic_device) (disable_irq pic_device)) [(False, 8), (True, 1)] (i8259_init
      \<lparr>mem = (\<lambda>_. 0), io = [], iflag = True, screen_x = 0, screen_y = 0, master_mask = 0, slave_mask = 0\<rparr>)) 8"
  using irq_last_call_decides [OF pic_env_device, of "[(False, 8), (True, 1)]" 8
      "\<lparr>mem = (\<lambda>_. 0), io = [], iflag = True, screen_x = 0, screen_y = 0, master_mask = 0, slave_mask = 0\<rparr>"] by simp

text \<open>
  \<open>send_eoi\<close> acknowledges a line of the slave controller with a specific end of interrupt
  for that line on the slave, followed by one for the cascade line 2 on the master, and a line of
  the master with one write; the low three bits of the command are the line within its
  controller.
\<close>

theorem send_eoi_acknowledges:
  assumes "n < 16"
  shows "io (send_eoi (of_nat n) s) =
    (if n < 8 then Out MASTER_8259_PORT (of_nat (0x60 + n)) # io s
     else Out MASTER_8259_PORT 0x62 # Out SLAVE_8259_PORT (of_nat (0x60 + (n - 8))) # io s)"
proof -
  have "[0..<16] = [0 :: nat, 1, 2, 3, 4, 5, 6, 7, 8, 9, 10, 11, 12, 13, 14, 15]"
    by (simp add: upt_rec)
  moreover have "n \<in> set [0..<16]" using assms by simp
  ultimately have "n \<in> {0, 1, 2, 3, 4, 5, 6, 7, 8, 9, 10, 11, 12, 13, 14, 15}" by (simp only: list.set)
  then show ?thesis by (elim insertE emptyE; simp add: send_eoi.simps word_le_nat_alt)
qed

theorem send_eoi_acknowledges_witness:
  "io (send_eoi 14 \<lparr>mem = (\<lambda>_. 0), io = [], iflag = True, screen_x = 0, screen_y = 0, master_mask = 0, slave_mask = 0\<rparr>)
    = [Out MASTER_8259_PORT 0x62, Out SLAVE_8259_PORT 0x66]"
  using send_eoi_acknowledges [of 14 "\<lparr>mem = (\<lambda>_. 0), io = [], iflag = True, screen_x = 0, screen_y = 0, master_mask = 0, slave_mask = 0\<rparr>"] by simp

lemma pit_divisor_fits: "f \<noteq> 0 \<Longrightarrow> unat (1193180 div f :: u32) < 65536 \<longleftrightarrow> 19 \<le> f"
proof -
  assume "f \<noteq> 0"
  then have "0 < unat f" by (simp add: unat_gt_0)
  moreover have "unat (1193180 div f) = 1193180 div unat f" by (simp add: unat_div)
  moreover have "1193180 div unat f < 65536 \<longleftrightarrow> 1193180 < 65536 * unat f"
    using \<open>0 < unat f\<close> by (subst div_less_iff_less_mult) (simp_all add: mult.commute)
  moreover have "19 \<le> f \<longleftrightarrow> 19 \<le> unat f" by (simp add: word_le_nat_alt)
  moreover have "1193180 < 65536 * unat f \<longleftrightarrow> 19 \<le> unat f" by (rule iffI; linarith)
  ultimately show ?thesis by (simp only:)
qed

lemma low_bytes:
  "unat (ucast (d AND 0xFF) :: u8) + 256 * unat (ucast (drop_bit 8 d AND 0xFF) :: u8) = unat (d :: u32) mod 65536"
proof -
  have low: "(ucast (x AND 0xFF) :: u8) = ucast x" for x :: u32
  proof -
    have ff: "0xFF = (mask 8 :: u32)" by (simp add: mask_numeral)
    show ?thesis unfolding ff by (auto intro!: bit_word_eqI simp: bit_simps)
  qed
  have "unat (ucast d :: u8) = unat d mod 256"
    by (simp add: unsigned_ucast_eq take_bit_eq_mod)
  moreover have "unat (ucast (drop_bit 8 d) :: u8) = unat d div 256 mod 256"
    by (simp add: unsigned_ucast_eq take_bit_eq_mod drop_bit_eq_div unat_div)
  moreover have "unat d mod 65536 = unat d mod 256 + 256 * (unat d div 256 mod 256)"
    using mod_mult2_eq [of "unat d" 256 256] by simp
  ultimately show ?thesis by (simp only: low)
qed

text \<open>
  C36. \<open>pit_init\<close> fails with a division error exactly for frequency 0. Otherwise it sends the
  mode byte and the low and the high byte of the divisor, then unmasks line 0 on the master; the
  two bytes are the divisor \<open>1193180 / frequency\<close> exactly for frequencies of at least 19 Hz.
\<close>

theorem pit_init_divisor:
  "(pit_init env 0 s = Inl Divide_error) \<and>
   (f \<noteq> 0 \<longrightarrow> (\<exists>l h. pit_init env f s
        = Inr (enable_irq env 0 (s\<lparr>io := [Out 0x40 h, Out 0x40 l, Out 0x43 0x36] @ io s\<rparr>))
      \<and> (unat l + 256 * unat h = unat (1193180 div f) \<longleftrightarrow> 19 \<le> f)))"
proof -
  let ?d = "1193180 div f"
  have "unat (ucast (?d AND 0xFF) :: u8) + 256 * unat (ucast (drop_bit 8 ?d AND 0xFF) :: u8) = unat ?d mod 65536"
    by (rule low_bytes)
  moreover have "unat ?d mod 65536 = unat ?d \<longleftrightarrow> 19 \<le> f" if "f \<noteq> 0"
    unfolding pit_divisor_fits [OF that, symmetric] by (metis mod_less mod_less_divisor zero_less_numeral)
  ultimately show ?thesis
    by (auto simp: pit_init_def Let_def outb_def intro!: exI)
qed

theorem pit_init_divisor_witness:
  "\<exists>l h. pit_init pic_device 60 \<lparr>mem = (\<lambda>_. 0), io = [], iflag = True, screen_x = 0, screen_y = 0, master_mask = 0, slave_mask = 0\<rparr>
     = Inr (enable_irq pic_device 0 (\<lparr>mem = (\<lambda>_. 0), io = [], iflag = True, screen_x = 0, screen_y = 0, master_mask = 0, slave_mask = 0\<rparr>\<lparr>io := [Out 0x40 h, Out 0x40 l, Out 0x43 0x36]\<rparr>))
     \<and> unat l + 256 * unat h = unat (1193180 div 60 :: u32)"
  using pit_init_divisor [of pic_device "\<lparr>mem = (\<lambda>_. 0), io = [], iflag = True, screen_x = 0, screen_y = 0, master_mask = 0, slave_mask = 0\<rparr>" 60] by simp

end
