(* ===== verification/Rtc.thy ===== *)
theory Rtc
  imports Pic
begin

text \<open>
  The real-time clock driver of \<^verbatim>\<open>rtc.c\<close>. The registers of the clock are read off the
  log of port writes: a write to port 0x70 selects a register, a write to port 0x71 sets it.
  Waiting for an interrupt is \<open>spin\<close>: the code loops while a condition holds, and the interrupts
  that arrive meanwhile run their handlers. A run in which no more interrupts come never
  returns, which is the value \<open>None\<close>.
\<close>

section \<open>Driver\<close>

record rtc = pic +
  RTC_READ :: u8
  rtc_count :: u32
  rtc_freq :: u32
  rtc_test_flag :: u8

abbreviation (input) REG_A :: u32 where "REG_A \<equiv> 0x0A"

abbreviation (input) REG_B :: u32 where "REG_B \<equiv> 0x0B"

abbreviation (input) REG_C :: u32 where "REG_C \<equiv> 0x0C"

abbreviation (input) RTC_INDEX :: u16 where "RTC_INDEX \<equiv> 0x70"

abbreviation (input) RTC_DATA :: u16 where "RTC_DATA \<equiv> 0x71"

abbreviation (input) BITMASK6 :: u32 where "BITMASK6 \<equiv> 0x40"

text \<open>The variable \<open>prev\<close> is a \<open>char\<close>, which the compiler widens with its sign.\<close>

definition rtc_init :: "env \<Rightarrow> 'a rtc_scheme \<Rightarrow> 'a rtc_scheme" where
  "rtc_init env s =
     (let s = cli s;
          s = outb REG_B RTC_INDEX s;
          (v, s) = inb env RTC_DATA s;
          prev = ucast v :: u8;
          s = outb REG_B RTC_INDEX s;
          s = outb (scast prev OR BITMASK6) RTC_DATA s;
          s = sti s
      in s\<lparr>rtc_count := 0, rtc_freq := 2, rtc_test_flag := 0\<rparr>)"

text \<open>The write of register A that \<open>rtc_write\<close> and \<open>rtc_open\<close> share.\<close>

definition set_rate :: "env \<Rightarrow> u32 \<Rightarrow> 'a rtc_scheme \<Rightarrow> 'a rtc_scheme" where
  "set_rate env rate s =
     (let s = cli s;
          s = outb REG_A RTC_INDEX s;
          (v, s) = inb env RTC_DATA s;
          prev = ucast v :: u8;
          s = outb REG_A RTC_INDEX s;
          s = outb ((scast prev AND BITMASK6) OR rate) RTC_DATA s
      in sti s)"

text \<open>The \<open>switch\<close> of \<open>rtc_write\<close>.\<close>

definition rate_of :: "u32 \<Rightarrow> u32 option" where
  "rate_of freq = map_of [(1024, 6), (512, 7), (256, 8), (128, 9), (64, 10), (32, 11), (16, 12),
     (8, 13), (4, 14), (2, 15), (0, 0)] freq"

definition write_freq :: "env \<Rightarrow> u32 \<Rightarrow> 'a rtc_scheme \<Rightarrow> int \<times> 'a rtc_scheme" where
  "write_freq env freq s =
     (if 1024 < freq then (-1, s)
      else case rate_of freq of None \<Rightarrow> (-1, s) | Some rate \<Rightarrow> (0, set_rate env rate s))"

definition rtc_write :: "env \<Rightarrow> u32 \<Rightarrow> 'a rtc_scheme \<Rightarrow> (int \<times> 'a rtc_scheme) res" where
  "rtc_write env buf s =
     (if buf \<noteq> 0 then Inr (write_freq env (load32 (mem s) buf) s) else Inl Uninitialised)"

fun spin :: "('a machine_scheme \<Rightarrow> bool) \<Rightarrow> ('i \<Rightarrow> 'a machine_scheme \<Rightarrow> 'a machine_scheme) \<Rightarrow> 'i list
    \<Rightarrow> 'a machine_scheme \<Rightarrow> ('i list \<times> 'a machine_scheme) option" where
  "spin waiting handler is s =
     (if \<not> waiting s then Some (is, s)
      else case is of [] \<Rightarrow> None
        | i # is' \<Rightarrow> if iflag s then spin waiting handler is' (restore_flags True (handler i s)) else None)"

declare spin.simps [simp del]

definition rtc_read :: "('i \<Rightarrow> 'a rtc_scheme \<Rightarrow> 'a rtc_scheme) \<Rightarrow> 'i list \<Rightarrow> 'a rtc_scheme
    \<Rightarrow> (int \<times> 'i list \<times> 'a rtc_scheme) res" where
  "rtc_read handler is s =
     (let s = s\<lparr>RTC_READ := 1\<rparr>
      in res_bind (opt_res No_return (spin (\<lambda>s. RTC_READ s \<noteq> 0) handler is s)) (\<lambda>(is, s). Inr (0, is, s)))"

definition rtc_open :: "env \<Rightarrow> 'a rtc_scheme \<Rightarrow> int \<times> 'a rtc_scheme" where
  "rtc_open env s = (0, set_rate env 15 s)"

definition rtc_close :: "'a rtc_scheme \<Rightarrow> int \<times> 'a rtc_scheme" where
  "rtc_close s = (0, s)"

definition clear_rtc_read :: "env \<Rightarrow> 'a rtc_scheme \<Rightarrow> 'a rtc_scheme" where
  "clear_rtc_read env s =
     (let s = s\<lparr>RTC_READ := 0\<rparr>
      in if rtc_test_flag s \<noteq> 0 \<and> rtc_count s \<in> {10, 30, 70, 100, 200} \<and> rtc_freq s < 1024
         then let s = s\<lparr>rtc_freq := rtc_freq s * 2\<rparr> in snd (write_freq env (rtc_freq s) s)
         else s)"

definition rtc_set_flag :: "'a rtc_scheme \<Rightarrow> 'a rtc_scheme" where
  "rtc_set_flag s = s\<lparr>rtc_test_flag := 1\<rparr>"

section \<open>The clock as its port writes leave it\<close>

fun rtc_index :: "io_event list \<Rightarrow> u8" where
  "rtc_index [] = 0"
| "rtc_index (Out p v # es) = (if p = RTC_INDEX then v else rtc_index es)"
| "rtc_index (In p v # es) = rtc_index es"

text \<open>The last value written to a register, if any.\<close>

fun rtc_reg :: "u8 \<Rightarrow> io_event list \<Rightarrow> u8 option" where
  "rtc_reg r [] = None"
| "rtc_reg r (Out p v # es) = (if p = RTC_DATA \<and> rtc_index es = r then Some v else rtc_reg r es)"
| "rtc_reg r (In p v # es) = rtc_reg r es"

text \<open>The frequency in Hz that the data sheet gives for the rate field, the low four bits of register A: none for 0, and
  \<open>32768 >> (n - 1)\<close> for \<open>n\<close> from 3 on, with the time base of 32768 Hz.\<close>

definition rate_hz :: "nat \<Rightarrow> nat" where
  "rate_hz n = (if n = 0 then 0 else 32768 div 2 ^ (n - 1))"

lemma set_rate_value:
  "io (set_rate env rate s) = Out RTC_DATA (ucast ((scast (env RTC_DATA (Out RTC_INDEX 0xA # io s)) AND BITMASK6) OR rate))
     # Out RTC_INDEX 0xA # In RTC_DATA (env RTC_DATA (Out RTC_INDEX 0xA # io s)) # Out RTC_INDEX 0xA # io s"
  "mem (set_rate env rate s) = mem s" "iflag (set_rate env rate s)"
  "machine.more (set_rate env rate s) = machine.more s"
  by (simp_all add: set_rate_def Let_def case_prod_beta)

text \<open>The byte that is written: of the value read only bit 6 remains.\<close>

lemma rate_byte: "(ucast ((scast (v :: u8) AND BITMASK6) OR (of_nat n :: u32)) :: u8) = (v AND 0x40) OR of_nat n"
proof -
  have "(ucast (of_nat n :: u32) :: u8) = of_nat n" by (simp add: unsigned_of_nat word_of_nat_eq_iff)
  moreover have "(ucast (scast v AND BITMASK6) :: u8) = v AND 0x40"
    by (rule bit_word_eqI) (auto simp: bit_simps bit_64)
  ultimately show ?thesis by (simp add: unsigned_or_eq)
qed

definition rtc_accepts :: "u32 \<Rightarrow> bool" where
  "rtc_accepts f \<longleftrightarrow> f = 0 \<or> (\<exists>k \<in> {1..10}. f = 2 ^ k)"

lemma accepts_iff: "rtc_accepts f \<longleftrightarrow> f \<in> {1024, 512, 256, 128, 64, 32, 16, 8, 4, 2, 0}"
proof -
  have "{1..10} = {1, 2, 3, 4, 5, 6, 7, 8, 9, 10 :: nat}"
    by (rule set_eqI) (simp, presburger)
  then show ?thesis unfolding rtc_accepts_def by auto
qed

lemma rate_of_accepts:
  "rtc_accepts f \<Longrightarrow> \<exists>n < 16. rate_of f = Some (of_nat n) \<and> rate_hz n = unat f \<and> f \<le> 1024"
proof -
  assume "rtc_accepts f"
  then have "\<exists>r < 16. rate_of f = Some r \<and> rate_hz (unat r) = unat f \<and> f \<le> 1024"
    unfolding accepts_iff by (elim insertE emptyE; simp add: rate_of_def rate_hz_def)
  then obtain r where r: "r < 16" "rate_of f = Some r" "rate_hz (unat r) = unat f" "f \<le> 1024" by blast
  have "unat r < 16" using r(1) by (simp add: word_less_nat_alt)
  then show ?thesis using r by (intro exI [of _ "unat r"]) simp
qed

lemma rate_of_rejects: "\<not> rtc_accepts f \<Longrightarrow> rate_of f = None"
  unfolding accepts_iff by (simp add: rate_of_def)

section \<open>Properties of the clock driver\<close>

text \<open>
  C31. \<open>rtc_write\<close> accepts exactly the frequencies 0 and the powers of two from 2 to 1024, and returns 0 for them and -1 for the rest (the comment
  at the last branch says 0). For an accepted frequency it selects register A, reads it, selects it again and writes
  it: the low four bits are the rate that stands for the frequency with the time base of 32768 Hz, and of
  the value read only bit 6 is kept, so the bits 4 and 5 that select that time base are written as 0. Any
  other value leaves the clock and the rest of the state untouched. In neither case is memory or a variable of the driver changed.
\<close>

theorem rtc_write_sets_frequency:
  assumes "buf \<noteq> 0"
  shows "\<exists>s'. rtc_write env buf s = Inr (if rtc_accepts (load32 (mem s) buf) then 0 else -1, s')
    \<and> mem s' = mem s \<and> machine.more s' = machine.more s
    \<and> (if rtc_accepts (load32 (mem s) buf)
        then iflag s' \<and> (\<exists>n < 16. rate_hz n = unat (load32 (mem s) buf)
          \<and> (let v = env RTC_DATA (Out RTC_INDEX 0xA # io s)
             in io s' = Out RTC_DATA ((v AND 0x40) OR of_nat n) # Out RTC_INDEX 0xA # In RTC_DATA v # Out RTC_INDEX 0xA # io s
              \<and> rtc_reg 0xA (io s') = Some ((v AND 0x40) OR of_nat n)))
        else s' = s)"
proof (cases "rtc_accepts (load32 (mem s) buf)")
  case True
  then obtain n where n: "n < 16" "rate_of (load32 (mem s) buf) = Some (of_nat n)" "load32 (mem s) buf \<le> 1024"
    "rate_hz n = unat (load32 (mem s) buf)"
    using rate_of_accepts by blast
  then have "rtc_write env buf s = Inr (0, set_rate env (of_nat n) s)"
    using assms by (simp add: rtc_write_def write_freq_def)
  then show ?thesis using True n(1,4) by (auto simp: set_rate_value rate_byte Let_def)
next
  case False
  then show ?thesis using assms by (simp add: rtc_write_def write_freq_def rate_of_rejects)
qed

theorem rtc_write_sets_frequency_witness:
  "\<exists>s'. rtc_write (\<lambda>p es. 0x26) 16 \<lparr>mem = (\<lambda>a. if a = 16 then 128 else 0), io = [], iflag = False, screen_x = 0,
      screen_y = 0, master_mask = 0, slave_mask = 0, RTC_READ = 0, rtc_count = 0, rtc_freq = 2, rtc_test_flag = 0\<rparr>
      = Inr (0, s') \<and> (\<exists>n < 16. rate_hz n = 128 \<and> rtc_reg 0xA (io s') = Some (of_nat n))"
  using rtc_write_sets_frequency [of 16 "\<lambda>p es. 0x26" "\<lparr>mem = (\<lambda>a. if a = 16 then 128 else 0), io = [], iflag = False, screen_x = 0,
      screen_y = 0, master_mask = 0, slave_mask = 0, RTC_READ = 0, rtc_count = 0, rtc_freq = 2, rtc_test_flag = 0\<rparr>"]
  by (auto simp: load32_def accepts_iff Let_def)

text \<open>
  \<open>rtc_init\<close> enables periodic interrupts and changes no other bit of register B: if the
  clock answers the read of register B with its value \<open>v\<close>, the register becomes \<open>v\<close> with
  bit 6 set. It leaves interrupts enabled and the driver's variables at their start values.
\<close>

theorem rtc_init_enables_periodic:
  "let s' = rtc_init env s; v = env RTC_DATA (Out RTC_INDEX 0xB # io s)
   in rtc_reg 0xB (io s') = Some (set_bit 6 v) \<and> rtc_reg 0xA (io s') = rtc_reg 0xA (io s)
     \<and> iflag s' \<and> rtc_count s' = 0 \<and> rtc_freq s' = 2 \<and> rtc_test_flag s' = 0"
proof -
  have "(ucast (scast v OR (0x40 :: u32)) :: u8) = set_bit 6 v" for v :: u8
    by (rule bit_word_eqI) (auto simp: bit_simps bit_64)
  then show ?thesis by (simp add: rtc_init_def Let_def case_prod_beta)
qed

lemma spin_exit: "\<not> waiting s \<Longrightarrow> spin waiting handler is s = Some (is, s)"
  by (simp add: spin.simps)

lemma spin_skip_inv:
  assumes "iflag s" and "\<forall>i \<in> set is. \<forall>s. waiting s \<and> P s \<longrightarrow> waiting (restore_flags True (handler i s)) \<and> P (restore_flags True (handler i s))"
    and "waiting s" and "P s"
  shows "\<exists>t. waiting t \<and> P t \<and> iflag t \<and> spin waiting handler (is @ js) s = spin waiting handler js t"
  using assms
proof (induction "is" arbitrary: s)
  case Nil
  then show ?case by auto
next
  case (Cons i "is")
  then have "waiting (restore_flags True (handler i s))" "P (restore_flags True (handler i s))" by simp_all
  from Cons.IH [OF _ _ this] Cons.prems obtain t where
    "waiting t \<and> P t \<and> iflag t \<and> spin waiting handler (is @ js) (restore_flags True (handler i s)) = spin waiting handler js t"
    by auto
  moreover have "spin waiting handler ((i # is) @ js) s = spin waiting handler (is @ js) (restore_flags True (handler i s))"
    using Cons.prems by (simp add: spin.simps [of _ _ "i # is @ js" s])
  ultimately show ?case by auto
qed

lemma spin_skip:
  assumes "iflag s" and "\<forall>i \<in> set is. \<forall>s. waiting s \<longrightarrow> waiting (restore_flags True (handler i s))"
    and "waiting s"
  shows "\<exists>t. waiting t \<and> iflag t \<and> spin waiting handler (is @ js) s = spin waiting handler js t"
  using spin_skip_inv [of s "is" waiting "\<lambda>_. True" handler js] assms by simp

lemma spin_wakes:
  assumes "waiting s" and "iflag s" and "\<not> waiting (restore_flags True (handler i s))"
  shows "spin waiting handler (i # is) s = Some (is, restore_flags True (handler i s))"
  using assms by (simp add: spin.simps [of _ _ "i # is" s] spin_exit)

lemma spin_starves: "waiting s \<Longrightarrow> spin waiting handler [] s = None"
  by (simp add: spin.simps)

end
