(* ===== verification/Page.thy ===== *)
theory Page
  imports Rtc
begin

text \<open>
  Paging, \<^verbatim>\<open>page.c\<close> and the structures of \<^verbatim>\<open>page.h\<close>. The arrays \<open>pd\<close> and \<open>pt_0_4\<close> and the
  control registers are fields of the state. The memory \<open>mem\<close> of the machine is what the kernel
  sees through the page tables: low memory, which the tables map to itself, and the 4 MB user page
  at 128 MB, which shows one of the physical 4 MB frames from 8 MB on. Loading \<open>cr3\<close> puts the frame
  that \<open>pd[32]\<close> names behind the user page; \<open>frames\<close> keeps the contents of the others.
  The addresses the linker gives to global variables are the fields of a parameter.
\<close>

section \<open>State\<close>

record symbols =
  pd_addr :: u32
  pt_0_4_addr :: u32
  fops_file_functions :: u32
  fops_directory_functions :: u32
  fops_rtc_functions :: u32
  fops_terminal_functions :: u32

record page = rtc +
  pd :: "u32 list"
  pt_0_4 :: "u32 list"
  cr0 :: u32
  cr3 :: u32
  cr4 :: u32
  user_frame :: "u32 option"
  frames :: "u32 \<Rightarrow> u32 \<Rightarrow> u8"

abbreviation (input) PAGE_ENTRY :: nat where "PAGE_ENTRY \<equiv> 1024"

abbreviation (input) READWRITE :: u32 where "READWRITE \<equiv> 2"

abbreviation (input) KERNEL_ENTRY :: u32 where "KERNEL_ENTRY \<equiv> 0x00400183"

abbreviation (input) ADDR_128MB :: u32 where "ADDR_128MB \<equiv> 0x8000000"

section \<open>Operations\<close>

text \<open>Both loops write all 1024 entries of arrays of that size.\<close>

definition set_read_write :: "'a page_scheme \<Rightarrow> 'a page_scheme" where
  "set_read_write s = fold (\<lambda>i s. s\<lparr>pd := (pd s)[i := READWRITE]\<rparr>) [0..<PAGE_ENTRY] s"

definition init_table :: "'a page_scheme \<Rightarrow> 'a page_scheme" where
  "init_table s =
     (let s = fold (\<lambda>i s. s\<lparr>pt_0_4 := (pt_0_4 s)[i := READWRITE]\<rparr>) [0..<PAGE_ENTRY] s;
          s = s\<lparr>pt_0_4 := (pt_0_4 s)[184 := 0x000B8007]\<rparr>;
          s = s\<lparr>pt_0_4 := (pt_0_4 s)[185 := 0x000B9007]\<rparr>;
          s = s\<lparr>pt_0_4 := (pt_0_4 s)[186 := 0x000BA007]\<rparr>
      in s\<lparr>pt_0_4 := (pt_0_4 s)[187 := 0x000BB007]\<rparr>)"

definition init_page :: "symbols \<Rightarrow> 'a page_scheme \<Rightarrow> 'a page_scheme" where
  "init_page sy s =
     (let s = set_read_write s;
          s = init_table s;
          s = s\<lparr>pd := (pd s)[0 := pt_0_4_addr sy OR 4 OR 1 OR 2]\<rparr>;
          s = s\<lparr>pd := (pd s)[1 := KERNEL_ENTRY]\<rparr>;
          s = s\<lparr>cr4 := cr4 s OR 0x10\<rparr>;
          s = s\<lparr>cr3 := pd_addr sy\<rparr>
      in s\<lparr>cr0 := cr0 s OR 0x80000000\<rparr>)"

text \<open>Assignment to a bit field of \<open>width\<close> bits at bit \<open>off\<close> of a packed 32-bit word.\<close>

definition set_field :: "nat \<Rightarrow> nat \<Rightarrow> u32 \<Rightarrow> u32 \<Rightarrow> u32" where
  "set_field off width v w = (w AND NOT (push_bit off (mask width))) OR push_bit off (take_bit width v)"

definition init_4mb_user_pde :: "u32 \<Rightarrow> u32 \<Rightarrow> u32" where
  "init_4mb_user_pde pde page_base_addr =
     (let pde = set_field 0 1 1 pde;
          pde = set_field 1 1 1 pde;
          pde = set_field 2 1 1 pde;
          pde = set_field 3 1 1 pde;
          pde = set_field 4 1 0 pde;
          pde = set_field 5 1 0 pde;
          pde = set_field 6 1 0 pde;
          pde = set_field 7 1 1 pde;
          pde = set_field 8 1 0 pde;
          pde = set_field 9 3 0 pde;
          pde = set_field 12 1 0 pde;
          pde = set_field 13 9 0 pde
      in set_field 22 10 (drop_bit 22 page_base_addr) pde)"

definition in_user_page :: "u32 \<Rightarrow> bool" where
  "in_user_page a \<longleftrightarrow> a - ADDR_128MB < 0x400000"

text \<open>The view of memory with a given frame behind the user page.\<close>

definition map_user :: "(u32 \<Rightarrow> u8) \<Rightarrow> mem \<Rightarrow> mem" where
  "map_user frame m = (\<lambda>a. if in_user_page a then frame (a - ADDR_128MB) else m a)"

text \<open>
  Loading \<open>cr3\<close> flushes the cached translations. A user page on a frame below 8 MB would be
  another name for kernel memory; no view of it is modelled.
\<close>

definition set_cr3 :: "u32 \<Rightarrow> 'a page_scheme \<Rightarrow> 'a page_scheme res" where
  "set_cr3 page_dir s =
     (let s = s\<lparr>cr3 := page_dir\<rparr>;
          s = (case user_frame s of None \<Rightarrow> s
               | Some f \<Rightarrow> s\<lparr>frames := (frames s)(f := (\<lambda>off. mem s (ADDR_128MB + off)))\<rparr>);
          f = drop_bit 22 (pd s ! 32)
      in if \<not> bit (pd s ! 32) 0 then Inr (s\<lparr>user_frame := None\<rparr>)
         else if f < 2 then Inl Unmodelled
         else Inr (s\<lparr>user_frame := Some f, mem := map_user (frames s f) (mem s)\<rparr>))"

definition get_backing_page :: "int \<Rightarrow> u32" where
  "get_backing_page terminal_num = 0x000B9000 + word_of_int (terminal_num * 4096)"

definition copy_4kb_page :: "u32 \<Rightarrow> u32 \<Rightarrow> 'a page_scheme \<Rightarrow> int \<times> 'a page_scheme" where
  "copy_4kb_page source dest s = (0, s\<lparr>mem := memcpy (mem s) dest source 4096\<rparr>)"

section \<open>Address translation\<close>

text \<open>
  The two-level walk of the x86 with 4 MB pages, for the kernel and for user code: the physical
  address, or a page fault. An entry counts for user code only if its user bit is set at both
  levels; a directory entry with bit 7 is a 4 MB page. The only page table is \<open>pt_0_4\<close>.
\<close>

definition walk :: "symbols \<Rightarrow> bool \<Rightarrow> u32 list \<Rightarrow> u32 list \<Rightarrow> u32 \<Rightarrow> u32 option" where
  "walk sy user dir table va =
     (let pde = dir ! unat (drop_bit 22 va)
      in if \<not> bit pde 0 \<or> user \<and> \<not> bit pde 2 then None
         else if bit pde 7 then Some ((pde AND 0xFFC00000) OR (va AND 0x3FFFFF))
         else if pde AND 0xFFFFF000 \<noteq> pt_0_4_addr sy then None
         else let pte = table ! unat (drop_bit 12 va AND 0x3FF)
              in if \<not> bit pte 0 \<or> user \<and> \<not> bit pte 2 then None
                 else Some ((pte AND 0xFFFFF000) OR (va AND 0xFFF)))"

lemma fold_list_update:
  "n \<le> length xs \<Longrightarrow> fold (\<lambda>i xs. xs[i := v]) [0..<n] xs = replicate n v @ drop n xs"
proof (induction n)
  case (Suc n)
  then have "drop n xs = xs ! n # drop (Suc n) xs" by (simp add: Cons_nth_drop_Suc)
  with Suc show ?case by (simp add: list_update_append replicate_append_same)
qed simp

lemma set_read_write_eq:
  "set_read_write s = s\<lparr>pd := fold (\<lambda>i xs. xs[i := READWRITE]) [0..<PAGE_ENTRY] (pd s)\<rparr>"
proof -
  have "fold (\<lambda>i s. s\<lparr>pd := (pd s)[i := READWRITE]\<rparr>) is s = s\<lparr>pd := fold (\<lambda>i xs. xs[i := READWRITE]) is (pd s)\<rparr>" for "is"
    by (induction "is" arbitrary: s) simp_all
  then show ?thesis by (simp only: set_read_write_def)
qed

lemma init_table_fold:
  "fold (\<lambda>i s. s\<lparr>pt_0_4 := (pt_0_4 s)[i := v]\<rparr>) is s = s\<lparr>pt_0_4 := fold (\<lambda>i xs. xs[i := v]) is (pt_0_4 s)\<rparr>"
  by (induction "is" arbitrary: s) simp_all

lemma init_page_tables:
  assumes "length (pd s) = 1024" "length (pt_0_4 s) = 1024"
  shows "pd (init_page sy s) = (replicate 1024 2)[0 := pt_0_4_addr sy OR 7, 1 := KERNEL_ENTRY]"
    "pt_0_4 (init_page sy s)
      = (replicate 1024 2)[184 := 0x000B8007, 185 := 0x000B9007, 186 := 0x000BA007, 187 := 0x000BB007]"
proof -
  show "pd (init_page sy s) = (replicate 1024 2)[0 := pt_0_4_addr sy OR 7, 1 := KERNEL_ENTRY]"
    using assms by (simp add: init_page_def Let_def init_table_def init_table_fold set_read_write_eq
        fold_list_update del: upt_rec_numeral)
  show "pt_0_4 (init_page sy s)
      = (replicate 1024 2)[184 := 0x000B8007, 185 := 0x000B9007, 186 := 0x000BA007, 187 := 0x000BB007]"
    using assms by (simp add: init_page_def Let_def init_table_def init_table_fold set_read_write_eq
        fold_list_update del: upt_rec_numeral)
qed

lemma bit_set_field:
  "off + width \<le> 32 \<Longrightarrow> n < 32 \<Longrightarrow>
    bit (set_field off width v w) n \<longleftrightarrow> (if off \<le> n \<and> n < off + width then bit v (n - off) else bit w n)"
  by (auto simp: set_field_def bit_simps)

lemma init_4mb_user_pde_bits:
  "n < 32 \<Longrightarrow> bit (init_4mb_user_pde pde a) n \<longleftrightarrow> (if n < 22 then n \<in> {0, 1, 2, 3, 7} else bit a n)"
  by (auto simp: init_4mb_user_pde_def Let_def bit_set_field bit_simps)

text \<open>The masks of the walk, and a frame with an offset in it.\<close>

lemma page_masks:
  "(0x3FFFFF :: u32) = mask 22" "(0xFFC00000 :: u32) = NOT (mask 22)"
  "(0xFFF :: u32) = mask 12" "(0xFFFFF000 :: u32) = NOT (mask 12)" "(0x3FF :: u32) = mask 10"
  "(0x8F :: u32) = mask 4 OR push_bit 7 1"
  by (simp_all add: mask_numeral)

lemma split_at: "(a AND NOT (mask k)) OR (a AND mask k) = (a :: u32)"
  by (rule bit_word_eqI) (auto simp: bit_simps)

section \<open>Properties of paging\<close>

text \<open>
  \<open>init_4mb_user_pde\<close> sets every bit of the entry: whatever the uninitialised local held, the
  result is the 4 MB frame of the address with the bits present, writable, user, write-through
  and big page.
\<close>

theorem init_4mb_user_pde_value:
  "init_4mb_user_pde pde a = (a AND 0xFFC00000) OR 0x8F"
  unfolding page_masks by (rule bit_word_eqI) (auto simp: init_4mb_user_pde_bits bit_simps bit_128)

definition video_page :: "u32 \<Rightarrow> bool" where
  "video_page va \<longleftrightarrow> 0xB8000 \<le> va \<and> va < 0xBC000"

lemma drop_bit_eq_range:
  fixes va k :: u32
  assumes "n < 32" and "(unat k + 1) * 2 ^ n \<le> 2 ^ 32"
  shows "drop_bit n va = k \<longleftrightarrow> unat k * 2 ^ n \<le> unat va \<and> unat va < (unat k + 1) * 2 ^ n"
proof -
  have "unat (drop_bit n va) = unat va div 2 ^ n"
    unfolding unat_drop_bit_eq by (rule drop_bit_eq_div)
  then have "drop_bit n va = k \<longleftrightarrow> unat va div 2 ^ n = unat k" by (simp add: word_unat_eq_iff)
  also have "\<dots> \<longleftrightarrow> unat k * 2 ^ n \<le> unat va \<and> unat va < (unat k + 1) * 2 ^ n"
    by (metis div_nat_eqI div_le_mono mult.commute nat_less_le Suc_eq_plus1 dividend_less_times_div dividend_less_div_times
        div_times_less_eq_dividend add.commute mult_Suc zero_less_numeral zero_less_power)
  finally show ?thesis .
qed

lemma page_parts:
  fixes va :: u32
  shows "va AND NOT (mask k) = push_bit k (drop_bit k va)"
  by (rule bit_word_eqI) (auto simp: bit_simps)

lemma in_page_iff: "in_user_page va \<longleftrightarrow> drop_bit 22 va = 32"
proof -
  have "drop_bit 22 va = 32 \<longleftrightarrow> 0x8000000 \<le> unat va \<and> unat va < 0x8400000"
    by (subst drop_bit_eq_range) simp_all
  also have "\<dots> \<longleftrightarrow> in_user_page va"
    using unat_lt32 [of va] by (auto simp: in_user_page_def word_less_nat_alt unat_sub_if')
  finally show ?thesis ..
qed

lemma video_page_iff: "video_page va \<longleftrightarrow> drop_bit 22 va = 0 \<and> drop_bit 12 va \<in> {184, 185, 186, 187}"
proof -
  have "drop_bit 22 va = 0 \<longleftrightarrow> unat va < 0x400000"
    by (subst drop_bit_eq_range) simp_all
  moreover have "drop_bit 12 va = 184 \<longleftrightarrow> 0xB8000 \<le> unat va \<and> unat va < 0xB9000"
    "drop_bit 12 va = 185 \<longleftrightarrow> 0xB9000 \<le> unat va \<and> unat va < 0xBA000"
    "drop_bit 12 va = 186 \<longleftrightarrow> 0xBA000 \<le> unat va \<and> unat va < 0xBB000"
    "drop_bit 12 va = 187 \<longleftrightarrow> 0xBB000 \<le> unat va \<and> unat va < 0xBC000"
    by (subst drop_bit_eq_range; simp)+
  moreover have "video_page va \<longleftrightarrow> 0xB8000 \<le> unat va \<and> unat va < 0xBC000"
    by (simp add: video_page_def word_le_nat_alt word_less_nat_alt)
  ultimately show ?thesis by auto
qed

text \<open>The page directory while process \<open>n\<close> runs, as \<open>execute\<close> and \<open>halt\<close> set it.\<close>

definition process_pd :: "symbols \<Rightarrow> u32 \<Rightarrow> 'a page_scheme \<Rightarrow> u32 list" where
  "process_pd sy n s = (pd (init_page sy s))[32 := init_4mb_user_pde 0 (0x400000 + n * 0x400000)]"

lemma process_pd_nth:
  assumes "length (pd s) = 1024" "length (pt_0_4 s) = 1024" and "i < 1024"
  shows "process_pd sy n s ! i = (if i = 0 then pt_0_4_addr sy OR 7 else if i = 1 then KERNEL_ENTRY
    else if i = 32 then init_4mb_user_pde 0 (0x400000 + n * 0x400000) else 2)"
  using assms by (simp add: process_pd_def init_page_tables nth_list_update)

lemma pt_nth:
  assumes "length (pd s) = 1024" "length (pt_0_4 s) = 1024" and "i < 1024"
  shows "pt_0_4 (init_page sy s) ! i = (if i = 184 then 0x000B8007 else if i = 185 then 0x000B9007
    else if i = 186 then 0x000BA007 else if i = 187 then 0x000BB007 else 2)"
  using assms by (simp add: init_page_tables nth_list_update)

lemma dir_index: "unat (drop_bit 22 (va :: u32)) < 1024" "unat (drop_bit 12 (va :: u32) AND mask 10) < 1024"
proof -
  have "unat (drop_bit 22 va) = unat va div 2 ^ 22"
    unfolding unat_drop_bit_eq by (rule drop_bit_eq_div)
  then show "unat (drop_bit 22 va) < 1024" using unat_lt32 [of va] by (simp add: div_less_iff_less_mult)
  have "unat (drop_bit 12 va AND mask 10) = unat (drop_bit 12 va) mod 2 ^ 10"
    unfolding take_bit_eq_mask [symmetric] unsigned_take_bit_eq by (rule take_bit_eq_mod)
  then show "unat (drop_bit 12 va AND mask 10) < 1024" by simp
qed

lemma table_index: "drop_bit 22 (va :: u32) = 0 \<Longrightarrow> drop_bit 12 va AND mask 10 = drop_bit 12 va"
proof (rule bit_word_eqI)
  fix n :: nat
  assume z: "drop_bit 22 va = 0"
  have high: "\<not> bit va k" if "22 \<le> k" for k
  proof -
    have "bit (drop_bit 22 va) (k - 22) = bit va k" using that by (simp add: bit_drop_bit_eq)
    then show ?thesis by (simp add: z)
  qed
  show "bit (drop_bit 12 va AND mask 10) n = bit (drop_bit 12 va) n"
    by (cases "n < 10") (simp_all add: bit_simps high)
qed

lemma walk_fault:
  assumes "length (pd s) = 1024" "length (pt_0_4 s) = 1024" and "drop_bit 22 va \<notin> {0, 32}"
  shows "walk sy True (process_pd sy n s) (pt_0_4 (init_page sy s)) va = None"
proof -
  have "unat (drop_bit 22 va) \<noteq> 0" "unat (drop_bit 22 va) \<noteq> 32"
    using assms(3) by (auto simp: word_unat_eq_iff)
  then show ?thesis
    by (simp add: walk_def Let_def process_pd_nth [OF assms(1,2) dir_index(1)])
qed

lemma walk_user_page:
  assumes "length (pd s) = 1024" "length (pt_0_4 s) = 1024" and va: "drop_bit 22 va = 32"
  shows "walk sy True (process_pd sy n s) (pt_0_4 (init_page sy s)) va
    = Some (0x400000 + n * 0x400000 + (va - ADDR_128MB))"
proof -
  let ?a = "0x400000 + n * 0x400000"
  let ?pde = "init_4mb_user_pde 0 ?a"
  have bits: "bit ?pde 0" "bit ?pde 2" "bit ?pde 7" by (simp_all add: init_4mb_user_pde_bits)
  have "(va AND NOT (mask 22)) OR (va AND mask 22) = va" by (rule split_at)
  moreover have "va AND NOT (mask 22) = ADDR_128MB" by (simp add: page_parts va)
  moreover have "ADDR_128MB AND (va AND mask 22) = 0" by (rule bit_word_eqI) (metis bit_and_iff bit_not_iff \<open>va AND NOT (mask 22) = ADDR_128MB\<close> bit_0_eq bot_apply bot_bool_def)
  ultimately have off: "va AND mask 22 = va - ADDR_128MB"
    by (metis add_diff_cancel_left' disjunctive_add_eq_or)
  have "?a = push_bit 22 (n + 1)" by (simp add: push_bit_eq_mult algebra_simps)
  then have low: "\<not> bit ?a k" if "k < 22" for k using that by (simp only: bit_simps) simp
  have "(?pde AND NOT (mask 22)) OR (va AND mask 22) = ?a OR (va AND mask 22)"
    by (rule bit_word_eqI) (auto simp: bit_simps init_4mb_user_pde_bits low)
  also have "\<dots> = ?a + (va AND mask 22)"
    by (rule disjunctive_add_eq_or [symmetric], rule bit_word_eqI) (auto simp: bit_simps low)
  finally show ?thesis
    using va bits by (simp add: walk_def Let_def process_pd_nth [OF assms(1,2)] page_masks off)
qed

lemma walk_low:
  assumes "length (pd s) = 1024" "length (pt_0_4 s) = 1024" and va: "drop_bit 22 va = 0"
    and align: "pt_0_4_addr sy AND 0xFFF = 0"
  shows "walk sy True (process_pd sy n s) (pt_0_4 (init_page sy s)) va = (if video_page va then Some va else None)"
proof -
  let ?pde = "pt_0_4_addr sy OR 7"
  have low: "\<not> bit (pt_0_4_addr sy) k" if "k < 12" for k
  proof -
    have "bit (pt_0_4_addr sy AND mask 12) k = bit (pt_0_4_addr sy) k" using that by (simp add: bit_simps)
    then show ?thesis using align by (simp add: page_masks)
  qed
  have seven: "(7 :: u32) = mask 3" by (simp add: mask_numeral)
  have bits: "bit ?pde 0" "bit ?pde 2" "\<not> bit ?pde 7" and base: "?pde AND NOT (mask 12) = pt_0_4_addr sy"
    unfolding seven by (auto simp: bit_simps low intro!: bit_word_eqI)
  have idx: "table ! unat (drop_bit 12 va AND mask 10) = table ! unat (drop_bit 12 va)" for table :: "u32 list"
    by (simp only: table_index [OF va])
  have pte: "pt_0_4 (init_page sy s) ! unat (drop_bit 12 va) = (if drop_bit 12 va = 184 then 0x000B8007
      else if drop_bit 12 va = 185 then 0x000B9007 else if drop_bit 12 va = 186 then 0x000BA007
      else if drop_bit 12 va = 187 then 0x000BB007 else 2)"
    using pt_nth [OF assms(1,2), of "unat (drop_bit 12 va)" sy] dir_index(2) [of va]
    by (simp add: table_index [OF va] word_unat_eq_iff)
  have va12: "push_bit 12 (drop_bit 12 va) OR (va AND mask 12) = va"
    using split_at [of va 12] by (simp only: page_parts)
  have "walk sy True (process_pd sy n s) (pt_0_4 (init_page sy s)) va
    = (let pte = pt_0_4 (init_page sy s) ! unat (drop_bit 12 va)
       in if \<not> bit pte 0 \<or> \<not> bit pte 2 then None else Some ((pte AND NOT (mask 12)) OR (va AND mask 12)))"
    using va bits base by (simp add: walk_def Let_def process_pd_nth [OF assms(1,2)] page_masks idx)
  also have "\<dots> = (if video_page va then Some va else None)"
    using va va12 unfolding pte Let_def video_page_iff by (auto simp: page_masks [symmetric])
  finally show ?thesis .
qed

text \<open>
  C2. The address space of user code. After \<open>init_page\<close>, with the entry of process \<open>n\<close> in
  \<open>pd[32]\<close>, user code reaches exactly its own 4 MB frame, at 128 MB, and the four video pages;
  every other address faults: the kernel, the null page and all unmapped memory.
\<close>

theorem user_address_space:
  assumes "length (pd s) = 1024" "length (pt_0_4 s) = 1024" and "pt_0_4_addr sy AND 0xFFF = 0"
  shows "walk sy True (process_pd sy n s) (pt_0_4 (init_page sy s)) va
    = (if in_user_page va then Some (0x400000 + n * 0x400000 + (va - ADDR_128MB))
       else if video_page va then Some va else None)"
proof -
  consider "drop_bit 22 va = 32" | "drop_bit 22 va = 0" | "drop_bit 22 va \<notin> {0, 32}" by auto
  then show ?thesis
    by cases (auto simp: in_page_iff video_page_iff walk_user_page [OF assms(1,2)] walk_low [OF assms(1,2) _ assms(3)]
        walk_fault [OF assms(1,2)])
qed

definition page_boot :: page where
  "page_boot = \<lparr>mem = (\<lambda>_. 0), io = [], iflag = False, screen_x = 0, screen_y = 0, master_mask = 0, slave_mask = 0,
     RTC_READ = 0, rtc_count = 0, rtc_freq = 0, rtc_test_flag = 0, pd = replicate 1024 0, pt_0_4 = replicate 1024 0,
     cr0 = 0, cr3 = 0, cr4 = 0, user_frame = None, frames = (\<lambda>_ _. 0)\<rparr>"

definition sample_symbols :: symbols where
  "sample_symbols = \<lparr>pd_addr = 0x405000, pt_0_4_addr = 0x406000, fops_file_functions = 0x410000,
     fops_directory_functions = 0x410010, fops_rtc_functions = 0x410020, fops_terminal_functions = 0x410030\<rparr>"

theorem user_address_space_witness:
  "walk sample_symbols True (process_pd sample_symbols 2 page_boot) (pt_0_4 (init_page sample_symbols page_boot)) 0x8048000
     = Some 0xC48000
   \<and> walk sample_symbols True (process_pd sample_symbols 2 page_boot) (pt_0_4 (init_page sample_symbols page_boot)) 0x400000
     = None"
  using user_address_space [of page_boot sample_symbols 2 "0x8048000"]
    user_address_space [of page_boot sample_symbols 2 "0x400000"]
  by (simp add: page_boot_def sample_symbols_def in_user_page_def video_page_def)

text \<open>
  No two of the six processes share user memory: the frames of different processes are
  disjoint, and all of them lie above the 8 MB of video and kernel memory.
\<close>

theorem process_frames_disjoint:
  assumes "length (pd s) = 1024" "length (pt_0_4 s) = 1024" "pt_0_4_addr sy AND 0xFFF = 0"
    and "n \<in> {1..6}" "k \<in> {1..6}" "in_user_page a" "in_user_page b"
    and "walk sy True (process_pd sy n s) (pt_0_4 (init_page sy s)) a = Some p"
    and "walk sy True (process_pd sy k s) (pt_0_4 (init_page sy s)) b = Some p"
  shows "n = k \<and> a = b \<and> 0x800000 \<le> p"
proof -
  have dec: "unat (0x400000 + i * 0x400000 + x) = 0x400000 + unat i * 0x400000 + unat x \<and> 1 \<le> unat i"
    if "i \<in> {1..6}" "unat x < 0x400000" for i x :: u32
  proof -
    have i: "1 \<le> unat i" "unat i \<le> 6" using that(1) by (simp_all add: word_le_nat_alt)
    have "unat (i * 0x400000) = unat i * 0x400000" using i by (subst unat_mult_lem [THEN iffD1]) simp_all
    with i that(2) show ?thesis by (simp add: unat_word_ariths)
  qed
  have off: "unat (c - ADDR_128MB) < 0x400000" if "in_user_page c" for c
    using that by (simp add: in_user_page_def word_less_nat_alt)
  have "p = 0x400000 + n * 0x400000 + (a - ADDR_128MB)" "p = 0x400000 + k * 0x400000 + (b - ADDR_128MB)"
    using assms(6-9) by (simp_all add: walk_user_page [OF assms(1,2)] in_page_iff)
  then have "unat p = 0x400000 + unat n * 0x400000 + unat (a - ADDR_128MB)"
    "unat p = 0x400000 + unat k * 0x400000 + unat (b - ADDR_128MB)"
    using dec [OF assms(4) off [OF assms(6)]] dec [OF assms(5) off [OF assms(7)]] by simp_all
  moreover from this have "unat n = unat k" using off [OF assms(6)] off [OF assms(7)] by linarith
  moreover have "1 \<le> unat n" using dec [OF assms(4) off [OF assms(6)]] ..
  ultimately have "unat n = unat k" "unat (a - ADDR_128MB) = unat (b - ADDR_128MB)" "0x800000 \<le> unat p"
    by simp_all
  then show ?thesis by (simp add: word_unat_eq_iff [symmetric] word_le_nat_alt)
qed

theorem process_frames_disjoint_witness:
  "\<exists>p. walk sample_symbols True (process_pd sample_symbols 1 page_boot) (pt_0_4 (init_page sample_symbols page_boot)) 0x8048000 = Some p
     \<and> 0x800000 \<le> p"
  using process_frames_disjoint [of page_boot sample_symbols 1 1 "0x8048000" "0x8048000" "0x848000"]
    walk_user_page [of page_boot "0x8048000" sample_symbols 1]
  by (simp add: page_boot_def sample_symbols_def in_user_page_def)

lemma map_user_simps [mem_simps]:
  "in_user_page a \<Longrightarrow> map_user fr m a = fr (a - ADDR_128MB)" "\<not> in_user_page a \<Longrightarrow> map_user fr m a = m a"
  by (simp_all add: map_user_def)

lemma user_pde_frame:
  "drop_bit 22 (init_4mb_user_pde pde (push_bit 22 f)) = take_bit 10 f" "bit (init_4mb_user_pde pde a) 0"
proof -
  show "drop_bit 22 (init_4mb_user_pde pde (push_bit 22 f)) = take_bit 10 f"
  proof (rule bit_word_eqI)
    fix n
    show "bit (drop_bit 22 (init_4mb_user_pde pde (push_bit 22 f))) n = bit (take_bit 10 f) n"
      by (cases "n < 10") (auto simp: bit_simps init_4mb_user_pde_bits dest: bit_imp_le_length)
  qed
qed (simp add: init_4mb_user_pde_bits)

definition saved_frames :: "'a page_scheme \<Rightarrow> u32 \<Rightarrow> u32 \<Rightarrow> u8" where
  "saved_frames s = (case user_frame s of None \<Rightarrow> frames s
     | Some g \<Rightarrow> (frames s)(g := (\<lambda>off. mem s (ADDR_128MB + off))))"

lemma set_cr3_pde:
  assumes "32 < length (pd s)" "2 \<le> f" "f < 1024"
  shows "set_cr3 p (s\<lparr>pd := (pd s)[32 := init_4mb_user_pde pde (push_bit 22 f)]\<rparr>)
    = Inr (s\<lparr>pd := (pd s)[32 := init_4mb_user_pde pde (push_bit 22 f)], cr3 := p, frames := saved_frames s,
             user_frame := Some f, mem := map_user (saved_frames s f) (mem s)\<rparr>)"
proof -
  have "take_bit 10 f = f"
    using assms(3) by (simp add: word_less_nat_alt word_unat_eq_iff unsigned_take_bit_eq take_bit_nat_eq_self)
  then show ?thesis using assms
    by (cases "user_frame s") (simp_all add: set_cr3_def saved_frames_def Let_def user_pde_frame not_less [symmetric] del: not_less)
qed

lemma set_cr3_user:
  assumes "32 < length (pd s)" "user_frame s = Some g" "2 \<le> f" "f < 1024"
  shows "set_cr3 p (s\<lparr>pd := (pd s)[32 := init_4mb_user_pde pde (push_bit 22 f)]\<rparr>)
    = Inr (let fr = (frames s)(g := (\<lambda>off. mem s (ADDR_128MB + off)))
           in s\<lparr>pd := (pd s)[32 := init_4mb_user_pde pde (push_bit 22 f)], cr3 := p, frames := fr,
                user_frame := Some f, mem := map_user (fr f) (mem s)\<rparr>)"
  using assms by (simp add: set_cr3_pde saved_frames_def Let_def)

text \<open>
  Switching the user page to the frame of another process and back loses nothing: whatever
  happens to memory in between, the first process finds its user memory as it left it, and
  memory outside the user page is not changed by either switch.
\<close>

theorem switch_and_back:
  assumes "32 < length (pd s)" "user_frame s = Some g" "2 \<le> f" "f < 1024" "2 \<le> g" "g < 1024" "f \<noteq> g"
    and "set_cr3 p (s\<lparr>pd := (pd s)[32 := init_4mb_user_pde pde (push_bit 22 f)]\<rparr>) = Inr s1"
    and "set_cr3 p (s1\<lparr>mem := m, pd := (pd s1)[32 := init_4mb_user_pde pde (push_bit 22 g)]\<rparr>) = Inr s2"
  shows "user_frame s2 = Some g \<and> mem s2 a = (if in_user_page a then mem s a else m a)
    \<and> (\<not> in_user_page a \<longrightarrow> mem s1 a = mem s a)"
proof -
  have s1: "user_frame s1 = Some f" "length (pd s1) = length (pd s)" "frames s1 g = (\<lambda>off. mem s (ADDR_128MB + off))"
    "mem s1 = map_user (if f = g then (\<lambda>off. mem s (ADDR_128MB + off)) else frames s f) (mem s)"
    using assms(8) assms(7) by (auto simp: set_cr3_user [OF assms(1-4)] Let_def)
  have "set_cr3 p ((s1\<lparr>mem := m\<rparr>)\<lparr>pd := (pd (s1\<lparr>mem := m\<rparr>))[32 := init_4mb_user_pde pde (push_bit 22 g)]\<rparr>) = Inr s2"
    using assms(9) by simp
  then have "user_frame s2 = Some g" "mem s2 = map_user (frames s1 g) m"
    using assms(7) s1 by (subst (asm) set_cr3_user [OF _ _ assms(5,6)]; auto simp: Let_def assms(1))+
  then show ?thesis using s1 by (auto simp: map_user_def)
qed

definition page_two :: page where
  "page_two = page_boot\<lparr>user_frame := Some 2, mem := (\<lambda>_. 7)\<rparr>"

theorem switch_and_back_witness:
  "\<exists>s1 s2. set_cr3 0 (page_two\<lparr>pd := (pd page_two)[32 := init_4mb_user_pde 0 (push_bit 22 3)]\<rparr>) = Inr s1
     \<and> set_cr3 0 (s1\<lparr>mem := (\<lambda>_. 9), pd := (pd s1)[32 := init_4mb_user_pde 0 (push_bit 22 2)]\<rparr>) = Inr s2
     \<and> mem s2 0x8000004 = 7 \<and> mem s2 0x400000 = 9"
proof -
  have two: "32 < length (pd page_two)" "user_frame page_two = Some 2" "mem page_two = (\<lambda>_. 7)"
    by (simp_all add: page_two_def page_boot_def)
  obtain s1 where s1: "set_cr3 0 (page_two\<lparr>pd := (pd page_two)[32 := init_4mb_user_pde 0 (push_bit 22 3)]\<rparr>) = Inr s1"
    "user_frame s1 = Some 3" "length (pd s1) = length (pd page_two)"
    using set_cr3_user [OF two(1,2), of 3 0 0] by (simp add: Let_def)
  obtain s2 where s2: "set_cr3 0 (s1\<lparr>mem := (\<lambda>_. 9), pd := (pd s1)[32 := init_4mb_user_pde 0 (push_bit 22 2)]\<rparr>) = Inr s2"
    using set_cr3_user [of "s1\<lparr>mem := (\<lambda>_. 9)\<rparr>" 3 2 0 0] s1 two(1) by (simp add: Let_def)
  have "mem s2 a = (if in_user_page a then 7 else 9)" for a
    using switch_and_back [OF two(1,2), of 3 0 0 s1 "\<lambda>_. 9" s2 a] s1(1) s2 two(3) by simp
  then show ?thesis using s1(1) s2 by (auto simp: in_user_page_def)
qed

end
