(* ===== verification/Process.thy ===== *)
theory Process
  imports Page
begin

text \<open>
  Process control blocks, the process queue and the task switch: \<^verbatim>\<open>sched.c\<close> with the structures of
  \<^verbatim>\<open>syscalls.h\<close>, \<^verbatim>\<open>sched.h\<close> and \<^verbatim>\<open>idt.h\<close>. A process control block lives in byte memory, 8 KB below
  the previous one from 8 MB down, and its fields are words at the offsets the compiler gives
  them. The queue is an array of six pointers with a front and a rear index; reads and writes
  outside the array are \<open>Bounds\<close>. The locale \<open>bounded_stack\<close> is what \<open>execute\<close> and \<open>halt\<close> rely on.
\<close>

section \<open>Process control blocks\<close>

datatype pcb_field = Eip | Esp | Ebp | Edi | Esi | Ebx | Edx | Ecx | Eax | Cs | Eflags | User_esp | Ss
  | Pid | Parent_ptr | Terminal_num | Argument_length

fun field_index :: "pcb_field \<Rightarrow> nat" where
  "field_index Eip = 0" | "field_index Esp = 1" | "field_index Ebp = 2" | "field_index Edi = 3"
| "field_index Esi = 4" | "field_index Ebx = 5" | "field_index Edx = 6" | "field_index Ecx = 7"
| "field_index Eax = 8" | "field_index Cs = 9" | "field_index Eflags = 10" | "field_index User_esp = 11"
| "field_index Ss = 12" | "field_index Pid = 13" | "field_index Parent_ptr = 14"
| "field_index Terminal_num = 15" | "field_index Argument_length = 112"

definition field_at :: "u32 \<Rightarrow> pcb_field \<Rightarrow> u32" where
  "field_at p f = p + of_nat (4 * field_index f)"

definition pcb_get :: "mem \<Rightarrow> u32 \<Rightarrow> pcb_field \<Rightarrow> u32" where
  "pcb_get m p f = load32 m (field_at p f)"

definition pcb_set :: "u32 \<Rightarrow> pcb_field \<Rightarrow> u32 \<Rightarrow> mem \<Rightarrow> mem" where
  "pcb_set p f v m = store32 m (field_at p f) v"

abbreviation (input) PCB_SIZE :: nat where "PCB_SIZE \<equiv> 580"

text \<open>The block of a process, \<open>ADDR_8MB - process_count*ADDR_8KB\<close>.\<close>

definition pcb_addr :: "u32 \<Rightarrow> u32" where
  "pcb_addr n = 0x00800000 - n * 0x2000"

record process_queue =
  pcbs :: "u32 list"
  front :: int
  rear :: int

abbreviation (input) MAX_PROCESSES :: nat where "MAX_PROCESSES \<equiv> 6"

record proc = page +
  process_count :: u32
  process_q :: process_queue
  primary_shell_count :: int
  tss_esp0 :: u32

section \<open>The process queue\<close>

definition pq_ref :: "process_queue \<Rightarrow> int \<Rightarrow> u32 res" where
  "pq_ref q i = (if 0 \<le> i \<and> i < int MAX_PROCESSES then Inr (pcbs q ! nat i) else Inl Bounds)"

definition pq_store :: "process_queue \<Rightarrow> int \<Rightarrow> u32 \<Rightarrow> process_queue res" where
  "pq_store q i p = (if 0 \<le> i \<and> i < int MAX_PROCESSES then Inr (q\<lparr>pcbs := (pcbs q)[nat i := p]\<rparr>) else Inl Bounds)"

definition pq_init :: "'a proc_scheme \<Rightarrow> 'a proc_scheme" where
  "pq_init s =
     s\<lparr>process_q := fold (\<lambda>i q. q\<lparr>pcbs := (pcbs q)[i := 0]\<rparr>) [0..<MAX_PROCESSES]
        ((process_q s)\<lparr>front := 1, rear := 0\<rparr>)\<rparr>"

definition pq_peak :: "process_queue \<Rightarrow> u32 res" where
  "pq_peak q = pq_ref q (front q)"

definition pq_get_active_term :: "'a proc_scheme \<Rightarrow> u32 res" where
  "pq_get_active_term s =
     (if 0 < process_count s
      then res_bind (pq_peak (process_q s)) (\<lambda>p. Inr (pcb_get (mem s) p Terminal_num))
      else Inr 0)"

definition pq_enqueue :: "u32 \<Rightarrow> process_queue \<Rightarrow> (int \<times> process_queue) res" where
  "pq_enqueue process_num q =
     (if of_nat MAX_PROCESSES < process_num then Inr (-1, q)
      else let this_pcb = pcb_addr process_num;
               q = (if int MAX_PROCESSES - 1 \<le> rear q then q\<lparr>rear := 0\<rparr> else q\<lparr>rear := rear q + 1\<rparr>)
           in res_bind (pq_store q (rear q) this_pcb) (\<lambda>q. Inr (0, q)))"

definition pq_enqueue_front :: "u32 \<Rightarrow> process_queue \<Rightarrow> (int \<times> process_queue) res" where
  "pq_enqueue_front this_pcb q =
     (let q = q\<lparr>front := front q - 1\<rparr>;
          q = (if front q < 0 then q\<lparr>front := int MAX_PROCESSES - 1\<rparr> else q)
      in res_bind (pq_store q (front q) this_pcb) (\<lambda>q. Inr (0, q)))"

definition pq_dequeue :: "process_queue \<Rightarrow> (u32 \<times> process_queue) res" where
  "pq_dequeue q =
     res_bind (pq_ref q (front q)) (\<lambda>ret_block.
       let q = q\<lparr>front := front q + 1\<rparr>;
           q = (if int MAX_PROCESSES \<le> front q then q\<lparr>front := 0\<rparr> else q)
       in Inr (ret_block, q))"

definition pq_rotate :: "process_queue \<Rightarrow> process_queue res" where
  "pq_rotate q =
     res_bind (pq_dequeue q) (\<lambda>(old_front, q).
       let q = q\<lparr>rear := rear q + 1\<rparr> in pq_store q (rear q) old_front)"

section \<open>The task switch\<close>

record registers =
  r_edi :: u32
  r_esi :: u32
  r_ebp :: u32
  r_esp :: u32
  r_ebx :: u32
  r_edx :: u32
  r_ecx :: u32
  r_eax :: u32
  int_num :: u32
  error_code :: u32
  r_eip :: u32
  r_cs :: u32
  r_eflags :: u32
  useresp :: u32
  r_ss :: u32

definition save_pcb_regs :: "u32 \<Rightarrow> registers \<Rightarrow> mem \<Rightarrow> mem" where
  "save_pcb_regs cur regs m =
     (let m = pcb_set cur Eip (r_eip regs) m;
          m = pcb_set cur Esp (r_esp regs) m;
          m = pcb_set cur Ebp (r_ebp regs) m;
          m = pcb_set cur Edi (r_edi regs) m;
          m = pcb_set cur Esi (r_esi regs) m;
          m = pcb_set cur Ebx (r_ebx regs) m;
          m = pcb_set cur Edx (r_edx regs) m;
          m = pcb_set cur Ecx (r_ecx regs) m;
          m = pcb_set cur Eax (r_eax regs) m;
          m = pcb_set cur Cs (r_cs regs) m;
          m = pcb_set cur Eflags (r_eflags regs) m;
          m = pcb_set cur User_esp (useresp regs) m
      in pcb_set cur Ss (r_ss regs) m)"

text \<open>What the processor holds when it executes the \<open>iret\<close> that leaves the kernel: the general
  registers, and the frame on the stack.\<close>

record iret_state =
  i_edi :: u32
  i_esi :: u32
  i_ebx :: u32
  i_edx :: u32
  i_ecx :: u32
  i_eax :: u32
  i_ebp :: u32
  i_eip :: u32
  i_cs :: u32
  i_eflags :: u32
  i_esp :: u32
  i_ss :: u32

abbreviation (input) KERNEL_CS :: u32 where "KERNEL_CS \<equiv> 0x10"

abbreviation (input) KERNEL_DS :: u32 where "KERNEL_DS \<equiv> 0x18"

abbreviation (input) USER_CS :: u32 where "USER_CS \<equiv> 0x23"

abbreviation (input) USER_DS :: u32 where "USER_DS \<equiv> 0x2B"

text \<open>The flags pass through \<open>eax\<close>, so that register does not keep the value loaded for the process.
  The move to \<open>ebp\<close> is commented out in the source, so at the \<open>iret\<close> the register still holds what it
  holds in the body of \<open>change_task\<close>, the argument \<open>ebp\<close>.\<close>

definition change_task :: "symbols \<Rightarrow> u32 \<Rightarrow> u32 \<Rightarrow> registers \<Rightarrow> 'a proc_scheme \<Rightarrow> (iret_state \<times> 'a proc_scheme) res" where
  "change_task sy pde ebp regs s =
     (let s = cli s
      in res_bind (pq_peak (process_q s)) (\<lambda>curr_pcb.
         let s = s\<lparr>mem := save_pcb_regs curr_pcb regs (mem s)\<rparr>
         in res_bind (pq_rotate (process_q s)) (\<lambda>q.
            let s = s\<lparr>process_q := q\<rparr>
            in res_bind (pq_peak (process_q s)) (\<lambda>next_pcb.
               let get = pcb_get (mem s) next_pcb;
                   kernel = (get Cs = KERNEL_CS);
                   data_segment = (if kernel then KERNEL_DS else USER_DS);
                   code_segment = (if kernel then KERNEL_CS else USER_CS);
                   tmp_esp = (if kernel then get Esp else get User_esp);
                   s = s\<lparr>tss_esp0 := 0x00800000 - get Pid * 0x2000 - 4\<rparr>;
                   s = s\<lparr>pd := (pd s)[32 := init_4mb_user_pde pde (0x00400000 + get Pid * 0x00400000)]\<rparr>
               in res_bind (set_cr3 (pd_addr sy) s) (\<lambda>s.
                  let s = restore_flags (bit (get Eflags OR 0x286) 9) (send_eoi 0 s)
                  in Inr (\<lparr>i_edi = get Edi, i_esi = get Esi, i_ebx = get Ebx, i_edx = get Edx, i_ecx = get Ecx,
                      i_eax = get Eflags OR 0x286, i_ebp = ebp, i_eip = get Eip, i_cs = code_segment,
                      i_eflags = get Eflags OR 0x286, i_esp = tmp_esp, i_ss = data_segment\<rparr>, s))))))"

section \<open>Fields of control blocks\<close>

lemma load32_cong:
  "m' a = m a \<Longrightarrow> m' (a + 1) = m (a + 1) \<Longrightarrow> m' (a + 2) = m (a + 2) \<Longrightarrow> m' (a + 3) = m (a + 3) \<Longrightarrow>
    load32 m' a = load32 m a"
  by (simp add: load32_def)

lemma store32_other: "4 \<le> unat (a - b) \<Longrightarrow> store32 m b v a = m a"
  by (auto simp: store32_def)

lemma word_apart:
  fixes a b :: u32
  assumes "4 \<le> unat (a - b)" "4 \<le> unat (b - a)" and "j < 4"
  shows "4 \<le> unat (a + of_nat j - b)"
proof -
  have "unat (a - b) + unat (b - a) = 2 ^ 32"
    using assms(1) unat_lt32 [of a] unat_lt32 [of b] by (simp add: unat_sub_if' split: if_splits)
  then have "unat (a - b) + j < 2 ^ 32" using assms(2,3) by linarith
  moreover have "a + of_nat j - b = (a - b) + of_nat j" by simp
  ultimately have "unat (a + of_nat j - b) = unat (a - b) + j"
    using assms(3) by (simp only: unat_add_lem [THEN iffD1] unat_of_nat32) (simp add: unat_word_ariths unat_of_nat32)
  then show ?thesis using assms(1) by simp
qed

lemma load32_store32_other [mem_simps]:
  assumes "4 \<le> unat (a - b)" "4 \<le> unat (b - a)"
  shows "load32 (store32 m b v) a = load32 m a"
  using word_apart [OF assms, of 1] word_apart [OF assms, of 2] word_apart [OF assms, of 3] assms(1)
  by (intro load32_cong store32_other) simp_all

lemma field_index_inj: "field_index f = field_index g \<longleftrightarrow> f = g"
  by (cases f; cases g; simp)

lemma field_index_le: "field_index f \<le> 112"
  by (cases f) simp_all

lemma offset_apart:
  assumes "i \<noteq> k" "i \<le> 1000" "k \<le> 1000"
  shows "4 \<le> unat ((p + of_nat (4 * i)) - (p + of_nat (4 * k)) :: u32)"
proof (cases "k < i")
  case True
  then have "(p + of_nat (4 * i)) - (p + of_nat (4 * k)) = (of_nat (4 * (i - k)) :: u32)"
    by (simp add: of_nat_diff algebra_simps)
  moreover have "unat (of_nat (4 * (i - k)) :: u32) = 4 * (i - k)" using assms by (intro unat_of_nat32) simp
  ultimately show ?thesis using True by simp
next
  case False
  have "unat (of_nat (4 * i) - of_nat (4 * k) :: u32) = 2 ^ 32 + 4 * i - 4 * k"
    using assms False by (subst unat_minus_of_nat32_wrap) (simp_all add: unat_of_nat32 del: of_nat_mult)
  moreover have "(p + of_nat (4 * i)) - (p + of_nat (4 * k)) = (of_nat (4 * i) - of_nat (4 * k) :: u32)" by simp
  ultimately have "unat ((p + of_nat (4 * i)) - (p + of_nat (4 * k))) = 2 ^ 32 + 4 * i - 4 * k" by (simp only:)
  then show ?thesis using assms by simp
qed

lemma pcb_get_set [mem_simps]:
  "pcb_get (pcb_set p f v m) p g = (if f = g then v else pcb_get m p g)"
proof (cases "f = g")
  case True
  then show ?thesis by (simp add: pcb_get_def pcb_set_def load32_store32)
next
  case False
  have le: "field_index h \<le> 1000" for h using field_index_le [of h] by simp
  have "field_index g \<noteq> field_index f" using False by (simp add: field_index_inj)
  then have "4 \<le> unat (field_at p g - field_at p f)" "4 \<le> unat (field_at p f - field_at p g)"
    unfolding field_at_def by (intro offset_apart le; simp)+
  with False show ?thesis by (simp add: pcb_get_def pcb_set_def load32_store32_other)
qed

section \<open>The queue as a list\<close>

text \<open>
  The processes of a queue that holds \<open>n\<close>, front first. The slot of the \<open>i\<close>-th is \<open>front + i\<close>
  modulo 6, and the rear index is the slot of the last one.
\<close>

definition pq_inv :: "process_queue \<Rightarrow> nat \<Rightarrow> bool" where
  "pq_inv q n \<longleftrightarrow> length (pcbs q) = 6 \<and> 0 \<le> front q \<and> front q < 6 \<and> n \<le> 6 \<and> rear q = (front q + int n - 1) mod 6"

definition pq_items :: "process_queue \<Rightarrow> nat \<Rightarrow> u32 list" where
  "pq_items q n = map (\<lambda>i. pcbs q ! nat ((front q + int i) mod 6)) [0..<n]"

text \<open>
  A run of the two operations of a stack: \<open>Some v\<close> pushes, \<open>None\<close> pops. The reference is a list of
  at most \<open>cap\<close> items, for which a push on a full and a pop on an empty stack are not allowed.
\<close>

fun stack_exec :: "nat \<Rightarrow> 'v option list \<Rightarrow> 'v list \<Rightarrow> ('v list \<times> 'v list) option" where
  "stack_exec c [] st = Some ([], st)"
| "stack_exec c (Some v # ops) st = (if length st < c then stack_exec c ops (v # st) else None)"
| "stack_exec c (None # ops) [] = None"
| "stack_exec c (None # ops) (v # st) = map_option (\<lambda>(os, st). (v # os, st)) (stack_exec c ops st)"

fun queue_exec :: "('v \<Rightarrow> 'q \<Rightarrow> (int \<times> 'q) res) \<Rightarrow> ('q \<Rightarrow> ('v \<times> 'q) res) \<Rightarrow> 'v option list \<Rightarrow> 'q
    \<Rightarrow> ('v list \<times> 'q) res" where
  "queue_exec push pop [] q = Inr ([], q)"
| "queue_exec push pop (Some v # ops) q = res_bind (push v q) (\<lambda>(r, q). queue_exec push pop ops q)"
| "queue_exec push pop (None # ops) q =
     res_bind (pop q) (\<lambda>(v, q). res_bind (queue_exec push pop ops q) (\<lambda>(os, q). Inr (v # os, q)))"

locale bounded_stack =
  fixes cap :: nat
    and inv :: "'q \<Rightarrow> nat \<Rightarrow> bool"
    and items :: "'q \<Rightarrow> nat \<Rightarrow> 'v list"
    and push :: "'v \<Rightarrow> 'q \<Rightarrow> (int \<times> 'q) res"
    and pop :: "'q \<Rightarrow> ('v \<times> 'q) res"
    and peek :: "'q \<Rightarrow> 'v res"
  assumes push_law: "inv q n \<Longrightarrow> n < cap \<Longrightarrow>
      \<exists>q'. push v q = Inr (0, q') \<and> inv q' (Suc n) \<and> items q' (Suc n) = v # items q n"
    and pop_law: "inv q (Suc n) \<Longrightarrow>
      \<exists>q'. pop q = Inr (hd (items q (Suc n)), q') \<and> inv q' n \<and> items q' n = tl (items q (Suc n))"
    and peek_law: "inv q (Suc n) \<Longrightarrow> peek q = Inr (hd (items q (Suc n)))"
    and items_length: "inv q n \<Longrightarrow> length (items q n) = n"
begin

lemma exec_refines:
  "inv q (length st) \<Longrightarrow> items q (length st) = st \<Longrightarrow> stack_exec cap ops st = Some (outs, st') \<Longrightarrow>
    \<exists>q'. queue_exec push pop ops q = Inr (outs, q') \<and> inv q' (length st') \<and> items q' (length st') = st'"
proof (induction ops arbitrary: q st outs)
  case (Cons op ops)
  show ?case
  proof (cases op)
    case (Some v)
    with Cons.prems have "length st < cap" and rest: "stack_exec cap ops (v # st) = Some (outs, st')"
      by (auto split: if_splits)
    then obtain q1 where "push v q = Inr (0, q1)" "inv q1 (length (v # st))" "items q1 (length (v # st)) = v # st"
      using push_law [of q "length st" v] Cons.prems by auto
    with Cons.IH [of q1 "v # st"] rest Some show ?thesis by simp
  next
    case None
    with Cons.prems obtain v st1 os where st: "st = v # st1" "outs = v # os" "stack_exec cap ops st1 = Some (os, st')"
      by (cases st) auto
    with Cons.prems obtain q1 where "pop q = Inr (v, q1)" "inv q1 (length st1)" "items q1 (length st1) = st1"
      using pop_law [of q "length st1"] by auto
    with Cons.IH [of q1 st1 os] st None show ?thesis by auto
  qed
qed auto

end

lemma slot_pred:
  fixes f :: int
  assumes "0 \<le> f" "f < 6"
  shows "(if f - 1 < 0 then 5 else f - 1) = (f - 1) mod 6" "(if 6 \<le> f + 1 then 0 else f + 1) = (f + 1) mod 6"
proof -
  have "f \<in> {0, 1, 2, 3, 4, 5}" using assms by auto
  then show "(if f - 1 < 0 then 5 else f - 1) = (f - 1) mod 6" "(if 6 \<le> f + 1 then 0 else f + 1) = (f + 1) mod 6"
    by auto
qed

lemma slot_free:
  fixes f :: int
  assumes "i < 5"
  shows "(f - 1) mod 6 \<noteq> (f + int i) mod 6"
proof
  assume "(f - 1) mod 6 = (f + int i) mod 6"
  then have "(f + int i - (f - 1)) mod 6 = 0" by (metis mod_eq_dvd_iff mod_0_imp_dvd dvd_imp_mod_0)
  then have "(int i + 1) mod 6 = 0" by (simp add: algebra_simps)
  with assms show False by simp
qed

lemma pq_store_slot: "pq_store q (i mod 6) p = Inr (q\<lparr>pcbs := (pcbs q)[nat (i mod 6) := p]\<rparr>)"
  by (simp add: pq_store_def)

lemma pq_ref_slot: "pq_ref q (i mod 6) = Inr (pcbs q ! nat (i mod 6))"
  by (simp add: pq_ref_def)

lemma pq_enqueue_front_eq:
  assumes "pq_inv q n"
  shows "pq_enqueue_front p q = Inr (0, q\<lparr>front := (front q - 1) mod 6, pcbs := (pcbs q)[nat ((front q - 1) mod 6) := p]\<rparr>)"
proof -
  have "pq_enqueue_front p q = res_bind (pq_store (q\<lparr>front := (if front q - 1 < 0 then 5 else front q - 1)\<rparr>)
      (if front q - 1 < 0 then 5 else front q - 1) p) (\<lambda>q. Inr (0, q))"
    by (simp add: pq_enqueue_front_def Let_def)
  then show ?thesis using slot_pred(1) [of "front q"] assms by (simp add: pq_inv_def pq_store_slot del: mod_diff_left_eq)
qed

lemma pq_dequeue_eq:
  assumes "pq_inv q n"
  shows "pq_dequeue q = Inr (pcbs q ! nat (front q), q\<lparr>front := (front q + 1) mod 6\<rparr>)"
  using slot_pred(2) [of "front q"] assms by (auto simp: pq_inv_def pq_dequeue_def pq_ref_def Let_def split: if_splits)

lemma pq_items_Suc:
  "pq_items q (Suc n) = pcbs q ! nat (front q mod 6) # pq_items (q\<lparr>front := (front q + 1) mod 6\<rparr>) n"
  by (simp add: pq_items_def upt_conv_Cons map_Suc_upt [symmetric] del: upt_Suc) (simp add: mod_simps algebra_simps)

lemma pq_items_push:
  assumes "pq_inv q n" "n < 6"
  shows "pq_items (q\<lparr>front := (front q - 1) mod 6, pcbs := (pcbs q)[nat ((front q - 1) mod 6) := p]\<rparr>) (Suc n)
    = p # pq_items q n"
proof -
  have "nat ((front q - 1) mod 6) < length (pcbs q)" using assms(1) by (simp add: pq_inv_def nat_less_iff)
  moreover have "(pcbs q)[nat ((front q - 1) mod 6) := p] ! nat ((front q + int i) mod 6)
      = pcbs q ! nat ((front q + int i) mod 6)" if "i < n" for i
    using that assms(2) slot_free [of i "front q"] by (simp add: nth_list_update nat_eq_iff)
  moreover have "(front q - 1 + 1 + i) mod 6 = (front q + i) mod 6" for i by simp
  ultimately show ?thesis by (simp add: pq_items_Suc) (simp add: pq_items_def mod_simps)
qed

interpretation pq: bounded_stack 6 pq_inv pq_items pq_enqueue_front pq_dequeue pq_peak
proof
  fix q :: process_queue and n v
  assume inv: "pq_inv q n" "n < 6"
  let ?q = "q\<lparr>front := (front q - 1) mod 6, pcbs := (pcbs q)[nat ((front q - 1) mod 6) := v]\<rparr>"
  have "pq_inv ?q (Suc n)" using inv by (simp add: pq_inv_def mod_simps algebra_simps)
  then show "\<exists>q'. pq_enqueue_front v q = Inr (0, q') \<and> pq_inv q' (Suc n) \<and> pq_items q' (Suc n) = v # pq_items q n"
    using pq_enqueue_front_eq [OF inv(1)] pq_items_push [OF inv] by auto
next
  fix q :: process_queue and n
  assume inv: "pq_inv q (Suc n)"
  have "((front q + 1) mod 6 + int n - 1) mod 6 = (front q + int n) mod 6"
    using mod_add_left_eq [of "front q + 1" 6 "int n - 1"] by (simp add: algebra_simps)
  then have "pq_inv (q\<lparr>front := (front q + 1) mod 6\<rparr>) n" using inv by (simp add: pq_inv_def)
  then show "\<exists>q'. pq_dequeue q = Inr (hd (pq_items q (Suc n)), q') \<and> pq_inv q' n \<and> pq_items q' n = tl (pq_items q (Suc n))"
    using inv by (simp add: pq_dequeue_eq pq_items_Suc) (simp add: pq_inv_def)
  show "pq_peak q = Inr (hd (pq_items q (Suc n)))"
    using inv by (simp add: pq_peak_def pq_ref_def pq_items_Suc pq_inv_def)
next
  fix q :: process_queue and n
  show "length (pq_items q n) = n" by (simp add: pq_items_def)
qed

lemma pq_init_inv:
  assumes "length (pcbs (process_q s)) = 6"
  shows "pq_inv (process_q (pq_init s)) 0"
proof -
  have "fold (\<lambda>i q. q\<lparr>pcbs := (pcbs q)[i := v]\<rparr>) is q = q\<lparr>pcbs := fold (\<lambda>i xs. xs[i := v]) is (pcbs q)\<rparr>"
    for "is" v and q :: process_queue by (induction "is" arbitrary: q) simp_all
  then show ?thesis using assms
    by (simp add: pq_init_def pq_inv_def fold_list_update del: upt_rec_numeral)
qed

text \<open>Appending at the slot behind the rear.\<close>

lemma pq_items_append:
  assumes "pq_inv q n" "n < 6"
  shows "pq_items (q\<lparr>rear := (rear q + 1) mod 6, pcbs := (pcbs q)[nat ((rear q + 1) mod 6) := p]\<rparr>) (Suc n)
      = pq_items q n @ [p]"
    "pq_inv (q\<lparr>rear := (rear q + 1) mod 6, pcbs := (pcbs q)[nat ((rear q + 1) mod 6) := p]\<rparr>) (Suc n)"
proof -
  have slot: "(rear q + 1) mod 6 = (front q + int n) mod 6"
    using assms(1) mod_add_left_eq [of "front q + int n - 1" 6 1] by (simp add: pq_inv_def)
  have len: "nat ((front q + int n) mod 6) < length (pcbs q)" using assms(1) by (simp add: pq_inv_def nat_less_iff)
  have other: "(front q + int i) mod 6 \<noteq> (front q + int n) mod 6" if "i < n" for i
  proof
    assume "(front q + int i) mod 6 = (front q + int n) mod 6"
    then have "(front q + int n - (front q + int i)) mod 6 = 0" by (metis mod_eq_dvd_iff mod_0_imp_dvd dvd_imp_mod_0)
    then have "(int n - int i) mod 6 = 0" by (simp add: algebra_simps)
    moreover have "(int n - int i) mod 6 = int n - int i" using that assms(2) by simp
    ultimately show False using that by simp
  qed
  show "pq_items (q\<lparr>rear := (rear q + 1) mod 6, pcbs := (pcbs q)[nat ((rear q + 1) mod 6) := p]\<rparr>) (Suc n)
      = pq_items q n @ [p]"
    unfolding slot using len other [THEN not_sym] by (simp add: pq_items_def nth_list_update nat_eq_iff)
  show "pq_inv (q\<lparr>rear := (rear q + 1) mod 6, pcbs := (pcbs q)[nat ((rear q + 1) mod 6) := p]\<rparr>) (Suc n)"
    using assms slot by (simp add: pq_inv_def)
qed

section \<open>Properties of the queue\<close>

text \<open>
  C28. The process queue is a stack of at most six processes for its clients: after \<open>pq_init\<close>,
  any sequence of \<open>pq_enqueue_front\<close> and \<open>pq_dequeue\<close> calls that never exceeds six and never
  removes from an empty queue returns the processes last in, first out, and \<open>pq_peak\<close> gives
  the one on top. The indices wrap around without ever leaving the array.
\<close>

theorem pq_is_stack:
  assumes "length (pcbs (process_q s)) = 6" and "stack_exec 6 ops [] = Some (outs, st)"
  shows "\<exists>q. queue_exec pq_enqueue_front pq_dequeue ops (process_q (pq_init s)) = Inr (outs, q)
    \<and> pq_items q (length st) = st \<and> (st \<noteq> [] \<longrightarrow> pq_peak q = Inr (hd st))"
proof -
  have "pq_items (process_q (pq_init s)) 0 = []" by (simp add: pq_items_def)
  then obtain q where q: "queue_exec pq_enqueue_front pq_dequeue ops (process_q (pq_init s)) = Inr (outs, q)"
    "pq_inv q (length st)" "pq_items q (length st) = st"
    using pq.exec_refines [of "process_q (pq_init s)" "[]" ops outs st] pq_init_inv [OF assms(1)] assms(2) by auto
  moreover have "pq_peak q = Inr (hd st)" if "st \<noteq> []"
    using that q pq.peek_law [of q "length (tl st)"] by (cases st) auto
  ultimately show ?thesis by blast
qed

definition proc_boot :: proc where
  "proc_boot = page.extend page_boot \<lparr>process_count = 0, process_q = \<lparr>pcbs = [0, 0, 0, 0, 0, 0], front = 0, rear = 0\<rparr>,
     primary_shell_count = 0, tss_esp0 = 0\<rparr>"

theorem pq_is_stack_witness:
  "\<exists>q. queue_exec pq_enqueue_front pq_dequeue [Some 1, Some 2, Some 3, None, None, Some 4] (process_q (pq_init proc_boot))
     = Inr ([3, 2], q) \<and> pq_items q 2 = [4, 1] \<and> pq_peak q = Inr 4"
  using pq_is_stack [of proc_boot "[Some 1, Some 2, Some 3, None, None, Some 4]" "[3, 2]" "[4, 1]"]
  by (simp add: proc_boot_def page_boot_def page.extend_def numeral_2_eq_2)

lemma pq_rotate_step:
  assumes "pq_inv q (Suc n)" and "rear q < 5"
  shows "\<exists>q'. pq_rotate q = Inr q' \<and> pq_inv q' (Suc n) \<and> rear q' = rear q + 1
    \<and> pq_items q' (Suc n) = tl (pq_items q (Suc n)) @ [hd (pq_items q (Suc n))]"
proof -
  obtain q1 where q1: "pq_dequeue q = Inr (hd (pq_items q (Suc n)), q1)" "pq_inv q1 n" "pq_items q1 n = tl (pq_items q (Suc n))"
    using pq.pop_law [OF assms(1)] by auto
  have n: "n < 6" using assms by (simp add: pq_inv_def)
  have rear: "rear q1 = rear q" using q1(1) by (auto simp: pq_dequeue_eq [OF assms(1)])
  have bound: "0 \<le> rear q" using assms by (simp add: pq_inv_def)
  then have "(rear q + 1) mod 6 = rear q + 1" using assms(2) by simp
  then show ?thesis
    using assms(2) q1 rear pq_items_append [OF q1(2) n, of "hd (pq_items q (Suc n))"] bound
    by (simp add: pq_rotate_def pq_store_def Let_def)
qed

text \<open>
  \<open>pq_rotate\<close> moves the front process behind the last one as long as the rear index is
  below 5. With the rear at 5 it writes outside the array: the index is not wrapped around.
\<close>

theorem pq_rotate_correct:
  assumes "pq_inv q (Suc n)"
  shows "if rear q < 5
    then \<exists>q'. pq_rotate q = Inr q' \<and> pq_inv q' (Suc n) \<and> pq_items q' (Suc n) = tl (pq_items q (Suc n)) @ [hd (pq_items q (Suc n))]
    else pq_rotate q = Inl Bounds"
proof -
  have "rear q1 = rear q" if "pq_dequeue q = Inr (p, q1)" for p q1
    using that by (auto simp: pq_dequeue_eq [OF assms])
  then have "pq_rotate q = Inl Bounds" if "\<not> rear q < 5"
    using that pq_dequeue_eq [OF assms] by (simp add: pq_rotate_def pq_store_def Let_def)
  then show ?thesis using pq_rotate_step [OF assms] by auto
qed

theorem pq_rotate_correct_witness:
  "\<exists>q'. pq_rotate \<lparr>pcbs = [10, 20, 0, 0, 0, 0], front = 0, rear = 1\<rparr> = Inr q' \<and> pq_items q' 2 = [20, 10]"
  using pq_rotate_correct [of "\<lparr>pcbs = [10, 20, 0, 0, 0, 0], front = 0, rear = 1\<rparr>" 1]
  by (auto simp: pq_inv_def pq_items_def numeral_2_eq_2)

text \<open>
  \<open>pq_enqueue\<close> puts the control block of a process number of at most six behind the last
  process, wrapping around, and refuses larger numbers without touching the queue.
\<close>

theorem pq_enqueue_appends:
  assumes "pq_inv q n" and "n < 6"
  shows "if 6 < num then pq_enqueue num q = Inr (-1, q)
    else \<exists>q'. pq_enqueue num q = Inr (0, q') \<and> pq_inv q' (Suc n) \<and> pq_items q' (Suc n) = pq_items q n @ [pcb_addr num]"
proof -
  have bound: "0 \<le> rear q" "rear q < 6" using assms by (simp_all add: pq_inv_def)
  then have "(if 5 \<le> rear q then q\<lparr>rear := 0\<rparr> else q\<lparr>rear := rear q + 1\<rparr>) = q\<lparr>rear := (rear q + 1) mod 6\<rparr>"
    using slot_pred(2) [of "rear q"] by auto
  then have "pq_enqueue num q = (if 6 < num then Inr (-1, q)
      else Inr (0, q\<lparr>rear := (rear q + 1) mod 6, pcbs := (pcbs q)[nat ((rear q + 1) mod 6) := pcb_addr num]\<rparr>))"
    by (simp add: pq_enqueue_def Let_def pq_store_slot)
  then show ?thesis using pq_items_append [OF assms, of "pcb_addr num"] by simp
qed

theorem pq_enqueue_appends_witness:
  "\<exists>q'. pq_enqueue 3 \<lparr>pcbs = [10, 0, 0, 0, 0, 20], front = 5, rear = 0\<rparr> = Inr (0, q') \<and> pq_items q' (Suc 2) = [20, 10, 0x7FA000]"
proof -
  have "pq_items \<lparr>pcbs = [10, 0, 0, 0, 0, 20], front = 5, rear = 0\<rparr> 2 = [20, 10]"
    by (simp add: pq_items_def upt_rec)
  then show ?thesis
    using pq_enqueue_appends [of "\<lparr>pcbs = [10, 0, 0, 0, 0, 20], front = 5, rear = 0\<rparr>" 2 3]
    by (auto simp: pq_inv_def pcb_addr_def)
qed

section \<open>Properties of the task switch\<close>

text \<open>Saving writes only the first 52 bytes of the block.\<close>

lemma pcb_set_other: "4 \<le> unat (a - field_at p f) \<Longrightarrow> pcb_set p f v m a = m a"
  by (simp add: pcb_set_def store32_other)

lemma saved_fields:
  "pcb_get (save_pcb_regs p regs m) p f = (case f of Eip \<Rightarrow> r_eip regs | Esp \<Rightarrow> r_esp regs | Ebp \<Rightarrow> r_ebp regs
     | Edi \<Rightarrow> r_edi regs | Esi \<Rightarrow> r_esi regs | Ebx \<Rightarrow> r_ebx regs | Edx \<Rightarrow> r_edx regs | Ecx \<Rightarrow> r_ecx regs
     | Eax \<Rightarrow> r_eax regs | Cs \<Rightarrow> r_cs regs | Eflags \<Rightarrow> r_eflags regs | User_esp \<Rightarrow> useresp regs | Ss \<Rightarrow> r_ss regs
     | _ \<Rightarrow> pcb_get m p f)"
  by (cases f) (simp_all add: save_pcb_regs_def Let_def pcb_get_set)

lemma saved_outside:
  assumes "52 \<le> unat (a - p)"
  shows "save_pcb_regs p regs m a = m a"
proof -
  have "4 \<le> unat (a - field_at p f)" if "field_index f \<le> 12" for f
  proof -
    have "unat ((a - p) - of_nat (4 * field_index f)) = unat (a - p) - 4 * field_index f"
      using assms that by (intro unat_minus_of_nat32) simp
    moreover have "a - field_at p f = (a - p) - of_nat (4 * field_index f)" by (simp add: field_at_def)
    ultimately have "unat (a - field_at p f) = unat (a - p) - 4 * field_index f" by (simp only:)
    then show ?thesis using assms that by simp
  qed
  then show ?thesis by (simp add: save_pcb_regs_def Let_def pcb_set_other)
qed

lemma u32_1_6: "(i :: u32) \<in> {1..6} \<Longrightarrow> i \<in> {1, 2, 3, 4, 5, 6}"
proof -
  assume "i \<in> {1..6}"
  then have "unat i \<in> {1, 2, 3, 4, 5, 6}" by (auto simp: word_le_nat_alt)
  then show ?thesis by (auto simp: word_unat_eq_iff)
qed

lemma pcbs_apart:
  assumes "i \<in> {1..6}" "j \<in> {1..6}" "i \<noteq> j" "k \<le> 8000"
  shows "580 \<le> unat (pcb_addr j + of_nat k - pcb_addr i)"
proof -
  let ?c = "pcb_addr j - pcb_addr i"
  have "8192 \<le> unat ?c \<and> unat ?c \<le> 2 ^ 32 - 8192"
    using u32_1_6 [OF assms(1)] u32_1_6 [OF assms(2)] assms(3) by (elim insertE emptyE; simp add: pcb_addr_def)
  moreover from this have "unat (?c + of_nat k) = unat ?c + k"
    using assms(4) by (simp add: unat_word_ariths unat_of_nat32)
  moreover have "pcb_addr j + of_nat k - pcb_addr i = ?c + of_nat k" by simp
  ultimately have "unat (pcb_addr j + of_nat k - pcb_addr i) = unat ?c + k" "8192 \<le> unat ?c" by (simp_all only:)
  then show ?thesis by simp
qed

lemma pcb_in_kernel: "i \<in> {1..6} \<Longrightarrow> k \<le> 8000 \<Longrightarrow> \<not> in_user_page (pcb_addr i + of_nat k)"
proof -
  assume i: "i \<in> {1..6}" and k: "k \<le> 8000"
  have "unat (pcb_addr i) \<le> 0x7FE000"
    using u32_1_6 [OF i] by (elim insertE emptyE; simp add: pcb_addr_def)
  then have "unat (pcb_addr i + of_nat k) < 0x8000000" using k by (simp add: unat_word_ariths unat_of_nat32)
  then show ?thesis by (simp add: in_user_page_def word_less_nat_alt unat_sub_if' word_le_nat_alt)
qed

lemma pcb_get_cong:
  assumes "\<And>k. k < 580 \<Longrightarrow> m' (p + of_nat k) = m (p + of_nat k)"
  shows "pcb_get m' p f = pcb_get m p f"
proof -
  have "m' (field_at p f + of_nat j) = m (field_at p f + of_nat j)" if "j < 4" for j
    using assms [of "4 * field_index f + j"] that field_index_le [of f] by (simp add: field_at_def add.assoc)
  from this [of 0] this [of 1] this [of 2] this [of 3] show ?thesis
    unfolding pcb_get_def by (intro load32_cong) simp_all
qed

lemma other_pcb_kept:
  assumes "i \<in> {1..6}" "j \<in> {1..6}" "i \<noteq> j"
  shows "pcb_get (save_pcb_regs (pcb_addr i) regs m) (pcb_addr j) f = pcb_get m (pcb_addr j) f"
proof (rule pcb_get_cong)
  fix k :: nat
  assume "k < 580"
  then have "580 \<le> unat (pcb_addr j + of_nat k - pcb_addr i)" using assms by (intro pcbs_apart) simp_all
  then show "save_pcb_regs (pcb_addr i) regs m (pcb_addr j + of_nat k) = m (pcb_addr j + of_nat k)"
    by (intro saved_outside) simp
qed

lemma set_cr3_process:
  assumes "32 < length (pd s)" "j \<in> {1..6}"
  shows "set_cr3 p (s\<lparr>pd := (pd s)[32 := init_4mb_user_pde pde (0x400000 + j * 0x400000)]\<rparr>)
    = Inr (s\<lparr>pd := (pd s)[32 := init_4mb_user_pde pde (0x400000 + j * 0x400000)], cr3 := p, frames := saved_frames s,
             user_frame := Some (j + 1), mem := map_user (saved_frames s (j + 1)) (mem s)\<rparr>)"
proof -
  have "0x400000 + j * 0x400000 = push_bit 22 (j + 1)" by (simp add: push_bit_eq_mult algebra_simps)
  moreover have "2 \<le> j + 1 \<and> j + 1 < 1024" using u32_1_6 [OF assms(2)] by (elim insertE emptyE; simp)
  ultimately show ?thesis using set_cr3_pde [OF assms(1), of "j + 1" p pde] by simp
qed

lemma change_task_step:
  assumes inv: "pq_inv (process_q s) (Suc (Suc n))"
    and items: "pq_items (process_q s) (Suc (Suc n)) = pcb_addr i # pcb_addr j # rest"
    and "rear (process_q s) < 5" "32 < length (pd s)"
    and ij: "i \<in> {1..6}" "j \<in> {1..6}" "i \<noteq> j"
    and pid: "pcb_get (mem s) (pcb_addr j) Pid = j"
  shows "\<exists>r s'. change_task sy pde ebp regs s = Inr (r, s')
    \<and> pq_inv (process_q s') (Suc (Suc n)) \<and> pq_items (process_q s') (Suc (Suc n)) = pcb_addr j # rest @ [pcb_addr i]
    \<and> rear (process_q s') = rear (process_q s) + 1 \<and> length (pd s') = length (pd s)
    \<and> (\<forall>a. \<not> in_user_page a \<longrightarrow> mem s' a = save_pcb_regs (pcb_addr i) regs (mem s) a)
    \<and> user_frame s' = Some (j + 1) \<and> tss_esp0 s' = pcb_addr j - 4
    \<and> i_eip r = pcb_get (mem s) (pcb_addr j) Eip \<and> i_edi r = pcb_get (mem s) (pcb_addr j) Edi
    \<and> i_esi r = pcb_get (mem s) (pcb_addr j) Esi \<and> i_ebx r = pcb_get (mem s) (pcb_addr j) Ebx
    \<and> i_ecx r = pcb_get (mem s) (pcb_addr j) Ecx \<and> i_edx r = pcb_get (mem s) (pcb_addr j) Edx
    \<and> i_eflags r = pcb_get (mem s) (pcb_addr j) Eflags OR 0x286
    \<and> i_eax r = pcb_get (mem s) (pcb_addr j) Eflags OR 0x286 \<and> i_ebp r = ebp
    \<and> (if pcb_get (mem s) (pcb_addr j) Cs = KERNEL_CS
        then i_cs r = KERNEL_CS \<and> i_ss r = KERNEL_DS \<and> i_esp r = pcb_get (mem s) (pcb_addr j) Esp
        else i_cs r = USER_CS \<and> i_ss r = USER_DS \<and> i_esp r = pcb_get (mem s) (pcb_addr j) User_esp)"
proof -
  have peak: "pq_peak (process_q s) = Inr (pcb_addr i)" using pq.peek_law [OF inv] items by simp
  obtain q where q: "pq_rotate (process_q s) = Inr q" "pq_inv q (Suc (Suc n))"
    "pq_items q (Suc (Suc n)) = pcb_addr j # rest @ [pcb_addr i]" "rear q = rear (process_q s) + 1"
    using pq_rotate_step [OF inv assms(3)] items by auto
  have peak': "pq_peak q = Inr (pcb_addr j)" using pq.peek_law [OF q(2)] q(3) by simp
  let ?get = "pcb_get (mem s) (pcb_addr j)"
  let ?t = "(cli s)\<lparr>mem := save_pcb_regs (pcb_addr i) regs (mem s), process_q := q, tss_esp0 := 0x800000 - j * 0x2000 - 4\<rparr>"
  obtain t' where t': "set_cr3 (pd_addr sy) (?t\<lparr>pd := (pd s)[32 := init_4mb_user_pde pde (0x400000 + j * 0x400000)]\<rparr>) = Inr t'"
    "user_frame t' = Some (j + 1)" "process_q t' = q" "length (pd t') = length (pd s)" "tss_esp0 t' = 0x800000 - j * 0x2000 - 4"
    "\<And>a. \<not> in_user_page a \<Longrightarrow> mem t' a = save_pcb_regs (pcb_addr i) regs (mem s) a"
    using set_cr3_process [of ?t j "pd_addr sy" pde] assms(4) ij by (simp add: cli_def map_user_simps)
  define r where "r = \<lparr>i_edi = ?get Edi, i_esi = ?get Esi, i_ebx = ?get Ebx, i_edx = ?get Edx, i_ecx = ?get Ecx,
      i_eax = ?get Eflags OR 0x286, i_ebp = ebp, i_eip = ?get Eip, i_cs = (if ?get Cs = KERNEL_CS then KERNEL_CS else USER_CS),
      i_eflags = ?get Eflags OR 0x286, i_esp = (if ?get Cs = KERNEL_CS then ?get Esp else ?get User_esp),
      i_ss = (if ?get Cs = KERNEL_CS then KERNEL_DS else USER_DS)\<rparr>"
  define s' where "s' = restore_flags (bit (?get Eflags OR 0x286) 9) (send_eoi 0 t')"
  have "change_task sy pde ebp regs s = Inr (r, s')"
    using t'(1) unfolding r_def s'_def
    by (simp add: change_task_def Let_def cli_def peak q peak' other_pcb_kept [OF ij] pid)
  moreover have "process_q s' = q" "length (pd s') = length (pd s)" "user_frame s' = Some (j + 1)"
    "tss_esp0 s' = pcb_addr j - 4" "mem s' = mem t'"
    using t' by (simp_all add: s'_def pcb_addr_def send_eoi.simps outb_def restore_flags_def)
  ultimately show ?thesis using q t'(6) by (intro exI [of _ r] exI [of _ s']) (simp add: r_def)
qed

lemma kernel_pcb_kept:
  assumes "i \<in> {1..6}" and "\<And>a. \<not> in_user_page a \<Longrightarrow> m' a = m a"
  shows "pcb_get m' (pcb_addr i) f = pcb_get m (pcb_addr i) f"
  using assms(2) pcb_in_kernel [OF assms(1)] by (intro pcb_get_cong) simp

text \<open>
  C3. Two switches bring a preempted user process back. With two processes in the queue and room
  before the end of its array (the rear index is not wrapped around), both switches return: if
  process \<open>i\<close> is switched out, process \<open>j\<close> runs and changes only user memory, and is switched out in
  turn, then process \<open>i\<close> resumes at the instruction, with the stack pointer and the registers \<open>edi\<close>,
  \<open>esi\<close>, \<open>ebx\<close>, \<open>ecx\<close> and \<open>edx\<close> it was interrupted with, in user mode and in its own frame; the flags
  come back with the bits of 0x286 set. Two registers do not come back: \<open>eax\<close> holds the new flags,
  and \<open>ebp\<close> what it held in \<open>change_task\<close>.
\<close>

theorem switch_resumes:
  assumes "pq_inv (process_q s) 2" "pq_items (process_q s) 2 = [pcb_addr i, pcb_addr j]"
    and "rear (process_q s) < 4" "32 < length (pd s)" "i \<in> {1..6}" "j \<in> {1..6}" "i \<noteq> j"
    and "pcb_get (mem s) (pcb_addr i) Pid = i" "pcb_get (mem s) (pcb_addr j) Pid = j"
    and "r_cs regs1 \<noteq> KERNEL_CS"
  shows "\<exists>r1 s1. change_task sy pde ebp1 regs1 s = Inr (r1, s1) \<and> user_frame s1 = Some (j + 1)
    \<and> (\<forall>m. (\<forall>a. \<not> in_user_page a \<longrightarrow> m a = mem s1 a) \<longrightarrow>
        (\<exists>r2 s2. change_task sy pde ebp2 regs2 (s1\<lparr>mem := m\<rparr>) = Inr (r2, s2)
          \<and> pq_items (process_q s2) 2 = [pcb_addr i, pcb_addr j] \<and> user_frame s2 = Some (i + 1) \<and> tss_esp0 s2 = pcb_addr i - 4
          \<and> i_eip r2 = r_eip regs1 \<and> i_cs r2 = USER_CS \<and> i_esp r2 = useresp regs1 \<and> i_ss r2 = USER_DS
          \<and> i_edi r2 = r_edi regs1 \<and> i_esi r2 = r_esi regs1 \<and> i_ebx r2 = r_ebx regs1 \<and> i_ecx r2 = r_ecx regs1
          \<and> i_edx r2 = r_edx regs1 \<and> i_eflags r2 = r_eflags regs1 OR 0x286
          \<and> i_eax r2 = r_eflags regs1 OR 0x286 \<and> i_ebp r2 = ebp2))"
proof -
  have two: "2 = Suc (Suc 0)" by simp
  obtain r1 s1 where s1: "change_task sy pde ebp1 regs1 s = Inr (r1, s1)" "user_frame s1 = Some (j + 1)"
    "pq_inv (process_q s1) (Suc (Suc 0))" "pq_items (process_q s1) (Suc (Suc 0)) = [pcb_addr j, pcb_addr i]"
    "rear (process_q s1) < 5" "32 < length (pd s1)"
    "\<And>a. \<not> in_user_page a \<Longrightarrow> mem s1 a = save_pcb_regs (pcb_addr i) regs1 (mem s) a"
    using change_task_step [of s 0 i j "[]" sy pde ebp1 regs1] assms(1-9) by (auto simp: two)
  show ?thesis
  proof (rule exI [of _ r1], rule exI [of _ s1], intro conjI allI impI s1(1,2))
    fix m
    assume m: "\<forall>a. \<not> in_user_page a \<longrightarrow> m a = mem s1 a"
    have get: "pcb_get m (pcb_addr i) f = pcb_get (save_pcb_regs (pcb_addr i) regs1 (mem s)) (pcb_addr i) f" for f
      using assms(5) m s1(7) by (intro kernel_pcb_kept) simp_all
    then have pid: "pcb_get m (pcb_addr i) Pid = i" using assms(8) by (simp add: saved_fields)
    obtain r2 s2 where "change_task sy pde ebp2 regs2 (s1\<lparr>mem := m\<rparr>) = Inr (r2, s2)"
      "pq_items (process_q s2) 2 = [pcb_addr i, pcb_addr j]" "user_frame s2 = Some (i + 1)" "tss_esp0 s2 = pcb_addr i - 4"
      "i_eip r2 = r_eip regs1 \<and> i_edi r2 = r_edi regs1 \<and> i_esi r2 = r_esi regs1 \<and> i_ebx r2 = r_ebx regs1
        \<and> i_ecx r2 = r_ecx regs1 \<and> i_edx r2 = r_edx regs1 \<and> i_eflags r2 = r_eflags regs1 OR 0x286
        \<and> i_eax r2 = r_eflags regs1 OR 0x286 \<and> i_ebp r2 = ebp2"
      "i_cs r2 = USER_CS \<and> i_ss r2 = USER_DS \<and> i_esp r2 = useresp regs1"
      using change_task_step [of "s1\<lparr>mem := m\<rparr>" 0 j i "[]" sy pde ebp2 regs2] s1(3-6) assms(5-7,10) pid
      by (auto simp: get saved_fields numeral_2_eq_2)
    then show "\<exists>r2 s2. change_task sy pde ebp2 regs2 (s1\<lparr>mem := m\<rparr>) = Inr (r2, s2)
          \<and> pq_items (process_q s2) 2 = [pcb_addr i, pcb_addr j] \<and> user_frame s2 = Some (i + 1) \<and> tss_esp0 s2 = pcb_addr i - 4
          \<and> i_eip r2 = r_eip regs1 \<and> i_cs r2 = USER_CS \<and> i_esp r2 = useresp regs1 \<and> i_ss r2 = USER_DS
          \<and> i_edi r2 = r_edi regs1 \<and> i_esi r2 = r_esi regs1 \<and> i_ebx r2 = r_ebx regs1 \<and> i_ecx r2 = r_ecx regs1
          \<and> i_edx r2 = r_edx regs1 \<and> i_eflags r2 = r_eflags regs1 OR 0x286
          \<and> i_eax r2 = r_eflags regs1 OR 0x286 \<and> i_ebp r2 = ebp2"
      by blast
  qed
qed

definition two_procs :: proc where
  "two_procs = proc_boot\<lparr>process_count := 2, process_q := \<lparr>pcbs = [pcb_addr 1, pcb_addr 2, 0, 0, 0, 0], front = 0, rear = 1\<rparr>,
     mem := pcb_set (pcb_addr 1) Pid 1 (pcb_set (pcb_addr 2) Pid 2 (\<lambda>_. 0))\<rparr>"

definition sample_regs :: registers where
  "sample_regs = \<lparr>r_edi = 1, r_esi = 2, r_ebp = 3, r_esp = 4, r_ebx = 5, r_edx = 6, r_ecx = 7, r_eax = 8, int_num = 0,
     error_code = 0, r_eip = 0x8048100, r_cs = USER_CS, r_eflags = 0x202, useresp = 0x83FFF00, r_ss = USER_DS\<rparr>"

lemma two_procs_pids:
  "pcb_get (mem two_procs) (pcb_addr 1) Pid = 1" "pcb_get (mem two_procs) (pcb_addr 2) Pid = 2"
  by (simp_all add: two_procs_def pcb_get_set)
    (simp add: pcb_get_def pcb_set_def field_at_def pcb_addr_def mem_simps)

theorem switch_resumes_witness:
  "\<exists>r1 s1 r2 s2. change_task sample_symbols 0 1 sample_regs two_procs = Inr (r1, s1)
     \<and> change_task sample_symbols 0 2 sample_regs s1 = Inr (r2, s2) \<and> i_eip r2 = 0x8048100 \<and> i_esp r2 = 0x83FFF00
     \<and> i_ebx r2 = 5 \<and> i_eax r2 = 0x286 \<and> i_ebp r2 = 2"
proof -
  have init: "pq_inv (process_q two_procs) 2" "pq_items (process_q two_procs) 2 = [pcb_addr 1, pcb_addr 2]"
    "rear (process_q two_procs) < 4" "32 < length (pd two_procs)"
    by (simp_all add: two_procs_def pq_inv_def pq_items_def proc_boot_def page_boot_def page.extend_def numeral_2_eq_2)
  have "r_cs sample_regs \<noteq> KERNEL_CS" by (simp add: sample_regs_def)
  from switch_resumes [OF init _ _ _ two_procs_pids this, of sample_symbols 0 1 2 sample_regs] show ?thesis
    apply (simp add: sample_regs_def)
    apply (elim exE conjE)
    subgoal for r1 s1 by (drule spec [of _ "mem s1"]) auto
    done
qed

end
