(* ===== verification/Filesys.thy ===== *)
theory Filesys
  imports Process
begin

text \<open>
  The read-only file system of \<^verbatim>\<open>filesys_mod.c\<close> on its image in memory. The global \<open>fs_info\<close> is a
  record; the image itself, inodes and data blocks, is read from byte memory at the addresses the
  code computes. A local \<open>dentry_t\<close> is a record, and a null pointer to one is \<open>None\<close>. Results of
  type \<open>int32_t\<close> are 32-bit words, so -1 is the word with all bits set.
\<close>

section \<open>State\<close>

record dentry =
  dname :: "u8 list"
  dtype :: u8
  dinode :: u32

record boot_block =
  filesys_ptr :: u32
  num_dir_entries :: u32
  num_inodes :: u32
  num_data_blocks :: u32
  dir_entries :: "u32 list"
  inode_blocks :: u32
  data_blocks :: u32

record fs = proc +
  fs_info :: boot_block
  dir_read_count :: u32

abbreviation (input) KB4 :: u32 where "KB4 \<equiv> 4096"

abbreviation (input) MAX_DENTRIES :: nat where "MAX_DENTRIES \<equiv> 63"

abbreviation (input) MAX_DBLOCKS_PER_FILE :: int where "MAX_DBLOCKS_PER_FILE \<equiv> 1023"

section \<open>Initialisation\<close>

text \<open>The loop that records the address of every directory entry; the array has 63 elements.\<close>

definition dentry_loop :: "u32 \<Rightarrow> boot_block \<Rightarrow> u32 \<times> boot_block" where
  "dentry_loop filename_ptr fi =
     fold (\<lambda>d_idx (p, fi). (p + 64, fi\<lparr>dir_entries := (dir_entries fi)[d_idx := p]\<rparr>)) [0..<MAX_DENTRIES] (filename_ptr, fi)"

definition filesys_init :: "u32 \<Rightarrow> 'a fs_scheme \<Rightarrow> 'a fs_scheme" where
  "filesys_init file_sys_start s =
     (let m = mem s;
          fi = (fs_info s)\<lparr>filesys_ptr := file_sys_start\<rparr>;
          fi = fi\<lparr>num_dir_entries := load32 m (filesys_ptr fi)\<rparr>;
          fi = fi\<lparr>filesys_ptr := filesys_ptr fi + 4\<rparr>;
          fi = fi\<lparr>num_inodes := load32 m (filesys_ptr fi)\<rparr>;
          fi = fi\<lparr>filesys_ptr := filesys_ptr fi + 4\<rparr>;
          fi = fi\<lparr>num_data_blocks := load32 m (filesys_ptr fi)\<rparr>;
          fi = fi\<lparr>filesys_ptr := filesys_ptr fi + 4\<rparr>;
          fi = fi\<lparr>filesys_ptr := filesys_ptr fi + 13 * 4\<rparr>;
          (filename_ptr, fi) = dentry_loop (filesys_ptr fi) fi;
          fi = fi\<lparr>filesys_ptr := file_sys_start\<rparr>;
          fi = fi\<lparr>inode_blocks := filename_ptr\<rparr>;
          fi = fi\<lparr>data_blocks := inode_blocks fi + num_inodes fi * KB4\<rparr>
      in s\<lparr>fs_info := fi\<rparr>)"

section \<open>Directory entries\<close>

text \<open>The bytes of a string, or no result when no zero byte follows.\<close>

definition c_string :: "cptr \<Rightarrow> u8 list res" where
  "c_string p = (case strlen p of None \<Rightarrow> Inl No_return | Some n \<Rightarrow> Inr (map (\<lambda>i. p (of_nat i)) [0..<unat n]))"

text \<open>\<open>strcpy\<close> into the array \<open>name[33]\<close>, then the type byte and the inode number of the entry at \<open>p\<close>.\<close>

definition fill_dentry :: "mem \<Rightarrow> cptr \<Rightarrow> u32 \<Rightarrow> dentry \<Rightarrow> dentry res" where
  "fill_dentry m name p d =
     res_bind (c_string name) (\<lambda>xs.
       if 32 < length xs then Inl Bounds
       else Inr (d\<lparr>dname := xs @ 0 # drop (Suc (length xs)) (dname d), dtype := m (p + 32), dinode := load32 m (p + 36)\<rparr>))"

definition dir_entry :: "boot_block \<Rightarrow> u32 \<Rightarrow> u32 res" where
  "dir_entry fi i = (if unat i < MAX_DENTRIES then Inr (dir_entries fi ! unat i) else Inl Bounds)"

function find_name :: "boot_block \<Rightarrow> mem \<Rightarrow> cptr \<Rightarrow> u8 \<Rightarrow> u32 \<Rightarrow> dentry \<Rightarrow> (u32 \<times> dentry) res" where
  "find_name fi m fname fname_len check d =
     (if check < num_dir_entries fi then
        (case dir_entry fi check of Inl e \<Rightarrow> Inl e
         | Inr p \<Rightarrow>
             (case strlen (ptr_at m p) of None \<Rightarrow> Inl No_return
              | Some n \<Rightarrow>
                  (if (ucast n :: u8) = fname_len \<and> strncmp fname (ptr_at m p) (ucast fname_len) = 0
                   then res_bind (fill_dentry m fname p d) (\<lambda>d. Inr (0, d))
                   else find_name fi m fname fname_len (check + 1) d)))
      else Inr (- 1, d))"
  by pat_completeness auto
termination
  by (relation "measure (\<lambda>(fi, m, f, n, check, d). 63 - unat check)")
    (auto simp: dir_entry_def unat_Suc_less split: if_splits)

declare find_name.simps [simp del]

definition read_dentry_by_name :: "boot_block \<Rightarrow> mem \<Rightarrow> cptr option \<Rightarrow> dentry option \<Rightarrow> (u32 \<times> dentry option) res" where
  "read_dentry_by_name fi m fname dentry =
     (case (fname, dentry) of
        (Some fname, Some d) \<Rightarrow>
          (case strlen fname of None \<Rightarrow> Inl No_return
           | Some n \<Rightarrow> res_bind (find_name fi m fname (ucast n) 0 d) (\<lambda>(r, d). Inr (r, Some d)))
      | _ \<Rightarrow> Inr (- 1, dentry))"

definition read_dentry_by_index :: "boot_block \<Rightarrow> mem \<Rightarrow> u32 \<Rightarrow> dentry option \<Rightarrow> (u32 \<times> dentry option) res" where
  "read_dentry_by_index fi m index dentry =
     (case dentry of None \<Rightarrow> Inr (- 1, dentry)
      | Some d \<Rightarrow>
          (if num_dir_entries fi \<le> index then Inr (- 1, dentry)
           else res_bind (dir_entry fi index) (\<lambda>p.
                res_bind (fill_dentry m (ptr_at m p) p d) (\<lambda>d. Inr (0, Some d)))))"

section \<open>Data\<close>

definition inode_ptr :: "boot_block \<Rightarrow> u32 \<Rightarrow> u32" where
  "inode_ptr fi inode = filesys_ptr fi + KB4 * (inode + 1)"

definition dblock :: "mem \<Rightarrow> u32 \<Rightarrow> nat \<Rightarrow> u32" where
  "dblock m ip k = load32 m (ip + 4 + 4 * of_nat k)"

text \<open>The loop that skips whole blocks before the offset.\<close>

function skip_blocks :: "u32 \<Rightarrow> int \<Rightarrow> int \<Rightarrow> u32 \<times> int \<times> int" where
  "skip_blocks offset check block_ct =
     (if KB4 < offset then skip_blocks (offset - KB4) (check + 1) (block_ct - 1) else (offset, check, block_ct))"
  by pat_completeness auto
termination
  by (relation "measure (\<lambda>(offset, check, block_ct). unat offset)")
    (auto simp: word_less_nat_alt unat_sub_if' word_le_nat_alt)

text \<open>The copy loop; \<open>dblock_numbers\<close> has 1023 elements.\<close>

function copy_blocks :: "boot_block \<Rightarrow> u32 \<Rightarrow> u32 \<Rightarrow> int \<Rightarrow> int \<Rightarrow> u32 \<Rightarrow> u32 \<Rightarrow> mem \<Rightarrow> mem res" where
  "copy_blocks fi ip offset check block_ct buffer read_bytes m =
     (if read_bytes = 0 then Inr m
      else if check < 0 \<or> MAX_DBLOCKS_PER_FILE \<le> check then Inl Bounds
      else let offset_pointer = data_blocks fi + KB4 * dblock m ip (nat check) + offset
           in if block_ct \<le> 0 then Inr (memcpy m buffer offset_pointer read_bytes)
              else copy_blocks fi ip 0 (check + 1) (block_ct - 1) (buffer + KB4 - offset)
                     (read_bytes - (KB4 - offset)) (memcpy m buffer offset_pointer (KB4 - offset)))"
  by pat_completeness auto
termination
  by (relation "measure (\<lambda>(fi, ip, offset, check, block_ct, buffer, read_bytes, m). nat block_ct)") auto

declare skip_blocks.simps [simp del] copy_blocks.simps [simp del]

definition read_data :: "boot_block \<Rightarrow> u32 \<Rightarrow> u32 \<Rightarrow> u32 \<Rightarrow> u32 \<Rightarrow> mem \<Rightarrow> (u32 \<times> mem) res" where
  "read_data fi inode offset buf len m =
     (let ip = inode_ptr fi inode;
          file_length = load32 m ip;
          length_check = file_length - offset
      in if KB4 * 1023 < file_length then Inr (- 1, m)
         else let adjusted_length = (if file_length < offset + len then file_length - offset else len);
                  size_total = (if file_length < offset + len then offset + adjusted_length else offset + len)
              in if length_check \<le> 0 then Inr (0, m)
                 else let (offset, check, block_ct) = skip_blocks offset 0 (uint (size_total div KB4))
                      in res_bind (copy_blocks fi ip offset check block_ct buf adjusted_length m)
                           (\<lambda>m. Inr (adjusted_length, m)))"

text \<open>
  \<open>inode_address\<close> overlays the structure \<open>boot_block_t\<close>, whose first field is a pointer, on the
  image: the field \<open>num_inodes\<close> it compares with is the third word of the image.
\<close>

definition inode_address :: "boot_block \<Rightarrow> mem \<Rightarrow> u32 \<Rightarrow> u32" where
  "inode_address fi m inode =
     (let start_address = filesys_ptr fi;
          temporary = start_address + KB4 + inode * KB4
      in if load32 m (start_address + 8) \<le> inode then 0 else temporary)"

section \<open>File operations\<close>

text \<open>The entry of a file descriptor in a control block: pointer to the operations, inode, a name of
  32 bytes, position and use flag.\<close>

definition fd_at :: "u32 \<Rightarrow> int \<Rightarrow> u32" where
  "fd_at p fd = p + 64 + word_of_int (48 * fd)"

abbreviation (input) fop_ptr_at :: "u32 \<Rightarrow> int \<Rightarrow> u32" where "fop_ptr_at p fd \<equiv> fd_at p fd"

abbreviation (input) inode_at :: "u32 \<Rightarrow> int \<Rightarrow> u32" where "inode_at p fd \<equiv> fd_at p fd + 4"

abbreviation (input) file_name_at :: "u32 \<Rightarrow> int \<Rightarrow> u32" where "file_name_at p fd \<equiv> fd_at p fd + 8"

abbreviation (input) file_pos_at :: "u32 \<Rightarrow> int \<Rightarrow> u32" where "file_pos_at p fd \<equiv> fd_at p fd + 40"

abbreviation (input) in_use_at :: "u32 \<Rightarrow> int \<Rightarrow> u32" where "in_use_at p fd \<equiv> fd_at p fd + 44"

abbreviation (input) current_pblock :: "'a proc_scheme \<Rightarrow> u32" where
  "current_pblock s \<equiv> pcb_addr (process_count s)"

definition open_file :: "'a fs_scheme \<Rightarrow> u32 \<times> 'a fs_scheme" where
  "open_file s = (0, s)"

definition open_directory :: "'a fs_scheme \<Rightarrow> u32 \<times> 'a fs_scheme" where
  "open_directory s = (0, s)"

text \<open>The result of the search is not tested; a name that is not found leaves the local
  directory entry as it was on the stack, which is the argument \<open>junk\<close>.\<close>

definition read_file :: "dentry \<Rightarrow> int \<Rightarrow> u32 \<Rightarrow> u32 \<Rightarrow> 'a fs_scheme \<Rightarrow> (u32 \<times> 'a fs_scheme) res" where
  "read_file junk fd buf nbytes s =
     (let p = current_pblock s;
          fname = ptr_at (mem s) (file_name_at p fd);
          offset = load32 (mem s) (file_pos_at p fd)
      in res_bind (read_dentry_by_name (fs_info s) (mem s) (Some fname) (Some junk)) (\<lambda>(r, dentry_one).
         res_bind (read_data (fs_info s) (dinode (case dentry_one of Some d \<Rightarrow> d | None \<Rightarrow> junk)) offset buf nbytes (mem s))
           (\<lambda>(ret_val, m).
              Inr (ret_val, s\<lparr>mem := store32 m (file_pos_at p fd) (load32 m (file_pos_at p fd) + ret_val)\<rparr>))))"

definition read_directory :: "dentry \<Rightarrow> u32 \<Rightarrow> 'a fs_scheme \<Rightarrow> (u32 \<times> 'a fs_scheme) res" where
  "read_directory junk buf s =
     res_bind (read_dentry_by_index (fs_info s) (mem s) (dir_read_count s) (Some junk)) (\<lambda>(ret_value, dentry_one).
       if ret_value = - 1 then Inr (0, s\<lparr>dir_read_count := 0\<rparr>)
       else let s = s\<lparr>dir_read_count := dir_read_count s + 1\<rparr>;
                d = (case dentry_one of Some d \<Rightarrow> d | None \<Rightarrow> junk)
            in case strcpy (mem s) buf (\<lambda>_. str_ptr (dname d)) of
                 None \<Rightarrow> Inl No_return
               | Some m \<Rightarrow>
                   (case strlen (ptr_at m buf) of None \<Rightarrow> Inl No_return
                    | Some bytes_read \<Rightarrow> Inr (bytes_read, s\<lparr>mem := m\<rparr>)))"

definition write_file :: "'a fs_scheme \<Rightarrow> u32 \<times> 'a fs_scheme" where
  "write_file s = (- 1, s)"

definition write_directory :: "'a fs_scheme \<Rightarrow> u32 \<times> 'a fs_scheme" where
  "write_directory s = (- 1, s)"

definition close_file :: "'a fs_scheme \<Rightarrow> u32 \<times> 'a fs_scheme" where
  "close_file s = (0, s)"

definition close_directory :: "'a fs_scheme \<Rightarrow> u32 \<times> 'a fs_scheme" where
  "close_directory s = (0, s)"

section \<open>The contents of a file\<close>

text \<open>Byte \<open>k\<close> of the file with an inode, and the memory that holds the file: its inode block and
  its data blocks.\<close>

definition block_addr :: "boot_block \<Rightarrow> mem \<Rightarrow> u32 \<Rightarrow> nat \<Rightarrow> u32" where
  "block_addr fi m inode k = data_blocks fi + KB4 * dblock m (inode_ptr fi inode) k"

definition file_byte :: "boot_block \<Rightarrow> mem \<Rightarrow> u32 \<Rightarrow> nat \<Rightarrow> u8" where
  "file_byte fi m inode k = m (block_addr fi m inode (k div 4096) + of_nat (k mod 4096))"

definition file_size :: "boot_block \<Rightarrow> mem \<Rightarrow> u32 \<Rightarrow> nat" where
  "file_size fi m inode = unat (load32 m (inode_ptr fi inode))"

definition file_area :: "boot_block \<Rightarrow> mem \<Rightarrow> u32 \<Rightarrow> u32 set" where
  "file_area fi m inode = {inode_ptr fi inode + of_nat i |i. i < 4096}
     \<union> {block_addr fi m inode k + of_nat i |k i. 4096 * k < file_size fi m inode \<and> i < 4096}"

lemma block_in_area:
  "4096 * k < file_size fi m inode \<Longrightarrow> i < 4096 \<Longrightarrow> block_addr fi m inode k + of_nat i \<in> file_area fi m inode"
  by (auto simp: file_area_def)

lemma skip_blocks_spec:
  "\<exists>offset' j. skip_blocks offset check block_ct = (offset', check + int j, block_ct - int j)
     \<and> unat offset = 4096 * j + unat offset' \<and> unat offset' \<le> 4096"
proof (induction offset check block_ct rule: skip_blocks.induct)
  case (1 offset check block_ct)
  show ?case
  proof (cases "KB4 < offset")
    case True
    then have "unat (offset - KB4) = unat offset - 4096" "4096 < unat offset"
      by (simp_all add: word_less_nat_alt unat_sub_if' word_le_nat_alt)
    moreover obtain o' j where "skip_blocks (offset - KB4) (check + 1) (block_ct - 1) = (o', check + 1 + int j, block_ct - 1 - int j)"
      "unat (offset - KB4) = 4096 * j + unat o'" "unat o' \<le> 4096"
      using 1 [OF True] by blast
    ultimately show ?thesis using True
      by (intro exI [of _ o'] exI [of _ "Suc j"]) (subst skip_blocks.simps, simp)
  next
    case False
    then show ?thesis by (subst skip_blocks.simps) (simp add: word_less_nat_alt exI [of _ 0])
  qed
qed

text \<open>The situation during the copy: \<open>d\<close> of the \<open>n\<close> bytes from position \<open>pos\<close> are in the buffer.\<close>

definition file_read :: "boot_block \<Rightarrow> mem \<Rightarrow> u32 \<Rightarrow> u32 \<Rightarrow> nat \<Rightarrow> nat \<Rightarrow> bool" where
  "file_read fi m inode buf pos n \<longleftrightarrow> file_size fi m inode \<le> 4096 * 1023 \<and> pos + n \<le> file_size fi m inode
     \<and> (\<forall>a \<in> file_area fi m inode. n \<le> unat (a - buf))"

definition copied :: "boot_block \<Rightarrow> mem \<Rightarrow> u32 \<Rightarrow> u32 \<Rightarrow> nat \<Rightarrow> nat \<Rightarrow> mem" where
  "copied fi m inode buf pos d = blit m buf d (\<lambda>i. file_byte fi m inode (pos + i))"

lemma file_readD:
  assumes "file_read fi m inode buf pos n"
  shows "n \<le> 4096 * 1023" "a \<in> file_area fi m inode \<Longrightarrow> n \<le> unat (a - buf)"
  using assms by (auto simp: file_read_def)

lemma inode_kept:
  "file_read fi m inode buf pos n \<Longrightarrow> d \<le> n \<Longrightarrow> i < 4096 \<Longrightarrow> copied fi m inode buf pos d (inode_ptr fi inode + of_nat i) = m (inode_ptr fi inode + of_nat i)"
proof -
  assume r: "file_read fi m inode buf pos n" and d: "d \<le> n" and i: "i < 4096"
  have "inode_ptr fi inode + of_nat i \<in> file_area fi m inode" using i by (auto simp: file_area_def)
  then show ?thesis using file_readD(2) [OF r] d unfolding copied_def by (intro blit_out) (meson le_trans)
qed

lemma block_kept:
  "file_read fi m inode buf pos n \<Longrightarrow> d \<le> n \<Longrightarrow> 4096 * k < file_size fi m inode \<Longrightarrow> i < 4096 \<Longrightarrow>
    copied fi m inode buf pos d (block_addr fi m inode k + of_nat i) = m (block_addr fi m inode k + of_nat i)"
proof -
  assume r: "file_read fi m inode buf pos n" and d: "d \<le> n" and i: "4096 * k < file_size fi m inode" "i < 4096"
  have "block_addr fi m inode k + of_nat i \<in> file_area fi m inode" using i by (rule block_in_area)
  then show ?thesis using file_readD(2) [OF r] d unfolding copied_def by (intro blit_out) (meson le_trans)
qed

lemma dblock_kept:
  "file_read fi m inode buf pos n \<Longrightarrow> d \<le> n \<Longrightarrow> k < 1023 \<Longrightarrow> dblock (copied fi m inode buf pos d) (inode_ptr fi inode) k = dblock m (inode_ptr fi inode) k"
  using inode_kept [of fi m inode buf pos n d "4 + 4 * k"] inode_kept [of fi m inode buf pos n d "4 + 4 * k + 1"] inode_kept [of fi m inode buf pos n d "4 + 4 * k + 2"]
    inode_kept [of fi m inode buf pos n d "4 + 4 * k + 3"]
  unfolding dblock_def by (intro load32_cong) (simp_all add: algebra_simps)

text \<open>One \<open>memcpy\<close> of the loop: \<open>c\<close> bytes that lie within block \<open>k\<close>.\<close>

lemma copy_step:
  assumes r: "file_read fi m inode buf pos n"
    and "d + c \<le> n" "4096 * k < file_size fi m inode" "pos + d = 4096 * k + off" "off + c \<le> 4096" "c = 0 \<or> off < 4096"
  shows "memcpy (copied fi m inode buf pos d) (buf + of_nat d) (block_addr fi m inode k + of_nat off) (of_nat c) = copied fi m inode buf pos (d + c)"
proof -
  let ?src = "block_addr fi m inode k + of_nat off"
  have c: "unat (of_nat c :: u32) = c" using assms(5) by (intro unat_of_nat32) simp
  have apart': "of_nat c \<le> buf + of_nat d - ?src"
  proof (rule ccontr)
    assume "\<not> of_nat c \<le> buf + of_nat d - ?src"
    then have lt: "unat (buf + of_nat d - ?src) < c" by (simp add: word_le_nat_alt c)
    let ?i = "unat (buf + of_nat d - ?src)"
    have "block_addr fi m inode k + of_nat (off + ?i) \<in> file_area fi m inode"
      using lt assms(3,5) by (intro block_in_area) simp_all
    then have "n \<le> unat (block_addr fi m inode k + of_nat (off + ?i) - buf)" by (rule file_readD(2) [OF r])
    moreover have "block_addr fi m inode k + of_nat (off + ?i) - buf = of_nat d" by (simp add: add.assoc [symmetric])
    moreover have "unat (of_nat d :: u32) = d" using assms(2) file_readD(1) [OF r] by (intro unat_of_nat32) simp
    ultimately show False using lt assms(2) by simp
  qed
  have "memcpy (copied fi m inode buf pos d) (buf + of_nat d) ?src (of_nat c) = blit (copied fi m inode buf pos d) (buf + of_nat d) c (\<lambda>i. copied fi m inode buf pos d (?src + of_nat i))"
    using memcpy_blit [of "buf + of_nat d" ?src "of_nat c" "copied fi m inode buf pos d"] apart' c by simp
  also have "\<dots> = blit (copied fi m inode buf pos d) (buf + of_nat d) c (\<lambda>i. file_byte fi m inode (pos + d + i))"
  proof (rule blit_cong)
    fix i
    assume i: "i < c"
    have "copied fi m inode buf pos d (block_addr fi m inode k + of_nat (off + i)) = m (block_addr fi m inode k + of_nat (off + i))"
      using assms i by (intro block_kept [OF r]) simp_all
    moreover have "(4096 * k + x) div 4096 = k \<and> (4096 * k + x) mod 4096 = x" if "x < 4096" for x
      using that by simp
    then have "(pos + d + i) div 4096 = k" "(pos + d + i) mod 4096 = off + i"
      using assms(4,5) i by (simp_all only: add.assoc)
    ultimately show "copied fi m inode buf pos d (?src + of_nat i) = file_byte fi m inode (pos + d + i)"
      by (simp add: file_byte_def add.assoc)
  qed
  also have "\<dots> = copied fi m inode buf pos (d + c)"
    using assms(2) file_readD(1) [OF r] unfolding copied_def by (subst blit_append) (simp, auto intro!: blit_cong simp: add.assoc)
  finally show ?thesis .
qed

lemma copy_blocks_spec:
  assumes r: "file_read fi m inode buf pos n"
    and "d + unat read_bytes = n" "pos + d = 4096 * k + unat off" "unat off \<le> 4096"
    and "block_ct = int ((pos + n) div 4096) - int k"
  shows "copy_blocks fi (inode_ptr fi inode) off (int k) block_ct (buf + of_nat d) read_bytes (copied fi m inode buf pos d)
    = Inr (copied fi m inode buf pos n)"
  using assms(2-5)
proof (induction "nat block_ct" arbitrary: block_ct d k off read_bytes rule: less_induct)
  case less
  let ?m = "copied fi m inode buf pos d"
  show ?case
  proof (cases "read_bytes = 0")
    case True
    then show ?thesis using less.prems by (simp add: copy_blocks.simps)
  next
    case False
    then have pos_read: "0 < unat read_bytes" by (simp add: unat_gt_0)
    have size: "pos + n \<le> file_size fi m inode" "file_size fi m inode \<le> 4096 * 1023"
      using r by (simp_all add: file_read_def)
    have k: "4096 * k < file_size fi m inode" and k1: "k < 1023"
      using less.prems pos_read size by linarith+
    have src: "data_blocks fi + KB4 * dblock ?m (inode_ptr fi inode) k + off
        = block_addr fi m inode k + off"
      using less.prems pos_read by (simp add: block_addr_def dblock_kept [OF r _ k1])
    show ?thesis
    proof (cases "block_ct \<le> 0")
      case True
      then have "(pos + n) div 4096 \<le> k" using less.prems by simp
      moreover have "(pos + n) div 4096 < Suc k \<longleftrightarrow> pos + n < Suc k * 4096" by (rule div_less_iff_less_mult) simp
      ultimately have "pos + n < 4096 * k + 4096" by (simp add: less_Suc_eq_le)
      then have "memcpy ?m (buf + of_nat d) (block_addr fi m inode k + of_nat (unat off)) (of_nat (unat read_bytes))
          = copied fi m inode buf pos (d + unat read_bytes)"
        using less.prems pos_read k by (intro copy_step [OF r]) simp_all
      then show ?thesis
        using True False less.prems k1 by (subst copy_blocks.simps) (simp add: Let_def src)
    next
      case more: False
      define c where "c = 4096 - unat off"
      have c: "of_nat c = KB4 - off" using less.prems by (simp add: c_def of_nat_diff)
      have "k < (pos + n) div 4096" using more less.prems by simp
      then have "4096 * Suc k \<le> pos + n" by (simp add: Suc_le_eq [symmetric] less_eq_div_iff_mult_less_eq)
      then have cle: "d + c \<le> n" "c \<le> unat read_bytes" using less.prems by (simp_all add: c_def)
      have "memcpy ?m (buf + of_nat d) (block_addr fi m inode k + of_nat (unat off)) (of_nat c)
          = copied fi m inode buf pos (d + c)"
        using less.prems k cle by (intro copy_step [OF r]) (auto simp: c_def)
      then have step: "memcpy ?m (buf + of_nat d) (block_addr fi m inode k + off) (KB4 - off) = copied fi m inode buf pos (d + c)"
        by (simp add: c)
      have rest: "unat (read_bytes - (KB4 - off)) = unat read_bytes - c"
        unfolding c [symmetric] using cle by (intro unat_minus_of_nat32)
      have "copy_blocks fi (inode_ptr fi inode) 0 (int (Suc k)) (block_ct - 1) (buf + of_nat (d + c))
          (read_bytes - (KB4 - off)) (copied fi m inode buf pos (d + c)) = Inr (copied fi m inode buf pos n)"
        using more less.prems cle rest by (intro less.hyps) (simp_all add: c_def)
      moreover have "buf + of_nat (d + c) = buf + of_nat d + KB4 - off" "int (Suc k) = int k + 1" by (simp_all add: c)
      ultimately have "copy_blocks fi (inode_ptr fi inode) 0 (int k + 1) (block_ct - 1) (buf + of_nat d + KB4 - off)
          (read_bytes - (KB4 - off)) (copied fi m inode buf pos (d + c)) = Inr (copied fi m inode buf pos n)" by (simp only:)
      then show ?thesis
        using False more k1 by (subst copy_blocks.simps) (simp add: Let_def src step)
    qed
  qed
qed

lemma read_data_spec:
  assumes "unat offset \<le> file_size fi m inode" and "unat offset + unat len < 2 ^ 32"
    and "n = min (unat len) (file_size fi m inode - unat offset)"
    and "file_size fi m inode \<le> 4096 * 1023" and "\<forall>a \<in> file_area fi m inode. n \<le> unat (a - buf)"
  shows "read_data fi inode offset buf len m
    = Inr (of_nat n, blit m buf n (\<lambda>i. file_byte fi m inode (unat offset + i)))"
proof -
  let ?fl = "load32 m (inode_ptr fi inode)"
  have fl: "unat ?fl = file_size fi m inode" by (simp add: file_size_def)
  have sum: "unat (offset + len) = unat offset + unat len" using assms(2) by (simp add: unat_word_ariths)
  have diff: "unat (?fl - offset) = file_size fi m inode - unat offset"
    using assms(1) by (simp add: unat_sub_if' word_le_nat_alt fl)
  have small: "\<not> KB4 * 1023 < ?fl" using assms(4) by (simp add: word_less_nat_alt fl)
  define adj where "adj = (if ?fl < offset + len then ?fl - offset else len)"
  have adj: "unat adj = n"
    using assms(1,3) by (auto simp: adj_def word_less_nat_alt fl sum diff)
  then have adj': "adj = of_nat n" by (simp add: adj [symmetric])
  have total: "(if ?fl < offset + len then offset + adj else offset + len) = offset + adj"
    by (simp add: adj_def)
  have usum: "unat (offset + adj) = unat offset + n"
    using assms(2,3) by (simp add: unat_word_ariths adj)
  have r: "file_read fi m inode buf (unat offset) n" using assms by (auto simp: file_read_def)
  show ?thesis
  proof (cases "?fl - offset = 0")
    case True
    then have "n = 0" using diff assms(3) by simp
    then show ?thesis using True small by (simp add: read_data_def Let_def)
  next
    case False
    obtain off j where skip: "skip_blocks offset 0 (uint ((offset + adj) div KB4)) = (off, int j, uint ((offset + adj) div KB4) - int j)"
      "unat offset = 4096 * j + unat off" "unat off \<le> 4096"
      using skip_blocks_spec [of offset 0 "uint ((offset + adj) div KB4)"] by auto
    have bct: "uint ((offset + adj) div KB4) = int ((unat offset + n) div 4096)"
      by (simp add: uint_nat unat_div usum)
    have "copy_blocks fi (inode_ptr fi inode) off (int j) (uint ((offset + adj) div KB4) - int j) (buf + of_nat 0) adj
        (copied fi m inode buf (unat offset) 0) = Inr (copied fi m inode buf (unat offset) n)"
      using skip bct adj by (intro copy_blocks_spec [OF r]) simp_all
    then have copy: "copy_blocks fi (inode_ptr fi inode) off (int j) (uint ((offset + adj) div KB4) - int j) buf adj m
        = Inr (copied fi m inode buf (unat offset) n)" by (simp add: copied_def)
    have "read_data fi inode offset buf len m
      = (let (offset, check, block_ct) = skip_blocks offset 0 (uint ((offset + adj) div KB4))
         in res_bind (copy_blocks fi (inode_ptr fi inode) offset check block_ct buf adj m) (\<lambda>m. Inr (adj, m)))"
      using False small unfolding read_data_def Let_def adj_def [symmetric] total by simp
    then have "read_data fi inode offset buf len m = Inr (adj, copied fi m inode buf (unat offset) n)"
      by (simp add: skip(1) copy)
    then show ?thesis by (simp add: copied_def adj')
  qed
qed

text \<open>A file is determined by the bytes of its area.\<close>

lemma file_cong:
  assumes same: "\<forall>a \<in> file_area fi m inode. m' a = m a" and size: "file_size fi m inode \<le> 4096 * 1023"
  shows "file_size fi m' inode = file_size fi m inode" "file_area fi m' inode = file_area fi m inode"
    "j < file_size fi m inode \<Longrightarrow> file_byte fi m' inode j = file_byte fi m inode j"
proof -
  have node: "m' (inode_ptr fi inode + of_nat i) = m (inode_ptr fi inode + of_nat i)" if "i < 4096" for i
    using same that by (auto simp: file_area_def)
  show sz: "file_size fi m' inode = file_size fi m inode"
    using node [of 0] node [of 1] node [of 2] node [of 3] unfolding file_size_def by (intro arg_cong [where f = unat] load32_cong) simp_all
  have blk: "block_addr fi m' inode k = block_addr fi m inode k" if "4096 * k < file_size fi m inode" for k
  proof -
    have "k < 1023" using that size by simp
    then have "dblock m' (inode_ptr fi inode) k = dblock m (inode_ptr fi inode) k"
      using node [of "4 + 4 * k"] node [of "4 + 4 * k + 1"] node [of "4 + 4 * k + 2"] node [of "4 + 4 * k + 3"]
      unfolding dblock_def by (intro load32_cong) (simp_all add: algebra_simps)
    then show ?thesis by (simp add: block_addr_def)
  qed
  show "file_area fi m' inode = file_area fi m inode"
    unfolding file_area_def sz using blk by auto
  show "file_byte fi m' inode j = file_byte fi m inode j" if "j < file_size fi m inode"
  proof -
    have "4096 * (j div 4096) < file_size fi m inode" using that by (rule le_less_trans [rotated]) simp
    then show ?thesis using blk same block_in_area [of "j div 4096" fi m inode "j mod 4096"] by (simp add: file_byte_def)
  qed
qed

section \<open>Properties of the file system\<close>

text \<open>
  C1. \<open>read_data\<close> reads a file. For an offset within a file of at most 1023 blocks and a length
  that does not overflow, and a buffer apart from the file's own blocks, it returns the number of
  bytes up to the end of the file or the length, whichever is smaller, puts exactly those
  consecutive bytes of the file into the buffer, gathered from blocks scattered over the image, and
  changes no other byte. It never indexes outside the array of block numbers.
\<close>

theorem read_data_correct:
  assumes "unat offset \<le> file_size fi m inode" and "unat offset + unat len < 2 ^ 32"
    and "n = min (unat len) (file_size fi m inode - unat offset)"
    and "file_size fi m inode \<le> 4096 * 1023" and "\<forall>a \<in> file_area fi m inode. n \<le> unat (a - buf)"
  shows "read_data fi inode offset buf len m
    = Inr (of_nat n, blit m buf n (\<lambda>i. file_byte fi m inode (unat offset + i)))"
  using assms by (rule read_data_spec)

text \<open>An image with a directory of the entries ``a'' and ``bc'', of which ``a'' is a file of 5000
  bytes in the blocks 3 and 1, and a descriptor 2 of process 1 for it.\<close>

definition sample_fs :: boot_block where
  "sample_fs = \<lparr>filesys_ptr = 0x1000, num_dir_entries = 2, num_inodes = 1, num_data_blocks = 4,
     dir_entries = 0x1040 # 0x1080 # replicate 61 0, inode_blocks = 0x2000, data_blocks = 0x10000\<rparr>"

definition sample_image :: mem where
  "sample_image a = (case map_of [(0x2000, 0x88), (0x2001, 0x13), (0x2004, 3), (0x2008, 1), (0x13FFE, 65), (0x13FFF, 66),
     (0x11000, 67), (0x1040, 97), (0x1060, 2), (0x1080, 98), (0x1081, 99), (0x10A0, 2), (0x10A4, 7), (0x7FE0A8, 97)] a
     of None \<Rightarrow> 0 | Some v \<Rightarrow> v)"

lemma sample_size: "file_size sample_fs sample_image 0 = 5000"
  by (simp add: file_size_def inode_ptr_def load32_def sample_fs_def sample_image_def)

lemma sample_blocks:
  "block_addr sample_fs sample_image 0 0 = 0x13000" "block_addr sample_fs sample_image 0 1 = 0x11000"
  by (simp_all add: block_addr_def dblock_def inode_ptr_def load32_def sample_fs_def sample_image_def)

lemma sample_inode: "inode_ptr sample_fs 0 = 0x2000"
  by (simp add: inode_ptr_def sample_fs_def)

lemma sample_apart: "a \<in> file_area sample_fs sample_image 0 \<Longrightarrow> unat a < 0x14000"
proof -
  assume "a \<in> file_area sample_fs sample_image 0"
  then consider i where "a = 0x2000 + of_nat i" "i < 4096"
    | k i where "a = block_addr sample_fs sample_image 0 k + of_nat i" "4096 * k < 5000" "i < 4096"
    by (auto simp: file_area_def sample_size sample_inode)
  then show ?thesis
  proof cases
    case 1
    then show ?thesis by (simp add: unat_word_ariths unat_of_nat32)
  next
    case (2 k i)
    then have "k = 0 \<or> k = 1" by linarith
    with 2 sample_blocks show ?thesis by (auto simp: unat_word_ariths unat_of_nat32)
  qed
qed

theorem read_data_correct_witness:
  "\<exists>m. read_data sample_fs 0 4094 0x50000 4 sample_image = Inr (4, m) \<and> m 0x50000 = 65 \<and> m 0x50001 = 66 \<and> m 0x50002 = 67"
proof -
  have "\<forall>a \<in> file_area sample_fs sample_image 0. 4 \<le> unat (a - 0x50000)"
  proof
    fix a
    assume "a \<in> file_area sample_fs sample_image 0"
    then have "unat a < 0x14000" by (rule sample_apart)
    then show "4 \<le> unat (a - 0x50000)" by (simp add: unat_sub_if' word_le_nat_alt)
  qed
  moreover have "unat (4094 :: u32) \<le> file_size sample_fs sample_image 0" "unat (4094 :: u32) + unat (4 :: u32) < 2 ^ 32"
    "4 = min (unat (4 :: u32)) (file_size sample_fs sample_image 0 - unat (4094 :: u32))"
    "file_size sample_fs sample_image 0 \<le> 4096 * 1023"
    unfolding sample_size by simp_all
  ultimately have "read_data sample_fs 0 4094 0x50000 4 sample_image
      = Inr (of_nat 4, blit sample_image 0x50000 4 (\<lambda>i. file_byte sample_fs sample_image 0 (unat (4094 :: u32) + i)))"
    by (intro read_data_correct)
  then have "read_data sample_fs 0 4094 0x50000 4 sample_image
      = Inr (4, blit sample_image 0x50000 4 (\<lambda>i. file_byte sample_fs sample_image 0 (4094 + i)))" by simp
  moreover have "file_byte sample_fs sample_image 0 4094 = 65" "file_byte sample_fs sample_image 0 4095 = 66"
    "file_byte sample_fs sample_image 0 4096 = 67"
    by (simp_all add: file_byte_def sample_blocks [unfolded One_nat_def])
      (simp_all add: sample_image_def)
  ultimately show ?thesis by (simp add: blit_def)
qed

section \<open>Directory lookup\<close>

text \<open>The directory of an image: its entries hold the given names.\<close>

definition directory :: "boot_block \<Rightarrow> mem \<Rightarrow> u8 list list \<Rightarrow> bool" where
  "directory fi m ns \<longleftrightarrow> unat (num_dir_entries fi) = length ns \<and> length ns \<le> 63
     \<and> (\<forall>i < length ns. holds_str (ptr_at m (dir_entries fi ! i)) (ns ! i) \<and> length (ns ! i) \<le> 32)"

lemma c_string_holds: "holds_str p xs \<Longrightarrow> c_string p = Inr xs"
proof -
  assume p: "holds_str p xs"
  then have "unat (of_nat (length xs) :: u32) = length xs" by (intro unat_of_nat32) (simp add: holds_str_def)
  then have "map (\<lambda>i. p (of_nat i)) [0..<unat (of_nat (length xs) :: u32)] = xs"
    using p by (intro nth_equalityI) (simp_all add: holds_str_def)
  then show ?thesis by (simp add: c_string_def strlen_holds [OF p])
qed

lemma fill_dentry_holds:
  "holds_str name xs \<Longrightarrow> length xs \<le> 32 \<Longrightarrow> fill_dentry m name p d
    = Inr (d\<lparr>dname := xs @ 0 # drop (Suc (length xs)) (dname d), dtype := m (p + 32), dinode := load32 m (p + 36)\<rparr>)"
  by (simp add: fill_dentry_def c_string_holds)

lemma find_name_step:
  assumes dir: "directory fi m ns" and f: "holds_str fname xs" "length xs \<le> 32" and c: "c < length ns"
  shows "find_name fi m fname (of_nat (length xs)) (of_nat c) d
    = (if ns ! c = xs then res_bind (fill_dentry m fname (dir_entries fi ! c) d) (\<lambda>d. Inr (0, d))
       else find_name fi m fname (of_nat (length xs)) (of_nat (Suc c)) d)"
proof -
  have u: "unat (of_nat c :: u32) = c" using c dir by (intro unat_of_nat32) (simp add: directory_def)
  then have lt: "(of_nat c :: u32) < num_dir_entries fi" using dir c by (simp add: word_less_nat_alt directory_def)
  have ys: "holds_str (ptr_at m (dir_entries fi ! c)) (ns ! c)" "length (ns ! c) \<le> 32"
    using dir c by (simp_all add: directory_def)
  have byte: "(ucast (of_nat k :: u32) :: u8) = of_nat k" for k
    by (simp add: word_unat_eq_iff unsigned_ucast_eq unsigned_of_nat)
  have eq: "(of_nat (length (ns ! c)) :: u8) = of_nat (length xs) \<longleftrightarrow> length (ns ! c) = length xs"
    using ys(2) f(2) by (simp add: word_of_nat_eq_iff take_bit_nat_eq_self)
  have len: "unat (ucast (of_nat (length xs) :: u8) :: u32) = length xs"
    using f(2) by (simp add: unsigned_ucast_eq unsigned_of_nat take_bit_nat_eq_self)
  have "length (ns ! c) = length xs \<and> strncmp fname (ptr_at m (dir_entries fi ! c)) (ucast (of_nat (length xs) :: u8)) = 0
      \<longleftrightarrow> ns ! c = xs"
    unfolding strncmp_holds [OF f(1) ys(1)] len by auto
  moreover have "(of_nat (Suc c) :: u32) = of_nat c + 1" by simp
  ultimately show ?thesis
    using c dir lt by (subst find_name.simps) (simp add: dir_entry_def u directory_def strlen_holds [OF ys(1)] byte eq del: of_nat_Suc)
qed

lemma find_name_hit:
  assumes "directory fi m ns" "holds_str fname xs" "length xs \<le> 32"
    and "c \<le> i" "i < length ns" "ns ! i = xs" "\<forall>j. c \<le> j \<and> j < i \<longrightarrow> ns ! j \<noteq> xs"
  shows "find_name fi m fname (of_nat (length xs)) (of_nat c) d
    = res_bind (fill_dentry m fname (dir_entries fi ! i) d) (\<lambda>d. Inr (0, d))"
  using assms(4,7)
proof (induction "i - c" arbitrary: c)
  case 0
  then have "c = i" by simp
  with assms show ?case by (simp add: find_name_step [OF assms(1-3)])
next
  case (Suc k)
  then have "c < length ns" "ns ! c \<noteq> xs" using assms(5) by auto
  moreover have "find_name fi m fname (of_nat (length xs)) (of_nat (Suc c)) d
      = res_bind (fill_dentry m fname (dir_entries fi ! i) d) (\<lambda>d. Inr (0, d))"
    using Suc by (intro Suc.hyps) auto
  ultimately show ?case by (simp add: find_name_step [OF assms(1-3)])
qed

lemma find_name_miss:
  assumes "directory fi m ns" "holds_str fname xs" "length xs \<le> 32" and "c \<le> length ns" "\<forall>j. c \<le> j \<and> j < length ns \<longrightarrow> ns ! j \<noteq> xs"
  shows "find_name fi m fname (of_nat (length xs)) (of_nat c) d = Inr (- 1, d)"
  using assms(4,5)
proof (induction "length ns - c" arbitrary: c)
  case 0
  have "unat (of_nat (length ns) :: u32) = length ns" using assms(1) by (intro unat_of_nat32) (simp add: directory_def)
  then have "\<not> (of_nat c :: u32) < num_dir_entries fi"
    using 0 assms(1) by (simp add: word_less_nat_alt directory_def)
  then show ?case by (simp add: find_name.simps)
next
  case (Suc k)
  then have "c < length ns" "ns ! c \<noteq> xs" by auto
  moreover have "find_name fi m fname (of_nat (length xs)) (of_nat (Suc c)) d = Inr (- 1, d)"
    using Suc by (intro Suc.hyps) auto
  ultimately show ?case by (simp add: find_name_step [OF assms(1-3)])
qed

lemma name_length: "length xs \<le> 32 \<Longrightarrow> (ucast (of_nat (length xs) :: u32) :: u8) = of_nat (length xs)"
  by (simp add: word_unat_eq_iff unsigned_ucast_eq unsigned_of_nat)

lemma lookup_hit:
  assumes "directory fi m ns" "holds_str fname xs" "length xs \<le> 32" "i < length ns" "ns ! i = xs" "\<forall>j < i. ns ! j \<noteq> xs"
  shows "\<exists>d'. read_dentry_by_name fi m (Some fname) (Some d) = Inr (0, Some d') \<and> take (length xs) (dname d') = xs
    \<and> dtype d' = m (dir_entries fi ! i + 32) \<and> dinode d' = load32 m (dir_entries fi ! i + 36)"
  using find_name_hit [of fi m ns fname xs 0 i d] assms
  by (simp add: read_dentry_by_name_def strlen_holds name_length fill_dentry_holds)

text \<open>
  C6. \<open>read_dentry_by_name\<close> on a directory of at most 63 entries with names of at most 32
  characters: it finds the first entry with exactly the name and fills in that entry's type
  and inode number, and it fails, leaving the result alone, exactly when no entry has the name.
\<close>

theorem read_dentry_by_name_correct:
  assumes "directory fi m ns" and "holds_str fname xs" and "length xs \<le> 32"
  shows "(\<forall>i < length ns. ns ! i = xs \<and> (\<forall>j < i. ns ! j \<noteq> xs) \<longrightarrow>
      (\<exists>d'. read_dentry_by_name fi m (Some fname) (Some d) = Inr (0, Some d') \<and> take (length xs) (dname d') = xs
        \<and> dtype d' = m (dir_entries fi ! i + 32) \<and> dinode d' = load32 m (dir_entries fi ! i + 36)))
    \<and> (xs \<notin> set ns \<longrightarrow> read_dentry_by_name fi m (Some fname) (Some d) = Inr (- 1, Some d))"
proof -
  have "read_dentry_by_name fi m (Some fname) (Some d) = Inr (- 1, Some d)" if "xs \<notin> set ns"
    using find_name_miss [OF assms, of 0 d] that assms
    by (auto simp: read_dentry_by_name_def strlen_holds name_length in_set_conv_nth)
  then show ?thesis using lookup_hit [OF assms] by blast
qed

lemma sample_directory: "directory sample_fs sample_image [[97], [98, 99]]"
  by (auto simp: directory_def sample_fs_def sample_image_def holds_str_def less_Suc_eq)

theorem read_dentry_by_name_correct_witness:
  "\<exists>d'. read_dentry_by_name sample_fs sample_image (Some (str_ptr [98, 99])) (Some \<lparr>dname = replicate 33 0, dtype = 0, dinode = 0\<rparr>)
     = Inr (0, Some d') \<and> dtype d' = 2 \<and> dinode d' = 7"
proof -
  have "holds_str (str_ptr [98, 99]) [98, 99]" by (rule holds_str_ptr) simp_all
  note read_dentry_by_name_correct [OF sample_directory this, of "\<lparr>dname = replicate 33 0, dtype = 0, dinode = 0\<rparr>",
      THEN conjunct1, rule_format, of 1]
  then have "\<exists>d'. read_dentry_by_name sample_fs sample_image (Some (str_ptr [98, 99])) (Some \<lparr>dname = replicate 33 0, dtype = 0, dinode = 0\<rparr>)
     = Inr (0, Some d') \<and> dtype d' = sample_image 0x10A0 \<and> dinode d' = load32 sample_image 0x10A4"
    by (auto simp: sample_fs_def)
  then show ?thesis by (simp add: sample_image_def load32_def)
qed

lemma dentry_loop_spec:
  assumes "n \<le> length (dir_entries fi)"
  shows "fold (\<lambda>d_idx (p, fi). (p + 64, fi\<lparr>dir_entries := (dir_entries fi)[d_idx := p]\<rparr>)) [0..<n] (p0, fi)
    = (p0 + 64 * of_nat n, fi\<lparr>dir_entries := map (\<lambda>i. p0 + 64 * of_nat i) [0..<n] @ drop n (dir_entries fi)\<rparr>)"
  using assms
proof (induction n)
  case (Suc n)
  then have "drop n (dir_entries fi) = dir_entries fi ! n # drop (Suc n) (dir_entries fi)" by (simp add: Cons_nth_drop_Suc)
  with Suc show ?case by (simp add: list_update_append algebra_simps)
qed simp

text \<open>
  \<open>filesys_init\<close> lays the structure over the image as its format says: directory entry \<open>i\<close> at
  64 bytes times \<open>i + 1\<close>, the inodes from the second 4 KB block on, the data blocks behind the last
  inode, and the counts from the first three words; memory is not changed.
\<close>

theorem filesys_init_layout:
  assumes "length (dir_entries (fs_info s)) = 63"
  shows "let fi = fs_info (filesys_init start s)
    in dir_entries fi = map (\<lambda>i. start + 64 * of_nat (Suc i)) [0..<63] \<and> filesys_ptr fi = start
      \<and> num_dir_entries fi = load32 (mem s) start \<and> num_inodes fi = load32 (mem s) (start + 4)
      \<and> num_data_blocks fi = load32 (mem s) (start + 8)
      \<and> inode_blocks fi = start + KB4 \<and> data_blocks fi = start + KB4 * (1 + num_inodes fi)
      \<and> inode_ptr fi i = inode_blocks fi + KB4 * i \<and> mem (filesys_init start s) = mem s"
  using assms
  by (simp add: filesys_init_def dentry_loop_def dentry_loop_spec Let_def inode_ptr_def algebra_simps del: upt_rec_numeral)

definition fs_boot :: fs where
  "fs_boot = proc.extend proc_boot \<lparr>fs_info = sample_fs, dir_read_count = 0\<rparr>"

theorem filesys_init_layout_witness:
  "inode_blocks (fs_info (filesys_init 0x40D000 fs_boot)) = 0x40E000
     \<and> dir_entries (fs_info (filesys_init 0x40D000 fs_boot)) ! 2 = 0x40D0C0"
  using filesys_init_layout [of fs_boot "0x40D000" 0]
  by (simp add: fs_boot_def sample_fs_def proc.extend_def Let_def del: upt_rec_numeral)

section \<open>Reading the directory and files\<close>

lemma holds_str_nonzero: "holds_str p xs \<Longrightarrow> 0 \<notin> set xs"
  by (auto simp: holds_str_def in_set_conv_nth)

lemma local_name_holds: "0 \<notin> set xs \<Longrightarrow> length xs < 2 ^ 32 \<Longrightarrow> holds_str (str_ptr (xs @ 0 # rest)) xs"
  by (auto simp: holds_str_def str_ptr_def unat_of_nat32 nth_append in_set_conv_nth)

definition name_blit :: "mem \<Rightarrow> u32 \<Rightarrow> u8 list \<Rightarrow> mem" where
  "name_blit m buf xs = blit m buf (Suc (length xs)) (\<lambda>k. if k < length xs then xs ! k else 0)"

lemma read_directory_entry:
  assumes dir: "directory (fs_info s) (mem s) ns" and c: "unat (dir_read_count s) < length ns"
  defines "xs \<equiv> ns ! unat (dir_read_count s)"
  shows "read_directory junk buf s
    = Inr (of_nat (length xs), s\<lparr>dir_read_count := dir_read_count s + 1, mem := name_blit (mem s) buf xs\<rparr>)"
proof -
  let ?p = "dir_entries (fs_info s) ! unat (dir_read_count s)"
  have xs: "holds_str (ptr_at (mem s) ?p) xs" "length xs \<le> 32" using dir c by (simp_all add: directory_def xs_def)
  have idx: "\<not> num_dir_entries (fs_info s) \<le> dir_read_count s" "unat (dir_read_count s) < 63"
    using dir c by (simp_all add: directory_def word_le_nat_alt)
  have loc: "holds_str (str_ptr (xs @ 0 # rest)) xs" for rest
    using holds_str_nonzero [OF xs(1)] xs(2) by (intro local_name_holds) simp_all
  have out: "strlen (ptr_at (name_blit (mem s) buf xs) buf) = Some (of_nat (length xs))"
    unfolding name_blit_def by (rule strlen_holds [OF blit_holds_str [OF loc]])
  show ?thesis
    using idx xs out by (simp add: read_directory_def read_dentry_by_index_def dir_entry_def fill_dentry_holds
        strcpy_const [OF loc] name_blit_def [symmetric] Let_def)
qed

lemma read_directory_end:
  assumes "directory (fs_info s) (mem s) ns" "length ns \<le> unat (dir_read_count s)"
  shows "read_directory junk buf s = Inr (0, s\<lparr>dir_read_count := 0\<rparr>)"
  using assms by (simp add: read_directory_def read_dentry_by_index_def directory_def word_le_nat_alt)

text \<open>A buffer of 33 bytes apart from the names of the directory.\<close>

definition dir_apart :: "boot_block \<Rightarrow> u8 list list \<Rightarrow> u32 \<Rightarrow> bool" where
  "dir_apart fi ns buf \<longleftrightarrow> (\<forall>i < length ns. \<forall>k \<le> length (ns ! i). 33 \<le> unat (dir_entries fi ! i + of_nat k - buf))"

lemma directory_kept:
  assumes "directory fi m ns" "dir_apart fi ns buf" "length xs \<le> 32"
  shows "directory fi (name_blit m buf xs) ns"
proof -
  have "name_blit m buf xs (dir_entries fi ! i + of_nat k) = m (dir_entries fi ! i + of_nat k)"
    if "i < length ns" "k \<le> length (ns ! i)" for i k
  proof -
    have "33 \<le> unat (dir_entries fi ! i + of_nat k - buf)" using assms(2) that by (simp add: dir_apart_def)
    then show ?thesis using assms(3) unfolding name_blit_def by (intro blit_out) simp
  qed
  then show ?thesis using assms(1) by (simp add: directory_def holds_str_def)
qed

text \<open>A number of calls that read the directory, and what each left in the buffer.\<close>

fun read_dir_calls :: "dentry \<Rightarrow> u32 \<Rightarrow> nat \<Rightarrow> 'a fs_scheme \<Rightarrow> (u8 list list \<times> 'a fs_scheme) res" where
  "read_dir_calls junk buf 0 s = Inr ([], s)"
| "read_dir_calls junk buf (Suc k) s =
     res_bind (read_directory junk buf s) (\<lambda>(r, s).
       res_bind (read_dir_calls junk buf k s) (\<lambda>(names, s').
         Inr (map (\<lambda>i. mem s (buf + of_nat i)) [0..<unat r] # names, s')))"

lemma read_dir_calls_spec:
  assumes "directory (fs_info s) (mem s) ns" "dir_apart (fs_info s) ns buf" "unat (dir_read_count s) + k = length ns"
  shows "\<exists>m. read_dir_calls junk buf k s = Inr (drop (unat (dir_read_count s)) ns, s\<lparr>mem := m, dir_read_count := of_nat (length ns)\<rparr>)
    \<and> directory (fs_info s) m ns"
  using assms
proof (induction k arbitrary: s)
  case 0
  then have "length ns = unat (dir_read_count s)" by simp
  then have "dir_read_count s = of_nat (length ns)" by simp
  with 0 show ?case by (intro exI [of _ "mem s"]) simp
next
  case (Suc k)
  let ?c = "unat (dir_read_count s)" and ?s = "s\<lparr>dir_read_count := dir_read_count s + 1, mem := name_blit (mem s) buf (ns ! unat (dir_read_count s))\<rparr>"
  have c: "?c < length ns" using Suc.prems(3) by simp
  have len: "length (ns ! ?c) \<le> 32" using Suc.prems(1) c by (simp add: directory_def)
  have c1: "unat (dir_read_count s + 1) = Suc ?c"
    using Suc.prems(1) c by (intro unat_Suc_less [of _ "num_dir_entries (fs_info s)"]) (simp add: directory_def word_less_nat_alt)
  have "directory (fs_info ?s) (mem ?s) ns" using directory_kept [OF Suc.prems(1,2) len] by simp
  then obtain m where m: "read_dir_calls junk buf k ?s = Inr (drop (unat (dir_read_count ?s)) ns, ?s\<lparr>mem := m, dir_read_count := of_nat (length ns)\<rparr>)"
    "directory (fs_info ?s) m ns"
    using Suc.IH [of ?s] Suc.prems c1 by auto
  have "map (\<lambda>i. mem ?s (buf + of_nat i)) [0..<length (ns ! ?c)] = ns ! ?c"
    using len by (intro nth_equalityI) (simp_all add: name_blit_def blit_in)
  moreover have "unat (of_nat (length (ns ! ?c)) :: u32) = length (ns ! ?c)" using len by (intro unat_of_nat32) simp
  ultimately show ?case
    using m c c1 read_directory_entry [OF Suc.prems(1) c, of junk buf]
    by (intro exI [of _ m]) (simp add: Cons_nth_drop_Suc)
qed

text \<open>
  C30. Reading the directory from its start gives the names of all entries, each once and in order,
  into the buffer; the call after the last one returns 0 and starts over, so that the calls after it give all the names again. (The comment on
  the function says that further calls return 0.)
\<close>

theorem read_directory_enumerates:
  assumes "directory (fs_info s) (mem s) ns" and "dir_apart (fs_info s) ns buf" and "dir_read_count s = 0"
  shows "\<exists>s'. read_dir_calls junk buf (length ns) s = Inr (ns, s')
    \<and> read_directory junk buf s' = Inr (0, s'\<lparr>dir_read_count := 0\<rparr>)
    \<and> (\<exists>s''. read_dir_calls junk buf (length ns) (s'\<lparr>dir_read_count := 0\<rparr>) = Inr (ns, s''))"
proof -
  obtain m where m: "read_dir_calls junk buf (length ns) s = Inr (ns, s\<lparr>mem := m, dir_read_count := of_nat (length ns)\<rparr>)"
    "directory (fs_info s) m ns"
    using read_dir_calls_spec [OF assms(1,2), of "length ns" junk] assms(3) by auto
  have "unat (of_nat (length ns) :: u32) = length ns" using assms(1) by (intro unat_of_nat32) (simp add: directory_def)
  then have "read_directory junk buf (s\<lparr>mem := m, dir_read_count := of_nat (length ns)\<rparr>)
      = Inr (0, s\<lparr>mem := m, dir_read_count := 0\<rparr>)"
    using m(2) read_directory_end [of "s\<lparr>mem := m, dir_read_count := of_nat (length ns)\<rparr>" ns junk buf] by simp
  moreover have "\<exists>s''. read_dir_calls junk buf (length ns) (s\<lparr>mem := m, dir_read_count := 0\<rparr>) = Inr (ns, s'')"
    using read_dir_calls_spec [of "s\<lparr>mem := m, dir_read_count := 0\<rparr>" ns buf "length ns" junk] m(2) assms(2) by auto
  ultimately show ?thesis using m(1) by auto
qed

definition dir_state :: fs where
  "dir_state = fs_boot\<lparr>mem := sample_image, fs_info := sample_fs\<rparr>"

theorem read_directory_enumerates_witness:
  "\<exists>s'. read_dir_calls \<lparr>dname = replicate 33 0, dtype = 0, dinode = 0\<rparr> 0x9000 2 dir_state = Inr ([[97], [98, 99]], s')"
proof -
  have "directory (fs_info dir_state) (mem dir_state) [[97], [98, 99]]" using sample_directory by (simp add: dir_state_def)
  moreover have "dir_apart (fs_info dir_state) [[97], [98, 99]] 0x9000"
    by (auto simp: dir_apart_def dir_state_def sample_fs_def less_Suc_eq le_Suc_eq)
  moreover have "dir_read_count dir_state = 0" by (simp add: dir_state_def fs_boot_def proc.extend_def)
  moreover have "length [[97 :: u8], [98, 99]] = 2" by simp
  ultimately show ?thesis using read_directory_enumerates [of dir_state "[[97], [98, 99]]" "0x9000"] by metis
qed

lemma read_file_spec:
  assumes dir: "directory (fs_info s) (mem s) ns" and i: "i < length ns" "\<forall>j < i. ns ! j \<noteq> ns ! i"
    and name: "holds_str (ptr_at (mem s) (file_name_at (current_pblock s) fd)) (ns ! i)"
    and inode: "inode = load32 (mem s) (dir_entries (fs_info s) ! i + 36)"
    and pos: "pos = load32 (mem s) (file_pos_at (current_pblock s) fd)" "unat pos \<le> file_size (fs_info s) (mem s) inode"
    and size: "file_size (fs_info s) (mem s) inode \<le> 4096 * 1023" "unat pos + unat nbytes < 2 ^ 32"
    and n: "n = min (unat nbytes) (file_size (fs_info s) (mem s) inode - unat pos)"
    and apart: "\<forall>a \<in> file_area (fs_info s) (mem s) inode. n \<le> unat (a - buf)"
      "\<forall>k < 4. n \<le> unat (file_pos_at (current_pblock s) fd + of_nat k - buf)"
  shows "read_file junk fd buf nbytes s = Inr (of_nat n, s\<lparr>mem :=
      store32 (blit (mem s) buf n (\<lambda>k. file_byte (fs_info s) (mem s) inode (unat pos + k)))
        (file_pos_at (current_pblock s) fd) (pos + of_nat n)\<rparr>)"
    "unat (pos + of_nat n) = unat pos + n" "unat pos + n \<le> file_size (fs_info s) (mem s) inode"
proof -
  let ?fp = "file_pos_at (current_pblock s) fd"
  let ?m = "blit (mem s) buf n (\<lambda>k. file_byte (fs_info s) (mem s) inode (unat pos + k))"
  have "length (ns ! i) \<le> 32" using dir i by (simp add: directory_def)
  then obtain d where d: "read_dentry_by_name (fs_info s) (mem s) (Some (ptr_at (mem s) (file_name_at (current_pblock s) fd))) (Some junk)
      = Inr (0, Some d)" "dinode d = inode"
    using lookup_hit [OF dir name _ i(1) refl i(2), of junk] inode by auto
  have rd: "read_data (fs_info s) inode pos buf nbytes (mem s) = Inr (of_nat n, ?m)"
    using pos(2) size(2) n size(1) apart(1) by (rule read_data_spec)
  have keep: "?m (?fp + of_nat k) = mem s (?fp + of_nat k)" if "k < 4" for k
    using apart(2) that by (intro blit_out) simp
  from keep [of 0] keep [of 1] keep [of 2] keep [of 3] have fp: "load32 ?m ?fp = pos"
    unfolding pos(1) by (intro load32_cong) simp_all
  show "read_file junk fd buf nbytes s = Inr (of_nat n, s\<lparr>mem := store32 ?m ?fp (pos + of_nat n)\<rparr>)"
    using d rd fp by (simp add: read_file_def Let_def pos(1) [symmetric])
  show "unat (pos + of_nat n) = unat pos + n" using size(2) n by (simp add: unat_word_ariths unat_of_nat32)
  show "unat pos + n \<le> file_size (fs_info s) (mem s) inode" using pos(2) n by simp
qed

text \<open>
  C7. Sequential reading: for a descriptor whose name is that of an entry and whose position lies
  within the file, \<open>read_file\<close> delivers the next bytes of the file, at most \<open>nbytes\<close> and 0 at the
  end, and advances the position by the number delivered, so that the position stays within the
  file. The buffer must be apart from the file's blocks and from the descriptor's position.
\<close>

theorem read_file_advances:
  assumes dir: "directory (fs_info s) (mem s) ns" and i: "i < length ns" "\<forall>j < i. ns ! j \<noteq> ns ! i"
    and name: "holds_str (ptr_at (mem s) (file_name_at (current_pblock s) fd)) (ns ! i)"
    and inode: "inode = load32 (mem s) (dir_entries (fs_info s) ! i + 36)"
    and pos: "pos = load32 (mem s) (file_pos_at (current_pblock s) fd)" "unat pos \<le> file_size (fs_info s) (mem s) inode"
    and size: "file_size (fs_info s) (mem s) inode \<le> 4096 * 1023" "unat pos + unat nbytes < 2 ^ 32"
    and n: "n = min (unat nbytes) (file_size (fs_info s) (mem s) inode - unat pos)"
    and apart: "\<forall>a \<in> file_area (fs_info s) (mem s) inode. n \<le> unat (a - buf)"
      "\<forall>k < 4. n \<le> unat (file_pos_at (current_pblock s) fd + of_nat k - buf)"
  shows "\<exists>s'. read_file junk fd buf nbytes s = Inr (of_nat n, s')
    \<and> mem s' = store32 (blit (mem s) buf n (\<lambda>k. file_byte (fs_info s) (mem s) inode (unat pos + k)))
        (file_pos_at (current_pblock s) fd) (pos + of_nat n)
    \<and> load32 (mem s') (file_pos_at (current_pblock s) fd) = pos + of_nat n
    \<and> unat (pos + of_nat n) = unat pos + n \<and> unat pos + n \<le> file_size (fs_info s) (mem s) inode"
  using read_file_spec(1) [OF assms, of junk] read_file_spec(2,3) [OF assms] by (simp add: load32_store32)


definition open_state :: fs where
  "open_state = dir_state\<lparr>process_count := 1\<rparr>"

theorem read_file_advances_witness:
  "\<exists>s'. read_file \<lparr>dname = replicate 33 0, dtype = 0, dinode = 9\<rparr> 2 0x8048000 4 open_state = Inr (4, s')
     \<and> load32 (mem s') (file_pos_at (pcb_addr 1) 2) = 4"
proof -
  have m: "mem open_state = sample_image" "fs_info open_state = sample_fs" "process_count open_state = 1"
    by (simp_all add: open_state_def dir_state_def)
  have name: "holds_str (ptr_at sample_image (file_name_at (pcb_addr 1) 2)) [97]"
    by (simp add: holds_str_def fd_at_def pcb_addr_def) (simp add: sample_image_def)
  have fields: "0 = load32 sample_image (dir_entries sample_fs ! 0 + 36)" "0 = load32 sample_image (file_pos_at (pcb_addr 1) 2)"
    by (simp_all add: load32_def sample_fs_def fd_at_def pcb_addr_def sample_image_def)
  have area: "\<forall>a \<in> file_area sample_fs sample_image 0. 4 \<le> unat (a - 0x8048000)"
  proof
    fix a
    assume "a \<in> file_area sample_fs sample_image 0"
    then have "unat a < 0x14000" by (rule sample_apart)
    then show "4 \<le> unat (a - 0x8048000)" by (simp add: unat_sub_if' word_le_nat_alt)
  qed
  have slot: "\<forall>k < 4. 4 \<le> unat (file_pos_at (pcb_addr 1) 2 + of_nat k - 0x8048000)"
  proof (intro allI impI)
    fix k :: nat
    assume "k < 4"
    then have "k \<in> {0, 1, 2, 3}" by auto
    then show "4 \<le> unat (file_pos_at (pcb_addr 1) 2 + of_nat k - 0x8048000)" by (auto simp: fd_at_def pcb_addr_def)
  qed
  have bounds: "unat (0 :: u32) \<le> file_size sample_fs sample_image 0" "file_size sample_fs sample_image 0 \<le> 4096 * 1023"
    "unat (0 :: u32) + unat (4 :: u32) < 2 ^ 32" "4 = min (unat (4 :: u32)) (file_size sample_fs sample_image 0 - unat (0 :: u32))"
    unfolding sample_size by simp_all
  have hd: "0 < length [[97], [98, 99 :: u8]]" "\<forall>j < 0. [[97], [98, 99 :: u8]] ! j \<noteq> [[97], [98, 99]] ! 0"
    "[[97], [98, 99 :: u8]] ! 0 = [97]" by simp_all
  show ?thesis
    using read_file_advances [of open_state "[[97], [98, 99]]" 0 2 0 0 4 4 "0x8048000" "\<lparr>dname = replicate 33 0, dtype = 0, dinode = 9\<rparr>",
        unfolded m hd(3), OF sample_directory hd(1,2) [unfolded hd(3)] name fields bounds area slot] by auto
qed

end
