(* ===== verification/Terminal.thy ===== *)
theory Terminal
  imports Filesys
begin

text \<open>
  The three terminals of \<^verbatim>\<open>terminal.c\<close> and the keyboard of \<^verbatim>\<open>keyboard.c\<close>. The displayed terminal is
  the text page at \<open>VIDEO\<close>; every terminal also has a backing page, which holds its text while it is
  not displayed. The keyboard handler fills the line buffer of the displayed terminal and echoes.
  An index outside an array is \<open>Bounds\<close>. The handler repeats while the controller reports more
  input, which the device decides, so it is a partial function: no result means it never returns.
\<close>

section \<open>State\<close>

record terminals = fs +
  virtual_x :: "int list"
  virtual_y :: "int list"
  display_terminal :: int
  alt_on :: int
  caps_on :: int
  ctrl_on :: int
  shift_on :: int
  ready_to_read :: "int list"
  kb_buf_index :: "int list"
  kb_buf :: "u8 list list"

abbreviation (input) NUM_TERMINALS :: nat where "NUM_TERMINALS \<equiv> 3"

abbreviation (input) MAX_KB_BUF :: int where "MAX_KB_BUF \<equiv> 128"

section \<open>Terminals\<close>

definition update_cursor :: "int \<Rightarrow> int \<Rightarrow> 'a machine_scheme \<Rightarrow> 'a machine_scheme" where
  "update_cursor x_pos y_pos s =
     (let position = word_of_int (y_pos * NUM_COLS + x_pos) :: u16;
          s = outb 0x0F 0x3D4 s;
          s = outb (ucast (position AND 0xFF)) 0x3D5 s;
          s = outb 0x0E 0x3D4 s
      in outb (ucast (drop_bit 8 position AND 0xFF)) 0x3D5 s)"

definition term_clear :: "'a console_scheme \<Rightarrow> 'a console_scheme" where
  "term_clear s = update_cursor 0 0 ((clear s)\<lparr>screen_x := 0, screen_y := 0\<rparr>)"

text \<open>The array \<open>term_mem\<close> of the addresses of the backing pages.\<close>

definition term_mem :: "u32 list" where
  "term_mem = [0x0B9000, 0x0BA000, 0x0BB000]"

definition active_index :: "'a proc_scheme \<Rightarrow> nat res" where
  "active_index s = res_bind (pq_get_active_term s) (\<lambda>t. if unat t < NUM_TERMINALS then Inr (unat t) else Inl Bounds)"

definition term_scroll_down :: "'a terminals_scheme \<Rightarrow> 'a terminals_scheme res" where
  "term_scroll_down s =
     res_bind (active_index s) (\<lambda>active_term. Inr (s\<lparr>mem := scroll_page (term_mem ! active_term) (mem s)\<rparr>))"

definition term_putc :: "u8 \<Rightarrow> 'a terminals_scheme \<Rightarrow> 'a terminals_scheme res" where
  "term_putc c s =
     res_bind (active_index s) (\<lambda>t.
       if c = 10 \<or> c = 13 then
         (let s = s\<lparr>virtual_y := (virtual_y s)[t := virtual_y s ! t + 1], virtual_x := (virtual_x s)[t := 0]\<rparr>
          in if NUM_ROWS \<le> virtual_y s ! t
             then res_bind (term_scroll_down s) (\<lambda>s. Inr (s\<lparr>virtual_y := (virtual_y s)[t := NUM_ROWS - 1]\<rparr>))
             else Inr s)
       else
         (let p = cell (term_mem ! t) (virtual_y s ! t) (virtual_x s ! t);
              s = s\<lparr>mem := (mem s)(p := c, p + 1 := ATTRIB), virtual_x := (virtual_x s)[t := virtual_x s ! t + 1]\<rparr>
          in if NUM_COLS \<le> virtual_x s ! t then
               (let s = s\<lparr>virtual_y := (virtual_y s)[t := virtual_y s ! t + 1]\<rparr>
                in res_bind (if NUM_ROWS \<le> virtual_y s ! t
                     then res_bind (term_scroll_down s) (\<lambda>s. Inr (s\<lparr>virtual_y := (virtual_y s)[t := NUM_ROWS - 1]\<rparr>))
                     else Inr s)
                   (\<lambda>s. Inr (s\<lparr>virtual_x := (virtual_x s)[t := 0]\<rparr>)))
             else Inr s))"

definition change_display_term :: "u8 \<Rightarrow> 'a terminals_scheme \<Rightarrow> int \<times> 'a terminals_scheme" where
  "change_display_term next_terminal s =
     (let curr_backing_page = get_backing_page (display_terminal s);
          (r, s) = copy_4kb_page VIDEO curr_backing_page s;
          next_backing_page = get_backing_page (uint next_terminal);
          (r, s) = copy_4kb_page next_backing_page VIDEO s
      in (0, s\<lparr>display_terminal := uint next_terminal\<rparr>))"

text \<open>The loops of \<open>term_write\<close> over the buffer; \<open>k\<close> bytes are left from index \<open>i\<close> on.\<close>

fun write_loop :: "(u8 \<Rightarrow> 'a machine_scheme \<Rightarrow> 'a machine_scheme res) \<Rightarrow> u32 \<Rightarrow> nat \<Rightarrow> nat \<Rightarrow> 'a machine_scheme
    \<Rightarrow> 'a machine_scheme res" where
  "write_loop put buf i 0 s = Inr s"
| "write_loop put buf i (Suc k) s = res_bind (put (mem s (buf + of_nat i)) s) (write_loop put buf (Suc i) k)"

definition term_write :: "u32 \<Rightarrow> int \<Rightarrow> 'a terminals_scheme \<Rightarrow> (int \<times> 'a terminals_scheme) res" where
  "term_write buf nbytes s =
     (if buf = 0 then Inr (-1, s)
      else res_bind (pq_get_active_term s) (\<lambda>active.
        if active = word_of_int (display_terminal s) then
          res_bind (write_loop (\<lambda>c s. Inr (putc c s)) buf 0 (nat nbytes) s) (\<lambda>s.
            Inr (0, update_cursor (screen_x s) (screen_y s) s))
        else res_bind (write_loop term_putc buf 0 (nat nbytes) s) (\<lambda>s. Inr (0, s))))"

section \<open>Keyboard\<close>

definition clear_keyboard_buf :: "'a terminals_scheme \<Rightarrow> 'a terminals_scheme" where
  "clear_keyboard_buf s = fold (\<lambda>i s. s\<lparr>ready_to_read := (ready_to_read s)[i := 0], kb_buf_index := (kb_buf_index s)[i := 0]\<rparr>)
     [0..<NUM_TERMINALS] s"

definition keyboard_init :: "env \<Rightarrow> 'a terminals_scheme \<Rightarrow> 'a terminals_scheme" where
  "keyboard_init env s =
     (let s = enable_irq env 1 s;
          s = s\<lparr>caps_on := 0, ctrl_on := 0, shift_on := 0\<rparr>
      in clear_keyboard_buf s)"

definition keyboard_disable :: "env \<Rightarrow> 'a terminals_scheme \<Rightarrow> 'a terminals_scheme" where
  "keyboard_disable env s = clear_keyboard_buf (disable_irq env 1 s)"

definition term_open :: "env \<Rightarrow> 'a terminals_scheme \<Rightarrow> int \<times> 'a terminals_scheme" where
  "term_open env s =
     (let s = keyboard_init env s;
          s = term_clear s;
          s = fold (\<lambda>i s. s\<lparr>virtual_x := (virtual_x s)[i := 0], virtual_y := (virtual_y s)[i := 0]\<rparr>) [0..<NUM_TERMINALS] s
      in (0, s))"

definition term_close :: "env \<Rightarrow> 'a terminals_scheme \<Rightarrow> int \<times> 'a terminals_scheme" where
  "term_close env s = (0, keyboard_disable env s)"

text \<open>The four tables from scan codes to characters; position 0 to 0x44.\<close>

definition key_table :: "string \<Rightarrow> string \<Rightarrow> string \<Rightarrow> string \<Rightarrow> u8 list" where
  "key_table digits upper home bottom =
     map of_char ([CHR 0x00, CHR 0x00] @ digits @ [CHR 0x00, CHR 0x00] @ upper @ [CHR 0x0A, CHR 0x00] @ home @ [CHR 0x00] @ bottom
       @ [CHR 0x00, CHR ''*'', CHR 0x00, CHR '' ''] @ replicate 11 (CHR 0x00))"

definition key_press :: "u8 list" where
  "key_press = key_table ''1234567890-='' ''qwertyuiop[]'' (''asdfghjkl;'' @ [CHR 0x27, CHR 0x60]) (CHR 0x5C # ''zxcvbnm,./'')"

definition caps_key_press :: "u8 list" where
  "caps_key_press = key_table ''1234567890-='' ''QWERTYUIOP[]'' (''ASDFGHJKL;'' @ [CHR 0x27, CHR 0x60]) (CHR 0x5C # ''ZXCVBNM,./'')"

definition shift_key_press :: "u8 list" where
  "shift_key_press = key_table ''!@#$%^&*()_+'' ''QWERTYUIOP{}'' (''ASDFGHJKL:'' @ [CHR 0x22, CHR 0x7E]) (CHR 0x7C # ''ZXCVBNM<>?'')"

definition caps_shift_key_press :: "u8 list" where
  "caps_shift_key_press = key_table ''!@#$%^&*()_+'' ''qwertyuiop{}'' (''asdfghjkl:'' @ [CHR 0x22, CHR 0x7E]) (CHR 0x7C # ''zxcvbnm<>?'')"

text \<open>One element of the line buffer of the displayed terminal.\<close>

definition store_key :: "u8 \<Rightarrow> 'a terminals_scheme \<Rightarrow> 'a terminals_scheme res" where
  "store_key v s =
     (let t = nat (display_terminal s); i = kb_buf_index s ! t
      in if 0 \<le> i \<and> i < MAX_KB_BUF
         then Inr (s\<lparr>kb_buf := (kb_buf s)[t := (kb_buf s ! t)[nat i := v]], kb_buf_index := (kb_buf_index s)[t := i + 1]\<rparr>)
         else Inl Bounds)"

definition backspace :: "'a terminals_scheme \<Rightarrow> 'a terminals_scheme" where
  "backspace s =
     (if 0 < screen_x s then
        (let s = s\<lparr>screen_x := screen_x s - 1\<rparr>;
             s = putc (of_char (CHR '' '')) s;
             s = s\<lparr>screen_x := screen_x s - 1\<rparr>;
             t = nat (display_terminal s);
             s = (if 0 < kb_buf_index s ! t then s\<lparr>kb_buf_index := (kb_buf_index s)[t := kb_buf_index s ! t - 1]\<rparr> else s)
         in update_cursor (screen_x s) (screen_y s) s)
      else s)"

definition enter :: "'a terminals_scheme \<Rightarrow> 'a terminals_scheme res" where
  "enter s =
     res_bind (store_key 10 s) (\<lambda>s.
       let s = putc 10 s;
           s = update_cursor (screen_x s) (screen_y s) s
       in Inr (s\<lparr>ready_to_read := (ready_to_read s)[nat (display_terminal s) := 1]\<rparr>))"

text \<open>Alt with a function key: the cursor is saved, the display switched, the cursor restored.\<close>

definition switch_key :: "int \<Rightarrow> 'a terminals_scheme \<Rightarrow> 'a terminals_scheme" where
  "switch_key pressed s =
     (let s = cli s;
          t = nat (display_terminal s);
          s = s\<lparr>virtual_x := (virtual_x s)[t := screen_x s], virtual_y := (virtual_y s)[t := screen_y s]\<rparr>;
          s = (if pressed = 0x3B then snd (change_display_term 0 s)
               else if pressed = 0x3C then snd (change_display_term 1 s)
               else if pressed = 0x3D then snd (change_display_term 2 s) else s);
          t = nat (display_terminal s);
          s = s\<lparr>screen_x := virtual_x s ! t, screen_y := virtual_y s ! t\<rparr>;
          s = update_cursor (screen_x s) (screen_y s) s
      in sti s)"

definition key_value :: "nat \<Rightarrow> 'a terminals_scheme \<Rightarrow> u8" where
  "key_value pressed s =
     (if caps_on s \<noteq> 0 \<and> shift_on s \<noteq> 0 then caps_shift_key_press ! pressed
      else if caps_on s \<noteq> 0 then caps_key_press ! pressed
      else if shift_on s \<noteq> 0 then shift_key_press ! pressed
      else key_press ! pressed)"

text \<open>The default branch of the switch. The result says whether the handler returns at once.\<close>

definition other_key :: "int \<Rightarrow> 'a terminals_scheme \<Rightarrow> (bool \<times> 'a terminals_scheme) res" where
  "other_key pressed s =
     (if pressed < 0x45 then
        (let s = (if alt_on s \<noteq> 0 \<and> 0x3B \<le> pressed then switch_key pressed s else s)
         in if ctrl_on s \<noteq> 0 \<and> pressed = 0x26 then Inr (True, term_clear s)
            else if kb_buf_index s ! nat (display_terminal s) = MAX_KB_BUF - 1 then Inr (True, s)
            else let v = key_value (nat pressed) s
                 in if v \<noteq> 0
                    then res_bind (store_key v s) (\<lambda>s. let s = putc v s in Inr (False, update_cursor (screen_x s) (screen_y s) s))
                    else Inr (False, s))
      else Inr (False, s))"

definition key_step :: "int \<Rightarrow> 'a terminals_scheme \<Rightarrow> (bool \<times> 'a terminals_scheme) res" where
  "key_step pressed s =
     (if \<not> (0 \<le> display_terminal s \<and> display_terminal s < int NUM_TERMINALS) then Inl Bounds
      else let t = nat (display_terminal s);
               s = (if kb_buf_index s ! t = MAX_KB_BUF then s\<lparr>kb_buf_index := (kb_buf_index s)[t := 0]\<rparr> else s)
           in if pressed = 0x3A then Inr (False, s\<lparr>caps_on := if caps_on s = 1 then 0 else 1\<rparr>)
              else if pressed = 0x2A \<or> pressed = 0x36 then Inr (False, s\<lparr>shift_on := 1\<rparr>)
              else if pressed = 0xAA \<or> pressed = 0xB6 then Inr (False, s\<lparr>shift_on := 0\<rparr>)
              else if pressed = 0x1D then Inr (False, s\<lparr>ctrl_on := 1\<rparr>)
              else if pressed = 0x9D then Inr (False, s\<lparr>ctrl_on := 0\<rparr>)
              else if pressed = 0x38 then Inr (False, s\<lparr>alt_on := 1\<rparr>)
              else if pressed = 0xB8 then Inr (False, s\<lparr>ctrl_on := 0\<rparr>)
              else if pressed = 0x0E then Inr (False, backspace s)
              else if pressed = 0x1C then res_bind (enter s) (\<lambda>s. Inr (False, s))
              else other_key pressed s)"

partial_function (option) keyboard_handler :: "env \<Rightarrow> 'a terminals_scheme \<Rightarrow> 'a terminals_scheme res option" where
  "keyboard_handler env s =
     (let (pressed, s) = inb env 0x60 s
      in case key_step (uint pressed) s of Inl e \<Rightarrow> Some (Inl e)
         | Inr (returned, s) \<Rightarrow>
             (if returned then Some (Inr s)
              else let (status, s) = inb env 0x64 s
                   in if status AND 2 \<noteq> 0 then keyboard_handler env s else Some (Inr s)))"

text \<open>
  \<open>term_read\<close> after the wait. The line buffer is not part of byte memory, so its \<open>memcpy\<close> is
  written as the copy it is; a length above 128 reads past the array.
\<close>

definition read_line :: "u32 \<Rightarrow> int \<Rightarrow> 'a terminals_scheme \<Rightarrow> (int \<times> 'a terminals_scheme) res" where
  "read_line buf nbytes s =
     (let t = nat (display_terminal s); i = kb_buf_index s ! t
      in if \<not> (0 \<le> display_terminal s \<and> display_terminal s < int NUM_TERMINALS) then Inl Bounds
         else if i < nbytes then
           (if i < 0 \<or> MAX_KB_BUF < i then Inl Bounds
            else let m = blit (mem s) buf (nat i) (\<lambda>k. kb_buf s ! t ! k);
                     m = fold (\<lambda>k m. m(buf + word_of_int k := 0)) [i..nbytes - 1] m
                 in Inr (i, clear_keyboard_buf (s\<lparr>mem := m\<rparr>)))
         else
           (if MAX_KB_BUF < uint (word_of_int nbytes :: u32) then Inl Bounds
            else Inr (0, clear_keyboard_buf (s\<lparr>mem := blit (mem s) buf (nat nbytes) (\<lambda>k. kb_buf s ! t ! k)\<rparr>))))"

definition term_read :: "('i \<Rightarrow> 'a terminals_scheme \<Rightarrow> 'a terminals_scheme) \<Rightarrow> 'i list \<Rightarrow> u32 \<Rightarrow> int \<Rightarrow> 'a terminals_scheme
    \<Rightarrow> (int \<times> 'i list \<times> 'a terminals_scheme) res" where
  "term_read handler is buf nbytes s =
     (if buf = 0 then Inr (-1, is, s)
      else res_bind (opt_res No_return (spin (\<lambda>s. ready_to_read s ! nat (display_terminal s) = 0) handler is s)) (\<lambda>(is, s).
           res_bind (read_line buf nbytes s) (\<lambda>(r, s). Inr (r, is, s))))"

section \<open>Writing to a hidden terminal\<close>

text \<open>
  The process at the front of the queue runs in terminal \<open>t\<close>, and the virtual cursor of that
  terminal is on its screen.
\<close>

definition term_ok :: "nat \<Rightarrow> 'a terminals_scheme \<Rightarrow> bool" where
  "term_ok t s \<longleftrightarrow> t < 3 \<and> length (virtual_x s) = 3 \<and> length (virtual_y s) = 3 \<and> 0 < process_count s
     \<and> on_screen (virtual_y s ! t) (virtual_x s ! t)
     \<and> (\<exists>i \<in> {1..6}. pq_peak (process_q s) = Inr (pcb_addr i) \<and> unat (pcb_get (mem s) (pcb_addr i) Terminal_num) = t)"

definition term_put :: "u8 \<Rightarrow> 'a terminals_scheme \<Rightarrow> 'a terminals_scheme" where
  "term_put c s = (case term_putc c s of Inl e \<Rightarrow> s | Inr s' \<Rightarrow> s')"

lemma term_mem_nth: "t < 3 \<Longrightarrow> term_mem ! t = 0xB9000 + of_nat t * 0x1000"
proof -
  assume "t < 3"
  then have "t \<in> {0, 1, 2}" by auto
  then show ?thesis by (elim insertE emptyE; simp add: term_mem_def)
qed

lemma term_page_apart:
  assumes "t < 3" "i \<in> {1..6}" "k < 580"
  shows "4096 \<le> unat (pcb_addr i + of_nat k - term_mem ! t)"
proof -
  have t: "t \<in> {0, 1, 2}" using assms(1) by auto
  have "0x700000 \<le> unat (pcb_addr i - term_mem ! t)" "unat (pcb_addr i - term_mem ! t) \<le> 0x800000"
    using u32_1_6 [OF assms(2)] t by (elim insertE emptyE; simp add: pcb_addr_def term_mem_def)+
  then have "unat ((pcb_addr i - term_mem ! t) + of_nat k) = unat (pcb_addr i - term_mem ! t) + k"
    using assms(3) by (simp add: unat_word_ariths unat_of_nat32)
  moreover have "pcb_addr i + of_nat k - term_mem ! t = (pcb_addr i - term_mem ! t) + of_nat k" by simp
  ultimately have "unat (pcb_addr i + of_nat k - term_mem ! t) = unat (pcb_addr i - term_mem ! t) + k" by (simp only:)
  then show ?thesis using \<open>0x700000 \<le> unat (pcb_addr i - term_mem ! t)\<close> by simp
qed

text \<open>Writes within the page of the terminal do not touch the control block.\<close>

lemma active_kept:
  assumes "t < 3" "i \<in> {1..6}" and "\<And>a. 4000 \<le> unat (a - term_mem ! t) \<Longrightarrow> m' a = m a"
  shows "pcb_get m' (pcb_addr i) f = pcb_get m (pcb_addr i) f"
proof (rule pcb_get_cong)
  fix k :: nat
  assume "k < 580"
  then have "4096 \<le> unat (pcb_addr i + of_nat k - term_mem ! t)" using assms by (intro term_page_apart)
  then show "m' (pcb_addr i + of_nat k) = m (pcb_addr i + of_nat k)" by (intro assms(3)) simp
qed

lemma scroll_page_outside: "4000 \<le> unat (a - base) \<Longrightarrow> scroll_page base m a = m a"
proof (rule scroll_page_other)
  fix y x
  assume "4000 \<le> unat (a - base)" "on_screen y x"
  with cell_in_page(1) [of y x base] show "a \<noteq> cell base y x" by auto
qed

lemma cell_write_outside:
  "on_screen y x \<Longrightarrow> 4000 \<le> unat (a - base) \<Longrightarrow> (m(cell base y x := c, cell base y x + 1 := v)) a = m a"
  using cell_in_page [of y x base] by auto

lemma active_index_ok: "term_ok t s \<Longrightarrow> active_index s = Inr t"
  by (auto simp: term_ok_def active_index_def pq_get_active_term_def)

text \<open>The state after one character, on each of the three paths.\<close>

lemma term_putc_newline:
  assumes "term_ok t s" "c = 10 \<or> c = 13"
  shows "term_putc c s = Inr (s\<lparr>mem := if 24 \<le> virtual_y s ! t then scroll_page (term_mem ! t) (mem s) else mem s,
      virtual_x := (virtual_x s)[t := 0],
      virtual_y := (virtual_y s)[t := if 24 \<le> virtual_y s ! t then 24 else virtual_y s ! t + 1]\<rparr>)"
proof -
  have t: "t < length (virtual_y s)" using assms(1) by (simp add: term_ok_def)
  have "term_ok t s \<Longrightarrow> active_index (s\<lparr>virtual_y := ys, virtual_x := xs\<rparr>) = Inr t" for xs ys
    by (auto simp: term_ok_def active_index_def pq_get_active_term_def)
  then show ?thesis using assms t
    by (auto simp: term_putc_def active_index_ok [OF assms(1)] term_scroll_down_def Let_def)
qed

lemma active_index_write:
  assumes "term_ok t s" and "\<And>a. 4000 \<le> unat (a - term_mem ! t) \<Longrightarrow> m a = mem s a"
  shows "active_index (s\<lparr>mem := m, virtual_x := xs, virtual_y := ys\<rparr>) = Inr t"
proof -
  from assms(1) obtain i where i: "i \<in> {1..6}" "pq_peak (process_q s) = Inr (pcb_addr i)"
    "unat (pcb_get (mem s) (pcb_addr i) Terminal_num) = t" "t < 3" "0 < process_count s"
    by (auto simp: term_ok_def)
  have "pcb_get m (pcb_addr i) Terminal_num = pcb_get (mem s) (pcb_addr i) Terminal_num"
    using i assms(2) by (intro active_kept)
  with i show ?thesis by (simp add: active_index_def pq_get_active_term_def)
qed

lemma term_putc_char:
  assumes ok: "term_ok t s" and c: "\<not> (c = 10 \<or> c = 13)"
  defines "m \<equiv> (mem s)(cell (term_mem ! t) (virtual_y s ! t) (virtual_x s ! t) := c,
      cell (term_mem ! t) (virtual_y s ! t) (virtual_x s ! t) + 1 := 7)"
  shows "term_putc c s = Inr (if virtual_x s ! t < 79 then s\<lparr>mem := m, virtual_x := (virtual_x s)[t := virtual_x s ! t + 1]\<rparr>
    else s\<lparr>mem := if 24 \<le> virtual_y s ! t then scroll_page (term_mem ! t) m else m, virtual_x := (virtual_x s)[t := 0],
      virtual_y := (virtual_y s)[t := if 24 \<le> virtual_y s ! t then 24 else virtual_y s ! t + 1]\<rparr>)"
proof -
  have scr: "on_screen (virtual_y s ! t) (virtual_x s ! t)" and len: "t < length (virtual_y s)" "t < length (virtual_x s)"
    using ok by (simp_all add: term_ok_def)
  have out: "m a = mem s a" if "4000 \<le> unat (a - term_mem ! t)" for a
    unfolding m_def using cell_write_outside [OF scr that] .
  have act: "active_index (s\<lparr>mem := m, virtual_x := xs, virtual_y := ys\<rparr>) = Inr t" for xs ys
    using ok out by (rule active_index_write)
  show ?thesis using c len
    by (auto simp: term_putc_def active_index_ok [OF ok] term_scroll_down_def Let_def m_def [symmetric] act)
qed

lemma term_ok_kept:
  assumes "term_ok t s" and "\<And>a. 4000 \<le> unat (a - term_mem ! t) \<Longrightarrow> m a = mem s a"
    and "length xs = 3" "length ys = 3" "on_screen (ys ! t) (xs ! t)"
  shows "term_ok t (s\<lparr>mem := m, virtual_x := xs, virtual_y := ys\<rparr>)"
proof -
  from assms(1) obtain i where i: "i \<in> {1..6}" "pq_peak (process_q s) = Inr (pcb_addr i)"
    "unat (pcb_get (mem s) (pcb_addr i) Terminal_num) = t" "t < 3" "0 < process_count s"
    by (auto simp: term_ok_def)
  have "pcb_get m (pcb_addr i) Terminal_num = pcb_get (mem s) (pcb_addr i) Terminal_num"
    using i assms(2) by (intro active_kept)
  with i assms(3-5) show ?thesis by (auto simp: term_ok_def)
qed

lemma term_put_ok:
  assumes ok: "term_ok t s"
  shows "term_ok t (term_put c s) \<and> term_putc c s = Inr (term_put c s)"
proof -
  have scr: "on_screen (virtual_y s ! t) (virtual_x s ! t)" and len: "length (virtual_y s) = 3" "length (virtual_x s) = 3" "t < 3"
    using ok by (simp_all add: term_ok_def)
  have scr': "on_screen (if 24 \<le> virtual_y s ! t then 24 else virtual_y s ! t + 1) 0" using scr by (simp add: on_screen_def)
  show ?thesis
  proof (cases "c = 10 \<or> c = 13")
    case True
    have "term_ok t (s\<lparr>mem := if 24 \<le> virtual_y s ! t then scroll_page (term_mem ! t) (mem s) else mem s,
        virtual_x := (virtual_x s)[t := 0], virtual_y := (virtual_y s)[t := if 24 \<le> virtual_y s ! t then 24 else virtual_y s ! t + 1]\<rparr>)"
      using len scr' by (intro term_ok_kept [OF ok]) (simp_all add: scroll_page_outside)
    then show ?thesis by (simp only: term_put_def term_putc_newline [OF ok True] sum.case)
  next
    case False
    let ?m = "(mem s)(cell (term_mem ! t) (virtual_y s ! t) (virtual_x s ! t) := c,
      cell (term_mem ! t) (virtual_y s ! t) (virtual_x s ! t) + 1 := 7)"
    have out: "?m a = mem s a" if "4000 \<le> unat (a - term_mem ! t)" for a
      using cell_write_outside [OF scr that] .
    have "term_ok t (s\<lparr>mem := ?m, virtual_x := (virtual_x s)[t := virtual_x s ! t + 1], virtual_y := virtual_y s\<rparr>)"
      if "virtual_x s ! t < 79"
      using len scr that out by (intro term_ok_kept [OF ok]) (simp_all add: on_screen_def)
    moreover have "term_ok t (s\<lparr>mem := if 24 \<le> virtual_y s ! t then scroll_page (term_mem ! t) ?m else ?m,
        virtual_x := (virtual_x s)[t := 0], virtual_y := (virtual_y s)[t := if 24 \<le> virtual_y s ! t then 24 else virtual_y s ! t + 1]\<rparr>)"
      using len scr' out by (intro term_ok_kept [OF ok]) (simp_all add: scroll_page_outside)
    ultimately show ?thesis by (simp add: term_put_def term_putc_char [OF ok False])
  qed
qed

interpretation tc: text_console "term_mem ! t" mem "\<lambda>s :: 'a terminals_scheme. virtual_x s ! t" "\<lambda>s. virtual_y s ! t" term_put "term_ok t" for t
proof
  fix s :: "'a terminals_scheme" and c
  assume ok: "term_ok t s"
  then have len: "t < length (virtual_y s)" "t < length (virtual_x s)" by (simp_all add: term_ok_def)
  show "term_ok t (term_put c s)" using term_put_ok [OF ok] by simp
  show "virtual_x (term_put c s) ! t = 0 \<and> virtual_y (term_put c s) ! t = (if 24 \<le> virtual_y s ! t then 24 else virtual_y s ! t + 1)
      \<and> mem (term_put c s) = (if 24 \<le> virtual_y s ! t then scroll_page (term_mem ! t) (mem s) else mem s)"
    if "c = 10 \<or> c = 13" using len by (simp add: term_put_def term_putc_newline [OF ok that])
  show "virtual_x (term_put c s) ! t = virtual_x s ! t + 1 \<and> virtual_y (term_put c s) ! t = virtual_y s ! t
      \<and> mem (term_put c s) = (mem s)(cell (term_mem ! t) (virtual_y s ! t) (virtual_x s ! t) := c,
        cell (term_mem ! t) (virtual_y s ! t) (virtual_x s ! t) + 1 := 7)"
    if "\<not> (c = 10 \<or> c = 13)" "virtual_x s ! t < 79" using len that by (simp add: term_put_def term_putc_char [OF ok that(1)])
  show "virtual_x (term_put c s) ! t = 0 \<and> virtual_y (term_put c s) ! t = (if 24 \<le> virtual_y s ! t then 24 else virtual_y s ! t + 1)
      \<and> mem (term_put c s) = (let m = (mem s)(cell (term_mem ! t) (virtual_y s ! t) (virtual_x s ! t) := c,
          cell (term_mem ! t) (virtual_y s ! t) (virtual_x s ! t) + 1 := 7)
        in if 24 \<le> virtual_y s ! t then scroll_page (term_mem ! t) m else m)"
    if "\<not> (c = 10 \<or> c = 13)" "79 \<le> virtual_x s ! t" using len that by (simp add: term_put_def term_putc_char [OF ok that(1)] Let_def)
qed

lemma term_cursor: "term_ok t s \<Longrightarrow> tc.cursor_ok t s"
  by (simp add: tc.cursor_ok_def term_ok_def)

text \<open>All that writing to a hidden terminal changes: memory and the virtual cursor of that terminal.\<close>

definition term_moved :: "nat \<Rightarrow> 'a terminals_scheme \<Rightarrow> 'a terminals_scheme \<Rightarrow> bool" where
  "term_moved t s s' \<longleftrightarrow> s' = s\<lparr>mem := mem s', virtual_x := (virtual_x s)[t := virtual_x s' ! t], virtual_y := (virtual_y s)[t := virtual_y s' ! t]\<rparr>"

lemma term_movedI:
  assumes "s' = s\<lparr>mem := m, virtual_x := (virtual_x s)[t := x], virtual_y := (virtual_y s)[t := y]\<rparr>"
    and "t < length (virtual_x s)" "t < length (virtual_y s)"
  shows "term_moved t s s'"
  using assms by (simp add: term_moved_def)

lemma term_put_frame:
  assumes "term_ok t s"
  shows "term_moved t s (term_put c s)"
proof -
  have len: "t < length (virtual_x s)" "t < length (virtual_y s)" using assms by (simp_all add: term_ok_def)
  show ?thesis
  proof (cases "c = 10 \<or> c = 13")
    case True
    show ?thesis by (rule term_movedI [OF _ len]) (simp only: term_put_def term_putc_newline [OF assms True] sum.case)
  next
    case False
    have same: "virtual_y s = (virtual_y s)[t := virtual_y s ! t]" by simp
    show ?thesis
    proof (cases "virtual_x s ! t < 79")
      case True
      show ?thesis by (rule term_movedI [OF _ len, where y = "virtual_y s ! t"]) (simp add: term_put_def term_putc_char [OF assms False] True)
    next
      case False
      show ?thesis by (rule term_movedI [OF _ len]) (simp add: term_put_def term_putc_char [OF assms \<open>\<not> (c = 10 \<or> c = 13)\<close>] False)
    qed
  qed
qed

lemma term_moved_trans: "term_moved t s s' \<Longrightarrow> term_moved t s' s'' \<Longrightarrow> term_moved t s s''"
proof -
  assume a: "term_moved t s s'" and b: "term_moved t s' s''"
  obtain m x y where s': "s' = s\<lparr>mem := m, virtual_x := (virtual_x s)[t := x], virtual_y := (virtual_y s)[t := y]\<rparr>"
    using a unfolding term_moved_def by blast
  obtain m' x' y' where s'': "s'' = s'\<lparr>mem := m', virtual_x := (virtual_x s')[t := x'], virtual_y := (virtual_y s')[t := y']\<rparr>"
    using b unfolding term_moved_def by blast
  show ?thesis by (simp add: term_moved_def s'' s') (metis list_update_id list_update_overwrite nth_list_update_eq length_list_update list_update_beyond not_le)
qed

lemma term_put_run:
  assumes "term_ok t s"
  shows "term_ok t (fold term_put cs s) \<and> term_moved t s (fold term_put cs s)"
  using assms
proof (induction cs arbitrary: s)
  case (Cons c cs)
  have "term_ok t (term_put c s)" "term_moved t s (term_put c s)"
    using term_put_ok [OF Cons.prems] term_put_frame [OF Cons.prems] by simp_all
  then show ?case using Cons.IH [of "term_put c s"] term_moved_trans [of t s "term_put c s"] by simp
qed (simp add: term_moved_def)

lemma write_loop_term:
  assumes "term_ok t s" and "\<And>j. i \<le> j \<Longrightarrow> j < i + k \<Longrightarrow> 4000 \<le> unat (buf + of_nat j - term_mem ! t)"
  shows "write_loop term_putc buf i k s = Inr (fold term_put (map (\<lambda>j. mem s (buf + of_nat j)) [i..<i + k]) s)"
  using assms
proof (induction k arbitrary: i s)
  case (Suc k)
  let ?c = "mem s (buf + of_nat i)"
  have ok: "term_ok t (term_put ?c s)" "term_putc ?c s = Inr (term_put ?c s)"
    using term_put_ok [OF Suc.prems(1)] by simp_all
  have "mem (term_put ?c s) (buf + of_nat j) = mem s (buf + of_nat j)" if "j \<in> set [Suc i..<Suc i + k]" for j
    using that Suc.prems(2) [of j] by (intro tc.put_outside [OF term_cursor [OF Suc.prems(1)]]) auto
  then have "map (\<lambda>j. mem (term_put ?c s) (buf + of_nat j)) [Suc i..<Suc i + k] = map (\<lambda>j. mem s (buf + of_nat j)) [Suc i..<Suc i + k]"
    by (intro map_cong refl)
  moreover have "write_loop term_putc buf (Suc i) k (term_put ?c s)
      = Inr (fold term_put (map (\<lambda>j. mem (term_put ?c s) (buf + of_nat j)) [Suc i..<Suc i + k]) (term_put ?c s))"
    using ok(1) Suc.prems(2) by (intro Suc.IH) simp_all
  moreover have "[i..<i + Suc k] = i # [Suc i..<Suc i + k]" by (simp add: upt_conv_Cons)
  ultimately show ?case using ok(2) by (simp only: write_loop.simps res_bind_simps list.map fold_simps)
qed simp

section \<open>Properties of the terminals\<close>

text \<open>
  C37. A process whose terminal is not displayed writes to its own hidden page: \<open>term_write\<close>
  succeeds, the page and the virtual cursor of the terminal behave as the abstract terminal fed with
  the bytes of the buffer, and nothing else changes: no byte outside the page, so neither the displayed
  screen nor the pages of the other terminals, and no part of the state but memory and this terminal's virtual cursor, so
  neither the visible cursor, the devices, the other cursors nor the line buffers. This holds for every \<open>nbytes\<close>: the test for a
  size that is too large is commented out in the source.
\<close>

theorem term_write_hidden:
  assumes "term_ok t s" and "int t \<noteq> display_terminal s" "0 \<le> display_terminal s" "display_terminal s < 3"
    and "buf \<noteq> 0" and "\<And>j. j < nat nbytes \<Longrightarrow> 4000 \<le> unat (buf + of_nat j - term_mem ! t)"
  shows "\<exists>s'. term_write buf nbytes s = Inr (0, s')
    \<and> page_view (term_mem ! t) (mem s') (virtual_x s' ! t) (virtual_y s' ! t)
      = fold tty_put (map (\<lambda>j. mem s (buf + of_nat j)) [0..<nat nbytes])
          (page_view (term_mem ! t) (mem s) (virtual_x s ! t) (virtual_y s ! t))
    \<and> (\<forall>a. 4000 \<le> unat (a - term_mem ! t) \<longrightarrow> mem s' a = mem s a)
    \<and> s' = s\<lparr>mem := mem s', virtual_x := (virtual_x s)[t := virtual_x s' ! t], virtual_y := (virtual_y s)[t := virtual_y s' ! t]\<rparr>"
proof -
  let ?cs = "map (\<lambda>j. mem s (buf + of_nat j)) [0..<nat nbytes]"
  from assms(1) obtain i where i: "i \<in> {1..6}" "pq_peak (process_q s) = Inr (pcb_addr i)"
    "unat (pcb_get (mem s) (pcb_addr i) Terminal_num) = t" "t < 3" "0 < process_count s"
    by (auto simp: term_ok_def)
  have "pcb_get (mem s) (pcb_addr i) Terminal_num \<noteq> word_of_int (display_terminal s)"
  proof
    assume "pcb_get (mem s) (pcb_addr i) Terminal_num = word_of_int (display_terminal s)"
    then have "t = nat (display_terminal s)"
      using i(3) assms(3,4) by (simp add: unsigned_of_int take_bit_int_eq_self)
    then show False using assms(2,3) by simp
  qed
  moreover have "write_loop term_putc buf 0 (nat nbytes) s = Inr (fold term_put ?cs s)"
    using write_loop_term [OF assms(1), of 0 "nat nbytes" buf] assms(6) by simp
  ultimately have "term_write buf nbytes s = Inr (0, fold term_put ?cs s)"
    using assms(5) i by (simp add: term_write_def pq_get_active_term_def)
  moreover have "page_view (term_mem ! t) (mem (fold term_put ?cs s)) (virtual_x (fold term_put ?cs s) ! t) (virtual_y (fold term_put ?cs s) ! t)
      = fold tty_put ?cs (page_view (term_mem ! t) (mem s) (virtual_x s ! t) (virtual_y s ! t))"
    using tc.run_refines_tty [OF term_cursor [OF assms(1)], of ?cs] by (simp only: tc.view_def)
  ultimately show ?thesis
    using tc.run_outside [OF term_cursor [OF assms(1)], of _ ?cs] term_put_run [OF assms(1), of ?cs]
    unfolding term_moved_def by blast
qed

definition term_boot :: terminals where
  "term_boot = fs.extend (fs_boot\<lparr>process_count := 1, process_q := \<lparr>pcbs = [pcb_addr 1, 0, 0, 0, 0, 0], front = 0, rear = 0\<rparr>\<rparr>)
     \<lparr>virtual_x = [0, 0, 0], virtual_y = [0, 0, 0], display_terminal = 0, alt_on = 0, caps_on = 0, ctrl_on = 0, shift_on = 0,
      ready_to_read = [0, 0, 0], kb_buf_index = [0, 0, 0], kb_buf = replicate 3 (replicate 128 0)\<rparr>"

definition hidden_state :: terminals where
  "hidden_state = term_boot\<lparr>mem := pcb_set (pcb_addr 1) Terminal_num 2 (\<lambda>a. if a = 0x8048000 then 65 else 0)\<rparr>"

lemma hidden_state_ok: "term_ok 2 hidden_state"
  by (auto simp: term_ok_def hidden_state_def term_boot_def fs_boot_def proc_boot_def page_boot_def page.extend_def proc.extend_def
      fs.extend_def on_screen_def pq_peak_def pq_ref_def pcb_get_set intro!: bexI [of _ 1])

theorem term_write_hidden_witness:
  "\<exists>s'. term_write 0x8048000 1 hidden_state = Inr (0, s') \<and> mem s' 0xB8000 = mem hidden_state 0xB8000
     \<and> screen_x s' = screen_x hidden_state"
proof -
  have "display_terminal hidden_state = 0" by (simp add: hidden_state_def term_boot_def fs.extend_def)
  then obtain s' where "term_write 0x8048000 1 hidden_state = Inr (0, s')"
    "\<forall>a. 4000 \<le> unat (a - term_mem ! 2) \<longrightarrow> mem s' a = mem hidden_state a"
    and frame: "s' = hidden_state\<lparr>mem := mem s', virtual_x := (virtual_x hidden_state)[2 := virtual_x s' ! 2],
      virtual_y := (virtual_y hidden_state)[2 := virtual_y s' ! 2]\<rparr>"
    using term_write_hidden [OF hidden_state_ok, of "0x8048000" 1] by (auto simp: term_mem_def)
  moreover have "screen_x s' = screen_x hidden_state" by (subst frame) simp
  ultimately show ?thesis by (auto simp: term_mem_def)
qed

lemma pages_apart:
  fixes x y :: u32
  assumes "4096 \<le> unat (x - y)" "unat (x - y) \<le> 2 ^ 32 - 4096" "i < 4096"
  shows "4096 \<le> unat (x + of_nat i - y)"
proof -
  have "unat ((x - y) + of_nat i) = unat (x - y) + i" using assms by (simp add: unat_word_ariths unat_of_nat32)
  moreover have "x + of_nat i - y = (x - y) + of_nat i" by simp
  ultimately have "unat (x + of_nat i - y) = unat (x - y) + i" by (simp only:)
  then show ?thesis using assms(1) by simp
qed

lemma backing_far:
  assumes "d \<in> {0, 1, 2}"
  shows "4096 \<le> unat (get_backing_page d - VIDEO)" "4096 \<le> unat (VIDEO - get_backing_page d)"
    "unat (get_backing_page d - VIDEO) \<le> 2 ^ 32 - 4096"
  using assms by (elim insertE emptyE; simp add: get_backing_page_def)+

lemma backing_apart:
  assumes "d \<in> {0, 1, 2}" "e \<in> {0, 1, 2}" "d \<noteq> e"
  shows "4096 \<le> unat (get_backing_page d - get_backing_page e)" "unat (get_backing_page d - get_backing_page e) \<le> 2 ^ 32 - 4096"
  using assms by (elim insertE emptyE; simp add: get_backing_page_def)+

text \<open>
  C38. \<open>change_display_term\<close> shows the page of the next terminal and saves what was shown: the video
  page becomes the next terminal's backing page, the backing page of the terminal displayed
  before becomes the old video page, and no other byte changes. Switching to the displayed
  terminal itself changes only its backing page.
\<close>

theorem change_display_term_swaps:
  assumes "0 \<le> display_terminal s" "display_terminal s < 3" and "unat t < 3"
  shows "let s' = snd (change_display_term t s)
    in display_terminal s' = uint t
      \<and> (\<forall>i < 4096. mem s' (VIDEO + of_nat i) = (if uint t = display_terminal s then mem s (VIDEO + of_nat i)
            else mem s (get_backing_page (uint t) + of_nat i))
          \<and> mem s' (get_backing_page (display_terminal s) + of_nat i) = mem s (VIDEO + of_nat i))
      \<and> (\<forall>a. 4096 \<le> unat (a - VIDEO) \<longrightarrow> 4096 \<le> unat (a - get_backing_page (display_terminal s)) \<longrightarrow> mem s' a = mem s a)"
proof -
  have d: "display_terminal s \<in> {0, 1, 2}" using assms(1,2) by auto
  have u: "uint t \<in> {0, 1, 2}" 
  proof -
    have "unat t \<in> {0, 1, 2}" using assms(3) by auto
    then show ?thesis by (elim insertE emptyE; simp only: uint_nat) simp_all
  qed
  let ?p = "get_backing_page (display_terminal s)" and ?q = "get_backing_page (uint t)"
  have far: "4096 \<le> unat (?p - VIDEO)" "4096 \<le> unat (VIDEO - ?q)" "4096 \<le> unat (VIDEO - ?p)" "4096 \<le> unat (?q - VIDEO)" "unat (?p - VIDEO) \<le> 2 ^ 32 - 4096"
    using backing_far [OF d] backing_far [OF u] by simp_all
  define m1 where "m1 = blit (mem s) ?p 4096 (\<lambda>i. mem s (VIDEO + of_nat i))"
  define m2 where "m2 = blit m1 VIDEO 4096 (\<lambda>i. m1 (?q + of_nat i))"
  have "memcpy (mem s) ?p VIDEO 4096 = m1" "memcpy m1 VIDEO ?q 4096 = m2"
    using memcpy_blit [of ?p VIDEO 4096 "mem s"] memcpy_blit [of VIDEO ?q 4096 m1] far(1,2)
    by (simp_all add: word_le_nat_alt m1_def m2_def)
  then have s': "snd (change_display_term t s) = s\<lparr>mem := m2, display_terminal := uint t\<rparr>"
    by (simp add: change_display_term_def copy_4kb_page_def)
  have video: "m2 (VIDEO + of_nat i) = (if uint t = display_terminal s then mem s (VIDEO + of_nat i) else mem s (?q + of_nat i))"
    if "i < 4096" for i
  proof -
    have "m2 (VIDEO + of_nat i) = m1 (?q + of_nat i)" unfolding m2_def using that by (intro blit_in) simp_all
    also have "\<dots> = (if uint t = display_terminal s then mem s (VIDEO + of_nat i) else mem s (?q + of_nat i))"
    proof (cases "uint t = display_terminal s")
      case True
      then show ?thesis unfolding m1_def using that by (simp add: blit_in)
    next
      case False
      then have "4096 \<le> unat (?q - ?p)" "unat (?q - ?p) \<le> 2 ^ 32 - 4096"
        using backing_apart [OF u d] by simp_all
      then have "4096 \<le> unat (?q + of_nat i - ?p)" using that by (rule pages_apart)
      with False show ?thesis unfolding m1_def by (simp add: blit_out)
    qed
    finally show ?thesis .
  qed
  have saved: "m2 (?p + of_nat i) = mem s (VIDEO + of_nat i)" if "i < 4096" for i
  proof -
    have "4096 \<le> unat (?p + of_nat i - VIDEO)" using far(1,5) that by (rule pages_apart)
    then show ?thesis unfolding m2_def m1_def using that by (simp add: blit_out blit_in)
  qed
  have rest: "m2 a = mem s a" if "4096 \<le> unat (a - VIDEO)" "4096 \<le> unat (a - ?p)" for a
    unfolding m2_def m1_def using that by (simp add: blit_out)
  show ?thesis unfolding s' Let_def by (simp add: video saved rest)
qed

theorem change_display_term_swaps_witness:
  "mem (snd (change_display_term 1 (term_boot\<lparr>mem := (\<lambda>a. if a = 0xBA000 then 65 else if a = 0xB8000 then 66 else 0)\<rparr>))) 0xB8000 = 65
   \<and> mem (snd (change_display_term 1 (term_boot\<lparr>mem := (\<lambda>a. if a = 0xBA000 then 65 else if a = 0xB8000 then 66 else 0)\<rparr>))) 0xB9000 = 66"
proof -
  let ?s = "term_boot\<lparr>mem := (\<lambda>a. if a = 0xBA000 then 65 else if a = 0xB8000 then 66 else 0)\<rparr>"
  have d: "display_terminal ?s = 0" by (simp add: term_boot_def fs.extend_def)
  have "mem (snd (change_display_term 1 ?s)) (VIDEO + of_nat 0) = mem ?s (get_backing_page 1 + of_nat 0)
      \<and> mem (snd (change_display_term 1 ?s)) (get_backing_page 0 + of_nat 0) = mem ?s (VIDEO + of_nat 0)"
    using change_display_term_swaps [of ?s 1, unfolded Let_def, THEN conjunct2, THEN conjunct1, rule_format, of 0] d by simp
  then show ?thesis by (simp add: get_backing_page_def)
qed

section \<open>The keyboard buffer\<close>

definition kb_inv :: "'a terminals_scheme \<Rightarrow> bool" where
  "kb_inv s \<longleftrightarrow> 0 \<le> display_terminal s \<and> display_terminal s < 3 \<and> length (virtual_x s) = 3 \<and> length (virtual_y s) = 3
     \<and> length (kb_buf_index s) = 3 \<and> length (ready_to_read s) = 3 \<and> length (kb_buf s) = 3
     \<and> on_screen (screen_y s) (screen_x s)
     \<and> (\<forall>t < 3. 0 \<le> kb_buf_index s ! t \<and> kb_buf_index s ! t \<le> MAX_KB_BUF \<and> length (kb_buf s ! t) = 128
         \<and> on_screen (virtual_y s ! t) (virtual_x s ! t))"

text \<open>What the operations of the lower layers change.\<close>

lemma putc_shape:
  assumes "on_screen (screen_y s) (screen_x s)"
  obtains m x y where "putc c s = s\<lparr>mem := m, screen_x := x, screen_y := y\<rparr>" "on_screen y x"
proof (rule that)
  show "putc c s = s\<lparr>mem := mem (putc c s), screen_x := screen_x (putc c s), screen_y := screen_y (putc c s)\<rparr>"
    by (simp add: putc_def scroll_down_def Let_def)
  show "on_screen (screen_y (putc c s)) (screen_x (putc c s))"
    using con.put_cursor [of s c] assms by (simp add: con.cursor_ok_def)
qed

lemma update_cursor_shape: "\<exists>l. update_cursor x y s = s\<lparr>io := l\<rparr>"
  by (simp add: update_cursor_def outb_def Let_def) blast

lemma term_clear_shape: "\<exists>m l. term_clear s = s\<lparr>mem := m, screen_x := 0, screen_y := 0, io := l\<rparr>"
  by (simp add: term_clear_def update_cursor_def outb_def clear_def Let_def) blast

lemma change_display_shape: "\<exists>m. snd (change_display_term t s) = s\<lparr>mem := m, display_terminal := uint t\<rparr>"
  by (simp add: change_display_term_def copy_4kb_page_def Let_def) blast

lemma kb_inv_display: "kb_inv s \<Longrightarrow> nat (display_terminal s) < 3"
  by (auto simp: kb_inv_def)

lemma kb_inv_cursor:
  "kb_inv s \<Longrightarrow> on_screen y x \<Longrightarrow> kb_inv (s\<lparr>mem := m, screen_x := x, screen_y := y\<rparr>)"
  "kb_inv (s\<lparr>io := l\<rparr>) = kb_inv s"
  by (simp_all add: kb_inv_def)

lemma kb_inv_update_cursor: "kb_inv (update_cursor x y s) = kb_inv s"
  by (metis kb_inv_cursor(2) update_cursor_shape)

lemma kb_inv_sti: "kb_inv (sti s) = kb_inv s"
  by (simp add: kb_inv_def sti_def)

lemma kb_inv_putc: "kb_inv s \<Longrightarrow> kb_inv (update_cursor x y (putc c s))"
proof -
  assume inv: "kb_inv s"
  then have "on_screen (screen_y s) (screen_x s)" by (simp add: kb_inv_def)
  then obtain m x1 y1 where p: "putc c s = s\<lparr>mem := m, screen_x := x1, screen_y := y1\<rparr>" "on_screen y1 x1" by (rule putc_shape)
  obtain l where "update_cursor x y (putc c s) = (putc c s)\<lparr>io := l\<rparr>" using update_cursor_shape by blast
  then show ?thesis using inv p by (simp add: kb_inv_def)
qed

lemma store_key_inv:
  assumes "kb_inv s" "kb_buf_index s ! nat (display_terminal s) < MAX_KB_BUF"
  shows "\<exists>s'. store_key v s = Inr s' \<and> kb_inv s' \<and> display_terminal s' = display_terminal s"
proof -
  have t: "nat (display_terminal s) < 3" using assms(1) by (rule kb_inv_display)
  then have "0 \<le> kb_buf_index s ! nat (display_terminal s)" using assms(1) by (simp add: kb_inv_def)
  then show ?thesis using assms t by (auto simp: store_key_def Let_def kb_inv_def nth_list_update)
qed

lemma backspace_inv: "kb_inv s \<Longrightarrow> kb_inv (backspace s)"
proof (cases "0 < screen_x s")
  case True
  assume inv: "kb_inv s"
  let ?s = "s\<lparr>screen_x := screen_x s - 1\<rparr>"
  have scr: "on_screen (screen_y s) (screen_x s)" using inv by (simp add: kb_inv_def)
  then have "screen_x s - 1 < 79" by (simp add: on_screen_def)
  then have p: "putc 32 ?s = ?s\<lparr>mem := mem (putc 32 ?s), screen_x := screen_x s\<rparr>"
    by (simp add: putc_def Let_def)
  obtain m where m: "putc 32 ?s = s\<lparr>screen_x := screen_x s, mem := m\<rparr>" using p by auto
  have t: "nat (display_terminal s) < 3" using inv by (rule kb_inv_display)
  have "on_screen (screen_y s) (screen_x s - 1)" using scr True by (simp add: on_screen_def)
  then have "kb_inv (s\<lparr>mem := m, screen_x := screen_x s - 1\<rparr>)"
    "0 < kb_buf_index s ! nat (display_terminal s) \<Longrightarrow> kb_inv (s\<lparr>mem := m, screen_x := screen_x s - 1,
        kb_buf_index := (kb_buf_index s)[nat (display_terminal s) := kb_buf_index s ! nat (display_terminal s) - 1]\<rparr>)"
    using inv t by (auto simp: kb_inv_def nth_list_update)
  then show ?thesis
    using True by (simp add: backspace_def Let_def m kb_inv_update_cursor)
qed (simp add: backspace_def)

lemma enter_inv:
  assumes "kb_inv s" "kb_buf_index s ! nat (display_terminal s) < MAX_KB_BUF"
  shows "\<exists>s'. enter s = Inr s' \<and> kb_inv s'"
proof -
  obtain s1 where s1: "store_key 10 s = Inr s1" "kb_inv s1" using store_key_inv [OF assms] by blast
  have "kb_inv (update_cursor (screen_x (putc 10 s1)) (screen_y (putc 10 s1)) (putc 10 s1))" using s1(2) by (rule kb_inv_putc)
  then show ?thesis using s1(1) by (auto simp: enter_def Let_def kb_inv_def)
qed

lemma switch_key_inv:
  assumes "kb_inv s"
  shows "kb_inv (switch_key pressed s)"
proof -
  let ?t = "nat (display_terminal s)"
  let ?s = "(cli s)\<lparr>virtual_x := (virtual_x s)[?t := screen_x s], virtual_y := (virtual_y s)[?t := screen_y s]\<rparr>"
  have t: "?t < 3" using assms by (rule kb_inv_display)
  have inv: "kb_inv ?s" using assms t by (auto simp: kb_inv_def cli_def nth_list_update)
  have disp: "kb_inv (snd (change_display_term d ?s))" if "uint d < 3" for d
    using change_display_shape [of d ?s] inv that by (auto simp: kb_inv_def)
  define s1 where "s1 = (if pressed = 0x3B then snd (change_display_term 0 ?s)
               else if pressed = 0x3C then snd (change_display_term 1 ?s)
               else if pressed = 0x3D then snd (change_display_term 2 ?s) else ?s)"
  have "kb_inv s1" unfolding s1_def using inv disp by simp
  then have "kb_inv (s1\<lparr>screen_x := virtual_x s1 ! nat (display_terminal s1), screen_y := virtual_y s1 ! nat (display_terminal s1)\<rparr>)"
    using kb_inv_display [of s1] by (simp add: kb_inv_def)
  then have "kb_inv (sti (update_cursor (virtual_x s1 ! nat (display_terminal s1)) (virtual_y s1 ! nat (display_terminal s1))
      (s1\<lparr>screen_x := virtual_x s1 ! nat (display_terminal s1), screen_y := virtual_y s1 ! nat (display_terminal s1)\<rparr>)))"
    by (simp add: kb_inv_sti kb_inv_update_cursor)
  moreover have "switch_key pressed s = sti (update_cursor (virtual_x s1 ! nat (display_terminal s1)) (virtual_y s1 ! nat (display_terminal s1))
      (s1\<lparr>screen_x := virtual_x s1 ! nat (display_terminal s1), screen_y := virtual_y s1 ! nat (display_terminal s1)\<rparr>))"
  proof -
    have "display_terminal (cli s) = display_terminal s" "virtual_x (cli s) = virtual_x s" "virtual_y (cli s) = virtual_y s"
      "screen_x (cli s) = screen_x s" "screen_y (cli s) = screen_y s" by (simp_all add: cli_def)
    moreover have "screen_x (u\<lparr>screen_x := a, screen_y := b\<rparr>) = a" "screen_y (u\<lparr>screen_x := a, screen_y := b\<rparr>) = b"
      for a b and u :: "'a terminals_scheme" by simp_all
    ultimately show ?thesis unfolding switch_key_def Let_def by (simp only: s1_def [symmetric])
  qed
  ultimately show ?thesis by simp
qed

lemma key_tables: "length key_press = 69" "length caps_key_press = 69" "length shift_key_press = 69" "length caps_shift_key_press = 69"
  by (simp_all add: key_press_def caps_key_press_def shift_key_press_def caps_shift_key_press_def key_table_def)

text \<open>The keys from F1 on have no character.\<close>

lemma key_table_high: "length d = 12 \<Longrightarrow> length u = 12 \<Longrightarrow> length h = 12 \<Longrightarrow> length b = 11 \<Longrightarrow> 0x3B \<le> k \<Longrightarrow> k < 0x45 \<Longrightarrow>
    key_table d u h b ! k = 0"
proof -
  assume len: "length d = 12" "length u = 12" "length h = 12" "length b = 11" and k: "0x3B \<le> k" "k < 0x45"
  define pre where "pre = [CHR 0x00, CHR 0x00] @ d @ [CHR 0x00, CHR 0x00] @ u @ [CHR 0x0A, CHR 0x00] @ h @ [CHR 0x00] @ b
       @ [CHR 0x00, CHR ''*'', CHR 0x00, CHR '' '']"
  have "length pre = 58" using len by (simp add: pre_def)
  moreover have "key_table d u h b = map of_char pre @ map of_char (replicate 11 (CHR 0x00))"
    by (simp add: key_table_def pre_def)
  ultimately show ?thesis using k by (simp add: nth_append)
qed

lemma key_value_high: "0x3B \<le> k \<Longrightarrow> k < 0x45 \<Longrightarrow> key_value k s = 0"
  by (simp add: key_value_def key_press_def caps_key_press_def shift_key_press_def caps_shift_key_press_def key_table_high)

lemma term_clear_inv: "kb_inv s \<Longrightarrow> kb_inv (term_clear s)"
  using term_clear_shape [of s] by (auto simp: kb_inv_def on_screen_def)

lemma other_key_inv:
  assumes "kb_inv s" "kb_buf_index s ! nat (display_terminal s) < MAX_KB_BUF" "0 \<le> pressed"
  shows "\<exists>b s'. other_key pressed s = Inr (b, s') \<and> kb_inv s'"
proof -
  define s1 where "s1 = (if alt_on s \<noteq> 0 \<and> 0x3B \<le> pressed then switch_key pressed s else s)"
  have inv: "kb_inv s1" unfolding s1_def using assms(1) switch_key_inv by auto
  define v where "v = key_value (nat pressed) s1"
  have "s1 = s" if "pressed < 0x45" "v \<noteq> 0"
  proof -
    have "\<not> 0x3B \<le> pressed"
    proof
      assume "0x3B \<le> pressed"
      then have "0x3B \<le> nat pressed" "nat pressed < 0x45" using that(1) by linarith+
      then show False using that(2) key_value_high [of "nat pressed" s1] by (simp add: v_def)
    qed
    then show ?thesis by (simp add: s1_def)
  qed
  then have stored: "\<exists>s2. store_key v s1 = Inr s2 \<and> kb_inv s2" if "pressed < 0x45" "v \<noteq> 0"
    using store_key_inv [OF assms(1,2), of v] that by auto
  have eq: "other_key pressed s = (if pressed < 0x45 then
      if ctrl_on s1 \<noteq> 0 \<and> pressed = 0x26 then Inr (True, term_clear s1)
      else if kb_buf_index s1 ! nat (display_terminal s1) = MAX_KB_BUF - 1 then Inr (True, s1)
      else if v \<noteq> 0 then res_bind (store_key v s1) (\<lambda>s. let s = putc v s in Inr (False, update_cursor (screen_x s) (screen_y s) s))
      else Inr (False, s1) else Inr (False, s))"
    by (simp add: other_key_def Let_def s1_def v_def)
  show ?thesis
  proof (cases "pressed < 0x45 \<and> v \<noteq> 0")
    case True
    then obtain s2 where "store_key v s1 = Inr s2" "kb_inv s2" using stored by auto
    then show ?thesis using eq inv assms(1) term_clear_inv [OF inv] kb_inv_putc [of s2] by (auto simp: Let_def)
  next
    case False
    then show ?thesis using eq inv assms(1) term_clear_inv [OF inv] by auto
  qed
qed

lemma key_step_inv:
  assumes "kb_inv s" and "0 \<le> pressed"
  shows "\<exists>b s'. key_step pressed s = Inr (b, s') \<and> kb_inv s'"
proof -
  let ?t = "nat (display_terminal s)"
  define s1 where "s1 = (if kb_buf_index s ! ?t = MAX_KB_BUF then s\<lparr>kb_buf_index := (kb_buf_index s)[?t := 0]\<rparr> else s)"
  have t: "?t < 3" using assms(1) by (rule kb_inv_display)
  have inv: "kb_inv s1" unfolding s1_def using assms(1) t by (auto simp: kb_inv_def nth_list_update)
  have "display_terminal s1 = display_terminal s" by (simp add: s1_def)
  moreover have "kb_buf_index s ! ?t \<le> MAX_KB_BUF" "length (kb_buf_index s) = 3" using assms(1) t by (simp_all add: kb_inv_def)
  ultimately have idx: "kb_buf_index s1 ! nat (display_terminal s1) < MAX_KB_BUF" unfolding s1_def using t by auto
  have mods: "kb_inv (s1\<lparr>caps_on := a\<rparr>)" "kb_inv (s1\<lparr>shift_on := a\<rparr>)" "kb_inv (s1\<lparr>ctrl_on := a\<rparr>)" "kb_inv (s1\<lparr>alt_on := a\<rparr>)" for a
    using inv by (simp_all add: kb_inv_def)
  have "0 \<le> display_terminal s \<and> display_terminal s < 3" using assms(1) by (simp add: kb_inv_def)
  then have "key_step pressed s = (if pressed = 0x3A then Inr (False, s1\<lparr>caps_on := if caps_on s1 = 1 then 0 else 1\<rparr>)
              else if pressed = 0x2A \<or> pressed = 0x36 then Inr (False, s1\<lparr>shift_on := 1\<rparr>)
              else if pressed = 0xAA \<or> pressed = 0xB6 then Inr (False, s1\<lparr>shift_on := 0\<rparr>)
              else if pressed = 0x1D then Inr (False, s1\<lparr>ctrl_on := 1\<rparr>)
              else if pressed = 0x9D then Inr (False, s1\<lparr>ctrl_on := 0\<rparr>)
              else if pressed = 0x38 then Inr (False, s1\<lparr>alt_on := 1\<rparr>)
              else if pressed = 0xB8 then Inr (False, s1\<lparr>ctrl_on := 0\<rparr>)
              else if pressed = 0x0E then Inr (False, backspace s1)
              else if pressed = 0x1C then res_bind (enter s1) (\<lambda>s. Inr (False, s))
              else other_key pressed s1)"
    by (simp add: key_step_def Let_def s1_def)
  then show ?thesis
    using mods backspace_inv [OF inv] enter_inv [OF inv idx] other_key_inv [OF inv idx assms(2)] by (auto split: if_splits)
qed

text \<open>
  C39. The keyboard handler is memory safe: for every scan code, from every state in which the
  buffer indices are at most 128 and the cursors on the screen, handling the key stays inside the
  line buffers and the key tables and keeps those bounds for all three terminals, also across
  terminal switches.
\<close>

theorem key_step_safe:
  assumes "kb_inv s" and "0 \<le> pressed"
  shows "\<exists>b s'. key_step pressed s = Inr (b, s') \<and> kb_inv s'"
  using assms by (rule key_step_inv)

lemma term_boot_inv: "kb_inv term_boot"
  by (auto simp: kb_inv_def term_boot_def fs_boot_def proc_boot_def page_boot_def page.extend_def proc.extend_def fs.extend_def
      on_screen_def less_Suc_eq numeral_3_eq_3)

theorem key_step_safe_witness: "\<exists>b s'. key_step 0x1E term_boot = Inr (b, s') \<and> kb_inv s'"
  using key_step_safe [OF term_boot_inv, of "0x1E"] by simp

section \<open>Line input\<close>

text \<open>A key with a character, and the situation after the characters \<open>cs\<close> of a line were typed without
  modifier keys.\<close>

definition plain_key :: "int \<Rightarrow> bool" where
  "plain_key k \<longleftrightarrow> 0 \<le> k \<and> k < 0x3B \<and> k \<noteq> 0x1C \<and> key_press ! nat k \<noteq> 0"

definition typed :: "'a terminals_scheme \<Rightarrow> u8 list \<Rightarrow> bool" where
  "typed s cs \<longleftrightarrow> kb_inv s \<and> alt_on s = 0 \<and> caps_on s = 0 \<and> ctrl_on s = 0 \<and> shift_on s = 0
     \<and> kb_buf_index s ! nat (display_terminal s) = int (length cs) \<and> length cs \<le> 127
     \<and> take (length cs) (kb_buf s ! nat (display_terminal s)) = cs"

text \<open>The keyboard controller when a key with scan code \<open>k\<close> is pressed: the code is at port 0x60, and the status
  at port 0x64 says that there is no other.\<close>

definition key_env :: "int \<Rightarrow> env" where
  "key_env k p es = (if p = 0x60 then word_of_int k else 0)"

lemma store_key_typed:
  assumes "typed s cs"
  defines "t \<equiv> nat (display_terminal s)"
  shows "store_key v s = Inr (s\<lparr>kb_buf := (kb_buf s)[t := (kb_buf s ! t)[length cs := v]], kb_buf_index := (kb_buf_index s)[t := int (length cs) + 1]\<rparr>)"
    "take (Suc (length cs)) ((kb_buf s)[t := (kb_buf s ! t)[length cs := v]] ! t) = cs @ [v]"
proof -
  have t: "t < 3" unfolding t_def using assms(1) by (auto simp: typed_def intro: kb_inv_display)
  then have len: "length (kb_buf s ! t) = 128" "t < length (kb_buf s)" using assms(1) by (auto simp: typed_def kb_inv_def)
  show "store_key v s = Inr (s\<lparr>kb_buf := (kb_buf s)[t := (kb_buf s ! t)[length cs := v]], kb_buf_index := (kb_buf_index s)[t := int (length cs) + 1]\<rparr>)"
    using assms(1) by (simp add: store_key_def Let_def typed_def t_def)
  have "take (Suc (length cs)) ((kb_buf s ! t)[length cs := v]) = take (length cs) (kb_buf s ! t) @ [v]"
    using len assms(1) by (simp add: take_Suc_conv_app_nth typed_def)
  then show "take (Suc (length cs)) ((kb_buf s)[t := (kb_buf s ! t)[length cs := v]] ! t) = cs @ [v]"
    using len assms(1) by (simp add: typed_def t_def)
qed

lemma echo_shape:
  assumes "kb_inv s"
  obtains m x y l where "update_cursor (screen_x (putc c s)) (screen_y (putc c s)) (putc c s)
      = s\<lparr>mem := m, screen_x := x, screen_y := y, io := l\<rparr>" "on_screen y x"
proof -
  have "on_screen (screen_y s) (screen_x s)" using assms by (simp add: kb_inv_def)
  then obtain m x y where p: "putc c s = s\<lparr>mem := m, screen_x := x, screen_y := y\<rparr>" "on_screen y x" by (rule putc_shape)
  obtain l where "update_cursor x y (putc c s) = (putc c s)\<lparr>io := l\<rparr>" using update_cursor_shape by blast
  with p show ?thesis by (intro that [where m = m and x = x and y = y and l = l]) simp_all
qed

lemma plain_key_not_special:
  assumes "plain_key k"
  shows "k \<notin> {0x3A, 0x2A, 0x36, 0xAA, 0xB6, 0x1D, 0x9D, 0x38, 0xB8, 0x0E, 0x1C}"
  using assms by (auto simp: plain_key_def key_press_def key_table_def)

lemma plain_key_step:
  assumes "typed s cs" "plain_key k" "length cs < 127"
  shows "\<exists>s'. key_step k s = Inr (False, s') \<and> typed s' (cs @ [key_press ! nat k])
    \<and> display_terminal s' = display_terminal s \<and> ready_to_read s' = ready_to_read s"
proof -
  let ?t = "nat (display_terminal s)" and ?v = "key_press ! nat k"
  have inv: "kb_inv s" and t: "?t < 3" using assms(1) by (auto simp: typed_def intro: kb_inv_display)
  let ?s = "s\<lparr>kb_buf := (kb_buf s)[?t := (kb_buf s ! ?t)[length cs := ?v]], kb_buf_index := (kb_buf_index s)[?t := int (length cs) + 1]\<rparr>"
  have st: "store_key ?v s = Inr ?s" using store_key_typed(1) [OF assms(1)] .
  then have inv': "kb_inv ?s" using store_key_inv [OF inv, of ?v] assms(1,3) by (auto simp: typed_def)
  then obtain m x y l where e: "update_cursor (screen_x (putc ?v ?s)) (screen_y (putc ?v ?s)) (putc ?v ?s)
      = ?s\<lparr>mem := m, screen_x := x, screen_y := y, io := l\<rparr>" "on_screen y x" by (rule echo_shape)
  have v: "?v \<noteq> 0" "\<not> 0x3B \<le> k" "k < 0x45" using assms(2) by (simp_all add: plain_key_def)
  have mods: "alt_on s = 0" "caps_on s = 0" "ctrl_on s = 0" "shift_on s = 0" and idx: "kb_buf_index s ! ?t = int (length cs)"
    using assms(1) by (simp_all add: typed_def)
  have kv: "key_value (nat k) s = ?v" using mods by (simp add: key_value_def)
  have "other_key k s = Inr (False, ?s\<lparr>mem := m, screen_x := x, screen_y := y, io := l\<rparr>)"
    unfolding other_key_def Let_def using v mods idx assms(3) by (simp add: kv st e)
  moreover have "key_step k s = other_key k s"
    using plain_key_not_special [OF assms(2)] inv idx assms(3) by (simp add: key_step_def Let_def kb_inv_def)
  moreover have "typed (?s\<lparr>mem := m, screen_x := x, screen_y := y, io := l\<rparr>) (cs @ [?v])"
    using inv' e(2) mods t inv store_key_typed(2) [OF assms(1), of ?v] assms(3) by (simp add: typed_def kb_inv_def)
  ultimately show ?thesis by (intro exI [of _ "?s\<lparr>mem := m, screen_x := x, screen_y := y, io := l\<rparr>"]) simp
qed

lemma typed_io [simp]: "typed (s\<lparr>io := l\<rparr>) cs = typed s cs" "typed (s\<lparr>iflag := f\<rparr>) cs = typed s cs"
  by (simp_all add: typed_def kb_inv_def)

lemma keyboard_handler_key:
  assumes "0 \<le> k" "k < 256" and "key_step k (s\<lparr>io := In 0x60 (word_of_int k) # io s\<rparr>) = Inr (b, s')"
  shows "\<exists>l. keyboard_handler (key_env k) s = Some (Inr (s'\<lparr>io := l\<rparr>))"
proof -
  have "uint (ucast (word_of_int k :: u8) :: u32) = k" using assms(1,2) by (simp add: unsigned_ucast_eq unsigned_of_int take_bit_int_eq_self)
  moreover have "\<exists>l. s' = s'\<lparr>io := l\<rparr>" by (rule exI [of _ "io s'"]) simp
  ultimately show ?thesis
    using assms(3) by (subst keyboard_handler.simps) (auto simp: inb_def Let_def key_env_def)
qed

lemma plain_key_irq:
  assumes "typed s cs" "plain_key k" "length cs < 127"
  shows "\<exists>s'. keyboard_handler (key_env k) s = Some (Inr s') \<and> typed s' (cs @ [key_press ! nat k])
    \<and> display_terminal s' = display_terminal s \<and> ready_to_read s' = ready_to_read s"
proof -
  let ?s = "s\<lparr>io := In 0x60 (word_of_int k) # io s\<rparr>"
  have "typed ?s cs" using assms(1) by simp
  then obtain s' where s': "key_step k ?s = Inr (False, s')" "typed s' (cs @ [key_press ! nat k])"
    "display_terminal s' = display_terminal s" "ready_to_read s' = ready_to_read s"
    using plain_key_step [of ?s cs k] assms(2,3) by auto
  have "0 \<le> k" "k < 256" using assms(2) by (simp_all add: plain_key_def)
  then obtain l where "keyboard_handler (key_env k) s = Some (Inr (s'\<lparr>io := l\<rparr>))" using keyboard_handler_key s'(1) by blast
  then show ?thesis using s'(2-4) by auto
qed

lemma enter_typed:
  assumes "typed s cs"
  shows "\<exists>s'. key_step 0x1C s = Inr (False, s') \<and> display_terminal s' = display_terminal s \<and> kb_inv s'
    \<and> ready_to_read s' ! nat (display_terminal s') = 1 \<and> kb_buf_index s' ! nat (display_terminal s') = int (length cs) + 1
    \<and> take (Suc (length cs)) (kb_buf s' ! nat (display_terminal s')) = cs @ [10]"
proof -
  let ?t = "nat (display_terminal s)"
  have inv: "kb_inv s" and t: "?t < 3" using assms by (auto simp: typed_def intro: kb_inv_display)
  let ?s = "s\<lparr>kb_buf := (kb_buf s)[?t := (kb_buf s ! ?t)[length cs := 10]], kb_buf_index := (kb_buf_index s)[?t := int (length cs) + 1]\<rparr>"
  have st: "store_key 10 s = Inr ?s" using store_key_typed(1) [OF assms] .
  then have inv': "kb_inv ?s" using store_key_inv [OF inv, of 10] assms by (auto simp: typed_def)
  then obtain m x y l where e: "update_cursor (screen_x (putc 10 ?s)) (screen_y (putc 10 ?s)) (putc 10 ?s)
      = ?s\<lparr>mem := m, screen_x := x, screen_y := y, io := l\<rparr>" "on_screen y x" by (rule echo_shape)
  let ?r = "?s\<lparr>mem := m, screen_x := x, screen_y := y, io := l, ready_to_read := (ready_to_read s)[?t := 1]\<rparr>"
  have "enter s = Inr ?r" using e(1) by (simp add: enter_def st Let_def)
  moreover have "key_step 0x1C s = res_bind (enter s) (\<lambda>s. Inr (False, s))"
    using assms inv by (simp add: key_step_def Let_def typed_def kb_inv_def)
  moreover have "kb_inv ?r" using inv' e(2) by (simp add: kb_inv_def)
  ultimately show ?thesis
    using inv t store_key_typed(2) [OF assms, of 10] by (auto simp: kb_inv_def)
qed

lemma enter_irq:
  assumes "typed s cs"
  shows "\<exists>s'. keyboard_handler (key_env 0x1C) s = Some (Inr s') \<and> kb_inv s'
    \<and> ready_to_read s' ! nat (display_terminal s') = 1 \<and> kb_buf_index s' ! nat (display_terminal s') = int (length cs) + 1
    \<and> take (Suc (length cs)) (kb_buf s' ! nat (display_terminal s')) = cs @ [10]"
proof -
  let ?s = "s\<lparr>io := In 0x60 (word_of_int 0x1C) # io s\<rparr>"
  have "typed ?s cs" using assms by simp
  then obtain s' where s': "key_step 0x1C ?s = Inr (False, s')" "kb_inv s'"
    "ready_to_read s' ! nat (display_terminal s') = 1" "kb_buf_index s' ! nat (display_terminal s') = int (length cs) + 1"
    "take (Suc (length cs)) (kb_buf s' ! nat (display_terminal s')) = cs @ [10]"
    using enter_typed [of ?s cs] by auto
  obtain l where "keyboard_handler (key_env 0x1C) s = Some (Inr (s'\<lparr>io := l\<rparr>))" using keyboard_handler_key [OF _ _ s'(1)] by auto
  then show ?thesis using s'(2-5) by (auto simp: kb_inv_cursor)
qed

text \<open>While characters arrive, a call that waits for a line goes on waiting.\<close>

lemma spin_typing:
  assumes "\<And>k t t'. keyboard_handler (key_env k) t = Some (Inr t') \<Longrightarrow> handler k t = t'"
    and "typed s cs" "iflag s" "ready_to_read s ! nat (display_terminal s) = 0"
    and "\<forall>k \<in> set ks. plain_key k" "length cs + length ks \<le> 127"
  shows "\<exists>t. typed t (cs @ map (\<lambda>k. key_press ! nat k) ks) \<and> iflag t \<and> ready_to_read t ! nat (display_terminal t) = 0
    \<and> spin (\<lambda>s. ready_to_read s ! nat (display_terminal s) = 0) handler (ks @ js) s
      = spin (\<lambda>s. ready_to_read s ! nat (display_terminal s) = 0) handler js t"
  using assms(2-6)
proof (induction ks arbitrary: s cs)
  case (Cons k ks)
  obtain s1 where s1: "keyboard_handler (key_env k) s = Some (Inr s1)" "typed s1 (cs @ [key_press ! nat k])"
    "display_terminal s1 = display_terminal s" "ready_to_read s1 = ready_to_read s"
    using plain_key_irq [OF Cons.prems(1), of k] Cons.prems(4,5) by auto
  let ?s1 = "restore_flags True s1"
  have fields: "typed ?s1 (cs @ [key_press ! nat k])" "iflag ?s1" "ready_to_read ?s1 ! nat (display_terminal ?s1) = 0"
    using s1 Cons.prems(3) by (simp_all add: restore_flags_def)
  have "spin (\<lambda>s. ready_to_read s ! nat (display_terminal s) = 0) handler ((k # ks) @ js) s
      = spin (\<lambda>s. ready_to_read s ! nat (display_terminal s) = 0) handler (ks @ js) ?s1"
    using Cons.prems(2,3) assms(1) [OF s1(1)] by (subst spin.simps) simp
  then show ?case using Cons.IH [OF fields] Cons.prems(4,5) by simp
qed auto

lemma clear_keyboard_mem [simp]: "mem (clear_keyboard_buf s) = mem s"
proof -
  have "mem (fold (\<lambda>i s. s\<lparr>ready_to_read := (ready_to_read s)[i := 0], kb_buf_index := (kb_buf_index s)[i := 0]\<rparr>) is s) = mem s" for "is"
    by (induction "is" arbitrary: s) simp_all
  then show ?thesis by (simp only: clear_keyboard_buf_def)
qed

lemma read_line_contents:
  assumes "kb_inv s" and "kb_buf_index s ! nat (display_terminal s) = int (length cs)"
    and "take (length cs) (kb_buf s ! nat (display_terminal s)) = cs" and "int (length cs) < nbytes" "nbytes < 2 ^ 31"
  shows "\<exists>s'. read_line buf nbytes s = Inr (int (length cs), s')
    \<and> (\<forall>i < nat nbytes. mem s' (buf + of_nat i) = (if i < length cs then cs ! i else 0))"
proof -
  let ?t = "nat (display_terminal s)" and ?n = "length cs"
  let ?m1 = "blit (mem s) buf ?n (\<lambda>k. kb_buf s ! ?t ! k)"
  let ?m2 = "fold (\<lambda>k m. m(buf + word_of_int k := 0)) [int ?n..nbytes - 1] ?m1"
  have "?n \<le> 128" using assms(1,2) kb_inv_display [OF assms(1)] by (auto simp: kb_inv_def)
  then have "read_line buf nbytes s = Inr (int ?n, clear_keyboard_buf (s\<lparr>mem := ?m2\<rparr>))"
    using assms(1,2,4) by (simp add: read_line_def Let_def kb_inv_def)
  moreover have "?m2 (buf + of_nat i) = (if i < ?n then cs ! i else 0)" if i: "i < nat nbytes" for i
  proof -
    have addr: "buf + of_nat i = buf + word_of_int k \<longleftrightarrow> int i = k" if "k \<in> set [int ?n..nbytes - 1]" for k
      using offset_eq [of "int i" k buf] that i assms(5) by auto
    have "buf + of_nat i \<in> (\<lambda>k. buf + word_of_int k) ` set [int ?n..nbytes - 1] \<longleftrightarrow> ?n \<le> i"
      using addr i by (auto simp: image_iff)
    then have "?m2 (buf + of_nat i) = (if ?n \<le> i then 0 else ?m1 (buf + of_nat i))"
      unfolding fold_const by simp
    moreover have "?m1 (buf + of_nat i) = cs ! i" if "i < ?n"
    proof -
      have "?m1 (buf + of_nat i) = kb_buf s ! ?t ! i" using that \<open>?n \<le> 128\<close> by (simp add: blit_in)
      also have "\<dots> = cs ! i" using that assms(3) by (metis nth_take)
      finally show ?thesis .
    qed
    ultimately show ?thesis by simp
  qed
  ultimately show ?thesis by simp
qed

text \<open>
  C40. Line input end to end: a process waits in \<open>term_read\<close> with an empty line buffer and no modifier key
  held, and keys are pressed one after the other, each an interrupt that runs \<open>keyboard_handler\<close>. When they are the keys of at most
  127 characters and then Enter, the call returns at Enter with the number of characters plus one, having
  delivered exactly the characters of the keys and the newline, followed by zeros to the end of the larger buffer; later
  interrupts are still to come. Without the Enter it goes on waiting. (The comment on \<open>term_read\<close> gives 0 as the result on success; the
  code returns the count.)
\<close>

theorem typed_line_is_read:
  assumes h: "\<forall>k t t'. keyboard_handler (key_env k) t = Some (Inr t') \<longrightarrow> handler k t = t'"
    and s: "typed s []" "iflag s" "ready_to_read s ! nat (display_terminal s) = 0"
    and ks: "\<forall>k \<in> set ks. plain_key k" "length ks \<le> 127"
    and buf: "buf \<noteq> 0" "int (length ks) + 1 < nbytes" "nbytes < 2 ^ 31"
  shows "(\<exists>s'. term_read handler (ks @ 0x1C # post) buf nbytes s = Inr (int (length ks) + 1, post, s')
      \<and> (\<forall>i < nat nbytes. mem s' (buf + of_nat i)
        = (if i < length ks then key_press ! nat (ks ! i) else if i = length ks then 10 else 0)))
    \<and> term_read handler ks buf nbytes s = Inl No_return"
proof -
  let ?cs = "map (\<lambda>k. key_press ! nat k) ks" and ?w = "\<lambda>s. ready_to_read s ! nat (display_terminal s) = 0"
  have typing: "\<exists>t. typed t ?cs \<and> iflag t \<and> ?w t \<and> spin ?w handler (ks @ js) s = spin ?w handler js t" for js
    using spin_typing [of handler s "[]" ks js] h s ks by simp
  obtain t where t: "typed t ?cs" "iflag t" "?w t" "spin ?w handler (ks @ 0x1C # post) s = spin ?w handler (0x1C # post) t"
    using typing by blast
  obtain u where u: "keyboard_handler (key_env 0x1C) t = Some (Inr u)" "kb_inv u" "ready_to_read u ! nat (display_terminal u) = 1"
    "kb_buf_index u ! nat (display_terminal u) = int (length (?cs @ [10]))"
    "take (length (?cs @ [10])) (kb_buf u ! nat (display_terminal u)) = ?cs @ [10]"
    using enter_irq [OF t(1)] by auto
  let ?u = "restore_flags True u"
  have line: "kb_inv ?u" "kb_buf_index ?u ! nat (display_terminal ?u) = int (length (?cs @ [10]))"
    "take (length (?cs @ [10])) (kb_buf ?u ! nat (display_terminal ?u)) = ?cs @ [10]" "\<not> ?w ?u"
    using u(2-5) by (simp_all add: restore_flags_def kb_inv_def)
  obtain s' where s': "read_line buf nbytes ?u = Inr (int (length (?cs @ [10])), s')"
    "\<forall>i < nat nbytes. mem s' (buf + of_nat i) = (if i < length (?cs @ [10]) then (?cs @ [10]) ! i else 0)"
    using read_line_contents [OF line(1-3), of nbytes buf] buf(2,3) by auto
  have "spin ?w handler (0x1C # post) t = Some (post, ?u)"
    using spin_wakes [where waiting = ?w and handler = handler and i = "0x1C", OF t(3,2)] line(4) h u(1) by simp
  then have "term_read handler (ks @ 0x1C # post) buf nbytes s = Inr (int (length ks) + 1, post, s')"
    using buf(1) s'(1) t(4) by (simp add: term_read_def opt_res_def)
  moreover have "term_read handler ks buf nbytes s = Inl No_return"
    using typing [of "[]"] buf(1) by (auto simp: term_read_def opt_res_def spin_starves)
  ultimately show ?thesis using s'(2) by (auto simp: nth_append intro!: exI [of _ s'])
qed

theorem typed_line_is_read_witness:
  "\<exists>s'. term_read (\<lambda>k s. case keyboard_handler (key_env k) s of Some (Inr s') \<Rightarrow> s' | _ \<Rightarrow> s) [0x26, 0x1F, 0x1C, 0x1E] 0x8048000 16
       (term_boot\<lparr>iflag := True\<rparr>) = Inr (3, [0x1E], s')
     \<and> mem s' 0x8048000 = of_char (CHR ''l'') \<and> mem s' 0x8048001 = of_char (CHR ''s'') \<and> mem s' 0x8048002 = 10"
proof -
  let ?h = "\<lambda>k s. case keyboard_handler (key_env k) s of Some (Inr s') \<Rightarrow> s' | _ \<Rightarrow> s"
  let ?s = "term_boot\<lparr>iflag := True\<rparr>"
  have h: "\<forall>k t t'. keyboard_handler (key_env k) t = Some (Inr t') \<longrightarrow> ?h k t = t'" by simp
  have "kb_inv ?s" using term_boot_inv by (simp add: kb_inv_def)
  then have s: "typed ?s []" "iflag ?s" "ready_to_read ?s ! nat (display_terminal ?s) = 0"
    by (simp_all add: typed_def term_boot_def fs.extend_def)
  have keys: "key_press ! 38 = of_char (CHR ''l'')" "key_press ! 31 = of_char (CHR ''s'')"
    by (simp_all add: key_press_def key_table_def)
  then have ks: "\<forall>k \<in> set [0x26, 0x1F]. plain_key k" by (simp add: plain_key_def)
  from typed_line_is_read [OF h s ks, of "0x8048000" 16 "[0x1E]"]
  obtain s' where "term_read ?h [0x26, 0x1F, 0x1C, 0x1E] 0x8048000 16 ?s = Inr (3, [0x1E], s')"
    and m: "\<forall>i < 16. mem s' (0x8048000 + of_nat i)
        = (if i < 2 then key_press ! nat ([0x26, 0x1F] ! i) else if i = 2 then 10 else 0)"
    by auto
  then show ?thesis using m [rule_format, of 0] m [rule_format, of 1] m [rule_format, of 2] keys by auto
qed

end
