(* ===== verification/Syscalls.thy ===== *)
theory Syscalls
  imports Terminal
begin

text \<open>
  The system calls of \<^verbatim>\<open>syscalls.c\<close>. Descriptors live in the process control block in byte memory, so
  an entry is read and written at the address the code computes, whatever the descriptor number. A
  pointer to a table of file operations is the address of one of four global structures; a call
  through any other pointer is \<open>Null_pointer\<close>. What a local variable held before it was written,
  and the registers the code reads, are arguments.
\<close>

section \<open>File operation tables\<close>

datatype fop = Fop_null | Fop_read_file | Fop_write_file | Fop_open_file | Fop_close_file
  | Fop_read_directory | Fop_write_directory | Fop_open_directory | Fop_close_directory
  | Fop_rtc_read | Fop_rtc_write | Fop_rtc_open | Fop_rtc_close
  | Fop_term_read | Fop_term_write | Fop_term_open | Fop_term_close

record fops_functions =
  function_read :: fop
  function_write :: fop
  function_open :: fop
  function_close :: fop

record sys = terminals +
  fops_file :: fops_functions
  fops_directory :: fops_functions
  fops_rtc :: fops_functions
  fops_terminal :: fops_functions

definition systemcalls_initialize :: "'a sys_scheme \<Rightarrow> 'a sys_scheme" where
  "systemcalls_initialize s = s\<lparr>
     fops_file := \<lparr>function_read = Fop_read_file, function_write = Fop_write_file, function_open = Fop_open_file, function_close = Fop_close_file\<rparr>,
     fops_directory := \<lparr>function_read = Fop_read_directory, function_write = Fop_write_directory,
        function_open = Fop_open_directory, function_close = Fop_close_directory\<rparr>,
     fops_rtc := \<lparr>function_read = Fop_rtc_read, function_write = Fop_rtc_write, function_open = Fop_rtc_open, function_close = Fop_rtc_close\<rparr>,
     fops_terminal := \<lparr>function_read = Fop_term_read, function_write = Fop_term_write, function_open = Fop_term_open,
        function_close = Fop_term_close\<rparr>\<rparr>"

definition fops_of :: "symbols \<Rightarrow> u32 \<Rightarrow> 'a sys_scheme \<Rightarrow> fops_functions res" where
  "fops_of sy p s =
     (if p = 0 then Inl Null_pointer
      else if p = fops_file_functions sy then Inr (fops_file s)
      else if p = fops_directory_functions sy then Inr (fops_directory s)
      else if p = fops_rtc_functions sy then Inr (fops_rtc s)
      else if p = fops_terminal_functions sy then Inr (fops_terminal s)
      else Inl Null_pointer)"

section \<open>Calls on descriptors\<close>

abbreviation (input) USE :: u32 where "USE \<equiv> 1"

abbreviation (input) OPS_SIZE :: int where "OPS_SIZE \<equiv> 8"

definition check_use :: "int \<Rightarrow> 'a proc_scheme \<Rightarrow> u32" where
  "check_use fd s = (if current_pblock s \<noteq> 0 then load32 (mem s) (in_use_at (current_pblock s) fd) else - 1)"

definition call_read :: "('i \<Rightarrow> 'a sys_scheme \<Rightarrow> 'a sys_scheme) \<Rightarrow> dentry \<Rightarrow> fop \<Rightarrow> 'i list \<Rightarrow> int \<Rightarrow> u32 \<Rightarrow> int
    \<Rightarrow> 'a sys_scheme \<Rightarrow> (int \<times> 'i list \<times> 'a sys_scheme) res" where
  "call_read handler junk f is fd buf nbytes s =
     (case f of
        Fop_read_file \<Rightarrow> res_bind (read_file junk fd buf (word_of_int nbytes) s) (\<lambda>(r, s). Inr (sint r, is, s))
      | Fop_read_directory \<Rightarrow> res_bind (read_directory junk buf s) (\<lambda>(r, s). Inr (sint r, is, s))
      | Fop_rtc_read \<Rightarrow> rtc_read handler is s
      | Fop_term_read \<Rightarrow> term_read handler is buf nbytes s
      | _ \<Rightarrow> Inl Null_pointer)"

definition read_sc :: "symbols \<Rightarrow> ('i \<Rightarrow> 'a sys_scheme \<Rightarrow> 'a sys_scheme) \<Rightarrow> dentry \<Rightarrow> 'i list \<Rightarrow> int \<Rightarrow> u32 \<Rightarrow> int
    \<Rightarrow> 'a sys_scheme \<Rightarrow> (int \<times> 'i list \<times> 'a sys_scheme) res" where
  "read_sc sy handler junk is fd buf nbytes s =
     (let p = current_pblock s
      in if 0 \<le> fd \<and> fd < OPS_SIZE \<and> p \<noteq> 0 \<and> buf \<noteq> 0 \<and> check_use fd s AND USE \<noteq> 0 \<and> fd \<noteq> 1
         then res_bind (fops_of sy (load32 (mem s) (fop_ptr_at p fd)) s) (\<lambda>fo.
              call_read handler junk (function_read fo) is fd buf nbytes s)
         else Inr (-1, is, s))"

definition call_write :: "env \<Rightarrow> fop \<Rightarrow> u32 \<Rightarrow> int \<Rightarrow> 'a sys_scheme \<Rightarrow> (int \<times> 'a sys_scheme) res" where
  "call_write env f buf nbytes s =
     (case f of
        Fop_write_file \<Rightarrow> Inr (sint (fst (write_file s)), s)
      | Fop_write_directory \<Rightarrow> Inr (sint (fst (write_directory s)), s)
      | Fop_rtc_write \<Rightarrow> rtc_write env buf s
      | Fop_term_write \<Rightarrow> term_write buf nbytes s
      | _ \<Rightarrow> Inl Null_pointer)"

definition write_sc :: "symbols \<Rightarrow> env \<Rightarrow> int \<Rightarrow> u32 \<Rightarrow> int \<Rightarrow> 'a sys_scheme \<Rightarrow> (int \<times> 'a sys_scheme) res" where
  "write_sc sy env fd buf nbytes s =
     (let p = current_pblock s
      in if 0 \<le> fd \<and> fd < OPS_SIZE \<and> p \<noteq> 0 \<and> buf \<noteq> 0 \<and> check_use fd s AND USE \<noteq> 0 \<and> fd \<noteq> 0
         then res_bind (fops_of sy (load32 (mem s) (fop_ptr_at p fd)) s) (\<lambda>fo.
              call_write env (function_write fo) buf nbytes s)
         else Inr (-1, s))"

text \<open>The search for a free descriptor, from \<open>location\<close> on.\<close>

function find_fd :: "int \<Rightarrow> 'a proc_scheme \<Rightarrow> int option" where
  "find_fd location s =
     (if OPS_SIZE \<le> location then None
      else if check_use location s AND USE = 0 then Some location
      else find_fd (location + 1) s)"
  by pat_completeness auto
termination
  by (relation "measure (\<lambda>(location, s). nat (OPS_SIZE - location))") auto

declare find_fd.simps [simp del]

definition call_open :: "env \<Rightarrow> fop \<Rightarrow> 'a sys_scheme \<Rightarrow> 'a sys_scheme res" where
  "call_open env f s =
     (case f of
        Fop_open_file \<Rightarrow> Inr (snd (open_file s))
      | Fop_open_directory \<Rightarrow> Inr (snd (open_directory s))
      | Fop_rtc_open \<Rightarrow> Inr (snd (rtc_open env s))
      | Fop_term_open \<Rightarrow> Inr (snd (term_open env s))
      | _ \<Rightarrow> Inl Null_pointer)"

definition open_sc :: "symbols \<Rightarrow> env \<Rightarrow> dentry \<Rightarrow> u32 \<Rightarrow> 'a sys_scheme \<Rightarrow> (int \<times> 'a sys_scheme) res" where
  "open_sc sy env junk filename s =
     (let p = current_pblock s
      in if filename = 0 \<or> p = 0 then Inr (-1, s)
         else case find_fd 0 s of None \<Rightarrow> Inr (-1, s)
         | Some location \<Rightarrow>
             res_bind (read_dentry_by_name (fs_info s) (mem s) (Some (ptr_at (mem s) filename)) (Some junk)) (\<lambda>(r, file_dentry).
               if r = - 1 then Inr (-1, s)
               else let d = (case file_dentry of Some d \<Rightarrow> d | None \<Rightarrow> junk);
                        s = s\<lparr>mem := store32 (mem s) (inode_at p location) 0\<rparr>
                    in case strlen (ptr_at (mem s) filename) of None \<Rightarrow> Inl No_return
                    | Some fname_len \<Rightarrow>
                        let s = s\<lparr>mem := memcpy (mem s) (file_name_at p location) filename (fname_len + 1)\<rparr>;
                            s = s\<lparr>mem := store32 (mem s) (file_pos_at p location) 0\<rparr>;
                            s = s\<lparr>mem := store32 (mem s) (in_use_at p location) USE\<rparr>;
                            s = (if dtype d = 0 then s\<lparr>mem := store32 (mem s) (fop_ptr_at p location) (fops_rtc_functions sy)\<rparr>
                                 else if dtype d = 1 then s\<lparr>mem := store32 (mem s) (fop_ptr_at p location) (fops_directory_functions sy)\<rparr>
                                 else if dtype d = 2 then
                                   (let s = s\<lparr>mem := store32 (mem s) (fop_ptr_at p location) (fops_file_functions sy)\<rparr>
                                    in s\<lparr>mem := store32 (mem s) (inode_at p location) (inode_address (fs_info s) (mem s) (dinode d))\<rparr>)
                                 else s)
                        in res_bind (fops_of sy (load32 (mem s) (fop_ptr_at p location)) s) (\<lambda>fo.
                           res_bind (call_open env (function_open fo) s) (\<lambda>s. Inr (location, s)))))"

definition call_close :: "env \<Rightarrow> fop \<Rightarrow> 'a sys_scheme \<Rightarrow> 'a sys_scheme res" where
  "call_close env f s =
     (case f of
        Fop_close_file \<Rightarrow> Inr (snd (close_file s))
      | Fop_close_directory \<Rightarrow> Inr (snd (close_directory s))
      | Fop_rtc_close \<Rightarrow> Inr (snd (rtc_close s))
      | Fop_term_close \<Rightarrow> Inr (snd (term_close env s))
      | _ \<Rightarrow> Inl Null_pointer)"

definition close_sc :: "symbols \<Rightarrow> env \<Rightarrow> int \<Rightarrow> 'a sys_scheme \<Rightarrow> (int \<times> 'a sys_scheme) res" where
  "close_sc sy env fd s =
     (let p = current_pblock s
      in if check_use fd s AND USE = 0 then Inr (-1, s)
         else if fd \<le> 1 \<or> OPS_SIZE \<le> fd \<or> p = 0 then Inr (-1, s)
         else if load32 (mem s) (fop_ptr_at p fd) \<noteq> 0 then
           res_bind (fops_of sy (load32 (mem s) (fop_ptr_at p fd)) s) (\<lambda>fo.
           res_bind (call_close env (function_close fo) s) (\<lambda>s.
             let s = s\<lparr>mem := store32 (mem s) (fop_ptr_at p fd) 0\<rparr>;
                 s = s\<lparr>mem := store32 (mem s) (inode_at p fd) 0\<rparr>;
                 s = s\<lparr>mem := store32 (mem s) (file_pos_at p fd) 0\<rparr>;
                 s = s\<lparr>mem := store32 (mem s) (in_use_at p fd) 0\<rparr>
             in Inr (0, s)))
         else Inr (-1, s))"

section \<open>Other calls\<close>

abbreviation (input) argument_buffer_at :: "u32 \<Rightarrow> u32" where "argument_buffer_at p \<equiv> p + 452"

definition getargs :: "u32 \<Rightarrow> int \<Rightarrow> 'a proc_scheme \<Rightarrow> int \<times> 'a proc_scheme" where
  "getargs buf nbytes s =
     (let p = current_pblock s
      in if buf = 0 then (-1, s)
         else if pcb_get (mem s) p Argument_length \<le> 1 then (-1, s)
         else if word_of_int nbytes < pcb_get (mem s) p Argument_length then (-1, s)
         else (0, s\<lparr>mem := memcpy (mem s) buf (argument_buffer_at p) (word_of_int nbytes)\<rparr>))"

definition vidmap :: "u32 \<Rightarrow> 'a machine_scheme \<Rightarrow> int \<times> 'a machine_scheme" where
  "vidmap screen_start s =
     (if screen_start < 0x08000000 then (-1, s)
      else if 0x08400000 \<le> screen_start then (-1, s)
      else if screen_start = 0 then (-1, s)
      else (0, s\<lparr>mem := store32 (mem s) screen_start 0x000B8000\<rparr>))"

definition set_handler :: "int \<Rightarrow> u32 \<Rightarrow> 'a machine_scheme \<Rightarrow> int \<times> 'a machine_scheme" where
  "set_handler signum handler_address s = (-1, s)"

definition sigreturn :: "'a machine_scheme \<Rightarrow> int \<times> 'a machine_scheme" where
  "sigreturn s = (-1, s)"

text \<open>The parameter is a copy of the caller's structure, so the caller's keeps its value.\<close>

definition init_fd :: "mem \<Rightarrow> mem" where
  "init_fd pcb =
     (let copy = fold (\<lambda>i m. store32 (store32 (store32 (store32 m (fop_ptr_at 0 i) 0) (inode_at 0 i) 0) (file_pos_at 0 i) 0) (in_use_at 0 i) 0)
        [0..7] pcb
      in pcb)"

definition init_process_ct :: "'a proc_scheme \<Rightarrow> 'a proc_scheme" where
  "init_process_ct s = s\<lparr>process_count := 0\<rparr>"

section \<open>A state to evaluate the calls in\<close>

text \<open>Process 1 runs on the sample image with its tables of file operations set up.\<close>

definition no_fops :: fops_functions where
  "no_fops = \<lparr>function_read = Fop_null, function_write = Fop_null, function_open = Fop_null, function_close = Fop_null\<rparr>"

definition sys_boot :: sys where
  "sys_boot = systemcalls_initialize (terminals.extend (term_boot\<lparr>mem := sample_image, fs_info := sample_fs\<rparr>)
     \<lparr>fops_file = no_fops, fops_directory = no_fops, fops_rtc = no_fops, fops_terminal = no_fops\<rparr>)"

lemmas sys_boot_defs = sys_boot_def systemcalls_initialize_def term_boot_def fs_boot_def proc_boot_def page_boot_def
  page.defs proc.defs fs.defs terminals.defs

lemma sys_boot_simps:
  "mem sys_boot = sample_image" "process_count sys_boot = 1" "fs_info sys_boot = sample_fs"
  "function_read (fops_file sys_boot) = Fop_read_file" "function_open (fops_file sys_boot) = Fop_open_file"
  by (simp_all add: sys_boot_defs)

end
