(* ===== verification/Fdtable.thy ===== *)
theory Fdtable
  imports Syscalls
begin

text \<open>
  The descriptor table that \<open>open\<close> and \<open>close\<close> keep in the control block, as a map from descriptor
  numbers to entries. The interface is a locale: what a client may rely on when it opens and closes
  descriptors. Its interpretation shows that the calls of \<^verbatim>\<open>syscalls.c\<close> keep it on the bytes of the
  control block, for names of at most 31 characters.
\<close>

section \<open>The interface\<close>

definition lowest_free :: "(int \<Rightarrow> 'e option) \<Rightarrow> int \<Rightarrow> bool" where
  "lowest_free t fd \<longleftrightarrow> 0 \<le> fd \<and> fd < 8 \<and> t fd = None \<and> (\<forall>k. 0 \<le> k \<and> k < fd \<longrightarrow> t k \<noteq> None)"

definition table_full :: "(int \<Rightarrow> 'e option) \<Rightarrow> bool" where
  "table_full t \<longleftrightarrow> (\<forall>fd. 0 \<le> fd \<and> fd < 8 \<longrightarrow> t fd \<noteq> None)"

lemma lowest_free_unique: "lowest_free t a \<Longrightarrow> lowest_free t b \<Longrightarrow> a = b"
  unfolding lowest_free_def by (metis linorder_cases)

lemma lowest_free_exists:
  assumes "\<not> table_full t"
  obtains fd where "lowest_free t fd"
proof -
  define n where "n = (LEAST n. t (int n) = None)"
  obtain k where k: "0 \<le> k" "k < 8" "t k = None" using assms by (auto simp: table_full_def)
  then have free: "t (int (nat k)) = None" by simp
  then have "t (int n) = None" unfolding n_def by (rule LeastI)
  moreover have "n \<le> nat k" unfolding n_def using free by (rule Least_le)
  moreover have "t j \<noteq> None" if "0 \<le> j" "j < int n" for j
    using not_less_Least [of "nat j" "\<lambda>n. t (int n) = None"] that by (auto simp: n_def)
  ultimately have "lowest_free t (int n)" using k by (auto simp: lowest_free_def)
  then show thesis by (rule that)
qed

text \<open>A run of opens: the numbers it returns.\<close>

primrec open_seq :: "('n \<Rightarrow> 's \<Rightarrow> (int \<times> 's) res) \<Rightarrow> 'n list \<Rightarrow> 's \<Rightarrow> (int list \<times> 's) res" where
  "open_seq opn [] s = Inr ([], s)"
| "open_seq opn (n # ns) s = res_bind (opn n s) (\<lambda>(fd, s). res_bind (open_seq opn ns s) (\<lambda>(fds, s). Inr (fd # fds, s)))"

text \<open>
  A table of descriptors: \<open>tab\<close> is its contents, \<open>valid\<close> says that a name can be opened and \<open>entry\<close> gives
  what a fresh descriptor for it holds. Opening takes the lowest free number, or fails without
  effect when all eight are taken; closing frees a number from 2 on, and any other 32-bit number is refused.
\<close>

locale descriptor_table =
  fixes tab :: "'s \<Rightarrow> int \<Rightarrow> 'e option"
    and opn :: "'n \<Rightarrow> 's \<Rightarrow> (int \<times> 's) res"
    and cls :: "int \<Rightarrow> 's \<Rightarrow> (int \<times> 's) res"
    and ok :: "'s \<Rightarrow> bool"
    and valid :: "'n \<Rightarrow> 's \<Rightarrow> bool"
    and entry :: "'n \<Rightarrow> 's \<Rightarrow> 'e"
  assumes opn_free: "ok s \<Longrightarrow> valid n s \<Longrightarrow> lowest_free (tab s) fd \<Longrightarrow>
      \<exists>s'. opn n s = Inr (fd, s') \<and> ok s' \<and> tab s' = (tab s)(fd \<mapsto> entry n s) \<and> (\<forall>k. valid k s \<longrightarrow> valid k s' \<and> entry k s' = entry k s)"
    and opn_full: "ok s \<Longrightarrow> valid n s \<Longrightarrow> table_full (tab s) \<Longrightarrow> opn n s = Inr (-1, s)"
    and cls_used: "ok s \<Longrightarrow> 2 \<le> fd \<Longrightarrow> fd < 8 \<Longrightarrow> tab s fd \<noteq> None \<Longrightarrow>
      \<exists>s'. cls fd s = Inr (0, s') \<and> ok s' \<and> tab s' = (tab s)(fd := None) \<and> (\<forall>k. valid k s \<longrightarrow> valid k s' \<and> entry k s' = entry k s)"
    and cls_unused: "ok s \<Longrightarrow> - (2 ^ 31) \<le> fd \<Longrightarrow> fd < 2 ^ 31 \<Longrightarrow> fd < 2 \<or> 8 \<le> fd \<or> tab s fd = None \<Longrightarrow> cls fd s = Inr (-1, s)"
begin

text \<open>Closing what was just opened gives back the table, and the next open reuses the number.\<close>

lemma open_close:
  assumes "ok s" and "valid n s" and "lowest_free (tab s) fd" and "2 \<le> fd"
  shows "\<exists>s1 s2. opn n s = Inr (fd, s1) \<and> cls fd s1 = Inr (0, s2) \<and> ok s2 \<and> tab s2 = tab s
    \<and> (\<exists>s3. opn n s2 = Inr (fd, s3) \<and> tab s3 = tab s1)"
proof -
  obtain s1 where s1: "opn n s = Inr (fd, s1)" "ok s1" "tab s1 = (tab s)(fd \<mapsto> entry n s)" "valid n s1" "entry n s1 = entry n s"
    using opn_free [OF assms(1-3)] assms(2) by blast
  have fd: "fd < 8" "tab s fd = None" using assms(3) by (simp_all add: lowest_free_def)
  then obtain s2 where s2: "cls fd s1 = Inr (0, s2)" "ok s2" "tab s2 = tab s" "valid n s2" "entry n s2 = entry n s1"
    using cls_used [of s1 fd] s1 assms(4) by (auto simp: fun_upd_idem)
  moreover obtain s3 where "opn n s2 = Inr (fd, s3)" "tab s3 = tab s1"
    using opn_free [of s2 n fd] s1 s2 assms(3) by auto
  ultimately show ?thesis using s1(1) by blast
qed

lemma opens_distinct:
  assumes "ok s" and "\<forall>n \<in> set ns. valid n s"
  shows "\<exists>fds s'. open_seq opn ns s = Inr (fds, s') \<and> length fds = length ns \<and> ok s'
    \<and> distinct (filter (\<lambda>fd. fd \<noteq> -1) fds) \<and> (\<forall>fd \<in> set fds. fd = -1 \<or> 0 \<le> fd \<and> fd < 8 \<and> tab s fd = None \<and> tab s' fd \<noteq> None)
    \<and> (\<forall>fd. tab s fd \<noteq> None \<longrightarrow> tab s' fd = tab s fd) \<and> (-1 \<in> set fds \<longrightarrow> table_full (tab s'))"
  using assms
proof (induction ns arbitrary: s)
  case Nil
  then show ?case by simp
next
  case (Cons n ns)
  show ?case
  proof (cases "table_full (tab s)")
    case True
    then have "opn n s = Inr (-1, s)" using opn_full Cons.prems by simp
    moreover obtain fds s' where "open_seq opn ns s = Inr (fds, s')" "length fds = length ns" "ok s'"
      "distinct (filter (\<lambda>fd. fd \<noteq> -1) fds)" "\<forall>fd \<in> set fds. fd = -1 \<or> 0 \<le> fd \<and> fd < 8 \<and> tab s fd = None \<and> tab s' fd \<noteq> None"
      "\<forall>fd. tab s fd \<noteq> None \<longrightarrow> tab s' fd = tab s fd"
      using Cons.IH [of s] Cons.prems by auto
    moreover from this True have "table_full (tab s')" by (auto simp: table_full_def)
    ultimately show ?thesis by auto
  next
    case False
    then obtain fd where fd: "lowest_free (tab s) fd" by (rule lowest_free_exists)
    then obtain s1 where s1: "opn n s = Inr (fd, s1)" "ok s1" "tab s1 = (tab s)(fd \<mapsto> entry n s)" "\<forall>k. valid k s \<longrightarrow> valid k s1"
      using opn_free [of s n fd] Cons.prems by auto
    moreover obtain fds s' where "open_seq opn ns s1 = Inr (fds, s')" "length fds = length ns" "ok s'"
      "distinct (filter (\<lambda>fd. fd \<noteq> -1) fds)" "\<forall>fd \<in> set fds. fd = -1 \<or> 0 \<le> fd \<and> fd < 8 \<and> tab s1 fd = None \<and> tab s' fd \<noteq> None"
      "\<forall>fd. tab s1 fd \<noteq> None \<longrightarrow> tab s' fd = tab s1 fd" "-1 \<in> set fds \<longrightarrow> table_full (tab s')"
      using Cons.IH [of s1] Cons.prems s1 by auto
    ultimately show ?thesis using fd by (auto simp: lowest_free_def split: if_splits)
  qed
qed

end

section \<open>Entries in the control block\<close>

record fd_view =
  v_ops :: u32
  v_inode :: u32
  v_name :: "u8 list"
  v_pos :: u32

definition fd_view_at :: "mem \<Rightarrow> u32 \<Rightarrow> fd_view" where
  "fd_view_at m b = \<lparr>v_ops = load32 m b, v_inode = load32 m (b + 4),
     v_name = takeWhile (\<lambda>c. c \<noteq> 0) (map (\<lambda>i. m (b + 8 + of_nat i)) [0..<32]), v_pos = load32 m (b + 40)\<rparr>"

definition fd_tab :: "'a proc_scheme \<Rightarrow> int \<Rightarrow> fd_view option" where
  "fd_tab s fd = (if 0 \<le> fd \<and> fd < 8 \<and> check_use fd s AND USE \<noteq> 0 then Some (fd_view_at (mem s) (fd_at (current_pblock s) fd)) else None)"

text \<open>Two memories agree on the 48 bytes of an entry.\<close>

definition same_entry :: "mem \<Rightarrow> mem \<Rightarrow> u32 \<Rightarrow> bool" where
  "same_entry m' m b \<longleftrightarrow> (\<forall>k < 48. m' (b + of_nat k) = m (b + of_nat k))"

lemma same_entry_load:
  assumes "same_entry m' m b" and "n \<le> 44"
  shows "load32 m' (b + of_nat n) = load32 m (b + of_nat n)"
proof -
  have "m' (b + of_nat n + of_nat j) = m (b + of_nat n + of_nat j)" if "j < 4" for j
    using assms that by (simp add: same_entry_def add.assoc flip: of_nat_add)
  from this [of 0] this [of 1] this [of 2] this [of 3] show ?thesis by (intro load32_cong) simp_all
qed

lemma same_entry_view:
  assumes "same_entry m' m b"
  shows "fd_view_at m' b = fd_view_at m b" "load32 m' (b + 44) = load32 m (b + 44)"
proof -
  have "m' (b + 8 + of_nat i) = m (b + 8 + of_nat i)" if "i < 32" for i
    using assms that by (auto simp: same_entry_def add.assoc dest: spec [of _ "8 + i"])
  then have "map (\<lambda>i. m' (b + 8 + of_nat i)) [0..<32] = map (\<lambda>i. m (b + 8 + of_nat i)) [0..<32]" by simp
  then show "fd_view_at m' b = fd_view_at m b"
    using same_entry_load [OF assms, of 0] same_entry_load [OF assms, of 4] same_entry_load [OF assms, of 40]
    by (simp add: fd_view_at_def del: map_eq_conv)
  show "load32 m' (b + 44) = load32 m (b + 44)" using same_entry_load [OF assms, of 44] by simp
qed

lemma back_diff: "b - (b + c) = - (c :: u32)"
  by simp

lemma store_in_entry: "48 \<le> unat (a - b) \<Longrightarrow> c \<le> 44 \<Longrightarrow> store32 m (b + of_nat c) v a = m a"
proof (rule store32_other)
  assume a: "48 \<le> unat (a - b)" and c: "c \<le> 44"
  have "unat (a - b - of_nat c) = unat (a - b) - c" using a c by (intro unat_minus_of_nat32) simp
  with a c show "4 \<le> unat (a - (b + of_nat c))" by (simp add: diff_diff_eq)
qed

lemmas store_in_entry' = store_in_entry [where c = 0, simplified] store_in_entry [where c = 4, simplified]
  store_in_entry [where c = 40, simplified] store_in_entry [where c = 44, simplified]

lemma blit_in_entry: "48 \<le> unat (a - b) \<Longrightarrow> n \<le> 32 \<Longrightarrow> blit m (b + 8) n f a = m a"
proof (rule blit_out)
  assume a: "48 \<le> unat (a - b)" and n: "n \<le> 32"
  have "unat (a - b - of_nat 8) = unat (a - b) - 8" using a by (intro unat_minus_of_nat32) simp
  with a n show "n \<le> unat (a - (b + 8))" by (simp add: diff_diff_eq)
qed

lemma load_blit_name:
  assumes "n \<le> 32" and "c \<in> {0, 4, 40, 44}"
  shows "load32 (blit m (b + 8) n f) (b + c) = load32 m (b + c)"
  using assms by (intro load32_cong blit_out) (auto simp: add.assoc unsigned_minus_1_eq_mask mask_eq_exp_minus_1)

text \<open>What \<open>open\<close> writes into an entry, as one memory.\<close>

definition entry_written :: "mem \<Rightarrow> u32 \<Rightarrow> u8 list \<Rightarrow> u32 \<Rightarrow> mem" where
  "entry_written m b xs ops =
     (let m = store32 m (b + 4) 0;
          m = blit m (b + 8) (Suc (length xs)) (\<lambda>i. (xs @ [0]) ! i);
          m = store32 m (b + 40) 0;
          m = store32 m (b + 44) USE
      in store32 m b ops)"

lemma entry_written_other:
  "length xs \<le> 31 \<Longrightarrow> 48 \<le> unat (a - b) \<Longrightarrow> entry_written m b xs ops a = m a"
  by (simp add: entry_written_def store_in_entry' blit_in_entry)

lemma name_read:
  assumes "length xs \<le> 31" and "0 \<notin> set xs" and "\<forall>i \<le> length xs. m (p + of_nat i) = (xs @ [0]) ! i"
  shows "takeWhile (\<lambda>c. c \<noteq> 0) (map (\<lambda>i. m (p + of_nat i)) [0..<32]) = xs"
proof -
  have "[0..<32] = [0..<Suc (length xs)] @ [Suc (length xs)..<32]"
    using upt_add_eq_append [of 0 "Suc (length xs)" "31 - length xs"] assms(1) by simp
  moreover have "map (\<lambda>i. m (p + of_nat i)) [0..<Suc (length xs)] = xs @ [0]"
    using assms(3) by (intro nth_equalityI) (simp_all del: upt_Suc)
  ultimately have "map (\<lambda>i. m (p + of_nat i)) [0..<32] = xs @ 0 # map (\<lambda>i. m (p + of_nat i)) [Suc (length xs)..<32]"
    by (simp del: upt_Suc)
  moreover have "takeWhile (\<lambda>c. c \<noteq> 0) (xs @ 0 # ys) = xs" for ys
    using assms(2) by (subst takeWhile_append2) auto
  ultimately show ?thesis by (simp only:)
qed

lemma name_byte_kept:
  "i < 32 \<Longrightarrow> c \<in> {0, 4, 40, 44} \<Longrightarrow> store32 m (b + c) v (b + 8 + of_nat i) = m (b + 8 + of_nat i)"
proof (rule store32_other)
  assume i: "i < 32" and c: "c \<in> {0, 4, 40, 44 :: u32}"
  then have "unat (8 + of_nat i - c) = (if c \<in> {0, 4} then 8 + i - unat c else 2 ^ 32 + 8 + i - unat c)"
    by (auto simp: unat_word_ariths unat_of_nat32 unat_sub_if' word_le_nat_alt)
  moreover have "b + 8 + of_nat i - (b + c) = 8 + of_nat i - c" by simp
  ultimately show "4 \<le> unat (b + 8 + of_nat i - (b + c))" using i c by auto
qed

lemma entry_written_view:
  assumes "length xs \<le> 31" and "0 \<notin> set xs"
  shows "fd_view_at (entry_written m b xs ops) b = \<lparr>v_ops = ops, v_inode = 0, v_name = xs, v_pos = 0\<rparr>"
    "load32 (entry_written m b xs ops) (b + 44) = USE"
proof -
  let ?m = "entry_written m b xs ops"
  have "?m (b + 8 + of_nat i) = (xs @ [0]) ! i" if "i \<le> length xs" for i
    using that assms(1) name_byte_kept [of i 0] by (simp add: entry_written_def name_byte_kept blit_in)
  then have "takeWhile (\<lambda>c. c \<noteq> 0) (map (\<lambda>i. ?m (b + 8 + of_nat i)) [0..<32]) = xs"
    using assms by (intro name_read) simp_all
  moreover have "load32 ?m b = ops" by (simp add: entry_written_def load32_store32)
  moreover have "load32 ?m (b + 4) = 0" "load32 ?m (b + 40) = 0" "load32 ?m (b + 44) = USE"
    using assms(1) by (simp_all add: entry_written_def load32_store32 load32_store32_other load_blit_name)
  ultimately show "fd_view_at ?m b = \<lparr>v_ops = ops, v_inode = 0, v_name = xs, v_pos = 0\<rparr>" "load32 ?m (b + 44) = USE"
    by (simp_all add: fd_view_at_def)
qed

lemma store_inode_view:
  "fd_view_at (store32 m (b + 4) v) b = (fd_view_at m b)\<lparr>v_inode := v\<rparr>" "load32 (store32 m (b + 4) v) (b + 44) = load32 m (b + 44)"
proof -
  have "map (\<lambda>i. store32 m (b + 4) v (b + 8 + of_nat i)) [0..<32] = map (\<lambda>i. m (b + 8 + of_nat i)) [0..<32]"
    by (simp add: name_byte_kept del: upt_rec_numeral)
  then show "fd_view_at (store32 m (b + 4) v) b = (fd_view_at m b)\<lparr>v_inode := v\<rparr>"
    by (simp add: fd_view_at_def load32_store32 load32_store32_other del: map_eq_conv)
  show "load32 (store32 m (b + 4) v) (b + 44) = load32 m (b + 44)" by (simp add: load32_store32_other)
qed

section \<open>The table in the state\<close>

definition symbols_ok :: "symbols \<Rightarrow> bool" where
  "symbols_ok sy \<longleftrightarrow> distinct [0, fops_file_functions sy, fops_directory_functions sy, fops_rtc_functions sy, fops_terminal_functions sy]"

text \<open>An address outside the control block at \<open>p\<close>.\<close>

definition off_pcb :: "u32 \<Rightarrow> u32 \<Rightarrow> bool" where
  "off_pcb p a \<longleftrightarrow> 580 \<le> unat (a - p)"

text \<open>
  The states the calls work in: one of the six processes runs, the image has a directory of distinct names of
  at most 31 characters and of known types, it lies outside the control block, the tables of operations
  are set up, and every descriptor in use behind the two standard streams has the operations of a file, the
  directory or the clock.
\<close>

definition fd_ok :: "symbols \<Rightarrow> u8 list list \<Rightarrow> 'a sys_scheme \<Rightarrow> bool" where
  "fd_ok sy ns s \<longleftrightarrow> process_count s \<in> {1..6} \<and> directory (fs_info s) (mem s) ns \<and> distinct ns \<and> (\<forall>xs \<in> set ns. length xs \<le> 31)
     \<and> (\<forall>i < length ns. mem s (dir_entries (fs_info s) ! i + 32) \<le> 2 \<and> (\<forall>k < 64. off_pcb (current_pblock s) (dir_entries (fs_info s) ! i + of_nat k)))
     \<and> (\<forall>k < 4. off_pcb (current_pblock s) (filesys_ptr (fs_info s) + 8 + of_nat k))
     \<and> systemcalls_initialize s = s
     \<and> (\<forall>fd e. 2 \<le> fd \<longrightarrow> fd_tab s fd = Some e \<longrightarrow> v_ops e \<in> {fops_file_functions sy, fops_directory_functions sy, fops_rtc_functions sy})"

definition name_ok :: "u8 list list \<Rightarrow> u32 \<Rightarrow> 'a fs_scheme \<Rightarrow> bool" where
  "name_ok ns filename s \<longleftrightarrow> filename \<noteq> 0 \<and> (\<exists>xs \<in> set ns. holds_str (ptr_at (mem s) filename) xs)
     \<and> (\<forall>k < 32. off_pcb (current_pblock s) (filename + of_nat k))"

text \<open>The entry a name gets.\<close>

definition fresh_entry :: "symbols \<Rightarrow> u8 list list \<Rightarrow> u32 \<Rightarrow> 'a fs_scheme \<Rightarrow> fd_view" where
  "fresh_entry sy ns filename s =
     (let xs = takeWhile (\<lambda>c. c \<noteq> 0) (map (\<lambda>i. mem s (filename + of_nat i)) [0..<32]);
          d = dir_entries (fs_info s) ! length (takeWhile (\<lambda>n. n \<noteq> xs) ns);
          t = mem s (d + 32)
      in \<lparr>v_ops = (if t = 0 then fops_rtc_functions sy else if t = 1 then fops_directory_functions sy else fops_file_functions sy),
          v_inode = (if t = 2 then inode_address (fs_info s) (mem s) (load32 (mem s) (d + 36)) else 0), v_name = xs, v_pos = 0\<rparr>)"

lemma dir_off:
  "fd_ok sy ns s \<Longrightarrow> i < length ns \<Longrightarrow> k < 64 \<Longrightarrow> off_pcb (current_pblock s) (dir_entries (fs_info s) ! i + of_nat k)"
  by (simp add: fd_ok_def)

lemma fd_at_nat: "0 \<le> fd \<Longrightarrow> fd_at p fd = p + of_nat (64 + 48 * nat fd)"
  by (simp add: fd_at_def)

lemma fd_base: "0 \<le> fd \<Longrightarrow> fd < 8 \<Longrightarrow> 580 \<le> unat (a - p) \<Longrightarrow> 48 \<le> unat (a - fd_at p fd)"
proof -
  assume fd: "0 \<le> fd" "fd < 8" and a: "580 \<le> unat (a - p)"
  have "unat (a - p - of_nat (64 + 48 * nat fd)) = unat (a - p) - (64 + 48 * nat fd)"
    using fd a by (intro unat_minus_of_nat32) simp
  with fd a show ?thesis unfolding fd_at_nat [OF fd(1)] diff_diff_eq by simp
qed

lemma fds_apart:
  assumes "0 \<le> i" "i < 8" "0 \<le> j" "j < 8" "i \<noteq> j" "k < 48"
  shows "48 \<le> unat (fd_at p i + of_nat k - fd_at p j)"
proof -
  define x where "x = 64 + 48 * nat i + k"
  define y where "y = 64 + 48 * nat j"
  have d: "fd_at p i + of_nat k - fd_at p j = of_nat x - of_nat y"
    unfolding x_def y_def fd_at_nat [OF assms(1)] fd_at_nat [OF assms(3)] by simp
  have x: "x < 1000" "y < 1000" using assms by (simp_all add: x_def y_def)
  then have u: "unat (of_nat x :: u32) = x" by (intro unat_of_nat32) simp
  show ?thesis
  proof (cases "i < j")
    case True
    then have "nat i < nat j" using assms by simp
    then have "x < y" using assms(6) unfolding x_def y_def by linarith
    then have "unat (of_nat x - of_nat y :: u32) = 2 ^ 32 + x - y" using u x by (subst unat_minus_of_nat32_wrap) simp_all
    then show ?thesis using d x by simp
  next
    case False
    then have "nat j < nat i" using assms by simp
    then have "y + 48 \<le> x" unfolding x_def y_def by linarith
    moreover from this have "unat (of_nat x - of_nat y :: u32) = x - y" using u by (subst unat_minus_of_nat32) simp_all
    ultimately show ?thesis using d by simp
  qed
qed

lemma pblock_nonzero: "process_count s \<in> {1..6} \<Longrightarrow> current_pblock s \<noteq> 0"
  by (drule u32_1_6) (elim insertE emptyE; simp add: pcb_addr_def)

lemma check_use_load: "process_count s \<in> {1..6} \<Longrightarrow> check_use fd s = load32 (mem s) (in_use_at (current_pblock s) fd)"
  using pblock_nonzero [of s] by (simp add: check_use_def)

text \<open>The frame: a step that writes only the entry \<open>fd\<close>, and possibly ports and the interrupt flag.\<close>

definition fd_step :: "'a sys_scheme \<Rightarrow> int \<Rightarrow> 'a sys_scheme \<Rightarrow> bool" where
  "fd_step s fd s' \<longleftrightarrow> process_count s \<in> {1..6} \<and> 0 \<le> fd \<and> fd < 8
     \<and> (\<forall>a. 48 \<le> unat (a - fd_at (current_pblock s) fd) \<longrightarrow> mem s' a = mem s a)
     \<and> process_count s' = process_count s \<and> fs_info s' = fs_info s
     \<and> (systemcalls_initialize s = s \<longrightarrow> systemcalls_initialize s' = s')"

lemma step_off: "fd_step s fd s' \<Longrightarrow> off_pcb (current_pblock s) a \<Longrightarrow> mem s' a = mem s a"
  using fd_base [of fd a "current_pblock s"] by (simp add: off_pcb_def fd_step_def)

lemma step_off_load:
  assumes "fd_step s fd s'" and "\<forall>k < 4. off_pcb (current_pblock s) (a + of_nat k)"
  shows "load32 (mem s') a = load32 (mem s) a"
proof -
  have "mem s' (a + of_nat k) = mem s (a + of_nat k)" if "k < 4" for k
    using assms that by (intro step_off) simp_all
  from this [of 0] this [of 1] this [of 2] this [of 3] show ?thesis by (intro load32_cong) simp_all
qed

lemma step_same_entry: "fd_step s fd s' \<Longrightarrow> 0 \<le> k \<Longrightarrow> k < 8 \<Longrightarrow> k \<noteq> fd \<Longrightarrow> same_entry (mem s') (mem s) (fd_at (current_pblock s) k)"
  using fds_apart [of k fd] by (simp add: fd_step_def same_entry_def)

lemma step_tab_other:
  assumes "fd_step s fd s'" and "k \<noteq> fd"
  shows "fd_tab s' k = fd_tab s k"
proof (cases "0 \<le> k \<and> k < 8")
  case True
  with assms have "same_entry (mem s') (mem s) (fd_at (current_pblock s) k)" by (intro step_same_entry) simp_all
  note this [THEN same_entry_view(1)] this [THEN same_entry_view(2)]
  moreover have "process_count s \<in> {1..6}" "process_count s' = process_count s" using assms(1) by (simp_all add: fd_step_def)
  ultimately show ?thesis by (simp add: fd_tab_def check_use_load del: atLeastAtMost_iff)
next
  case False
  then show ?thesis by (auto simp: fd_tab_def)
qed

lemma step_tab_fd:
  assumes "fd_step s fd s'"
  shows "fd_tab s' fd = (if load32 (mem s') (in_use_at (current_pblock s) fd) AND USE \<noteq> 0
    then Some (fd_view_at (mem s') (fd_at (current_pblock s) fd)) else None)"
proof -
  have "process_count s' \<in> {1..6}" using assms by (simp add: fd_step_def)
  then show ?thesis using assms by (simp add: fd_tab_def check_use_load fd_step_def del: atLeastAtMost_iff)
qed

lemma step_tab: "fd_step s fd s' \<Longrightarrow> fd_tab s' = (fd_tab s)(fd := fd_tab s' fd)"
  by (rule ext) (simp add: step_tab_other)

lemma step_str:
  assumes "fd_step s fd s'" "\<forall>k < 32. off_pcb (current_pblock s) (a + of_nat k)" and "length xs \<le> 31"
  shows "holds_str (ptr_at (mem s') a) xs = holds_str (ptr_at (mem s) a) xs"
proof -
  have "mem s' (a + of_nat k) = mem s (a + of_nat k)" if "k \<le> 31" for k
    using assms that by (intro step_off) simp_all
  then show ?thesis using assms(3) by (simp add: holds_str_def)
qed

lemma step_name:
  assumes "fd_step s fd s'" "name_ok ns filename s" "\<forall>xs \<in> set ns. length xs \<le> 31"
  shows "name_ok ns filename s'"
  using step_str [OF assms(1), of filename] assms by (auto simp: name_ok_def fd_step_def)

lemma step_ok:
  assumes st: "fd_step s fd s'" and ok: "fd_ok sy ns s"
    and e: "\<And>e. fd_tab s' fd = Some e \<Longrightarrow>
      v_ops e \<in> {fops_file_functions sy, fops_directory_functions sy, fops_rtc_functions sy}"
  shows "fd_ok sy ns s'"
proof -
  let ?d = "\<lambda>i. dir_entries (fs_info s) ! i"
  have dir: "directory (fs_info s) (mem s) ns" and len: "\<forall>xs \<in> set ns. length xs \<le> 31"
    and off_d: "\<forall>i < length ns. \<forall>k < 64. off_pcb (current_pblock s) (?d i + of_nat k)"
    and ty: "\<forall>i < length ns. mem s (?d i + 32) \<le> 2"
    using ok by (simp_all add: fd_ok_def)
  have "holds_str (ptr_at (mem s') (?d i)) (ns ! i) = holds_str (ptr_at (mem s) (?d i)) (ns ! i)" if "i < length ns" for i
    using that off_d len by (intro step_str [OF st]) simp_all
  then have "directory (fs_info s) (mem s') ns" using dir by (simp add: directory_def)
  moreover have "mem s' (?d i + 32) = mem s (?d i + 32)" if "i < length ns" for i
    using off_d [rule_format, OF that, of 32] by (intro step_off [OF st]) simp
  moreover have "v_ops e \<in> {fops_file_functions sy, fops_directory_functions sy, fops_rtc_functions sy}"
    if "2 \<le> k" "fd_tab s' k = Some e" for k e
    using that e ok step_tab_other [OF st, of k] by (cases "k = fd") (auto simp: fd_ok_def)
  ultimately show ?thesis using ok st ty by (simp add: fd_ok_def fd_step_def)
qed

lemma name_of:
  assumes "holds_str (ptr_at m a) xs" and "length xs \<le> 31"
  shows "takeWhile (\<lambda>c. c \<noteq> 0) (map (\<lambda>i. m (a + of_nat i)) [0..<32]) = xs"
  using assms(2) holds_str_nonzero [OF assms(1)] assms(1) by (intro name_read) (auto simp: holds_str_def nth_append)

lemma index_of: "distinct ns \<Longrightarrow> i < length ns \<Longrightarrow> length (takeWhile (\<lambda>n. n \<noteq> ns ! i) ns) = i"
proof (induction ns arbitrary: i)
  case (Cons n ns)
  then show ?case by (cases i) auto
qed simp

lemma step_entry:
  assumes st: "fd_step s fd s'" and ok: "fd_ok sy ns s" and nm: "name_ok ns filename s"
  shows "fresh_entry sy ns filename s' = fresh_entry sy ns filename s"
proof -
  let ?name = "\<lambda>m. takeWhile (\<lambda>c. c \<noteq> 0) (map (\<lambda>i. m (filename + of_nat i)) [0..<32])"
  obtain xs where xs: "xs \<in> set ns" "holds_str (ptr_at (mem s) filename) xs" using nm by (auto simp: name_ok_def)
  then obtain i where i: "i < length ns" "xs = ns ! i" by (auto simp: in_set_conv_nth)
  have len: "length xs \<le> 31" and ns: "distinct ns" using xs(1) ok by (simp_all add: fd_ok_def)
  then have "holds_str (ptr_at (mem s') filename) xs"
    using xs nm by (subst step_str [OF st]) (simp_all add: name_ok_def)
  then have n: "?name (mem s') = ns ! i" "?name (mem s) = ns ! i" using xs(2) len i(2) by (simp_all add: name_of del: upt_rec_numeral)
  let ?d = "dir_entries (fs_info s) ! i"
  note d = dir_off [OF ok i(1)]
  have "mem s' (?d + 32) = mem s (?d + 32)" using d [of 32] by (intro step_off [OF st]) simp
  moreover have "off_pcb (current_pblock s) (?d + 36 + of_nat k)" if "k < 4" for k
    using d [of "36 + k"] that by (simp add: add.assoc)
  then have "load32 (mem s') (?d + 36) = load32 (mem s) (?d + 36)" by (intro step_off_load [OF st]) simp
  moreover have "load32 (mem s') (filesys_ptr (fs_info s) + 8) = load32 (mem s) (filesys_ptr (fs_info s) + 8)"
    using ok by (intro step_off_load [OF st]) (simp add: fd_ok_def)
  ultimately show ?thesis using st
    by (simp add: fresh_entry_def n index_of [OF ns i(1)] inode_address_def Let_def fd_step_def del: upt_rec_numeral)
qed

section \<open>The calls keep the interface\<close>

lemma tab_used: "0 \<le> fd \<Longrightarrow> fd < 8 \<Longrightarrow> fd_tab s fd \<noteq> None \<longleftrightarrow> check_use fd s AND USE \<noteq> 0"
  by (simp add: fd_tab_def)

lemma find_fd_free:
  "0 \<le> l \<Longrightarrow> l \<le> fd \<Longrightarrow> lowest_free (fd_tab s) fd \<Longrightarrow> find_fd l s = Some fd"
proof (induction "nat (fd - l)" arbitrary: l)
  case 0
  then show ?case using tab_used [of fd s] by (simp add: find_fd.simps [of l] lowest_free_def)
next
  case (Suc n)
  then have "find_fd (l + 1) s = Some fd" by (intro Suc.hyps) simp_all
  moreover have "l < 8" "check_use l s AND USE \<noteq> 0" using Suc tab_used [of l s] by (auto simp: lowest_free_def)
  ultimately show ?case by (simp add: find_fd.simps [of l])
qed

lemma find_fd_full: "0 \<le> l \<Longrightarrow> table_full (fd_tab s) \<Longrightarrow> find_fd l s = None"
proof (induction "nat (8 - l)" arbitrary: l)
  case 0
  then show ?case by (simp add: find_fd.simps [of l])
next
  case (Suc n)
  then have "find_fd (l + 1) s = None" by (intro Suc.hyps) simp_all
  moreover have "check_use l s AND USE \<noteq> 0" if "l < 8" using that Suc tab_used [of l s] by (auto simp: table_full_def)
  ultimately show ?case by (simp add: find_fd.simps [of l])
qed

lemma set_rate_record: "\<exists>es. set_rate env r s = s\<lparr>io := es, iflag := True\<rparr>"
  by (auto simp: set_rate_def Let_def case_prod_beta outb_def inb_def cli_def sti_def)

lemma tables_ready:
  assumes "systemcalls_initialize s = s"
  shows "function_open (fops_file s) = Fop_open_file" "function_open (fops_directory s) = Fop_open_directory"
    "function_open (fops_rtc s) = Fop_rtc_open" "function_close (fops_file s) = Fop_close_file"
    "function_close (fops_directory s) = Fop_close_directory" "function_close (fops_rtc s) = Fop_rtc_close"
    "function_close (fops_terminal s) = Fop_term_close"
    "function_read (fops_file s) = Fop_read_file" "function_read (fops_directory s) = Fop_read_directory"
    "function_write (fops_terminal s) = Fop_term_write"
  by (subst assms [symmetric], simp add: systemcalls_initialize_def)+

lemma tables_ready_step:
  assumes "systemcalls_initialize s = s"
  shows "systemcalls_initialize (s\<lparr>mem := M, io := es, iflag := f\<rparr>) = s\<lparr>mem := M, io := es, iflag := f\<rparr>"
  by (subst (2) assms [symmetric]) (simp add: systemcalls_initialize_def)

lemma name_copied:
  assumes xs: "holds_str (ptr_at (mem s) filename) xs" "length xs \<le> 31" and fd: "0 \<le> fd" "fd < 8"
    and off: "\<forall>k < 32. off_pcb p (filename + of_nat k)"
  shows "strlen (ptr_at (store32 (mem s) (inode_at p fd) 0) filename) = Some (of_nat (length xs))"
    "memcpy (store32 (mem s) (inode_at p fd) 0) (file_name_at p fd) filename (of_nat (length xs) + 1)
      = blit (store32 (mem s) (inode_at p fd) 0) (file_name_at p fd) (Suc (length xs)) (\<lambda>i. (xs @ [0]) ! i)"
proof -
  let ?m = "store32 (mem s) (inode_at p fd) 0"
  have apart: "48 \<le> unat (filename + of_nat k - fd_at p fd)" if "k < 32" for k
    using off that fd_base [OF fd, of "filename + of_nat k" p] by (simp add: off_pcb_def)
  then have keep: "?m (filename + of_nat k) = mem s (filename + of_nat k)" if "k < 32" for k
    using that by (simp add: store_in_entry')
  then have str: "holds_str (ptr_at ?m filename) xs" using xs by (simp add: holds_str_def)
  then show "strlen (ptr_at ?m filename) = Some (of_nat (length xs))" by (rule strlen_holds)
  have len: "unat (of_nat (length xs) + 1 :: u32) = Suc (length xs)" using xs(2) by (simp add: unat_word_ariths unat_of_nat32)
  have "of_nat (length xs) + 1 \<le> file_name_at p fd - filename"
  proof (rule ccontr)
    let ?k = "unat (file_name_at p fd - filename)"
    assume "\<not> ?thesis"
    then have "?k < 32" using len xs(2) by (simp add: word_le_nat_alt)
    then have "48 \<le> unat (filename + of_nat ?k - fd_at p fd)" by (rule apart)
    then show False by simp
  qed
  then have "memcpy ?m (file_name_at p fd) filename (of_nat (length xs) + 1)
      = blit ?m (file_name_at p fd) (Suc (length xs)) (\<lambda>i. ?m (filename + of_nat i))"
    using memcpy_blit [of "file_name_at p fd" filename] len by simp
  also have "\<dots> = blit ?m (file_name_at p fd) (Suc (length xs)) (\<lambda>i. (xs @ [0]) ! i)"
    using str by (intro blit_cong) (auto simp: holds_str_def nth_append less_Suc_eq)
  finally show "memcpy ?m (file_name_at p fd) filename (of_nat (length xs) + 1)
      = blit ?m (file_name_at p fd) (Suc (length xs)) (\<lambda>i. (xs @ [0]) ! i)" .
qed

lemma open_sc_result:
  assumes sy: "symbols_ok sy" and ok: "fd_ok sy ns s" and nm: "name_ok ns filename s" and free: "lowest_free (fd_tab s) fd"
  defines "b \<equiv> fd_at (current_pblock s) fd"
  shows "\<exists>xs es f. length xs \<le> 31 \<and> 0 \<notin> set xs \<and> v_name (fresh_entry sy ns filename s) = xs
    \<and> open_sc sy env junk filename s = Inr (fd, s\<lparr>mem :=
        (let m = entry_written (mem s) b xs (v_ops (fresh_entry sy ns filename s));
             i = v_inode (fresh_entry sy ns filename s)
         in if v_ops (fresh_entry sy ns filename s) = fops_file_functions sy then store32 m (b + 4) i else m), io := es, iflag := f\<rparr>)
    \<and> (v_ops (fresh_entry sy ns filename s) \<noteq> fops_file_functions sy \<longrightarrow> v_inode (fresh_entry sy ns filename s) = 0)"
proof -
  let ?p = "current_pblock s"
  obtain xs where xs: "xs \<in> set ns" "holds_str (ptr_at (mem s) filename) xs" using nm by (auto simp: name_ok_def)
  then obtain i where i: "i < length ns" "xs = ns ! i" by (auto simp: in_set_conv_nth)
  have len: "length xs \<le> 31" and dist: "distinct ns" and dir: "directory (fs_info s) (mem s) ns" and pc: "process_count s \<in> {1..6}"
    and init: "systemcalls_initialize s = s"
    using xs(1) ok by (simp_all add: fd_ok_def)
  have fd: "0 \<le> fd" "fd < 8" using free by (simp_all add: lowest_free_def)
  let ?d = "dir_entries (fs_info s) ! i"
  define t where "t = mem s (?d + 32)"
  have t: "t = 0 \<or> t = 1 \<or> t = 2"
  proof -
    have "unat t \<le> 2" using ok i(1) by (simp add: fd_ok_def t_def word_le_nat_alt)
    then have "unat t \<in> {0, 1, 2}" by auto
    then show ?thesis by (auto simp: word_unat_eq_iff)
  qed
  have first: "\<forall>j < i. ns ! j \<noteq> xs" using dist i by (auto simp: nth_eq_iff_index_eq)
  obtain d where d: "read_dentry_by_name (fs_info s) (mem s) (Some (ptr_at (mem s) filename)) (Some junk) = Inr (0, Some d)"
    "dtype d = t" "dinode d = load32 (mem s) (?d + 36)"
    using lookup_hit [OF dir xs(2) _ i(1) i(2) [symmetric] first, of junk] len by (auto simp: t_def)
  have entry: "fresh_entry sy ns filename s = \<lparr>v_ops = (if t = 0 then fops_rtc_functions sy else if t = 1 then fops_directory_functions sy
      else fops_file_functions sy), v_inode = (if t = 2 then inode_address (fs_info s) (mem s) (dinode d) else 0), v_name = xs, v_pos = 0\<rparr>"
    using name_of [OF xs(2) len] by (simp add: fresh_entry_def i(2) index_of [OF dist i(1)] t_def d(3) del: upt_rec_numeral)
  have off: "\<forall>k < 32. off_pcb ?p (filename + of_nat k)" using nm by (simp add: name_ok_def)
  note copied = name_copied [OF xs(2) len fd off]
  define E where "E = entry_written (mem s) b xs (v_ops (fresh_entry sy ns filename s))"
  define M where "M = (if t = 2 then store32 E (b + 4) (inode_address (fs_info s) E (dinode d)) else E)"
  have nonzero: "filename \<noteq> 0" "pcb_addr (process_count s) \<noteq> 0"
    using nm pblock_nonzero [OF pc] by (simp_all add: name_ok_def)
  have search: "find_fd 0 s = Some fd" using free fd by (intro find_fd_free) simp_all
  have ops: "load32 M b = v_ops (fresh_entry sy ns filename s)"
    by (simp add: M_def E_def entry_written_def load32_store32 load32_store32_other)
  have call: "open_sc sy env junk filename s = res_bind (fops_of sy (load32 M b) (s\<lparr>mem := M\<rparr>)) (\<lambda>fo.
           res_bind (call_open env (function_open fo) (s\<lparr>mem := M\<rparr>)) (\<lambda>s. Inr (fd, s)))"
    using t nonzero unfolding b_def
    by (elim disjE) (simp_all add: open_sc_def search d(1,2) copied M_def E_def entry_written_def entry b_def Let_def)
  have "load32 E (filesys_ptr (fs_info s) + 8) = load32 (mem s) (filesys_ptr (fs_info s) + 8)"
  proof -
    have "E (filesys_ptr (fs_info s) + 8 + of_nat k) = mem s (filesys_ptr (fs_info s) + 8 + of_nat k)" if "k < 4" for k
      unfolding E_def b_def using ok that fd by (intro entry_written_other [OF len] fd_base) (simp_all add: fd_ok_def off_pcb_def)
    from this [of 0] this [of 1] this [of 2] this [of 3] show ?thesis by (intro load32_cong) simp_all
  qed
  then have addr: "inode_address (fs_info s) E (dinode d) = inode_address (fs_info s) (mem s) (dinode d)"
    by (simp add: inode_address_def Let_def)
  have neq: "fops_rtc_functions sy \<noteq> fops_file_functions sy" "fops_directory_functions sy \<noteq> fops_file_functions sy"
    "fops_rtc_functions sy \<noteq> 0" "fops_directory_functions sy \<noteq> 0" "fops_file_functions sy \<noteq> 0"
    "fops_rtc_functions sy \<noteq> fops_directory_functions sy"
    using sy by (auto simp: symbols_ok_def)
  obtain es where es: "set_rate env 15 (s\<lparr>mem := M\<rparr>) = s\<lparr>mem := M, io := es, iflag := True\<rparr>"
    using set_rate_record [of env 15 "s\<lparr>mem := M\<rparr>"] by auto
  have res: "\<exists>es f. open_sc sy env junk filename s = Inr (fd, s\<lparr>mem := M, io := es, iflag := f\<rparr>)"
  proof (cases "t = 0")
    case True
    then have "open_sc sy env junk filename s = Inr (fd, s\<lparr>mem := M, io := es, iflag := True\<rparr>)"
      using neq es by (simp add: call ops entry fops_of_def call_open_def tables_ready [OF init] rtc_open_def)
    then show ?thesis by blast
  next
    case False
    then have "open_sc sy env junk filename s = Inr (fd, s\<lparr>mem := M, io := io s, iflag := iflag s\<rparr>)"
      using t neq by (auto simp: call ops entry fops_of_def call_open_def tables_ready [OF init] open_file_def open_directory_def)
    then show ?thesis by blast
  qed
  have M: "M = (let m = entry_written (mem s) b xs (v_ops (fresh_entry sy ns filename s));
             i = v_inode (fresh_entry sy ns filename s)
         in if v_ops (fresh_entry sy ns filename s) = fops_file_functions sy then store32 m (b + 4) i else m)"
    using t neq addr by (auto simp: M_def E_def entry)
  have "v_ops (fresh_entry sy ns filename s) \<noteq> fops_file_functions sy \<longrightarrow> v_inode (fresh_entry sy ns filename s) = 0"
    using t by (auto simp: entry)
  moreover have "v_name (fresh_entry sy ns filename s) = xs" by (simp add: entry)
  ultimately show ?thesis using len holds_str_nonzero [OF xs(2)] res unfolding M by blast
qed

text \<open>The step of \<open>open\<close>: the entry is the fresh one, and the rest of memory stays.\<close>

lemma open_sc_step:
  assumes sy: "symbols_ok sy" and ok: "fd_ok sy ns s" and nm: "name_ok ns filename s" and free: "lowest_free (fd_tab s) fd"
  shows "\<exists>s'. open_sc sy env junk filename s = Inr (fd, s') \<and> fd_step s fd s' \<and> fd_tab s' fd = Some (fresh_entry sy ns filename s)
    \<and> s' = s\<lparr>mem := mem s', io := io s', iflag := iflag s'\<rparr>"
proof -
  define b where "b = fd_at (current_pblock s) fd"
  let ?e = "fresh_entry sy ns filename s"
  obtain xs es f where xs: "length xs \<le> 31" "0 \<notin> set xs" "v_name ?e = xs"
    and inode: "v_ops ?e \<noteq> fops_file_functions sy \<longrightarrow> v_inode ?e = 0"
    and s': "open_sc sy env junk filename s = Inr (fd, s\<lparr>mem :=
        (let m = entry_written (mem s) b xs (v_ops ?e) in if v_ops ?e = fops_file_functions sy then store32 m (b + 4) (v_inode ?e) else m),
        io := es, iflag := f\<rparr>)"
    using open_sc_result [OF sy ok nm free, of env junk] unfolding b_def Let_def by blast
  define M where "M = (let m = entry_written (mem s) b xs (v_ops ?e) in if v_ops ?e = fops_file_functions sy then store32 m (b + 4) (v_inode ?e) else m)"
  let ?s = "s\<lparr>mem := M, io := es, iflag := f\<rparr>"
  have fd: "0 \<le> fd" "fd < 8" using free by (simp_all add: lowest_free_def)
  have pc: "process_count s \<in> {1..6}" and init: "systemcalls_initialize s = s" using ok by (simp_all add: fd_ok_def)
  have "M a = mem s a" if "48 \<le> unat (a - b)" for a
    using that xs(1) by (simp add: M_def Let_def store_in_entry' entry_written_other)
  then have st: "fd_step s fd ?s"
    using pc fd init tables_ready_step [OF init] by (simp add: fd_step_def b_def)
  have "v_pos ?e = 0" by (simp add: fresh_entry_def Let_def)
  then have "fd_view_at M b = ?e"
    using inode xs(3) by (intro fd_view.equality) (auto simp: M_def Let_def store_inode_view entry_written_view(1) [OF xs(1,2)])
  moreover have "load32 M (b + 44) = USE"
    by (simp add: M_def Let_def store_inode_view entry_written_view(2) [OF xs(1,2)])
  ultimately have "fd_tab ?s fd = Some ?e" using step_tab_fd [OF st] by (simp add: b_def)
  moreover have "?s = s\<lparr>mem := mem ?s, io := io ?s, iflag := iflag ?s\<rparr>" by simp
  ultimately show ?thesis using s' st unfolding M_def by blast
qed

lemma store_out_entry:
  assumes "48 \<le> unat (a - b)"
  shows "store32 (store32 (store32 (store32 m b 0) (b + 4) 0) (b + 40) 0) (b + 44) 0 a = m a"
  using assms by (simp add: store_in_entry')

lemma close_sc_step:
  assumes sy: "symbols_ok sy" and ok: "fd_ok sy ns s" and fd: "2 \<le> fd" "fd < 8" and used: "fd_tab s fd \<noteq> None"
  shows "\<exists>s'. close_sc sy env fd s = Inr (0, s') \<and> fd_step s fd s' \<and> fd_tab s' fd = None"
proof -
  define b where "b = fd_at (current_pblock s) fd"
  let ?M = "\<lambda>m. store32 (store32 (store32 (store32 m b 0) (b + 4) 0) (b + 40) 0) (b + 44) 0"
  have pc: "process_count s \<in> {1..6}" and init: "systemcalls_initialize s = s" using ok by (simp_all add: fd_ok_def)
  obtain e where e: "fd_tab s fd = Some e" using used by blast
  then have "v_ops e = load32 (mem s) b" by (auto simp: fd_tab_def fd_view_at_def b_def split: if_splits)
  then have ops: "load32 (mem s) b \<in> {fops_file_functions sy, fops_directory_functions sy, fops_rtc_functions sy}"
    using ok e fd by (metis fd_ok_def)
  then have nz: "load32 (mem s) b \<noteq> 0" using sy by (auto simp: symbols_ok_def)
  have "res_bind (fops_of sy (load32 (mem s) b) s) (\<lambda>fo. res_bind (call_close env (function_close fo) s) f) = f s" for f
    using ops nz sy
    by (auto simp: fops_of_def call_close_def tables_ready [OF init] close_file_def close_directory_def rtc_close_def symbols_ok_def)
  then have cl: "close_sc sy env fd s = Inr (0, s\<lparr>mem := ?M (mem s)\<rparr>)"
    using nz fd used pblock_nonzero [OF pc] tab_used [of fd s] by (simp add: close_sc_def Let_def b_def)
  let ?s = "s\<lparr>mem := ?M (mem s)\<rparr>"
  have st: "fd_step s fd ?s"
    using pc fd init tables_ready_step [OF init, where es = "io s" and f = "iflag s"] store_out_entry [of _ b "mem s"] by (simp add: fd_step_def b_def)
  moreover have "fd_tab ?s fd = None" using step_tab_fd [OF st] by (simp add: b_def load32_store32)
  ultimately show ?thesis using cl by blast
qed



text \<open>The hypotheses on the linker's addresses belong to the state predicate, so that the interface needs no other.\<close>

definition table_ok :: "symbols \<Rightarrow> u8 list list \<Rightarrow> 'a sys_scheme \<Rightarrow> bool" where
  "table_ok sy ns s \<longleftrightarrow> symbols_ok sy \<and> fd_ok sy ns s"

lemma fresh_ops: "v_ops (fresh_entry sy ns filename s) \<in> {fops_file_functions sy, fops_directory_functions sy, fops_rtc_functions sy}"
  by (simp add: fresh_entry_def Let_def)

lemma step_keeps:
  assumes "table_ok sy ns s" and "fd_step s fd s'" and "name_ok ns filename s"
  shows "name_ok ns filename s' \<and> fresh_entry sy ns filename s' = fresh_entry sy ns filename s"
  using assms step_name [of s fd s' ns filename] step_entry [of s fd s' sy ns filename] by (simp add: table_ok_def fd_ok_def)

interpretation fdt: descriptor_table fd_tab "open_sc sy env junk" "close_sc sy env" "table_ok sy ns" "name_ok ns" "fresh_entry sy ns"
  for sy env junk ns
proof
  fix s :: "'a sys_scheme" and n fd
  assume ok: "table_ok sy ns s" and nm: "name_ok ns n s" and free: "lowest_free (fd_tab s) fd"
  then obtain s' where s': "open_sc sy env junk n s = Inr (fd, s')" "fd_step s fd s'" "fd_tab s' fd = Some (fresh_entry sy ns n s)"
    using open_sc_step [of sy ns s n fd env junk] by (auto simp: table_ok_def)
  moreover have "table_ok sy ns s'"
    using ok s'(3) fresh_ops [of sy ns n s] step_ok [OF s'(2)] by (simp add: table_ok_def)
  moreover have "fd_tab s' = (fd_tab s)(fd \<mapsto> fresh_entry sy ns n s)" using step_tab [OF s'(2)] s'(3) by simp
  ultimately show "\<exists>s'. open_sc sy env junk n s = Inr (fd, s') \<and> table_ok sy ns s' \<and> fd_tab s' = (fd_tab s)(fd \<mapsto> fresh_entry sy ns n s)
      \<and> (\<forall>k. name_ok ns k s \<longrightarrow> name_ok ns k s' \<and> fresh_entry sy ns k s' = fresh_entry sy ns k s)"
    using step_keeps [OF ok s'(2)] by blast
next
  fix s :: "'a sys_scheme" and n
  assume "table_ok sy ns s" "name_ok ns n s" "table_full (fd_tab s)"
  then show "open_sc sy env junk n s = Inr (-1, s)" by (simp add: open_sc_def Let_def find_fd_full)
next
  fix s :: "'a sys_scheme" and fd
  assume ok: "table_ok sy ns s" and fd: "2 \<le> fd" "fd < 8" "fd_tab s fd \<noteq> None"
  then obtain s' where s': "close_sc sy env fd s = Inr (0, s')" "fd_step s fd s'" "fd_tab s' fd = None"
    using close_sc_step [of sy ns s fd env] by (auto simp: table_ok_def)
  moreover have "table_ok sy ns s'" using ok s'(3) step_ok [OF s'(2)] by (simp add: table_ok_def)
  moreover have "fd_tab s' = (fd_tab s)(fd := None)" using step_tab [OF s'(2)] s'(3) by simp
  ultimately show "\<exists>s'. close_sc sy env fd s = Inr (0, s') \<and> table_ok sy ns s' \<and> fd_tab s' = (fd_tab s)(fd := None)
      \<and> (\<forall>k. name_ok ns k s \<longrightarrow> name_ok ns k s' \<and> fresh_entry sy ns k s' = fresh_entry sy ns k s)"
    using step_keeps [OF ok s'(2)] by blast
next
  fix s :: "'a sys_scheme" and fd
  assume "table_ok sy ns s" "- (2 ^ 31) \<le> fd" "fd < 2 ^ 31" "fd < 2 \<or> 8 \<le> fd \<or> fd_tab s fd = None"
  then show "close_sc sy env fd s = Inr (-1, s)" by (auto simp: close_sc_def fd_tab_def Let_def)
qed

section \<open>Properties of the calls\<close>

text \<open>
  C8. \<open>open\<close> of a name in the directory takes the lowest free descriptor, fills its entry with the
  operations for the type of the file, its inode, the name and position 0, and marks it in use. The other
  descriptors keep their contents and no byte outside the 48 of the entry changes. With all eight in
  use it returns -1 without effect.
\<close>

theorem open_allocates:
  assumes "symbols_ok sy" and "fd_ok sy ns s" and "name_ok ns filename s"
  shows "(\<forall>fd. lowest_free (fd_tab s) fd \<longrightarrow> (\<exists>s'. open_sc sy env junk filename s = Inr (fd, s')
      \<and> fd_tab s' = (fd_tab s)(fd \<mapsto> fresh_entry sy ns filename s)
      \<and> (\<forall>a. 48 \<le> unat (a - fd_at (current_pblock s) fd) \<longrightarrow> mem s' a = mem s a) \<and> fd_ok sy ns s'))
    \<and> (table_full (fd_tab s) \<longrightarrow> open_sc sy env junk filename s = Inr (-1, s))"
proof (intro conjI allI impI)
  fix fd
  assume "lowest_free (fd_tab s) fd"
  from open_sc_step [OF assms this, of env junk] obtain s' where
    s': "open_sc sy env junk filename s = Inr (fd, s')" "fd_step s fd s'" "fd_tab s' fd = Some (fresh_entry sy ns filename s)"
    by blast
  moreover have "fd_ok sy ns s'" using s'(3) fresh_ops [of sy ns filename s] by (intro step_ok [OF s'(2) assms(2)]) simp
  ultimately show "\<exists>s'. open_sc sy env junk filename s = Inr (fd, s') \<and> fd_tab s' = (fd_tab s)(fd \<mapsto> fresh_entry sy ns filename s)
      \<and> (\<forall>a. 48 \<le> unat (a - fd_at (current_pblock s) fd) \<longrightarrow> mem s' a = mem s a) \<and> fd_ok sy ns s'"
    using step_tab [OF s'(2)] by (auto simp: fd_step_def)
next
  assume "table_full (fd_tab s)"
  with assms show "open_sc sy env junk filename s = Inr (-1, s)" by (intro fdt.opn_full) (simp_all add: table_ok_def)
qed

text \<open>The sample process with its standard streams open and the name ``a'' at the start of the user page.\<close>

definition proc_mem :: mem where
  "proc_mem = sample_image(0x7FE06C := 1, 0x7FE09C := 1, 0x8048000 := 97)"

definition proc_state :: sys where
  "proc_state = sys_boot\<lparr>mem := proc_mem\<rparr>"

lemma proc_state_simps [simp]:
  "mem proc_state = proc_mem" "process_count proc_state = 1" "fs_info proc_state = sample_fs" "systemcalls_initialize proc_state = proc_state"
  by (simp_all add: proc_state_def sys_boot_defs)

lemma proc_pblock: "pcb_addr 1 = 0x7FE000"
  by (simp add: pcb_addr_def)

lemma low_off_pcb: "unat a < 0x14000 \<Longrightarrow> off_pcb 0x7FE000 a"
  by (simp add: off_pcb_def unat_sub_if' word_le_nat_alt)

lemma sample_off_pcb: "k < 64 \<Longrightarrow> a \<in> {0x1008, 0x1040, 0x1080} \<Longrightarrow> off_pcb 0x7FE000 (a + of_nat k)"
  by (rule low_off_pcb) (auto simp: unat_word_ariths unat_of_nat32)

lemma proc_tab: "0 \<le> fd \<Longrightarrow> fd < 8 \<Longrightarrow> fd_tab proc_state fd \<noteq> None \<longleftrightarrow> fd < 2"
proof -
  assume "0 \<le> fd" "fd < 8"
  then have "fd \<in> {0, 1, 2, 3, 4, 5, 6, 7}" by auto
  then show ?thesis
    by (elim insertE emptyE; simp add: fd_tab_def check_use_def fd_at_def proc_pblock load32_def proc_mem_def sample_image_def)
qed

lemma proc_directory: "directory sample_fs proc_mem [[97], [98, 99]]"
  by (auto simp: directory_def sample_fs_def proc_mem_def sample_image_def holds_str_def less_Suc_eq)

text \<open>Other memories with the layout of the sample.\<close>

lemma sample_fd_ok:
  assumes dir: "directory sample_fs m ns" "distinct ns" "\<forall>xs \<in> set ns. length xs \<le> 31" "length ns = 2"
    and types: "m 0x1060 \<le> 2" "m 0x10A0 \<le> 2"
    and tab: "\<And>fd. 0 \<le> fd \<Longrightarrow> fd < 8 \<Longrightarrow> fd_tab (proc_state\<lparr>mem := m\<rparr>) fd \<noteq> None \<longleftrightarrow> fd < 2"
  shows "fd_ok sample_symbols ns (proc_state\<lparr>mem := m\<rparr>)"
proof -
  have "fd < 2" if "fd_tab (proc_state\<lparr>mem := m\<rparr>) fd = Some e" for fd e
    using that tab [of fd] by (cases "0 \<le> fd \<and> fd < 8") (auto simp: fd_tab_def split: if_splits)
  then have "\<forall>fd e. 2 \<le> fd \<longrightarrow> fd_tab (proc_state\<lparr>mem := m\<rparr>) fd = Some e \<longrightarrow> v_ops e \<in> {fops_file_functions sample_symbols,
      fops_directory_functions sample_symbols, fops_rtc_functions sample_symbols}" by fastforce
  moreover have "m (dir_entries sample_fs ! i + 32) \<le> 2 \<and> (\<forall>k < 64. off_pcb 0x7FE000 (dir_entries sample_fs ! i + of_nat k))"
    if "i < 2" for i
  proof -
    have "i = 0 \<or> i = 1" using that by auto
    then have "dir_entries sample_fs ! i = 0x1040 \<or> dir_entries sample_fs ! i = 0x1080" by (auto simp: sample_fs_def)
    then show ?thesis using types by (elim disjE) (simp_all add: sample_off_pcb)
  qed
  moreover have "\<forall>k < 4. off_pcb 0x7FE000 (filesys_ptr sample_fs + 8 + of_nat k)"
    using sample_off_pcb [of _ "0x1008"] by (simp add: sample_fs_def)
  moreover have "systemcalls_initialize (proc_state\<lparr>mem := m\<rparr>) = proc_state\<lparr>mem := m\<rparr>" by (simp add: proc_state_def sys_boot_defs)
  ultimately show ?thesis using dir by (simp add: fd_ok_def proc_pblock)
qed

lemma proc_fd_ok: "fd_ok sample_symbols [[97], [98, 99]] proc_state"
proof -
  have eq: "proc_state\<lparr>mem := proc_mem\<rparr> = proc_state" by (simp add: proc_state_def)
  have types: "proc_mem 0x1060 \<le> 2" "proc_mem 0x10A0 \<le> 2" by (simp_all add: proc_mem_def sample_image_def)
  have "fd_ok sample_symbols [[97], [98, 99]] (proc_state\<lparr>mem := proc_mem\<rparr>)"
    using proc_tab by (intro sample_fd_ok) (simp_all only: eq proc_directory types, auto)
  then show ?thesis unfolding eq .
qed

lemma proc_symbols_ok: "symbols_ok sample_symbols"
  by (simp add: symbols_ok_def sample_symbols_def)

lemma proc_name_ok: "name_ok [[97], [98, 99]] 0x8048000 proc_state"
proof -
  have "off_pcb 0x7FE000 (0x8048000 + of_nat k)" if "k < 32" for k
    using that by (simp add: off_pcb_def unat_word_ariths unat_of_nat32)
  then show ?thesis by (simp add: name_ok_def proc_pblock holds_str_def) (simp add: proc_mem_def sample_image_def)
qed

lemma proc_lowest: "lowest_free (fd_tab proc_state) 2"
  using proc_tab [of 2] proc_tab by (simp add: lowest_free_def)

theorem open_allocates_witness:
  "\<exists>s'. open_sc sample_symbols (\<lambda>p es. 0) (dentry.make [] 0 0) 0x8048000 proc_state = Inr (2, s')
     \<and> fd_tab s' 2 = Some (fresh_entry sample_symbols [[97], [98, 99]] 0x8048000 proc_state)"
  using open_allocates [OF proc_symbols_ok proc_fd_ok proc_name_ok, of "\<lambda>p es. 0" "dentry.make [] 0 0",
    THEN conjunct1, rule_format, OF proc_lowest] by auto

text \<open>
  C12. \<open>close\<close> undoes \<open>open\<close>: it frees the descriptor, the table is as before, and opening again gives the same number
  and the same entry.
\<close>

theorem open_close_roundtrip:
  assumes "symbols_ok sy" and "fd_ok sy ns s" and "name_ok ns filename s" and "lowest_free (fd_tab s) fd" and "2 \<le> fd"
  shows "\<exists>s1 s2 s3. open_sc sy env junk filename s = Inr (fd, s1) \<and> close_sc sy env fd s1 = Inr (0, s2) \<and> fd_tab s2 = fd_tab s
    \<and> open_sc sy env junk filename s2 = Inr (fd, s3) \<and> fd_tab s3 = fd_tab s1"
  using fdt.open_close [OF _ assms(3-5), of sy env junk] assms(1,2) unfolding table_ok_def by blast

theorem open_close_roundtrip_witness:
  "\<exists>s1 s2. open_sc sample_symbols (\<lambda>p es. 0) (dentry.make [] 0 0) 0x8048000 proc_state = Inr (2, s1)
     \<and> close_sc sample_symbols (\<lambda>p es. 0) 2 s1 = Inr (0, s2) \<and> fd_tab s2 = fd_tab proc_state"
  using open_close_roundtrip [OF proc_symbols_ok proc_fd_ok proc_name_ok proc_lowest, of "\<lambda>p es. 0" "dentry.make [] 0 0"] by auto

text \<open>
  C13. Any run of opens on names of the directory returns one number per call. No two successful calls return
  the same number, each was free before and is in use afterwards, descriptors that were in use are not touched, and a call
  fails only when the table is full. The state stays one the calls work in.
\<close>

theorem opens_never_share:
  assumes "symbols_ok sy" and "fd_ok sy ns s" and "\<forall>n \<in> set files. name_ok ns n s"
  shows "\<exists>fds s'. open_seq (open_sc sy env junk) files s = Inr (fds, s') \<and> length fds = length files \<and> fd_ok sy ns s'
    \<and> distinct (filter (\<lambda>fd. fd \<noteq> -1) fds)
    \<and> (\<forall>fd \<in> set fds. fd = -1 \<or> 0 \<le> fd \<and> fd < 8 \<and> fd_tab s fd = None \<and> fd_tab s' fd \<noteq> None)
    \<and> (\<forall>fd. fd_tab s fd \<noteq> None \<longrightarrow> fd_tab s' fd = fd_tab s fd) \<and> (-1 \<in> set fds \<longrightarrow> table_full (fd_tab s'))"
  using fdt.opens_distinct [of sy ns s files env junk] assms unfolding table_ok_def by blast

theorem opens_never_share_witness:
  "\<exists>fds s'. open_seq (open_sc sample_symbols (\<lambda>p es. 0) (dentry.make [] 0 0)) (replicate 7 0x8048000) proc_state = Inr (fds, s')
     \<and> length fds = 7 \<and> distinct (filter (\<lambda>fd. fd \<noteq> -1) fds)"
  using opens_never_share [OF proc_symbols_ok proc_fd_ok, of "replicate 7 0x8048000" "\<lambda>p es. 0" "dentry.make [] 0 0"] proc_name_ok
  by auto

section \<open>Opening and reading a file\<close>

lemma view_name:
  assumes "takeWhile (\<lambda>c. c \<noteq> 0) (map (\<lambda>i. m (a + of_nat i)) [0..<32]) = xs" and "length xs \<le> 31"
  shows "holds_str (ptr_at m a) xs"
proof -
  let ?l = "map (\<lambda>i. m (a + of_nat i)) [0..<32]"
  have lt: "length xs < length ?l" using assms(2) by simp
  have "m (a + of_nat (length xs)) = 0"
    using nth_length_takeWhile [of "\<lambda>c. c \<noteq> 0" ?l] lt unfolding assms(1) by (simp del: upt_rec_numeral)
  moreover have "m (a + of_nat i) = xs ! i \<and> xs ! i \<noteq> 0" if "i < length xs" for i
    using takeWhile_nth [of i "\<lambda>c. c \<noteq> 0" ?l] nth_mem [of i xs] set_takeWhileD [of "xs ! i" "\<lambda>c. c \<noteq> 0" ?l] that lt
    unfolding assms(1) by (simp del: upt_rec_numeral)
  ultimately show ?thesis using assms(2) by (simp add: holds_str_def)
qed

lemma store_pos_view:
  "fd_view_at (store32 m (b + 40) v) b = (fd_view_at m b)\<lparr>v_pos := v\<rparr>" "load32 (store32 m (b + 40) v) (b + 44) = load32 m (b + 44)"
proof -
  have "map (\<lambda>i. store32 m (b + 40) v (b + 8 + of_nat i)) [0..<32] = map (\<lambda>i. m (b + 8 + of_nat i)) [0..<32]"
    by (simp add: name_byte_kept del: upt_rec_numeral)
  then show "fd_view_at (store32 m (b + 40) v) b = (fd_view_at m b)\<lparr>v_pos := v\<rparr>"
    by (simp add: fd_view_at_def load32_store32 load32_store32_other del: map_eq_conv)
  show "load32 (store32 m (b + 40) v) (b + 44) = load32 m (b + 44)" by (simp add: load32_store32_other)
qed

text \<open>A regular file's descriptor as \<open>read\<close> sees it.\<close>

lemma read_sc_file:
  assumes "fd_tab s fd = Some e" and "v_ops e = fops_file_functions sy" and "fd \<noteq> 1" and "buf \<noteq> 0"
    and "process_count s \<in> {1..6}" and "systemcalls_initialize s = s" and "symbols_ok sy"
  shows "read_sc sy handler junk is fd buf nbytes s
    = res_bind (read_file junk fd buf (word_of_int nbytes) s) (\<lambda>(r, s). Inr (sint r, is, s))"
proof -
  have "0 \<le> fd" "fd < 8" "check_use fd s AND USE \<noteq> 0" "load32 (mem s) (fop_ptr_at (current_pblock s) fd) = fops_file_functions sy"
    using assms(1,2) by (auto simp: fd_tab_def fd_view_at_def split: if_splits)
  moreover have "fops_file_functions sy \<noteq> 0" using assms(7) by (auto simp: symbols_ok_def)
  ultimately show ?thesis
    using assms(3,4) pblock_nonzero [OF assms(5)] tables_ready [OF assms(6)]
    by (simp add: read_sc_def Let_def fops_of_def call_read_def)
qed

lemma buf_off_pos:
  assumes "\<forall>k < 580. n \<le> unat (p + of_nat k - buf)" and fd: "0 \<le> fd" "fd < 8" and "c < 48"
  shows "n \<le> unat (fd_at p fd + of_nat c - buf)"
  using assms(1) [rule_format, of "64 + 48 * nat fd + c"] assms(2-4) by (simp add: fd_at_nat [OF fd(1)] add.assoc)

lemma buf_bytes_kept:
  assumes "\<And>c. c < 48 \<Longrightarrow> n \<le> unat (b + of_nat c - buf)" and "k < n" and "n < 2 ^ 32"
  shows "store32 m (b + 40) v (buf + of_nat k) = m (buf + of_nat k)"
proof (rule store32_other, rule ccontr)
  assume "\<not> 4 \<le> unat (buf + of_nat k - (b + 40))"
  then have "40 + unat (buf + of_nat k - (b + 40)) < 48" by simp
  then have "n \<le> unat (b + of_nat (40 + unat (buf + of_nat k - (b + 40))) - buf)" by (rule assms(1))
  moreover have "b + of_nat (40 + unat (buf + of_nat k - (b + 40))) - buf = of_nat k" by (simp add: add.assoc [symmetric])
  moreover have "unat (of_nat k :: u32) = k" using assms(2,3) by (intro unat_of_nat32) simp
  ultimately show False using assms(2) by simp
qed

text \<open>Reading a regular file from the position of its descriptor.\<close>

lemma read_at:
  assumes sy: "symbols_ok sy" and ok: "fd_ok sy ns s" and i: "i < length ns"
    and e: "fd_tab s fd = Some \<lparr>v_ops = fops_file_functions sy, v_inode = v, v_name = ns ! i, v_pos = pos\<rparr>" "fd \<noteq> 1"
    and inode: "inode = load32 (mem s) (dir_entries (fs_info s) ! i + 36)"
    and pos: "unat pos \<le> file_size (fs_info s) (mem s) inode"
    and size: "file_size (fs_info s) (mem s) inode \<le> 4096 * 1023" "0 \<le> nbytes" "nbytes < 2 ^ 31"
    and n: "n = min (nat nbytes) (file_size (fs_info s) (mem s) inode - unat pos)" and buf: "buf \<noteq> 0"
    and apart: "\<forall>a \<in> file_area (fs_info s) (mem s) inode. n \<le> unat (a - buf)" "\<forall>k < 580. n \<le> unat (current_pblock s + of_nat k - buf)"
  defines "s' \<equiv> s\<lparr>mem := store32 (blit (mem s) buf n (\<lambda>k. file_byte (fs_info s) (mem s) inode (unat pos + k)))
      (file_pos_at (current_pblock s) fd) (pos + of_nat n)\<rparr>"
  shows "read_sc sy handler junk is fd buf nbytes s = Inr (int n, is, s')"
    "\<forall>k < n. mem s' (buf + of_nat k) = file_byte (fs_info s) (mem s) inode (unat pos + k)"
    "fd_tab s' fd = Some \<lparr>v_ops = fops_file_functions sy, v_inode = v, v_name = ns ! i, v_pos = pos + of_nat n\<rparr>"
    "unat (pos + of_nat n) = unat pos + n"
proof -
  define b where "b = fd_at (current_pblock s) fd"
  have fd: "0 \<le> fd" "fd < 8" and use: "check_use fd s AND USE \<noteq> 0" using e(1) by (auto simp: fd_tab_def split: if_splits)
  have view: "fd_view_at (mem s) b = \<lparr>v_ops = fops_file_functions sy, v_inode = v, v_name = ns ! i, v_pos = pos\<rparr>"
    using e(1) by (auto simp: fd_tab_def b_def split: if_splits)
  have pc: "process_count s \<in> {1..6}" and init: "systemcalls_initialize s = s" and dir: "directory (fs_info s) (mem s) ns"
    and dist: "distinct ns" and len: "length (ns ! i) \<le> 31"
    using ok i by (simp_all add: fd_ok_def)
  have name: "holds_str (ptr_at (mem s) (file_name_at (current_pblock s) fd)) (ns ! i)"
    using view len by (intro view_name) (simp_all add: fd_view_at_def b_def del: upt_rec_numeral)
  have at: "pos = load32 (mem s) (file_pos_at (current_pblock s) fd)" using view by (simp add: fd_view_at_def b_def)
  have first: "\<forall>j < i. ns ! j \<noteq> ns ! i" using dist i by (auto simp: nth_eq_iff_index_eq)
  have nb: "unat (word_of_int nbytes :: u32) = nat nbytes" using size(2,3) by (simp add: unsigned_of_int take_bit_int_eq_self)
  have small: "n < 2 ^ 31" and sum: "unat pos + unat (word_of_int nbytes :: u32) < 2 ^ 32"
    using n nb size pos by simp_all
  have slot: "n \<le> unat (b + of_nat c - buf)" if "c < 48" for c
    unfolding b_def using apart(2) fd that by (rule buf_off_pos)
  have slot4: "\<forall>k < 4. n \<le> unat (file_pos_at (current_pblock s) fd + of_nat k - buf)"
    using slot [of "40 + k" for k] by (simp add: b_def add.assoc)
  define m where "m = blit (mem s) buf n (\<lambda>k. file_byte (fs_info s) (mem s) inode (unat pos + k))"
  note spec = read_file_spec [OF dir i first name inode at pos size(1) sum _ apart(1) slot4, unfolded nb, OF n]
  have s': "s' = s\<lparr>mem := store32 m (b + 40) (pos + of_nat n)\<rparr>" by (simp add: s'_def m_def b_def)
  show "unat (pos + of_nat n) = unat pos + n" by (rule spec(2))
  have "sint (of_nat n :: u32) = int n" using small by (simp add: signed_of_nat signed_take_bit_int_eq_self)
  then show "read_sc sy handler junk is fd buf nbytes s = Inr (int n, is, s')"
    using read_sc_file [OF e(1) _ e(2) buf pc init sy, of handler junk "is" nbytes] spec(1) [of junk] by (simp add: s'_def)
  show "\<forall>k < n. mem s' (buf + of_nat k) = file_byte (fs_info s) (mem s) inode (unat pos + k)"
    using buf_bytes_kept [of n b buf _ m "pos + of_nat n"] slot small by (simp add: s' m_def blit_in)
  have "same_entry m (mem s) b" using slot by (simp add: same_entry_def m_def blit_out)
  then show "fd_tab s' fd = Some \<lparr>v_ops = fops_file_functions sy, v_inode = v, v_name = ns ! i, v_pos = pos + of_nat n\<rparr>"
    using fd use pc view same_entry_view [of m "mem s" b]
    by (simp add: s' fd_tab_def check_use_load b_def [symmetric] store_pos_view del: atLeastAtMost_iff)
qed

text \<open>
  C5. A program that opens a regular file and reads from the new descriptor gets the file's first bytes: \<open>read\<close>
  returns the smaller of the requested number and the size, the buffer holds exactly those bytes of the file,
  and the descriptor's position is behind them. The image and the buffer lie outside the control block, and the buffer
  outside the file.
\<close>

theorem open_then_read:
  assumes sy: "symbols_ok sy" and ok: "fd_ok sy ns s" and nm: "name_ok ns filename s" and free: "lowest_free (fd_tab s) fd" "fd \<noteq> 1"
    and i: "i < length ns" "holds_str (ptr_at (mem s) filename) (ns ! i)" "mem s (dir_entries (fs_info s) ! i + 32) = 2"
    and inode: "inode = load32 (mem s) (dir_entries (fs_info s) ! i + 36)"
    and size: "file_size (fs_info s) (mem s) inode \<le> 4096 * 1023" "0 \<le> nbytes" "nbytes < 2 ^ 31"
    and n: "n = min (nat nbytes) (file_size (fs_info s) (mem s) inode)" and buf: "buf \<noteq> 0"
    and apart: "\<forall>a \<in> file_area (fs_info s) (mem s) inode. off_pcb (current_pblock s) a \<and> n \<le> unat (a - buf)"
      "\<forall>k < 580. n \<le> unat (current_pblock s + of_nat k - buf)"
  shows "\<exists>s1 s2. open_sc sy env junk filename s = Inr (fd, s1) \<and> read_sc sy handler junk is fd buf nbytes s1 = Inr (int n, is, s2)
    \<and> (\<forall>k < n. mem s2 (buf + of_nat k) = file_byte (fs_info s) (mem s) inode k)
    \<and> fd_tab s2 fd = Some ((fresh_entry sy ns filename s)\<lparr>v_pos := of_nat n\<rparr>)"
proof -
  obtain s1 where s1: "open_sc sy env junk filename s = Inr (fd, s1)" and st: "fd_step s fd s1"
    and tab: "fd_tab s1 fd = Some (fresh_entry sy ns filename s)"
    using open_sc_step [OF sy ok nm free(1)] by blast
  have dist: "distinct ns" and len: "length (ns ! i) \<le> 31" using ok i by (simp_all add: fd_ok_def)
  obtain v where entry: "fresh_entry sy ns filename s = \<lparr>v_ops = fops_file_functions sy, v_inode = v, v_name = ns ! i, v_pos = 0\<rparr>"
    using i(3) by (simp add: fresh_entry_def Let_def name_of [OF i(2) len] index_of [OF dist i(1)] del: upt_rec_numeral)
  have ok1: "fd_ok sy ns s1" using tab fresh_ops [of sy ns filename s] by (intro step_ok [OF st ok]) simp
  have eq: "fs_info s1 = fs_info s" "process_count s1 = process_count s" using st by (simp_all add: fd_step_def)
  have "\<forall>a \<in> file_area (fs_info s) (mem s) inode. mem s1 a = mem s a" using apart(1) step_off [OF st] by blast
  note fcong = file_cong [OF this size(1)]
  have "off_pcb (current_pblock s) (dir_entries (fs_info s) ! i + 36 + of_nat k)" if "k < 4" for k
    using dir_off [OF ok i(1), of "36 + k"] that by (simp add: add.assoc)
  then have inode1: "inode = load32 (mem s1) (dir_entries (fs_info s1) ! i + 36)"
    unfolding eq inode by (intro step_off_load [OF st, symmetric]) simp
  have p: "unat (0 :: u32) \<le> file_size (fs_info s1) (mem s1) inode" "file_size (fs_info s1) (mem s1) inode \<le> 4096 * 1023"
    "n = min (nat nbytes) (file_size (fs_info s1) (mem s1) inode - unat (0 :: u32))"
    "\<forall>a \<in> file_area (fs_info s1) (mem s1) inode. n \<le> unat (a - buf)" "\<forall>k < 580. n \<le> unat (current_pblock s1 + of_nat k - buf)"
    using size n apart by (simp_all add: eq fcong)
  note rd = read_at [OF sy ok1 i(1) tab [unfolded entry] free(2) inode1 p(1,2) size(2,3) p(3) buf p(4,5)]
  have "\<exists>s2. read_sc sy handler junk is fd buf nbytes s1 = Inr (int n, is, s2)
    \<and> (\<forall>k < n. mem s2 (buf + of_nat k) = file_byte (fs_info s1) (mem s1) inode k)
    \<and> fd_tab s2 fd = Some \<lparr>v_ops = fops_file_functions sy, v_inode = v, v_name = ns ! i, v_pos = of_nat n\<rparr>"
    using rd(1) [of handler junk "is"] rd(2,3) unfolding unat_0 add_0 by blast
  then obtain s2 where s2: "read_sc sy handler junk is fd buf nbytes s1 = Inr (int n, is, s2)"
    "\<forall>k < n. mem s2 (buf + of_nat k) = file_byte (fs_info s1) (mem s1) inode k"
    "fd_tab s2 fd = Some ((fresh_entry sy ns filename s)\<lparr>v_pos := of_nat n\<rparr>)"
    unfolding entry by auto
  have "\<forall>k < n. mem s2 (buf + of_nat k) = file_byte (fs_info s) (mem s) inode k" using s2(2) fcong(3) n by (simp add: eq)
  then show ?thesis using s1 s2 by blast
qed

lemma proc_low: "unat a < 0x14000 \<Longrightarrow> proc_mem a = sample_image a"
  by (auto simp: proc_mem_def)

lemma proc_file:
  "file_size sample_fs proc_mem 0 = 5000" "file_area sample_fs proc_mem 0 = file_area sample_fs sample_image 0"
  "k < 5000 \<Longrightarrow> file_byte sample_fs proc_mem 0 k = file_byte sample_fs sample_image 0 k"
proof -
  have "\<forall>a \<in> file_area sample_fs sample_image 0. proc_mem a = sample_image a" using sample_apart proc_low by blast
  from file_cong [OF this] show "file_size sample_fs proc_mem 0 = 5000" "file_area sample_fs proc_mem 0 = file_area sample_fs sample_image 0"
    "k < 5000 \<Longrightarrow> file_byte sample_fs proc_mem 0 k = file_byte sample_fs sample_image 0 k"
    by (simp_all add: sample_size)
qed

theorem open_then_read_witness:
  "\<exists>s1 s2. open_sc sample_symbols (\<lambda>p es. 0) (dentry.make [] 0 0) 0x8048000 proc_state = Inr (2, s1)
     \<and> read_sc sample_symbols (\<lambda>i. i) (dentry.make [] 0 0) [] 2 0x8050000 6000 s1 = Inr (5000, [], s2)
     \<and> mem s2 (0x8050000 + 4094) = 65 \<and> mem s2 (0x8050000 + 4096) = 67"
proof -
  have area: "\<forall>a \<in> file_area sample_fs proc_mem 0. off_pcb 0x7FE000 a \<and> 5000 \<le> unat (a - 0x8050000)"
  proof
    fix a
    assume "a \<in> file_area sample_fs proc_mem 0"
    then have "unat a < 0x14000" unfolding proc_file by (rule sample_apart)
    then show "off_pcb 0x7FE000 a \<and> 5000 \<le> unat (a - 0x8050000)" by (simp add: low_off_pcb unat_sub_if' word_le_nat_alt)
  qed
  have pcb: "\<forall>k < 580. 5000 \<le> unat (0x7FE000 + of_nat k - 0x8050000 :: u32)"
    by (auto simp: unat_sub_if' word_le_nat_alt unat_word_ariths unat_of_nat32)
  have str: "holds_str (ptr_at proc_mem 0x8048000) [97]" by (simp add: holds_str_def proc_mem_def sample_image_def)
  have ent: "proc_mem (dir_entries sample_fs ! 0 + 32) = 2" "0 = load32 proc_mem (dir_entries sample_fs ! 0 + 36)"
    by (simp_all add: sample_fs_def load32_def proc_mem_def sample_image_def)
  have num: "(2 :: int) \<noteq> 1"
    and bounds: "(5000 :: nat) \<le> 4096 * 1023" "(0 :: int) \<le> 6000" "(6000 :: int) < 2 ^ 31" "5000 = min (nat 6000) (5000 :: nat)" "(0x8050000 :: u32) \<noteq> 0"
    by simp_all
  obtain s1 s2 where s: "open_sc sample_symbols (\<lambda>p es. 0) (dentry.make [] 0 0) 0x8048000 proc_state = Inr (2, s1)"
    "read_sc sample_symbols (\<lambda>i. i) (dentry.make [] 0 0) [] 2 0x8050000 6000 s1 = Inr (5000, [], s2)"
    "\<forall>k < 5000. mem s2 (0x8050000 + of_nat k) = file_byte sample_fs proc_mem 0 k"
    using open_then_read [OF proc_symbols_ok proc_fd_ok proc_name_ok proc_lowest, of 0 0 6000 5000 "0x8050000" "\<lambda>p es. 0" "dentry.make [] 0 0"
        "\<lambda>i. i" "[]", unfolded proc_state_simps proc_pblock proc_file(1) nth_Cons_0, OF num _ str ent(1,2) bounds area pcb] by auto
  have "file_byte sample_fs proc_mem 0 4094 = 65" "file_byte sample_fs proc_mem 0 4096 = 67"
    by (simp_all add: proc_file(3)) (simp_all add: file_byte_def sample_blocks [unfolded One_nat_def], simp_all add: sample_image_def)
  then show ?thesis using s(1,2) s(3) [rule_format, of 4094] s(3) [rule_format, of 4096] by auto
qed

end
