(* ===== verification/Exec.thy ===== *)
theory Exec
  imports Fdtable
begin

text \<open>
  The calls \<open>execute\<close> and \<open>halt\<close> of \<^verbatim>\<open>syscalls.c\<close>, with \<open>args_initialize\<close>: parsing the command, checking
  and loading the program, building the control block of the new process and entering it. The
  local control block is a byte memory of its own at offset 0, which starts with what the stack
  held. The last step of \<open>execute\<close> leaves the kernel; its outcome is the instruction and stack
  pointer of the frame it returns through.
\<close>

section \<open>Local variables\<close>

text \<open>What the code finds in its locals and registers: the address of \<open>exe_buff\<close>, the previous contents of
  the local directory entry, control block and page directory entry, the kernel's stack
  and base pointer in \<open>execute\<close>, and those in \<open>halt\<close>.\<close>

record exec_locals =
  exe_buff :: u32
  junk_dentry :: dentry
  junk_pcb :: mem
  junk_pde :: u32
  kernel_esp :: u32
  kernel_ebp :: u32
  halt_esp :: u32
  halt_ebp :: u32

text \<open>How a call ends: it returns a value; it enters user code at an instruction with a stack pointer;
  or, in \<open>halt\<close>, it has executed the \<open>leave\<close>, with the stack and base pointer that instruction gives.\<close>

datatype exec_result = Returned int | Enter_user u32 u32 | Halt_leave u32 u32

section \<open>Arguments\<close>

text \<open>The array \<open>char_space_indices\<close> after the loop over the command.\<close>

definition find_spaces :: "u8 list \<Rightarrow> nat list" where
  "find_spaces command = filter (\<lambda>i. command ! i = 0x20) [0..<length command]"

text \<open>\<open>command\<close> without its terminating zero; the scan for the zero stops at its end.\<close>

definition args_initialize :: "u8 list \<Rightarrow> nat list \<Rightarrow> mem \<Rightarrow> mem" where
  "args_initialize command char_space_indices pcb =
     (case char_space_indices of
        [] \<Rightarrow> (pcb_set 0 Argument_length 1 pcb)(argument_buffer_at 0 := 0)
      | i # _ \<Rightarrow>
          let start = i + 1;
              args = takeWhile (\<lambda>c. c \<noteq> 0) (drop start command);
              mem_length = length args;
              pcb = blit pcb (argument_buffer_at 0) mem_length (\<lambda>k. args ! k);
              pcb = pcb_set 0 Argument_length (of_nat mem_length + 1) pcb
          in pcb(argument_buffer_at 0 + of_nat mem_length := 0))"

section \<open>Building a process\<close>

text \<open>The entry of standard input or output in the local control block.\<close>

definition init_std :: "symbols \<Rightarrow> int \<Rightarrow> mem \<Rightarrow> mem" where
  "init_std sy fd pcb =
     (let pcb = store32 pcb (fop_ptr_at 0 fd) (fops_terminal_functions sy);
          pcb = store32 pcb (inode_at 0 fd) 0;
          pcb = store32 pcb (file_pos_at 0 fd) 0
      in store32 pcb (in_use_at 0 fd) USE)"

definition entry_point :: "mem \<Rightarrow> u32 \<Rightarrow> u32" where
  "entry_point m prog_buf = ucast (m (prog_buf + 24)) + push_bit 8 (ucast (m (prog_buf + 25)))
     + push_bit 16 (ucast (m (prog_buf + 26))) + push_bit 24 (ucast (m (prog_buf + 27)))"

text \<open>Step 5 of \<open>execute\<close>, in the order of the assignments.\<close>

definition fill_pcb :: "symbols \<Rightarrow> exec_locals \<Rightarrow> u8 list \<Rightarrow> nat list \<Rightarrow> u32 \<Rightarrow> u32 \<Rightarrow> u32 \<Rightarrow> u32 \<Rightarrow> mem \<Rightarrow> mem" where
  "fill_pcb sy lo command spaces parent terminal eip pid pcb =
     (let pcb = args_initialize command spaces pcb;
          pcb = pcb_set 0 Parent_ptr parent pcb;
          pcb = pcb_set 0 Terminal_num terminal pcb;
          pcb = pcb_set 0 Eip eip pcb;
          pcb = pcb_set 0 Pid pid pcb;
          pcb = pcb_set 0 User_esp (0x08400000 - 4) pcb;
          pcb = pcb_set 0 Esp (kernel_esp lo) pcb;
          pcb = pcb_set 0 Ebp (kernel_ebp lo) pcb;
          pcb = init_fd pcb;
          pcb = init_std sy 0 pcb
      in init_std sy 1 pcb)"

text \<open>One round of the \<open>do\<close> loop: steps 3 to 5.\<close>

definition load_process :: "symbols \<Rightarrow> exec_locals \<Rightarrow> u8 list \<Rightarrow> nat list \<Rightarrow> u32 \<Rightarrow> mem \<times> 'a sys_scheme
    \<Rightarrow> (mem \<times> 'a sys_scheme) res" where
  "load_process sy lo command spaces inode st =
     (let (pcb, s) = st;
          s = s\<lparr>process_count := process_count s + 1\<rparr>;
          s = s\<lparr>pd := (pd s)[32 := init_4mb_user_pde (junk_pde lo) (0x00400000 + process_count s * 0x00400000)]\<rparr>
      in res_bind (set_cr3 (pd_addr sy) s) (\<lambda>s.
         let prog_buf = ADDR_128MB + 0x48000;
             file_length = load32 (mem s) (inode_ptr (fs_info s) inode)
         in res_bind (read_data (fs_info s) inode 0 prog_buf file_length (mem s)) (\<lambda>(r, m).
            let s = s\<lparr>mem := m\<rparr>
            in res_bind (if 3 \<le> primary_shell_count s then pq_peak (process_q s) else Inr 0) (\<lambda>parent.
               let terminal = (if parent = 0 then word_of_int (3 - primary_shell_count s - 1) else pcb_get (mem s) parent Terminal_num);
                   pcb = fill_pcb sy lo command spaces parent terminal (entry_point (mem s) prog_buf) (process_count s) pcb;
                   address_of_pcb = pcb_addr (process_count s);
                   s = s\<lparr>mem := blit (mem s) address_of_pcb PCB_SIZE (\<lambda>i. pcb (of_nat i))\<rparr>
               in res_bind (pq_enqueue_front address_of_pcb (process_q s)) (\<lambda>(r, q).
                  let s = s\<lparr>process_q := q\<rparr>;
                      s = (if primary_shell_count s < 3 then s\<lparr>primary_shell_count := primary_shell_count s + 1\<rparr> else s)
                  in Inr (pcb, s))))))"

lemma set_cr3_primary:
  "set_cr3 p s = Inr s' \<Longrightarrow> primary_shell_count s' = primary_shell_count s"
  by (auto simp: set_cr3_def Let_def split: option.splits if_splits)

lemma load_process_primary:
  assumes "load_process sy lo command spaces inode (pcb, s) = Inr (pcb', s')"
  shows "primary_shell_count s' = (if primary_shell_count s < 3 then primary_shell_count s + 1 else primary_shell_count s)"
  using assms unfolding load_process_def Let_def prod.case
  by (elim res_bindE) (auto elim!: res_bindE dest!: set_cr3_primary split: if_splits)

function load_loop :: "symbols \<Rightarrow> exec_locals \<Rightarrow> u8 list \<Rightarrow> nat list \<Rightarrow> u32 \<Rightarrow> mem \<times> 'a sys_scheme \<Rightarrow> (mem \<times> 'a sys_scheme) res" where
  "load_loop sy lo command spaces inode st =
     (case load_process sy lo command spaces inode st of Inl e \<Rightarrow> Inl e
      | Inr st' \<Rightarrow> if primary_shell_count (snd st') < 3 then load_loop sy lo command spaces inode st' else Inr st')"
  by pat_completeness auto
termination
  by (relation "measure (\<lambda>(sy, lo, command, spaces, inode, st). nat (3 - primary_shell_count (snd st)))")
    (auto dest!: load_process_primary split: if_splits)

declare load_loop.simps [simp del]

section \<open>The calls\<close>

definition fail :: "'a \<Rightarrow> (exec_result \<times> 'a) res" where
  "fail s = Inr (Returned (-1), s)"

definition is_elf :: "mem \<Rightarrow> u32 \<Rightarrow> bool" where
  "is_elf m p \<longleftrightarrow> m p = 0x7F \<and> m (p + 1) = of_char (CHR ''E'') \<and> m (p + 2) = of_char (CHR ''L'') \<and> m (p + 3) = of_char (CHR ''F'')"

text \<open>The name of the program in a command: everything before the first space.\<close>

definition program_name :: "u8 list \<Rightarrow> u8 list" where
  "program_name command = take (case find_spaces command of [] \<Rightarrow> length command | i # _ \<Rightarrow> i) command"

text \<open>Step 6: the flags the frame restores have \<open>0x286\<close> set, which enables interrupts.\<close>

definition enter_user :: "mem \<times> 'a sys_scheme \<Rightarrow> (exec_result \<times> 'a sys_scheme) res" where
  "enter_user st =
     (let (pcb, s) = st;
          s = s\<lparr>tss_esp0 := 0x00800000 - process_count s * 0x2000 - 4\<rparr>;
          s = cli s;
          s = restore_flags True s
      in Inr (Enter_user (pcb_get pcb 0 Eip) (pcb_get pcb 0 User_esp), s))"

text \<open>Step 2 of \<open>execute\<close> and what follows, for the directory entry of the program.
  The name in the error message is the local array, printed by the conversion \<open>%s\<close> byte by byte.\<close>

definition exec_file :: "symbols \<Rightarrow> exec_locals \<Rightarrow> u8 list \<Rightarrow> u32 \<Rightarrow> 'a sys_scheme \<Rightarrow> (exec_result \<times> 'a sys_scheme) res" where
  "exec_file sy lo command inode s =
     res_bind (read_data (fs_info s) inode 0 (exe_buff lo) 4 (mem s)) (\<lambda>(r, m).
       let s = s\<lparr>mem := m\<rparr>
       in if r = - 1 then fail s
          else if \<not> is_elf (mem s) (exe_buff lo) then
            res_bind (put_list (map of_char ''ERROR.  '' @ program_name command @ map of_char ('' is not an executable file.'' @ [CHR 0x0A])) s) fail
          else res_bind (load_loop sy lo command (find_spaces command) inode (junk_pcb lo, s)) enter_user)"

definition execute :: "symbols \<Rightarrow> exec_locals \<Rightarrow> cptr \<Rightarrow> 'a sys_scheme \<Rightarrow> (exec_result \<times> 'a sys_scheme) res" where
  "execute sy lo command_param s =
     (if of_nat MAX_PROCESSES \<le> process_count s then
        res_bind (printf (''Command refused.  Attempting to exceed max processes.'' @ [CHR 0x0A]) [] s) (\<lambda>(n, s). fail s)
      else if strncmp command_param (str_ptr []) 2 = 0 then fail s
      else res_bind (c_string command_param) (\<lambda>command.
        if 128 < length command + 1 then Inl Bounds
        else if 100 < length (find_spaces command) then Inl Bounds
        else if program_name command = [] then fail s
        else if 1 < length (find_spaces command) then
          res_bind (printf (''ERROR: Command contains too many spaces and/or too many arguments.'' @ [CHR 0x0A]) [] s) (\<lambda>(n, s). fail s)
        else if 32 < length (program_name command) then Inl Bounds
        else res_bind (read_dentry_by_name (fs_info s) (mem s) (Some (str_ptr (program_name command))) (Some (junk_dentry lo))) (\<lambda>(r, d).
          if r = - 1 then fail s
          else exec_file sy lo command (dinode (case d of Some d \<Rightarrow> d | None \<Rightarrow> junk_dentry lo)) s)))"

text \<open>
  \<open>halt\<close> from line 49 on. The parent pointer of a primary shell is null, and reading through it
  faults because page 0 is not mapped. The two values of the parent are pushed below the stack
  pointer; \<open>leave\<close> then sets the stack pointer to the base pointer and pops the base pointer from
  there, so it does not read what was pushed.
\<close>

definition halt_rest :: "symbols \<Rightarrow> exec_locals \<Rightarrow> 'a sys_scheme \<Rightarrow> (exec_result \<times> 'a sys_scheme) res" where
  "halt_rest sy lo s =
     res_bind (if 1 < process_count s then res_bind (pq_dequeue (process_q s)) (\<lambda>(old_pcb, q). Inr q) else Inr (process_q s)) (\<lambda>q.
       let s = s\<lparr>process_q := q\<rparr>;
           curr_pcb = pcb_addr (process_count s);
           parent_pcb = pcb_get (mem s) curr_pcb Parent_ptr
       in if parent_pcb = 0 then Inl Null_pointer
          else let esp_parent = pcb_get (mem s) parent_pcb Esp;
                   ebp_parent = pcb_get (mem s) parent_pcb Ebp;
                   s = s\<lparr>pd := (pd s)[32 := init_4mb_user_pde (junk_pde lo) (0x00400000 + (process_count s - 1) * 0x00400000)]\<rparr>
               in res_bind (set_cr3 (pd_addr sy) s) (\<lambda>s.
                  let s = s\<lparr>process_count := process_count s - 1\<rparr>;
                      s = s\<lparr>tss_esp0 := 0x00800000 - process_count s * 0x2000 - 4\<rparr>;
                      s = s\<lparr>mem := store32 (mem s) (halt_esp lo - 4) esp_parent\<rparr>;
                      s = s\<lparr>mem := store32 (mem s) (halt_esp lo - 8) ebp_parent\<rparr>
                  in Inr (Halt_leave (halt_ebp lo + 4) (load32 (mem s) (halt_ebp lo)), s)))"

definition halt :: "symbols \<Rightarrow> exec_locals \<Rightarrow> u8 \<Rightarrow> 'a sys_scheme \<Rightarrow> (exec_result \<times> 'a sys_scheme) res" where
  "halt sy lo status s =
     (if process_count s \<le> 1 then
        res_bind (printf (''Command refused.  Cannot exit last remaining process.'' @ [CHR 0x0A]) [] s) (\<lambda>(n, s).
        let s = s\<lparr>process_count := 0\<rparr>;
            s = pq_init s
        in res_bind (execute sy lo (str_ptr (map of_char ''shell'')) s) (\<lambda>(r, s).
           case r of Returned n \<Rightarrow> halt_rest sy lo s | _ \<Rightarrow> Inr (r, s)))
      else halt_rest sy lo s)"

section \<open>The control block that \<open>execute\<close> builds\<close>

lemma init_std_get: "fd \<in> {0, 1} \<Longrightarrow> pcb_get (init_std sy fd m) 0 f = pcb_get m 0 f"
  by (cases f) (auto simp: init_std_def pcb_get_def field_at_def fd_at_def load32_store32_other)

text \<open>The length and the bytes of the arguments of a command.\<close>

definition command_args :: "u8 list \<Rightarrow> u8 list" where
  "command_args command = (case find_spaces command of [] \<Rightarrow> [] | i # _ \<Rightarrow> drop (Suc i) command)"

lemma command_args_length: "length (command_args command) \<le> length command"
  by (simp add: command_args_def split: list.splits)

lemma blit_snoc: "n < 2 ^ 32 \<Longrightarrow> (blit m d n f)(d + of_nat n := v) = blit m d (Suc n) (\<lambda>k. if k < n then f k else v)"
  using blit_append [of n 1 m d f "\<lambda>_. v"] by (simp add: blit_update)

lemma set_length_blit:
  assumes "n \<le> 127"
  shows "pcb_set 0 Argument_length v (blit m 452 n f) = blit (pcb_set 0 Argument_length v m) 452 n f"
proof
  fix a :: u32
  have "\<not> unat (x - 452) < n" if "x \<in> {448, 449, 450, 451}" for x :: u32
    using that assms by (auto simp: unsigned_minus_1_eq_mask mask_eq_exp_minus_1)
  from this [of 448] this [of 449] this [of 450] this [of 451]
  show "pcb_set 0 Argument_length v (blit m 452 n f) a = blit (pcb_set 0 Argument_length v m) 452 n f a"
    by (auto simp: pcb_set_def field_at_def store32_def blit_def)
qed

lemma args_initialize_spec:
  assumes "0 \<notin> set command" and "length command \<le> 127"
  shows "args_initialize command (find_spaces command) pcb
    = blit (pcb_set 0 Argument_length (of_nat (length (command_args command)) + 1) pcb) 452 (Suc (length (command_args command)))
        (\<lambda>k. (command_args command @ [0]) ! k)"
proof (cases "find_spaces command")
  case Nil
  then show ?thesis by (auto simp: args_initialize_def command_args_def blit_update intro: blit_cong)
next
  case (Cons i js)
  let ?a = "drop (Suc i) command"
  have "takeWhile (\<lambda>c. c \<noteq> 0) ?a = ?a" using assms(1) set_drop_subset [of "Suc i" command] by (auto intro: takeWhile_eq_all_conv [THEN iffD2])
  then have "args_initialize command (find_spaces command) pcb
      = (pcb_set 0 Argument_length (of_nat (length ?a) + 1) (blit pcb 452 (length ?a) ((!) ?a)))(452 + of_nat (length ?a) := 0)"
    by (simp add: Cons args_initialize_def Let_def del: length_drop takeWhile_eq_all_conv)
  also have "pcb_set 0 Argument_length v (blit pcb 452 (length ?a) ((!) ?a)) = blit (pcb_set 0 Argument_length v pcb) 452 (length ?a) ((!) ?a)" for v
    using assms(2) by (intro set_length_blit) simp
  also have "(blit m 452 (length ?a) ((!) ?a))(452 + of_nat (length ?a) := 0) = blit m 452 (Suc (length ?a)) (\<lambda>k. (?a @ [0]) ! k)" for m
    using assms(2) by (subst blit_snoc) (auto intro!: blit_cong simp: nth_append)
  finally show ?thesis by (simp add: command_args_def Cons)
qed

lemma blit_args_get:
  assumes "n \<le> 128"
  shows "pcb_get (blit m 452 n f) 0 g = pcb_get m 0 g"
  unfolding pcb_get_def using assms
  by (intro load32_cong blit_out; cases g) (auto simp: field_at_def unsigned_minus_1_eq_mask mask_eq_exp_minus_1)

lemma fill_pcb_fields:
  assumes "0 \<notin> set command" and "length command \<le> 127"
    and p: "p = fill_pcb sy lo command (find_spaces command) parent terminal eip pid pcb"
  shows "pcb_get p 0 Parent_ptr = parent" "pcb_get p 0 Terminal_num = terminal" "pcb_get p 0 Eip = eip" "pcb_get p 0 Pid = pid"
    "pcb_get p 0 User_esp = 0x083FFFFC" "pcb_get p 0 Argument_length = of_nat (length (command_args command)) + 1"
  using assms(2) command_args_length [of command]
  by (simp_all add: p fill_pcb_def Let_def init_std_get init_fd_def pcb_get_set args_initialize_spec [OF assms(1,2)] blit_args_get)

lemma init_std_high: "452 \<le> unat a \<Longrightarrow> unat a < 580 \<Longrightarrow> fd \<in> {0, 1} \<Longrightarrow> init_std sy fd m a = m a"
  by (auto simp: init_std_def fd_at_def store32_other unat_sub_if' word_le_nat_alt)

lemma pcb_set_high: "452 \<le> unat a \<Longrightarrow> unat a < 580 \<Longrightarrow> pcb_set 0 f v m a = m a"
  by (cases f) (auto simp: pcb_set_def field_at_def store32_other unat_sub_if' word_le_nat_alt)

lemma fill_pcb_args:
  assumes "0 \<notin> set command" and "length command \<le> 127" and "k \<le> length (command_args command)"
  shows "fill_pcb sy lo command (find_spaces command) parent terminal eip pid pcb (452 + of_nat k) = (command_args command @ [0]) ! k"
proof -
  have "unat (452 + of_nat k :: u32) = 452 + k"
    using assms(2,3) command_args_length [of command] by (simp add: unat_word_ariths unat_of_nat32)
  then have a: "452 \<le> unat (452 + of_nat k :: u32)" "unat (452 + of_nat k :: u32) < 580"
    using assms(2,3) command_args_length [of command] by simp_all
  show ?thesis
    using assms(3) command_args_length [of command] assms(2)
    by (simp add: fill_pcb_def Let_def init_fd_def init_std_high [OF a] pcb_set_high [OF a] args_initialize_spec [OF assms(1,2)] blit_in)
qed

section \<open>Loading\<close>

lemma pcb_copied: "pcb_get (blit m p 580 (\<lambda>i. pcb (of_nat i))) p f = pcb_get pcb 0 f"
proof -
  have "blit m p 580 (\<lambda>i. pcb (of_nat i)) (field_at p f + of_nat j) = pcb (field_at 0 f + of_nat j)" if "j < 4" for j
    using blit_in [of "4 * field_index f + j" 580 m p "\<lambda>i. pcb (of_nat i)"] field_index_le [of f] that
    by (simp add: field_at_def add.assoc)
  from this [of 0] this [of 1] this [of 2] this [of 3] show ?thesis unfolding pcb_get_def load32_def by simp
qed

lemma image_in_page: "\<not> in_user_page a \<Longrightarrow> n \<le> 0x3B8000 \<Longrightarrow> n \<le> unat (a - 0x8048000)"
proof -
  assume a: "\<not> in_user_page a" and n: "n \<le> 0x3B8000"
  have x: "0x400000 \<le> unat (a - ADDR_128MB)" using a by (simp add: in_user_page_def word_less_nat_alt)
  then have "unat (a - ADDR_128MB - of_nat 0x48000) = unat (a - ADDR_128MB) - 0x48000" by (intro unat_minus_of_nat32) simp
  moreover have "a - ADDR_128MB - of_nat 0x48000 = a - 0x8048000" by simp
  ultimately have "unat (a - 0x8048000) = unat (a - ADDR_128MB) - 0x48000" by metis
  then show ?thesis using x n by simp
qed

lemma image_off_pcb:
  assumes "j \<in> {1..6}" "k < 0x3B8000"
  shows "580 \<le> unat (0x8048000 + of_nat k - pcb_addr j)"
  using u32_1_6 [OF assms(1)] assms(2) by (elim insertE emptyE; simp add: pcb_addr_def unat_word_ariths unat_of_nat32)

lemma load_process_step:
  assumes j: "j = process_count s + 1" "j \<in> {1..6}" and pd: "32 < length (pd s)"
    and q: "pq_inv (process_q s) k" "k < 6"
    and parent: "(if 3 \<le> primary_shell_count s then pq_peak (process_q s) else Inr 0) = Inr parent" "parent \<noteq> 0 \<Longrightarrow> \<exists>i \<in> {1..6}. parent = pcb_addr i"
    and t: "t = (if parent = 0 then word_of_int (3 - primary_shell_count s - 1) else pcb_get (mem s) parent Terminal_num)"
    and size: "sz = file_size (fs_info s) (mem s) inode" "sz \<le> 0x3B8000" "28 \<le> sz"
    and area: "\<forall>a \<in> file_area (fs_info s) (mem s) inode. \<not> in_user_page a"
  shows "\<exists>p s'. load_process sy lo command spaces inode (pcb, s) = Inr (p, s')
    \<and> p = fill_pcb sy lo command spaces parent t
        (entry_point (\<lambda>a. file_byte (fs_info s) (mem s) inode (unat a)) 0) j pcb
    \<and> process_count s' = j \<and> user_frame s' = Some (j + 1) \<and> primary_shell_count s' = (if primary_shell_count s < 3 then primary_shell_count s + 1 else primary_shell_count s) \<and> fs_info s' = fs_info s
    \<and> frames s' = saved_frames s \<and> length (pd s') = length (pd s)
    \<and> pq_inv (process_q s') (Suc k) \<and> pq_items (process_q s') (Suc k) = pcb_addr j # pq_items (process_q s) k
    \<and> (\<forall>a. \<not> in_user_page a \<longrightarrow> mem s' a = blit (mem s) (pcb_addr j) 580 (\<lambda>k. p (of_nat k)) a)
    \<and> (\<forall>k < sz. mem s' (0x8048000 + of_nat k) = file_byte (fs_info s) (mem s) inode k)"
proof -
  let ?pd = "(pd s)[32 := init_4mb_user_pde (junk_pde lo) (0x800000 + process_count s * 0x400000)]"
  have base: "0x400000 + j * 0x400000 = 0x800000 + process_count s * 0x400000" by (simp add: j(1) algebra_simps)
  define m1 where "m1 = map_user (saved_frames s (j + 1)) (mem s)"
  define m2 where "m2 = blit m1 0x8048000 sz (\<lambda>k. file_byte (fs_info s) (mem s) inode k)"
  have len: "file_size (fs_info s) (mem s) inode \<le> 4096 * 1023" using size by simp
  have m1: "m1 a = mem s a" if "\<not> in_user_page a" for a using that by (simp add: m1_def map_user_def)
  have "\<forall>a \<in> file_area (fs_info s) (mem s) inode. m1 a = mem s a" using area m1 by blast
  note f = file_cong [OF this len]
  have "saved_frames (s\<lparr>process_count := j\<rparr>) = saved_frames s" by (simp add: saved_frames_def cong: option.case_cong)
  then have cr3: "set_cr3 (pd_addr sy) (s\<lparr>process_count := j, pd := ?pd\<rparr>)
      = Inr (s\<lparr>process_count := j, pd := ?pd, cr3 := pd_addr sy, frames := saved_frames s, user_frame := Some (j + 1), mem := m1\<rparr>)"
    using set_cr3_process [of "s\<lparr>process_count := j\<rparr>" j "pd_addr sy" "junk_pde lo"] pd j(2) by (simp add: m1_def base)
  have sz1: "unat (load32 m1 (inode_ptr (fs_info s) inode)) = sz" using f(1) size(1) by (simp add: file_size_def)
  have "\<forall>a \<in> file_area (fs_info s) (mem s) inode. sz \<le> unat (a - 0x8048000)" using area image_in_page size(2) by blast
  then have "read_data (fs_info s) inode 0 0x8048000 (load32 m1 (inode_ptr (fs_info s) inode)) m1
      = Inr (of_nat sz, blit m1 0x8048000 sz (\<lambda>i. file_byte (fs_info s) m1 inode (unat (0 :: u32) + i)))"
    using size len by (intro read_data_spec) (simp_all add: f sz1)
  also have "blit m1 0x8048000 sz (\<lambda>i. file_byte (fs_info s) m1 inode (unat (0 :: u32) + i)) = m2"
    unfolding m2_def using f(3) size(1) by (intro blit_cong) simp
  finally have rd: "read_data (fs_info s) inode 0 0x8048000 (load32 m1 (inode_ptr (fs_info s) inode)) m1 = Inr (of_nat sz, m2)" .
  have m2: "m2 a = mem s a" if "\<not> in_user_page a" for a
    using that m1 image_in_page [OF that size(2)] by (simp add: m2_def blit_out)
  have img: "m2 (0x8048000 + of_nat k) = file_byte (fs_info s) (mem s) inode k" if "k < sz" for k
    using that size(2) by (simp add: m2_def blit_in)
  have eip: "entry_point m2 0x8048000 = entry_point (\<lambda>a. file_byte (fs_info s) (mem s) inode (unat a)) 0"
    using img [of 24] img [of 25] img [of 26] img [of 27] size(3) by (simp add: entry_point_def)
  have tnum: "pcb_get m2 parent Terminal_num = pcb_get (mem s) parent Terminal_num" if "parent \<noteq> 0"
    using parent(2) [OF that] m2 kernel_pcb_kept by metis
  obtain q' where q': "pq_enqueue_front (pcb_addr j) (process_q s) = Inr (0, q')" "pq_inv q' (Suc k)" "pq_items q' (Suc k) = pcb_addr j # pq_items (process_q s) k"
    using pq.push_law [OF q(1,2), of "pcb_addr j"] by blast
  define p where "p = fill_pcb sy lo command spaces parent t
        (entry_point (\<lambda>a. file_byte (fs_info s) (mem s) inode (unat a)) 0) j pcb"
  define M where "M = blit m2 (pcb_addr j) 580 (\<lambda>k. p (of_nat k))"
  define n where "n = (if primary_shell_count s < 3 then primary_shell_count s + 1 else primary_shell_count s)"
  define s' where "s' = s\<lparr>process_count := j, pd := ?pd, cr3 := pd_addr sy, frames := saved_frames s, user_frame := Some (j + 1), mem := M,
      process_q := q', primary_shell_count := n\<rparr>"
  have run: "load_process sy lo command spaces inode (pcb, s) = Inr (p, s')"
    using cr3 rd eip q'(1) parent(1) tnum
    by (cases "3 \<le> primary_shell_count s") (auto simp: load_process_def Let_def j(1) [symmetric] t p_def M_def s'_def n_def)
  have "M a = blit (mem s) (pcb_addr j) 580 (\<lambda>k. p (of_nat k)) a" if "\<not> in_user_page a" for a
    using m2 [OF that] by (simp add: M_def blit_def)
  moreover have "M (0x8048000 + of_nat k) = file_byte (fs_info s) (mem s) inode k" if "k < sz" for k
    using that img image_off_pcb [OF j(2), of k] size(2) by (simp add: M_def blit_out)
  ultimately show ?thesis
    unfolding p_def [symmetric]
    by (intro exI [of _ p] exI [of _ s'])
      (simp add: run q'(2,3) s'_def n_def)
qed

text \<open>What \<open>execute\<close> needs of a command and of the state: a program of the directory in ELF format that fits the user page, no more
  than one space, and room for one more process. Its four-byte buffer lies on the kernel's stack.\<close>

definition program_ready :: "exec_locals \<Rightarrow> u8 list list \<Rightarrow> u8 list \<Rightarrow> nat \<Rightarrow> u32 \<Rightarrow> 'a sys_scheme \<Rightarrow> bool" where
  "program_ready lo ns command n inode s \<longleftrightarrow>
     directory (fs_info s) (mem s) ns \<and> n < length ns \<and> (\<forall>j < n. ns ! j \<noteq> ns ! n) \<and> ns ! n = program_name command
     \<and> 0 \<notin> set command \<and> length command \<le> 127 \<and> program_name command \<noteq> [] \<and> length (find_spaces command) \<le> 1
     \<and> inode = load32 (mem s) (dir_entries (fs_info s) ! n + 36)
     \<and> 28 \<le> file_size (fs_info s) (mem s) inode \<and> file_size (fs_info s) (mem s) inode \<le> 0x3B8000
     \<and> map (file_byte (fs_info s) (mem s) inode) [0, 1, 2, 3] = [0x7F, 0x45, 0x4C, 0x46]
     \<and> (\<forall>a \<in> file_area (fs_info s) (mem s) inode. \<not> in_user_page a \<and> 4 \<le> unat (a - exe_buff lo))
     \<and> process_count s < 6 \<and> 32 < length (pd s)"

text \<open>The first three processes are shells without a parent. From then on the running process is the parent.\<close>

definition exec_ready :: "exec_locals \<Rightarrow> u8 list list \<Rightarrow> u8 list \<Rightarrow> nat \<Rightarrow> u32 \<Rightarrow> 'a sys_scheme \<Rightarrow> bool" where
  "exec_ready lo ns command n inode s \<longleftrightarrow> program_ready lo ns command n inode s \<and> 3 \<le> primary_shell_count s"

lemma exec_ready_frame: "exec_ready lo ns command n inode (s\<lparr>user_frame := f\<rparr>) = exec_ready lo ns command n inode s"
  by (simp add: exec_ready_def program_ready_def)

lemma exec_room: "process_count s < 6 \<Longrightarrow> process_count s + 1 \<in> {1..6 :: u32}"
proof -
  assume "process_count s < 6"
  then have "unat (process_count s) < 6" by (simp add: word_less_nat_alt)
  moreover from this have "unat (process_count s + 1) = unat (process_count s) + 1" by (simp add: unat_word_ariths)
  ultimately show ?thesis by (simp add: word_le_nat_alt)
qed

lemma command_nonempty: "program_name command \<noteq> [] \<Longrightarrow> command \<noteq> []"
  by (auto simp: program_name_def)

lemma program_name_zero: "0 \<notin> set command \<Longrightarrow> 0 \<notin> set (program_name command)"
  using set_take_subset [of _ command] by (auto simp: program_name_def)

text \<open>The checks before the program is loaded pass.\<close>

lemma execute_checks:
  assumes r: "program_ready lo ns command n inode s" and cmd: "holds_str command_param command"
  shows "execute sy lo command_param s = exec_file sy lo command inode s"
proof -
  have dir: "directory (fs_info s) (mem s) ns" "n < length ns" "\<forall>j < n. ns ! j \<noteq> ns ! n" "ns ! n = program_name command"
    and c: "0 \<notin> set command" "length command \<le> 127" "program_name command \<noteq> []" "length (find_spaces command) \<le> 1"
    and inode: "inode = load32 (mem s) (dir_entries (fs_info s) ! n + 36)" and room: "process_count s < 6"
    using r unfolding exec_ready_def program_ready_def by blast+
  have len: "length (program_name command) \<le> 32" using dir by (auto simp: directory_def)
  have empty: "holds_str (str_ptr []) []" by (rule holds_str_ptr) simp_all
  have "strncmp command_param (str_ptr []) 2 \<noteq> 0"
    using strncmp_holds [OF cmd empty, of 2] command_nonempty [OF c(3)] by (cases command) simp_all
  moreover have "holds_str (str_ptr (program_name command)) (program_name command)"
    using program_name_zero [OF c(1)] len by (intro holds_str_ptr) simp_all
  then obtain d where "read_dentry_by_name (fs_info s) (mem s) (Some (str_ptr (program_name command))) (Some (junk_dentry lo)) = Inr (0, Some d)"
    "dinode d = inode"
    using lookup_hit [OF dir(1) _ len dir(2,4), of "str_ptr (program_name command)" "junk_dentry lo"] dir(3,4) inode by auto
  ultimately show ?thesis
    using room c len by (simp add: execute_def c_string_holds [OF cmd] not_le [symmetric])
qed

text \<open>From the check of the file on: the program is read twice, first its magic number into the buffer, which passes the check.\<close>

lemma exec_file_loads:
  assumes r: "program_ready lo ns command n inode s"
    and m: "m = blit (mem s) (exe_buff lo) 4 (file_byte (fs_info s) (mem s) inode)"
  shows "exec_file sy lo command inode s
      = res_bind (load_loop sy lo command (find_spaces command) inode (junk_pcb lo, s\<lparr>mem := m\<rparr>)) enter_user"
    "file_size (fs_info s) m inode = file_size (fs_info s) (mem s) inode"
    "file_area (fs_info s) m inode = file_area (fs_info s) (mem s) inode"
    "k < file_size (fs_info s) (mem s) inode \<Longrightarrow> file_byte (fs_info s) m inode k = file_byte (fs_info s) (mem s) inode k"
    "entry_point (\<lambda>a. file_byte (fs_info s) m inode (unat a)) 0 = entry_point (\<lambda>a. file_byte (fs_info s) (mem s) inode (unat a)) 0"
proof -
  have size: "28 \<le> file_size (fs_info s) (mem s) inode" "file_size (fs_info s) (mem s) inode \<le> 0x3B8000"
    and magic: "map (file_byte (fs_info s) (mem s) inode) [0, 1, 2, 3] = [0x7F, 0x45, 0x4C, 0x46]"
    and area: "\<forall>a \<in> file_area (fs_info s) (mem s) inode. \<not> in_user_page a \<and> 4 \<le> unat (a - exe_buff lo)"
    using r unfolding program_ready_def by blast+
  have len: "file_size (fs_info s) (mem s) inode \<le> 4096 * 1023" using size by simp
  have "\<forall>a \<in> file_area (fs_info s) (mem s) inode. m a = mem s a" using area by (simp add: m blit_out)
  note f = file_cong [OF this len]
  show "file_size (fs_info s) m inode = file_size (fs_info s) (mem s) inode"
    "file_area (fs_info s) m inode = file_area (fs_info s) (mem s) inode"
    "k < file_size (fs_info s) (mem s) inode \<Longrightarrow> file_byte (fs_info s) m inode k = file_byte (fs_info s) (mem s) inode k"
    by (rule f)+ simp_all
  show "entry_point (\<lambda>a. file_byte (fs_info s) m inode (unat a)) 0 = entry_point (\<lambda>a. file_byte (fs_info s) (mem s) inode (unat a)) 0"
    using size by (simp add: entry_point_def f)
  have "4 = min (unat (4 :: u32)) (file_size (fs_info s) (mem s) inode - unat (0 :: u32))" using size(1) by simp
  then have "read_data (fs_info s) inode 0 (exe_buff lo) 4 (mem s)
      = Inr (of_nat 4, blit (mem s) (exe_buff lo) 4 (\<lambda>i. file_byte (fs_info s) (mem s) inode (unat (0 :: u32) + i)))"
    using len area by (intro read_data_spec) auto
  then have rd: "read_data (fs_info s) inode 0 (exe_buff lo) 4 (mem s) = Inr (4, m)" by (simp add: m)
  have "m (exe_buff lo + of_nat c) = file_byte (fs_info s) (mem s) inode c" if "c < 4" for c
    using that by (simp add: m blit_in)
  from this [of 0] this [of 1] this [of 2] this [of 3] have "is_elf m (exe_buff lo)"
    using magic by (simp add: is_elf_def)
  then show "exec_file sy lo command inode s
      = res_bind (load_loop sy lo command (find_spaces command) inode (junk_pcb lo, s\<lparr>mem := m\<rparr>)) enter_user"
    by (simp add: exec_file_def rd)
qed

text \<open>Then the whole file goes into the new process's page.\<close>

lemma exec_file_runs:
  assumes r: "exec_ready lo ns command n inode s"
    and q: "pq_inv (process_q s) (Suc k)" "Suc k < 6" "hd (pq_items (process_q s) (Suc k)) = pcb_addr i" "i \<in> {1..6}"
    and stack: "\<forall>k < 580. 4 \<le> unat (pcb_addr i + of_nat k - exe_buff lo)"
    and j: "j = process_count s + 1" and sz: "sz = file_size (fs_info s) (mem s) inode"
    and p: "p = fill_pcb sy lo command (find_spaces command) (pcb_addr i) (pcb_get (mem s) (pcb_addr i) Terminal_num)
        (entry_point (\<lambda>a. file_byte (fs_info s) (mem s) inode (unat a)) 0) j (junk_pcb lo)"
  shows "\<exists>s'. exec_file sy lo command inode s = Inr (Enter_user (pcb_get p 0 Eip) (pcb_get p 0 User_esp), s')
    \<and> process_count s' = j \<and> user_frame s' = Some (j + 1) \<and> tss_esp0 s' = pcb_addr j - 4 \<and> iflag s'
    \<and> length (pd s') = length (pd s)
    \<and> (\<forall>g a. user_frame s = Some g \<longrightarrow> 4 \<le> unat (a - exe_buff lo) \<longrightarrow> frames s' g (a - ADDR_128MB) = mem s a)
    \<and> pq_inv (process_q s') (Suc (Suc k)) \<and> pq_items (process_q s') (Suc (Suc k)) = pcb_addr j # pq_items (process_q s) (Suc k)
    \<and> (\<forall>a. \<not> in_user_page a \<longrightarrow> 4 \<le> unat (a - exe_buff lo) \<longrightarrow> mem s' a = blit (mem s) (pcb_addr j) 580 (\<lambda>k. p (of_nat k)) a)
    \<and> (\<forall>f. pcb_get (mem s') (pcb_addr j) f = pcb_get p 0 f)
    \<and> (\<forall>k < sz. mem s' (0x8048000 + of_nat k) = file_byte (fs_info s) (mem s) inode k)"
proof -
  have size: "28 \<le> sz" "sz \<le> 0x3B8000"
    and area: "\<forall>a \<in> file_area (fs_info s) (mem s) inode. \<not> in_user_page a \<and> 4 \<le> unat (a - exe_buff lo)"
    and primary: "3 \<le> primary_shell_count s" and room: "process_count s < 6" and pd: "32 < length (pd s)"
    and ready: "program_ready lo ns command n inode s"
    using r unfolding exec_ready_def program_ready_def sz by blast+
  define m where "m = blit (mem s) (exe_buff lo) 4 (file_byte (fs_info s) (mem s) inode)"
  let ?s = "s\<lparr>mem := m\<rparr>"
  note f = exec_file_loads [OF ready m_def]
  have tnum: "pcb_get m (pcb_addr i) Terminal_num = pcb_get (mem s) (pcb_addr i) Terminal_num"
    using stack by (intro pcb_get_cong) (simp add: m_def blit_out)
  have j6: "j \<in> {1..6}" using exec_room [OF room] j by simp
  have h: "j = process_count ?s + 1" "32 < length (pd ?s)" "pq_inv (process_q ?s) (Suc k)" "sz = file_size (fs_info ?s) (mem ?s) inode"
    "\<forall>a \<in> file_area (fs_info ?s) (mem ?s) inode. \<not> in_user_page a"
    using j pd q sz area by (simp_all add: f)
  have "pcb_addr i \<noteq> 0" using pblock_nonzero [of "undefined\<lparr>process_count := i\<rparr>"] q(4) by simp
  then have parent: "(if 3 \<le> primary_shell_count ?s then pq_peak (process_q ?s) else Inr 0) = Inr (pcb_addr i)"
      "pcb_addr i \<noteq> 0 \<Longrightarrow> \<exists>i' \<in> {1..6}. pcb_addr i = pcb_addr i'"
      "pcb_get (mem s) (pcb_addr i) Terminal_num
        = (if pcb_addr i = 0 then word_of_int (3 - primary_shell_count ?s - 1) else pcb_get (mem ?s) (pcb_addr i) Terminal_num)"
    using pq.peek_law [OF q(1)] q(3,4) primary tnum by auto
  have p': "fill_pcb sy lo command (find_spaces command) (pcb_addr i) (pcb_get (mem s) (pcb_addr i) Terminal_num)
        (entry_point (\<lambda>a. file_byte (fs_info ?s) (mem ?s) inode (unat a)) 0) j (junk_pcb lo) = p"
    by (simp add: p f)
  obtain t where t: "load_process sy lo command (find_spaces command) inode (junk_pcb lo, ?s) = Inr (p, t)"
      "process_count t = j" "user_frame t = Some (j + 1)" "primary_shell_count t = primary_shell_count ?s"
      "frames t = saved_frames ?s" "length (pd t) = length (pd ?s)"
      "pq_inv (process_q t) (Suc (Suc k))" "pq_items (process_q t) (Suc (Suc k)) = pcb_addr j # pq_items (process_q ?s) (Suc k)"
    and mem: "\<And>a. \<not> in_user_page a \<Longrightarrow> mem t a = blit (mem ?s) (pcb_addr j) 580 (\<lambda>k. p (of_nat k)) a"
    and img: "\<And>k. k < sz \<Longrightarrow> mem t (0x8048000 + of_nat k) = file_byte (fs_info ?s) (mem ?s) inode k"
    using load_process_step [OF h(1) j6 h(2,3) q(2) parent h(4) size(2,1) h(5), of sy lo command "find_spaces command" "junk_pcb lo"] primary
    unfolding p' by auto
  let ?t = "t\<lparr>iflag := True, tss_esp0 := pcb_addr j - 4\<rparr>"
  have "exec_file sy lo command inode s = Inr (Enter_user (pcb_get p 0 Eip) (pcb_get p 0 User_esp), ?t)"
    using t(1,2,4) primary
    by (simp add: f(1) load_loop.simps enter_user_def cli_def restore_flags_def pcb_addr_def)
  moreover have "mem t a = blit (mem s) (pcb_addr j) 580 (\<lambda>k. p (of_nat k)) a" if "\<not> in_user_page a" "4 \<le> unat (a - exe_buff lo)" for a
    using mem [OF that(1)] that(2) by (simp add: m_def blit_def)
  moreover have "pcb_get (mem t) (pcb_addr j) f = pcb_get p 0 f" for f
  proof -
    have "pcb_get (mem t) (pcb_addr j) f = pcb_get (blit m (pcb_addr j) 580 (\<lambda>k. p (of_nat k))) (pcb_addr j) f"
      by (rule kernel_pcb_kept [OF j6]) (simp add: mem)
    then show ?thesis by (simp add: pcb_copied)
  qed
  moreover have "mem t (0x8048000 + of_nat k) = file_byte (fs_info s) (mem s) inode k" if "k < sz" for k
    using img [OF that] that f(4) sz by simp
  moreover have "frames t g (a - ADDR_128MB) = mem s a" if "user_frame s = Some g" "4 \<le> unat (a - exe_buff lo)" for g a
    using t(5) that by (simp add: saved_frames_def m_def blit_out)
  ultimately show ?thesis using t by (intro exI [of _ ?t]) simp
qed

section \<open>Properties of \<open>execute\<close>\<close>

lemma command_args_zero: "0 \<notin> set command \<Longrightarrow> 0 \<notin> set (command_args command)"
  by (auto simp: command_args_def dest: in_set_dropD split: list.splits)

lemma holds_str_bytes:
  assumes "0 \<notin> set xs" and "length xs < 2 ^ 32" and "\<And>x. x \<le> length xs \<Longrightarrow> p (of_nat x) = (xs @ [0]) ! x"
  shows "holds_str p xs"
  using assms(1,2) assms(3) [of "length xs"] assms(3) by (auto simp: holds_str_def nth_append dest: nth_mem)

lemma execute_result:
  assumes r: "exec_ready lo ns command n inode s" and cmd: "holds_str command_param command"
    and q: "pq_inv (process_q s) (Suc k)" "Suc k < 6" "hd (pq_items (process_q s) (Suc k)) = pcb_addr i" "i \<in> {1..6}"
    and stack: "\<forall>k < 580. 4 \<le> unat (pcb_addr i + of_nat k - exe_buff lo)"
      "\<forall>k < 580. 4 \<le> unat (pcb_addr (process_count s + 1) + of_nat k - exe_buff lo)"
  shows "\<exists>s'. let j = process_count s + 1 in
    execute sy lo command_param s
      = Inr (Enter_user (entry_point (\<lambda>a. file_byte (fs_info s) (mem s) inode (unat a)) 0) 0x083FFFFC, s')
    \<and> process_count s' = j \<and> user_frame s' = Some (j + 1) \<and> tss_esp0 s' = pcb_addr j - 4 \<and> iflag s' \<and> length (pd s') = length (pd s)
    \<and> (\<forall>g a. user_frame s = Some g \<longrightarrow> 4 \<le> unat (a - exe_buff lo) \<longrightarrow> frames s' g (a - ADDR_128MB) = mem s a)
    \<and> (\<forall>k < file_size (fs_info s) (mem s) inode. mem s' (0x8048000 + of_nat k) = file_byte (fs_info s) (mem s) inode k)
    \<and> pq_inv (process_q s') (Suc (Suc k)) \<and> pq_items (process_q s') (Suc (Suc k)) = pcb_addr j # pq_items (process_q s) (Suc k)
    \<and> pcb_get (mem s') (pcb_addr j) Pid = j \<and> pcb_get (mem s') (pcb_addr j) Parent_ptr = pcb_addr i
    \<and> pcb_get (mem s') (pcb_addr j) Terminal_num = pcb_get (mem s) (pcb_addr i) Terminal_num
    \<and> pcb_get (mem s') (pcb_addr j) Argument_length = of_nat (length (command_args command)) + 1
    \<and> holds_str (ptr_at (mem s') (argument_buffer_at (pcb_addr j))) (command_args command)
    \<and> (\<forall>a. \<not> in_user_page a \<longrightarrow> 4 \<le> unat (a - exe_buff lo) \<longrightarrow> 580 \<le> unat (a - pcb_addr j) \<longrightarrow> mem s' a = mem s a)"
proof -
  define j where "j = process_count s + 1"
  define p where "p = fill_pcb sy lo command (find_spaces command) (pcb_addr i) (pcb_get (mem s) (pcb_addr i) Terminal_num)
        (entry_point (\<lambda>a. file_byte (fs_info s) (mem s) inode (unat a)) 0) j (junk_pcb lo)"
  have c: "0 \<notin> set command" "length command \<le> 127" and room: "process_count s < 6"
    and ready: "program_ready lo ns command n inode s" using r unfolding exec_ready_def program_ready_def by blast+
  have j6: "j \<in> {1..6}" using exec_room [OF room] by (simp add: j_def)
  note fields = fill_pcb_fields [OF c p_def]
  obtain s' where s': "execute sy lo command_param s = Inr (Enter_user (pcb_get p 0 Eip) (pcb_get p 0 User_esp), s')"
      "process_count s' = j" "user_frame s' = Some (j + 1)" "tss_esp0 s' = pcb_addr j - 4" "iflag s'" "length (pd s') = length (pd s)"
      "\<forall>g a. user_frame s = Some g \<longrightarrow> 4 \<le> unat (a - exe_buff lo) \<longrightarrow> frames s' g (a - ADDR_128MB) = mem s a"
      "pq_inv (process_q s') (Suc (Suc k))" "pq_items (process_q s') (Suc (Suc k)) = pcb_addr j # pq_items (process_q s) (Suc k)"
    and mem: "\<And>a. \<not> in_user_page a \<Longrightarrow> 4 \<le> unat (a - exe_buff lo) \<Longrightarrow> mem s' a = blit (mem s) (pcb_addr j) 580 (\<lambda>k. p (of_nat k)) a"
    and get: "\<And>f. pcb_get (mem s') (pcb_addr j) f = pcb_get p 0 f"
    and img: "\<forall>k < file_size (fs_info s) (mem s) inode. mem s' (0x8048000 + of_nat k) = file_byte (fs_info s) (mem s) inode k"
    using exec_file_runs [OF r q stack(1) j_def refl p_def] unfolding execute_checks [OF ready cmd] by blast
  have "mem s' (argument_buffer_at (pcb_addr j) + of_nat x) = (command_args command @ [0]) ! x" if "x \<le> length (command_args command)" for x
  proof -
    have x: "452 + x < 580" using that command_args_length [of command] c(2) by simp
    then have "mem s' (pcb_addr j + of_nat (452 + x)) = p (of_nat (452 + x))"
      using stack(2) pcb_in_kernel [OF j6, of "452 + x"] by (subst mem) (simp_all add: j_def blit_in del: of_nat_add)
    then show ?thesis using fill_pcb_args [OF c that] by (simp add: p_def add.assoc)
  qed
  then have "holds_str (ptr_at (mem s') (argument_buffer_at (pcb_addr j))) (command_args command)"
    using command_args_length [of command] c by (intro holds_str_bytes command_args_zero) simp_all
  then show ?thesis using s' img mem
    by (intro exI [of _ s']) (simp add: get fields j_def [symmetric] blit_out)
qed

text \<open>
  C22. \<open>execute\<close> starts a program. For a command that names an ELF file of the directory it enters user code at the
  entry point in the file's header, with the stack at the end of the user page. The new process has the next number, its own frame
  with the file's bytes at 0x08048000, and is at the front of the queue with the others behind it; its control block holds its
  number, its parent, the parent's terminal and the arguments of the command, and the next kernel entry uses its stack. Outside the user page only the control block
  and the four-byte buffer of \<open>execute\<close> are written.
\<close>

theorem execute_starts_program:
  assumes r: "exec_ready lo ns command n inode s" and cmd: "holds_str command_param command"
    and q: "pq_inv (process_q s) (Suc k)" "Suc k < 6" "hd (pq_items (process_q s) (Suc k)) = pcb_addr i" "i \<in> {1..6}"
    and stack: "\<forall>k < 580. 4 \<le> unat (pcb_addr i + of_nat k - exe_buff lo)"
      "\<forall>k < 580. 4 \<le> unat (pcb_addr (process_count s + 1) + of_nat k - exe_buff lo)"
  shows "\<exists>s'. let j = process_count s + 1 in
    execute sy lo command_param s
      = Inr (Enter_user (entry_point (\<lambda>a. file_byte (fs_info s) (mem s) inode (unat a)) 0) 0x083FFFFC, s')
    \<and> process_count s' = j \<and> user_frame s' = Some (j + 1) \<and> tss_esp0 s' = pcb_addr j - 4 \<and> iflag s'
    \<and> (\<forall>k < file_size (fs_info s) (mem s) inode. mem s' (0x8048000 + of_nat k) = file_byte (fs_info s) (mem s) inode k)
    \<and> pq_inv (process_q s') (Suc (Suc k)) \<and> pq_items (process_q s') (Suc (Suc k)) = pcb_addr j # pq_items (process_q s) (Suc k)
    \<and> pcb_get (mem s') (pcb_addr j) Pid = j \<and> pcb_get (mem s') (pcb_addr j) Parent_ptr = pcb_addr i
    \<and> pcb_get (mem s') (pcb_addr j) Terminal_num = pcb_get (mem s) (pcb_addr i) Terminal_num
    \<and> pcb_get (mem s') (pcb_addr j) Argument_length = of_nat (length (command_args command)) + 1
    \<and> holds_str (ptr_at (mem s') (argument_buffer_at (pcb_addr j))) (command_args command)
    \<and> (\<forall>a. \<not> in_user_page a \<longrightarrow> 4 \<le> unat (a - exe_buff lo) \<longrightarrow> 580 \<le> unat (a - pcb_addr j) \<longrightarrow> mem s' a = mem s a)"
  using execute_result [OF assms, of sy] unfolding Let_def by blast

text \<open>A program ``a'' whose header names the entry point 0x08048094, run with the argument ``x'' by process 1.\<close>

definition exec_mem :: mem where
  "exec_mem = proc_mem(0x13000 := 0x7F, 0x13001 := 0x45, 0x13002 := 0x4C, 0x13003 := 0x46, 0x13018 := 0x94, 0x13019 := 0x80, 0x1301A := 0x04,
     0x1301B := 0x08)"

definition exec_state :: sys where
  "exec_state = proc_state\<lparr>mem := exec_mem, primary_shell_count := 3\<rparr>"

definition exec_stack :: exec_locals where
  "exec_stack = \<lparr>exe_buff = 0x7FDF00, junk_dentry = dentry.make (replicate 33 0) 0 0, junk_pcb = (\<lambda>_. 0xCC), junk_pde = 0, kernel_esp = 0x7FDE00, kernel_ebp = 0x7FDFF0,
     halt_esp = 0x7FBF00, halt_ebp = 0x7FBFC0\<rparr>"

lemma exec_state_simps [simp]:
  "mem exec_state = exec_mem" "fs_info exec_state = sample_fs" "process_count exec_state = 1" "primary_shell_count exec_state = 3"
  "process_q exec_state = \<lparr>pcbs = [pcb_addr 1, 0, 0, 0, 0, 0], front = 0, rear = 0\<rparr>" "pd exec_state = replicate 1024 0"
  by (simp_all add: exec_state_def proc_state_def sys_boot_defs)

lemma exec_file_facts:
  "file_size sample_fs exec_mem 0 = 5000" "block_addr sample_fs exec_mem 0 0 = 0x13000" "block_addr sample_fs exec_mem 0 1 = 0x11000"
  by (simp_all add: file_size_def block_addr_def dblock_def inode_ptr_def load32_def sample_fs_def exec_mem_def proc_mem_def sample_image_def)

lemma exec_area: "a \<in> file_area sample_fs exec_mem 0 \<Longrightarrow> unat a < 0x14000"
proof -
  assume "a \<in> file_area sample_fs exec_mem 0"
  then consider i where "a = 0x2000 + of_nat i" "i < 4096"
    | k i where "a = block_addr sample_fs exec_mem 0 k + of_nat i" "4096 * k < 5000" "i < 4096"
    by (auto simp: file_area_def exec_file_facts(1) sample_inode)
  then show ?thesis
  proof cases
    case 1
    then show ?thesis by (simp add: unat_word_ariths unat_of_nat32)
  next
    case 2
    then have "k = 0 \<or> k = 1" by auto
    then have "block_addr sample_fs exec_mem 0 k \<in> {0x13000, 0x11000}" using exec_file_facts(2,3) by auto
    then show ?thesis using 2 by (auto simp: unat_word_ariths unat_of_nat32)
  qed
qed

lemma exec_bytes: "k < 4096 \<Longrightarrow> file_byte sample_fs exec_mem 0 k = exec_mem (0x13000 + of_nat k)"
  by (simp add: file_byte_def exec_file_facts(2))

lemma exec_directory: "directory sample_fs exec_mem [[97], [98, 99]]"
  by (auto simp: directory_def sample_fs_def exec_mem_def proc_mem_def sample_image_def holds_str_def less_Suc_eq)

lemma exec_sample_ready: "exec_ready exec_stack [[97], [98, 99]] [97, 0x20, 120] 0 0 exec_state"
proof -
  have sp: "find_spaces [97, 0x20, 120] = [1]" by (simp add: find_spaces_def upt_rec)
  have "\<forall>a \<in> file_area sample_fs exec_mem 0. \<not> in_user_page a \<and> 4 \<le> unat (a - 0x7FDF00)"
    by (auto dest!: exec_area simp: in_user_page_def word_less_nat_alt unat_sub_if' word_le_nat_alt)
  moreover have "map (file_byte sample_fs exec_mem 0) [0, 1, 2, 3] = [0x7F, 0x45, 0x4C, 0x46]"
    by (simp add: exec_bytes) (simp add: exec_mem_def)
  moreover have "load32 exec_mem (dir_entries sample_fs ! 0 + 36) = 0"
    by (simp add: sample_fs_def load32_def exec_mem_def proc_mem_def sample_image_def)
  ultimately show ?thesis
    by (simp add: exec_ready_def program_ready_def exec_directory exec_file_facts(1) program_name_def sp exec_stack_def)
qed

lemma exec_sample_queue:
  "pq_inv (process_q exec_state) (Suc 0)" "Suc 0 < 6" "hd (pq_items (process_q exec_state) (Suc 0)) = pcb_addr 1" "(1 :: u32) \<in> {1..6}"
  by (simp_all add: pq_inv_def pq_items_def)

lemma exec_sample_stack:
  "\<forall>k < 580. 4 \<le> unat (pcb_addr 1 + of_nat k - exe_buff exec_stack)"
  "\<forall>k < 580. 4 \<le> unat (pcb_addr (process_count exec_state + 1) + of_nat k - exe_buff exec_stack)"
  by (auto simp: exec_stack_def pcb_addr_def unat_sub_if' word_le_nat_alt unat_word_ariths unat_of_nat32)

lemma exec_sample_command: "holds_str (str_ptr [97, 0x20, 120]) [97, 0x20, 120]" "command_args [97, 0x20, 120] = [120]"
  by (rule holds_str_ptr) (simp_all add: command_args_def find_spaces_def upt_rec)

theorem execute_starts_program_witness:
  "\<exists>s'. execute sample_symbols exec_stack (str_ptr [97, 0x20, 120]) exec_state = Inr (Enter_user 0x08048094 0x083FFFFC, s')
     \<and> process_count s' = 2 \<and> mem s' 0x8048001 = 0x45 \<and> holds_str (ptr_at (mem s') (argument_buffer_at (pcb_addr 2))) [120]"
proof -
  have eip: "entry_point (\<lambda>a. file_byte sample_fs exec_mem 0 (unat a)) 0 = 0x08048094"
    by (simp add: entry_point_def exec_bytes) (simp add: exec_mem_def push_bit_eq_mult)
  have byte: "file_byte sample_fs exec_mem 0 1 = 0x45" by (simp add: exec_bytes) (simp add: exec_mem_def)
  obtain s' where s': "execute sample_symbols exec_stack (str_ptr [97, 0x20, 120]) exec_state = Inr (Enter_user 0x08048094 0x083FFFFC, s')"
    "process_count s' = 2" "\<forall>k < 5000. mem s' (0x8048000 + of_nat k) = file_byte sample_fs exec_mem 0 k"
    "holds_str (ptr_at (mem s') (argument_buffer_at (pcb_addr 2))) [120]"
    using execute_starts_program [OF exec_sample_ready exec_sample_command(1) exec_sample_queue exec_sample_stack, of sample_symbols]
    unfolding Let_def exec_state_simps eip exec_sample_command(2) exec_file_facts(1) one_add_one by blast
  then show ?thesis using byte s'(3) [rule_format, of 1] by auto
qed

section \<open>Arguments\<close>

lemma getargs_delivers:
  assumes "pcb_get (mem s) (current_pblock s) Argument_length = of_nat (length args) + 1"
    and str: "holds_str (ptr_at (mem s) (argument_buffer_at (current_pblock s))) args" and "args \<noteq> []" "length args < 128"
    and n: "int (length args) < n" "n < 2 ^ 31" and buf: "buf \<noteq> 0" "word_of_int n \<le> buf - argument_buffer_at (current_pblock s)"
  shows "getargs buf n s = (0, s\<lparr>mem := blit (mem s) buf (nat n) (\<lambda>i. mem s (argument_buffer_at (current_pblock s) + of_nat i))\<rparr>)"
    "holds_str (ptr_at (mem (snd (getargs buf n s))) buf) args"
proof -
  let ?p = "current_pblock s"
  have un: "unat (word_of_int n :: u32) = nat n" using n by (simp add: unsigned_of_int take_bit_int_eq_self)
  have ul: "unat (of_nat (length args) + 1 :: u32) = Suc (length args)" using assms(4) by (simp add: unat_word_ariths unat_of_nat32)
  have "\<not> pcb_get (mem s) ?p Argument_length \<le> 1" "\<not> word_of_int n < pcb_get (mem s) ?p Argument_length"
    unfolding assms(1) using assms(3) n by (simp_all add: word_le_nat_alt word_less_nat_alt ul un)
  then show res: "getargs buf n s = (0, s\<lparr>mem := blit (mem s) buf (nat n) (\<lambda>i. mem s (argument_buffer_at ?p + of_nat i))\<rparr>)"
    using buf memcpy_blit [of buf "argument_buffer_at ?p" "word_of_int n" "mem s"] un by (simp add: getargs_def Let_def)
  have "blit (mem s) buf (nat n) (\<lambda>i. mem s (argument_buffer_at ?p + of_nat i)) (buf + of_nat k) = mem s (argument_buffer_at ?p + of_nat k)"
    if "k \<le> length args" for k using that n by (intro blit_in) simp_all
  then show "holds_str (ptr_at (mem (snd (getargs buf n s))) buf) args" using str by (simp add: res holds_str_def)
qed

text \<open>
  C24. The arguments of a command reach the program: after \<open>execute\<close> of a command with an argument, \<open>getargs\<close> in the new
  process copies exactly the text behind the space, with its terminating zero, into a buffer of the program that is large
  enough for it and not above the 128 bytes that are kept, and returns 0 (the comment on the function gives 1). For a command
  without arguments it returns -1.
\<close>

theorem arguments_reach_program:
  assumes r: "exec_ready lo ns command n inode s" and cmd: "holds_str command_param command"
    and q: "pq_inv (process_q s) (Suc k)" "Suc k < 6" "hd (pq_items (process_q s) (Suc k)) = pcb_addr i" "i \<in> {1..6}"
    and stack: "\<forall>k < 580. 4 \<le> unat (pcb_addr i + of_nat k - exe_buff lo)"
      "\<forall>k < 580. 4 \<le> unat (pcb_addr (process_count s + 1) + of_nat k - exe_buff lo)"
    and buf: "int (length (command_args command)) < nbytes" "nbytes \<le> 128" "in_user_page buf"
  shows "\<exists>eip s'. execute sy lo command_param s = Inr (Enter_user eip 0x083FFFFC, s')
    \<and> (if command_args command = [] then getargs buf nbytes s' = (-1, s')
       else fst (getargs buf nbytes s') = 0 \<and> holds_str (ptr_at (mem (snd (getargs buf nbytes s'))) buf) (command_args command))"
proof -
  define j where "j = process_count s + 1"
  have c: "length command \<le> 127" and room: "process_count s < 6" using r unfolding exec_ready_def program_ready_def by blast+
  have j6: "j \<in> {1..6}" using exec_room [OF room] by (simp add: j_def)
  obtain eip s' where s': "execute sy lo command_param s = Inr (Enter_user eip 0x083FFFFC, s')" "process_count s' = j"
    "pcb_get (mem s') (pcb_addr j) Argument_length = of_nat (length (command_args command)) + 1"
    "holds_str (ptr_at (mem s') (argument_buffer_at (pcb_addr j))) (command_args command)"
    using execute_result [OF r cmd q stack, of sy] unfolding Let_def j_def [symmetric] by blast
  have far: "buf \<noteq> 0" "128 \<le> unat (buf - argument_buffer_at (pcb_addr j))"
    using buf(3) u32_1_6 [OF j6] by (auto simp: in_user_page_def pcb_addr_def word_less_nat_alt unat_sub_if' word_le_nat_alt split: if_splits)
  have n: "unat (word_of_int nbytes :: u32) = nat nbytes" using buf by (simp add: unsigned_of_int take_bit_int_eq_self)
  then have apart: "word_of_int nbytes \<le> buf - argument_buffer_at (pcb_addr j)" using far(2) buf(2) by (simp add: word_le_nat_alt)
  have "getargs buf nbytes s' = (-1, s')" if "command_args command = []"
    using s'(2,3) far(1) that by (simp add: getargs_def Let_def)
  moreover have "fst (getargs buf nbytes s') = 0 \<and> holds_str (ptr_at (mem (snd (getargs buf nbytes s'))) buf) (command_args command)"
    if "command_args command \<noteq> []"
    using getargs_delivers [of s' "command_args command" nbytes buf] s' that buf far(1) apart command_args_length [of command] c by simp
  ultimately show ?thesis using s'(1) by auto
qed

theorem arguments_reach_program_witness:
  "\<exists>eip s'. execute sample_symbols exec_stack (str_ptr [97, 0x20, 120]) exec_state = Inr (Enter_user eip 0x083FFFFC, s')
     \<and> fst (getargs 0x8050000 100 s') = 0 \<and> holds_str (ptr_at (mem (snd (getargs 0x8050000 100 s'))) 0x8050000) [120]"
  using arguments_reach_program [OF exec_sample_ready exec_sample_command(1) exec_sample_queue exec_sample_stack, of 100 "0x8050000" sample_symbols]
  by (simp add: exec_sample_command(2) in_user_page_def)

section \<open>Termination of a process\<close>

text \<open>The eight bytes \<open>halt\<close> pushes and the word its base pointer points to are on the kernel stack, apart from each other.\<close>

definition halt_frame :: "exec_locals \<Rightarrow> bool" where
  "halt_frame lo \<longleftrightarrow> (\<forall>k < 8. \<not> in_user_page (halt_esp lo - 8 + of_nat k))
     \<and> (\<forall>k < 4. \<not> in_user_page (halt_ebp lo + of_nat k) \<and> 8 \<le> unat (halt_ebp lo + of_nat k - (halt_esp lo - 8)))"

lemma pushed_other:
  assumes "8 \<le> unat (a - (e - 8))"
  shows "store32 (store32 m (e - 4) v) (e - 8) w a = m a"
proof -
  have eq: "a - (e - 4) = a - (e - 8) - 4" by simp
  have "unat (a - (e - 8) - 4) = unat (a - (e - 8)) - 4" using assms by (subst unat_sub) (simp_all add: word_le_nat_alt)
  then have "4 \<le> unat (a - (e - 4))" using assms unfolding eq by linarith
  then show ?thesis using assms by (simp add: store32_other)
qed

lemma pushed_words:
  "load32 (store32 (store32 m (e - 4) v) (e - 8) w) (e - 4) = v" "load32 (store32 (store32 m (e - 4) v) (e - 8) w) (e - 8) = w"
  by (simp_all add: load32_store32_other load32_store32)

lemma halt_step:
  assumes pc: "process_count t = j" "j \<in> {1..6}" "1 < j" and q: "pq_inv (process_q t) (Suc k)" and pd: "32 < length (pd t)"
    and parent: "pcb_get (mem t) (pcb_addr j) Parent_ptr = pcb_addr i" "i \<in> {1..6}"
  shows "\<exists>u. halt sy lo status t = Inr (Halt_leave (halt_ebp lo + 4) (load32 (mem u) (halt_ebp lo)), u)
    \<and> process_count u = j - 1 \<and> user_frame u = Some j \<and> tss_esp0 u = pcb_addr (j - 1) - 4
    \<and> pq_inv (process_q u) k \<and> pq_items (process_q u) k = tl (pq_items (process_q t) (Suc k))
    \<and> mem u = store32 (store32 (map_user (saved_frames t j) (mem t)) (halt_esp lo - 4) (pcb_get (mem t) (pcb_addr i) Esp))
        (halt_esp lo - 8) (pcb_get (mem t) (pcb_addr i) Ebp)"
proof -
  obtain q' where q': "pq_dequeue (process_q t) = Inr (hd (pq_items (process_q t) (Suc k)), q')" "pq_inv q' k"
    "pq_items q' k = tl (pq_items (process_q t) (Suc k))"
    using pq.pop_law [OF q] by blast
  have nz: "pcb_addr i \<noteq> 0" using u32_1_6 [OF parent(2)] by (elim insertE emptyE; simp add: pcb_addr_def)
  have j1: "j - 1 \<in> {1..6}" "\<not> j \<le> 1" using u32_1_6 [OF pc(2)] pc(3) by auto
  define pd' where "pd' = (pd t)[32 := init_4mb_user_pde (junk_pde lo) (0x400000 + (j - 1) * 0x400000)]"
  define m' where "m' = store32 (store32 (map_user (saved_frames t j) (mem t)) (halt_esp lo - 4) (pcb_get (mem t) (pcb_addr i) Esp))
    (halt_esp lo - 8) (pcb_get (mem t) (pcb_addr i) Ebp)"
  have "saved_frames (t\<lparr>process_q := q'\<rparr>) = saved_frames t" by (simp add: saved_frames_def cong: option.case_cong)
  then have "set_cr3 (pd_addr sy) (t\<lparr>process_q := q', pd := pd'\<rparr>) = Inr (t\<lparr>process_q := q', pd := pd', cr3 := pd_addr sy,
      frames := saved_frames t, user_frame := Some j, mem := map_user (saved_frames t j) (mem t)\<rparr>)"
    using set_cr3_process [of "t\<lparr>process_q := q'\<rparr>" "j - 1" "pd_addr sy" "junk_pde lo"] pd j1(1) by (simp add: pd'_def)
  then have "halt sy lo status t = Inr (Halt_leave (halt_ebp lo + 4) (load32 m' (halt_ebp lo)),
      t\<lparr>process_q := q', pd := pd', cr3 := pd_addr sy, frames := saved_frames t, user_frame := Some j, mem := m',
        process_count := j - 1, tss_esp0 := pcb_addr (j - 1) - 4\<rparr>)"
    using q'(1) nz j1(2) pc parent(1)
    by (simp add: halt_def halt_rest_def Let_def pd'_def m'_def pcb_addr_def [of "j - 1"] pc(1))
  then show ?thesis using q'(2,3) by (simp add: m'_def)
qed

lemma user_off_buffer:
  assumes "\<forall>k < n. \<not> in_user_page (b + of_nat k)" and "in_user_page a"
  shows "n \<le> unat (a - b)"
proof (rule ccontr)
  assume "\<not> n \<le> unat (a - b)"
  then have "unat (a - b) < n" by simp
  with assms(1) have "\<not> in_user_page (b + of_nat (unat (a - b)))" by blast
  then show False using assms(2) by simp
qed

text \<open>
  C23. A program that the newest process started by \<open>execute\<close> and that calls \<open>halt\<close> gives the system back to its parent, whatever it did to its own memory:
  the process count, the queue, the top of the kernel stack, the parent's frame, and in it every byte of the
  parent's memory as it was before the program ran. The stack and base pointer in the parent's control block are pushed, but the
  \<open>leave\<close> that follows does not use them: the stack pointer becomes the word above \<open>halt\<close>'s base pointer, and the base pointer
  the one that was saved there when \<open>halt\<close> was entered. Outside the user page \<open>halt\<close> writes only the two pushed words.
\<close>

theorem halt_returns_to_parent:
  assumes r: "exec_ready lo ns command n inode s" and cmd: "holds_str command_param command"
    and q: "pq_inv (process_q s) (Suc k)" "Suc k < 6" "hd (pq_items (process_q s) (Suc k)) = pcb_addr i" "i \<in> {1..6}"
    and stack: "\<forall>k < 580. 4 \<le> unat (pcb_addr i + of_nat k - exe_buff lo)"
      "\<forall>k < 580. 4 \<le> unat (pcb_addr (process_count s + 1) + of_nat k - exe_buff lo)" "\<forall>k < 4. \<not> in_user_page (exe_buff lo + of_nat k)"
      "halt_frame lo"
    and parent: "i = process_count s" "user_frame s = Some (i + 1)"
    and child: "\<forall>a. \<not> in_user_page a \<longrightarrow> m a = mem s' a"
    and run: "execute sy lo command_param s = Inr (res, s')"
  shows "\<exists>u. halt sy lo status (s'\<lparr>mem := m\<rparr>) = Inr (Halt_leave (halt_ebp lo + 4) (load32 m (halt_ebp lo)), u)
    \<and> process_count u = process_count s \<and> user_frame u = user_frame s \<and> tss_esp0 u = pcb_addr i - 4
    \<and> pq_inv (process_q u) (Suc k) \<and> pq_items (process_q u) (Suc k) = pq_items (process_q s) (Suc k)
    \<and> (\<forall>a. in_user_page a \<longrightarrow> mem u a = mem s a)
    \<and> load32 (mem u) (halt_esp lo - 4) = pcb_get (mem s) (pcb_addr i) Esp
    \<and> load32 (mem u) (halt_esp lo - 8) = pcb_get (mem s) (pcb_addr i) Ebp
    \<and> (\<forall>a. \<not> in_user_page a \<longrightarrow> 8 \<le> unat (a - (halt_esp lo - 8)) \<longrightarrow> mem u a = m a)"
proof -
  define j where "j = i + 1"
  have room: "process_count s < 6" and pd: "32 < length (pd s)" using r unfolding exec_ready_def program_ready_def by blast+
  have j6: "j \<in> {1..6}" using exec_room [OF room] by (simp add: j_def parent(1))
  have j1: "1 < j" "j \<noteq> i" "j - 1 = i" using u32_1_6 [OF q(4)] by (auto simp: j_def)
  have s': "process_count s' = j" "user_frame s' = Some (j + 1)" "length (pd s') = length (pd s)"
      "\<forall>g a. user_frame s = Some g \<longrightarrow> 4 \<le> unat (a - exe_buff lo) \<longrightarrow> frames s' g (a - ADDR_128MB) = mem s a"
      "pq_inv (process_q s') (Suc (Suc k))" "pq_items (process_q s') (Suc (Suc k)) = pcb_addr j # pq_items (process_q s) (Suc k)"
      "pcb_get (mem s') (pcb_addr j) Parent_ptr = pcb_addr i"
      "\<forall>a. \<not> in_user_page a \<longrightarrow> 4 \<le> unat (a - exe_buff lo) \<longrightarrow> 580 \<le> unat (a - pcb_addr j) \<longrightarrow> mem s' a = mem s a"
    using execute_result [OF r cmd q stack(1,2), of sy] run unfolding Let_def j_def parent(1) by auto
  have get_i: "pcb_get m (pcb_addr i) f = pcb_get (mem s) (pcb_addr i) f" for f
  proof (rule pcb_get_cong)
    fix x :: nat
    assume x: "x < 580"
    have "\<not> in_user_page (pcb_addr i + of_nat x)" using x by (intro pcb_in_kernel [OF q(4)]) simp
    moreover have "580 \<le> unat (pcb_addr i + of_nat x - pcb_addr j)" using j1(2) x by (intro pcbs_apart j6 q(4)) auto
    ultimately show "m (pcb_addr i + of_nat x) = mem s (pcb_addr i + of_nat x)" using child s'(8) stack(1) x by simp
  qed
  have "pcb_get m (pcb_addr j) Parent_ptr = pcb_addr i" using s'(7) kernel_pcb_kept [OF j6, of m "mem s'" Parent_ptr] child by simp
  then obtain u where u: "halt sy lo status (s'\<lparr>mem := m\<rparr>) = Inr (Halt_leave (halt_ebp lo + 4) (load32 (mem u) (halt_ebp lo)), u)"
      "process_count u = j - 1" "user_frame u = Some j" "tss_esp0 u = pcb_addr (j - 1) - 4"
      "pq_inv (process_q u) (Suc k)" "pq_items (process_q u) (Suc k) = tl (pq_items (process_q s') (Suc (Suc k)))"
      "mem u = store32 (store32 (map_user (saved_frames (s'\<lparr>mem := m\<rparr>) j) m) (halt_esp lo - 4) (pcb_get m (pcb_addr i) Esp))
        (halt_esp lo - 8) (pcb_get m (pcb_addr i) Ebp)"
    using halt_step [of "s'\<lparr>mem := m\<rparr>" j "Suc k" i sy lo status] s' j6 j1(1) q(4) pd by auto
  have out: "mem u a = map_user (saved_frames (s'\<lparr>mem := m\<rparr>) j) m a" if "8 \<le> unat (a - (halt_esp lo - 8))" for a
    unfolding u(7) using that by (rule pushed_other)
  have kernel: "mem u a = m a" if "\<not> in_user_page a" "8 \<le> unat (a - (halt_esp lo - 8))" for a
    using that out by (simp add: map_user_simps)
  have "mem u a = mem s a" if "in_user_page a" for a
  proof -
    have "8 \<le> unat (a - (halt_esp lo - 8))" using that stack(4) by (intro user_off_buffer [where n = 8]) (simp_all add: halt_frame_def)
    then show ?thesis
      using out s'(2,4) parent(2) user_off_buffer [OF stack(3) that] that by (simp add: map_user_def saved_frames_def j_def)
  qed
  moreover have "mem u (halt_ebp lo + of_nat k) = m (halt_ebp lo + of_nat k)" if "k < 4" for k
    using that stack(4) unfolding halt_frame_def by (intro kernel) simp_all
  from this [of 0] this [of 1] this [of 2] this [of 3] have "load32 (mem u) (halt_ebp lo) = load32 m (halt_ebp lo)"
    by (intro load32_cong) simp_all
  ultimately show ?thesis
    using u(1-6) s'(6) j1(3) parent kernel get_i pushed_words by (simp add: j_def u(7))
qed

theorem halt_returns_to_parent_witness:
  "\<exists>res s' u. execute sample_symbols exec_stack (str_ptr [97, 0x20, 120]) (exec_state\<lparr>user_frame := Some 2\<rparr>) = Inr (res, s')
     \<and> (\<exists>ebp. halt sample_symbols exec_stack 0 s' = Inr (Halt_leave 0x7FBFC4 ebp, u)) \<and> process_count u = 1 \<and> mem u 0x8048000 = 97"
proof -
  let ?s = "exec_state\<lparr>user_frame := Some 2\<rparr>"
  have ready: "exec_ready exec_stack [[97], [98, 99]] [97, 0x20, 120] 0 0 ?s" using exec_sample_ready unfolding exec_ready_frame .
  have same: "process_q ?s = process_q exec_state" "process_count ?s = process_count exec_state" by simp_all
  note exec = execute_result [OF ready exec_sample_command(1) exec_sample_queue [folded same] exec_sample_stack [folded same], of sample_symbols]
  then obtain res s' where run: "execute sample_symbols exec_stack (str_ptr [97, 0x20, 120]) ?s = Inr (res, s')" by (auto simp: Let_def)
  have buf: "\<forall>k < 4. \<not> in_user_page (exe_buff exec_stack + of_nat k)"
    by (auto simp: exec_stack_def in_user_page_def word_less_nat_alt unat_sub_if' word_le_nat_alt unat_word_ariths unat_of_nat32)
  have frame: "halt_frame exec_stack"
    by (auto simp: halt_frame_def exec_stack_def in_user_page_def word_less_nat_alt unat_sub_if' word_le_nat_alt unat_word_ariths unat_of_nat32)
  have page: "exec_mem 0x8048000 = 97" "in_user_page 0x8048000"
    by (simp_all add: pcb_get_def field_at_def proc_pblock load32_def exec_mem_def proc_mem_def sample_image_def in_user_page_def)
  have "(1 :: u32) = process_count ?s" "user_frame ?s = Some (1 + 1)" "\<forall>a. \<not> in_user_page a \<longrightarrow> mem s' a = mem s' a" by simp_all
  from halt_returns_to_parent [OF ready exec_sample_command(1) exec_sample_queue [folded same] exec_sample_stack [folded same] buf frame this run, of 0]
  obtain u where "halt sample_symbols exec_stack 0 s' = Inr (Halt_leave 0x7FBFC4 (load32 (mem s') 0x7FBFC0), u)" "process_count u = 1" "\<forall>a. in_user_page a \<longrightarrow> mem u a = exec_mem a"
    by (auto simp: exec_stack_def)
  then show ?thesis using run page by auto
qed

end
