(* ===== verification/Idt.thy ===== *)
theory Idt
  imports Exec
begin

text \<open>
  The interrupt descriptor table and the handlers of \<^verbatim>\<open>idt.c\<close>, with the entry points of
  \<^verbatim>\<open>handler.S\<close>. A descriptor has the fields of \<open>idt_desc_t\<close> at their widths. The addresses the
  linker gives to the entry points are a parameter. An interrupt is delivered through its
  descriptor: the entry point it names runs the C handler and returns with the interrupt flag the
  interrupted code had.
\<close>

section \<open>Descriptors\<close>

record idt_desc =
  offset_15_00 :: u16
  seg_selector :: u16
  reserved4 :: u8
  reserved3 :: "1 word"
  reserved2 :: "1 word"
  reserved1 :: "1 word"
  size_bit :: "1 word"
  reserved0 :: "1 word"
  dpl :: "2 word"
  present :: "1 word"
  offset_31_16 :: u16

datatype int_entry = Handler nat | Handler_irq nat | Handler_syscall

record kernel = sys +
  idt :: "idt_desc list"
  idtr :: "(u16 \<times> u32) option"

abbreviation (input) KERNEL_DPL :: u32 where "KERNEL_DPL \<equiv> 0"

abbreviation (input) USER_DPL :: u32 where "USER_DPL \<equiv> 3"

abbreviation (input) KERNEL_CS :: u16 where "KERNEL_CS \<equiv> 0x10"

abbreviation (input) SYSCALL :: u8 where "SYSCALL \<equiv> 128"

definition SET_IDT_ENTRY :: "u32 \<Rightarrow> idt_desc \<Rightarrow> idt_desc" where
  "SET_IDT_ENTRY handler d =
     d\<lparr>offset_31_16 := ucast (drop_bit 16 (handler AND 0xFFFF0000)), offset_15_00 := ucast (handler AND 0xFFFF)\<rparr>"

definition set_desc :: "u8 \<Rightarrow> u32 \<Rightarrow> u32 \<Rightarrow> idt_desc \<Rightarrow> idt_desc" where
  "set_desc vec level handler_address d =
     (let d = SET_IDT_ENTRY handler_address d;
          d = d\<lparr>seg_selector := KERNEL_CS\<rparr>;
          d = d\<lparr>size_bit := 1\<rparr>;
          d = d\<lparr>dpl := ucast level\<rparr>;
          d = d\<lparr>present := 1\<rparr>;
          d = d\<lparr>reserved4 := 0\<rparr>;
          d = d\<lparr>reserved3 := 1\<rparr>;
          d = (if vec = SYSCALL then d\<lparr>reserved3 := 0\<rparr> else d);
          d = d\<lparr>reserved2 := 1\<rparr>;
          d = d\<lparr>reserved1 := 1\<rparr>
      in d\<lparr>reserved0 := 0\<rparr>)"

text \<open>The table has 256 entries and the vector is a byte, so the index is in range.\<close>

definition idt_set_vector :: "u8 \<Rightarrow> u32 \<Rightarrow> u32 \<Rightarrow> 'a kernel_scheme \<Rightarrow> 'a kernel_scheme" where
  "idt_set_vector vec level handler_address s =
     s\<lparr>idt := (idt s)[unat vec := set_desc vec level handler_address (idt s ! unat vec)]\<rparr>"

text \<open>The calls of \<open>idt_init\<close>, in order.\<close>

definition idt_vectors :: "(u8 \<times> u32 \<times> int_entry) list" where
  "idt_vectors =
     [(0, KERNEL_DPL, Handler 0), (1, KERNEL_DPL, Handler 1), (2, KERNEL_DPL, Handler 2), (3, KERNEL_DPL, Handler 3),
      (4, USER_DPL, Handler 4), (5, USER_DPL, Handler 5), (6, KERNEL_DPL, Handler 6), (7, KERNEL_DPL, Handler 7),
      (8, KERNEL_DPL, Handler 8), (9, KERNEL_DPL, Handler 9), (10, KERNEL_DPL, Handler 10), (11, KERNEL_DPL, Handler 11),
      (12, KERNEL_DPL, Handler 12), (13, KERNEL_DPL, Handler 13), (14, KERNEL_DPL, Handler 14), (15, KERNEL_DPL, Handler 15),
      (16, KERNEL_DPL, Handler 16), (17, KERNEL_DPL, Handler 17), (18, KERNEL_DPL, Handler 18), (19, KERNEL_DPL, Handler 19),
      (20, KERNEL_DPL, Handler 20), (21, KERNEL_DPL, Handler 21), (22, KERNEL_DPL, Handler 22), (23, KERNEL_DPL, Handler 23),
      (24, KERNEL_DPL, Handler 24), (25, KERNEL_DPL, Handler 25), (26, KERNEL_DPL, Handler 26), (27, KERNEL_DPL, Handler 27),
      (28, KERNEL_DPL, Handler 28), (29, KERNEL_DPL, Handler 29), (30, KERNEL_DPL, Handler 30), (31, KERNEL_DPL, Handler 31),
      (32, KERNEL_DPL, Handler_irq 0), (33, KERNEL_DPL, Handler_irq 1), (34, KERNEL_DPL, Handler_irq 2),
      (35, KERNEL_DPL, Handler_irq 3), (36, KERNEL_DPL, Handler_irq 4), (38, KERNEL_DPL, Handler_irq 6),
      (40, KERNEL_DPL, Handler_irq 8), (42, KERNEL_DPL, Handler_irq 10), (43, KERNEL_DPL, Handler_irq 11),
      (44, KERNEL_DPL, Handler_irq 12), (45, KERNEL_DPL, Handler_irq 13), (46, KERNEL_DPL, Handler_irq 14),
      (47, KERNEL_DPL, Handler_irq 15), (SYSCALL, USER_DPL, Handler_syscall)]"

text \<open>\<open>lidt\<close> loads the limit, one less than the 2048 bytes of the table, and its base.\<close>

definition idt_init :: "(int_entry \<Rightarrow> u32) \<Rightarrow> u32 \<Rightarrow> 'a kernel_scheme \<Rightarrow> 'a kernel_scheme" where
  "idt_init addr idt_addr s =
     (let s = fold (\<lambda>(vec, level, h). idt_set_vector vec level (addr h)) idt_vectors s
      in s\<lparr>idtr := Some (0x7FF, idt_addr)\<rparr>)"

section \<open>Handlers\<close>

definition int_desc :: "string list" where
  "int_desc = [''divide by zero'', ''debug'', ''non maskable interrupt'', ''breakpoint'', ''overflow'',
     ''bounds check'', ''invalid opcode'', ''coprocessor not available'', ''double fault'',
     ''reserved'', ''ece391invalid TSS'', ''segment not present'', ''stack exception'', ''general protection fault'',
     ''page fault'', ''reserved'', ''coprocessor error'', ''alignment error'']"

text \<open>What \<open>idt_handler\<close> prints. The description is printed by \<open>%s\<close> from the constant array.\<close>

definition report_int :: "registers \<Rightarrow> 'a console_scheme \<Rightarrow> 'a console_scheme res" where
  "report_int regs s =
     (if int_num regs < 18 then
        res_bind (printf (''Error Code: %d'' @ [CHR 0x0A]) [error_code regs] s) (\<lambda>(n, s).
        res_bind (printf ''Int Num %d: '' [int_num regs] s) (\<lambda>(n, s).
        put_list (map of_char (int_desc ! unat (int_num regs) @ [CHR 0x0A])) s))
      else res_bind (printf ''Int Num: %d'' [int_num regs] s) (\<lambda>(n, s). Inr s))"

definition idt_handler :: "registers \<Rightarrow> 'a console_scheme \<Rightarrow> 'a console_scheme res" where
  "idt_handler regs s =
     (let (flags, s) = cli_and_save s
      in res_bind (report_int regs s) (\<lambda>s.
         if int_num regs \<noteq> 3 \<and> int_num regs \<noteq> 4 then Inl No_return
         else Inr (restore_flags flags s)))"

text \<open>The body of \<open>pit_handler\<close> is commented out.\<close>

definition pit_handler :: "registers \<Rightarrow> 'a machine_scheme \<Rightarrow> 'a machine_scheme" where
  "pit_handler regs s = s"

definition rtc_handler :: "env \<Rightarrow> 'a rtc_scheme \<Rightarrow> 'a rtc_scheme" where
  "rtc_handler env s =
     (let s = clear_rtc_read env s;
          s = outb REG_C RTC_INDEX s
      in snd (inb env RTC_DATA s))"

definition pic_handler :: "env \<Rightarrow> registers \<Rightarrow> 'a kernel_scheme \<Rightarrow> 'a kernel_scheme res" where
  "pic_handler env regs s =
     (let (flags, s) = cli_and_save s
      in res_bind
        (if int_num regs = 0 then Inr (pit_handler regs s)
         else if int_num regs = 1 then
           (case keyboard_handler env s of None \<Rightarrow> Inl No_return | Some r \<Rightarrow> r)
         else if int_num regs = 8 then Inr (rtc_handler env s)
         else Inr s) (\<lambda>s.
      let s = send_eoi (int_num regs) s
      in Inr (restore_flags flags s)))"

section \<open>Entry points\<close>

text \<open>
  \<open>handler_irqN\<close> and \<open>irq_handler\<close>: the hardware saves the flags, the entry point disables
  interrupts, pushes the line number, calls the C handler, and \<open>iret\<close> restores the flags after the
  \<open>sti\<close>. The exceptions go the same way through \<open>common_handler\<close>.
\<close>

definition irq_handler :: "env \<Rightarrow> registers \<Rightarrow> 'a kernel_scheme \<Rightarrow> 'a kernel_scheme res" where
  "irq_handler env regs s =
     (let flags = iflag s;
          s = cli s
      in res_bind (pic_handler env regs s) (\<lambda>s. let s = sti s in Inr (restore_flags flags s)))"

definition common_handler :: "registers \<Rightarrow> 'a console_scheme \<Rightarrow> 'a console_scheme res" where
  "common_handler regs s =
     (let flags = iflag s;
          s = cli s
      in res_bind (idt_handler regs s) (\<lambda>s. let s = sti s in Inr (restore_flags flags s)))"

text \<open>The calls of the table \<open>sys_call_table\<close>, with the three arguments from \<open>ebx\<close>, \<open>ecx\<close> and \<open>edx\<close>. Calls
  that wait take the list \<open>is\<close> of the interrupts that arrive meanwhile.\<close>

definition sys_call :: "symbols \<Rightarrow> env \<Rightarrow> ('i \<Rightarrow> 'a sys_scheme \<Rightarrow> 'a sys_scheme) \<Rightarrow> exec_locals \<Rightarrow> 'i list
    \<Rightarrow> u32 \<Rightarrow> u32 \<Rightarrow> u32 \<Rightarrow> u32 \<Rightarrow> 'a sys_scheme \<Rightarrow> (exec_result \<times> 'i list \<times> 'a sys_scheme) res" where
  "sys_call sy env handler lo is eax ebx ecx edx s =
     (if eax = 1 then res_bind (halt sy lo (ucast ebx) s) (\<lambda>(r, s). Inr (r, is, s))
      else if eax = 2 then
        (if ebx = 0 then Inl Null_pointer
         else res_bind (execute sy lo (ptr_at (mem s) ebx) s) (\<lambda>(r, s). Inr (r, is, s)))
      else if eax = 3 then
        res_bind (read_sc sy handler (junk_dentry lo) is (sint ebx) ecx (sint edx) s) (\<lambda>(r, is, s). Inr (Returned r, is, s))
      else if eax = 4 then res_bind (write_sc sy env (sint ebx) ecx (sint edx) s) (\<lambda>(r, s). Inr (Returned r, is, s))
      else if eax = 5 then res_bind (open_sc sy env (junk_dentry lo) ebx s) (\<lambda>(r, s). Inr (Returned r, is, s))
      else if eax = 6 then res_bind (close_sc sy env (sint ebx) s) (\<lambda>(r, s). Inr (Returned r, is, s))
      else if eax = 7 then (let (r, s) = getargs ebx (sint ecx) s in Inr (Returned r, is, s))
      else if eax = 8 then (let (r, s) = vidmap ebx s in Inr (Returned r, is, s))
      else if eax = 9 then (let (r, s) = set_handler (sint ebx) ecx s in Inr (Returned r, is, s))
      else let (r, s) = sigreturn s in Inr (Returned r, is, s))"

text \<open>The descriptor of vector 128 is an interrupt gate, which clears the interrupt flag on entry.\<close>

definition handler_syscall :: "symbols \<Rightarrow> env \<Rightarrow> ('i \<Rightarrow> 'a sys_scheme \<Rightarrow> 'a sys_scheme) \<Rightarrow> exec_locals \<Rightarrow> 'i list
    \<Rightarrow> u32 \<Rightarrow> u32 \<Rightarrow> u32 \<Rightarrow> u32 \<Rightarrow> 'a sys_scheme \<Rightarrow> (exec_result \<times> 'i list \<times> 'a sys_scheme) res" where
  "handler_syscall sy env handler lo is eax ebx ecx edx s =
     (let flags = iflag s;
          s = cli s
      in if sint eax < 1 \<or> 10 < sint eax then Inr (Returned (-1), is, restore_flags flags s)
         else let s = sti s
              in res_bind (sys_call sy env handler lo is eax ebx ecx edx s) (\<lambda>(r, is, s).
                 case r of Returned n \<Rightarrow> Inr (r, is, restore_flags flags s) | _ \<Rightarrow> Inr (r, is, s)))"

section \<open>The table after \<open>idt_init\<close>\<close>

text \<open>The reference: which entry point belongs to a vector, and what the processor reads off a descriptor.\<close>

definition vector_entry :: "nat \<Rightarrow> int_entry option" where
  "vector_entry v =
     (if v < 32 then Some (Handler v)
      else if v < 48 \<and> v - 32 \<notin> {5, 7, 9} then Some (Handler_irq (v - 32))
      else if v = 128 then Some Handler_syscall else None)"

definition gate_offset :: "idt_desc \<Rightarrow> u32" where
  "gate_offset d = push_bit 16 (ucast (offset_31_16 d)) OR ucast (offset_15_00 d)"

text \<open>Type and attribute byte: present bit, privilege level, and the type 14 of a 32-bit interrupt gate or 15 of a
  32-bit trap gate.\<close>

definition gate_type :: "idt_desc \<Rightarrow> u8" where
  "gate_type d = push_bit 7 (ucast (present d)) OR push_bit 5 (ucast (dpl d)) OR push_bit 4 (ucast (reserved0 d))
     OR push_bit 3 (ucast (size_bit d)) OR push_bit 2 (ucast (reserved1 d)) OR push_bit 1 (ucast (reserved2 d)) OR ucast (reserved3 d)"

lemma set_entry_offset: "gate_offset (SET_IDT_ENTRY h d) = h"
proof -
  have f: "(0xFFFF :: u32) = mask 16" "(0xFFFF0000 :: u32) = push_bit 16 (mask 16)" by (simp_all add: mask_numeral)
  show ?thesis unfolding gate_offset_def SET_IDT_ENTRY_def f
    by (rule bit_word_eqI) (auto simp: bit_simps)
qed

lemma set_desc_gate:
  "gate_offset (set_desc v l h d) = h" "seg_selector (set_desc v l h d) = KERNEL_CS"
  "gate_type (set_desc v KERNEL_DPL h d) = (if v = SYSCALL then 0x8E else 0x8F)"
  "gate_type (set_desc v USER_DPL h d) = (if v = SYSCALL then 0xEE else 0xEF)"
proof -
  show "gate_offset (set_desc v l h d) = h"
    using set_entry_offset [of h d] by (simp add: set_desc_def gate_offset_def Let_def)
qed (simp_all add: set_desc_def SET_IDT_ENTRY_def gate_type_def Let_def)

lemma unat_inj_u8: "unat (a :: u8) = unat b \<longleftrightarrow> a = b"
  by (simp add: word_unat_eq_iff)

lemma idt_set_vectors:
  assumes "distinct (map fst vs)" and "length (idt s) = 256"
  shows "idt (fold (\<lambda>(vec, level, h). idt_set_vector vec level (addr h)) vs s) ! unat (v :: u8)
    = (case map_of vs v of None \<Rightarrow> idt s ! unat v | Some (level, h) \<Rightarrow> set_desc v level (addr h) (idt s ! unat v))"
  using assms
proof (induction vs arbitrary: s)
  case (Cons x vs)
  obtain w l h where x: "x = (w, l, h)" by (cases x) auto
  have "map_of vs w = None" using Cons.prems x by (simp add: map_of_eq_None_iff)
  moreover have "unat (u :: u8) < 256" for u by (rule less_le_trans [OF unsigned_less]) simp
  ultimately show ?case using Cons by (auto simp: x idt_set_vector_def nth_list_update unat_inj_u8 split: option.splits)
qed simp

lemma distinct_vectors: "distinct (map fst idt_vectors)"
  by code_simp

lemma vectors_entries:
  "list_all (\<lambda>(v, l, h). vector_entry (unat v) = Some h \<and> l = (if v \<in> {4, 5, 128} then USER_DPL else KERNEL_DPL)) idt_vectors"
  by (simp add: idt_vectors_def vector_entry_def)

lemma vectors_numbers: "map (\<lambda>x. unat (fst x)) idt_vectors = [0..<37] @ [38, 40] @ [42..<48] @ [128]"
  by (simp add: idt_vectors_def upt_rec)

lemma map_of_vectors:
  "map_of idt_vectors (v :: u8)
    = map_option (\<lambda>h. (if v \<in> {4, 5, 128} then USER_DPL else KERNEL_DPL, h)) (vector_entry (unat v))"
proof (cases "map_of idt_vectors v")
  case None
  then have "v \<notin> fst ` set idt_vectors" by (simp add: map_of_eq_None_iff)
  then have "unat v \<notin> set (map (\<lambda>x. unat (fst x)) idt_vectors)" by (auto simp: unat_inj_u8 intro: rev_image_eqI)
  then have "vector_entry (unat v) = None" unfolding vectors_numbers vector_entry_def by simp presburger
  with None show ?thesis by simp
next
  case (Some lh)
  then have "(v, fst lh, snd lh) \<in> set idt_vectors" by (auto dest: map_of_SomeD)
  with vectors_entries have "vector_entry (unat v) = Some (snd lh)
      \<and> fst lh = (if v \<in> {4, 5, 128} then USER_DPL else KERNEL_DPL)"
    unfolding list_all_iff by fast
  with Some show ?thesis by (cases lh) simp
qed

text \<open>
  C11. \<open>idt_init\<close> sets up exactly the vectors of the 32 exceptions, of the interrupt lines except 5, 7
  and 9, and of the system call. Each descriptor is present, uses the kernel's code segment
  and names the entry point of its vector. User code can call 4, 5 and 128 only. The system call
  is an interrupt gate and every other vector is a trap gate. The other descriptors keep their values.
\<close>

theorem idt_init_gates:
  assumes "length (idt s) = 256"
  shows "let d = idt (idt_init addr idt_addr s) ! unat (v :: u8)
    in case vector_entry (unat v) of None \<Rightarrow> d = idt s ! unat v
       | Some h \<Rightarrow> gate_offset d = addr h \<and> seg_selector d = KERNEL_CS
           \<and> gate_type d = (if v \<in> {4, 5} then 0xEF else if v = 128 then 0xEE else 0x8F)"
proof (cases "vector_entry (unat v)")
  case None
  then show ?thesis
    by (simp add: idt_init_def idt_set_vectors [OF distinct_vectors assms] map_of_vectors)
next
  case (Some h)
  then show ?thesis
    by (simp add: idt_init_def idt_set_vectors [OF distinct_vectors assms] map_of_vectors set_desc_gate)
qed

definition zero_desc :: idt_desc where
  "zero_desc = \<lparr>offset_15_00 = 0, seg_selector = 0, reserved4 = 0, reserved3 = 0, reserved2 = 0, reserved1 = 0, size_bit = 0,
     reserved0 = 0, dpl = 0, present = 0, offset_31_16 = 0\<rparr>"

text \<open>A state to start from: the tables as \<^verbatim>\<open>x86_desc.S\<close> leaves them.\<close>

definition kernel_boot :: kernel where
  "kernel_boot = sys.extend sys_boot \<lparr>idt = replicate 256 zero_desc, idtr = None\<rparr>"

lemma kernel_boot_idt: "idt kernel_boot = replicate 256 zero_desc"
  by (simp add: kernel_boot_def sys.defs)

lemma kernel_boot_inv: "kb_inv kernel_boot"
  using term_boot_inv by (simp add: kb_inv_def kernel_boot_def sys_boot_defs sys.defs)

theorem idt_init_gates_witness:
  "let d = idt (idt_init (\<lambda>h. case h of Handler n \<Rightarrow> 0 | Handler_irq n \<Rightarrow> of_nat n | Handler_syscall \<Rightarrow> 0x00401234) 0x00404000 kernel_boot) ! 128
   in gate_offset d = 0x00401234 \<and> gate_type d = 0xEE"
  using idt_init_gates [of kernel_boot "\<lambda>h. case h of Handler n \<Rightarrow> 0 | Handler_irq n \<Rightarrow> of_nat n | Handler_syscall \<Rightarrow> 0x00401234"
    "0x00404000" 128]
  by (simp add: kernel_boot_idt vector_entry_def Let_def)

section \<open>Interrupts that reach a waiting call\<close>

lemma write_freq_keeps:
  "RTC_READ (snd (write_freq env f s)) = RTC_READ s" "mem (snd (write_freq env f s)) = mem s"
  by (auto simp: write_freq_def set_rate_def Let_def case_prod_beta outb_def inb_def cli_def sti_def split: option.splits)

lemma rtc_handler_clears: "RTC_READ (rtc_handler env s) = 0" "mem (rtc_handler env s) = mem s"
  by (simp_all add: rtc_handler_def clear_rtc_read_def Let_def outb_def inb_def write_freq_keeps)

lemma send_eoi_keeps: "RTC_READ (send_eoi n s) = RTC_READ s" "mem (send_eoi n s) = mem s"
  by (induction n s rule: send_eoi.induct) (simp_all add: send_eoi.simps outb_def)

lemma irq_handler_tick:
  "int_num regs = 8 \<Longrightarrow> \<exists>s'. irq_handler env regs s = Inr s' \<and> RTC_READ s' = 0 \<and> mem s' = mem s"
  by (simp add: irq_handler_def pic_handler_def Let_def cli_and_save_def restore_flags_def cli_def sti_def
    send_eoi_keeps rtc_handler_clears)

lemma irq_handler_other:
  "int_num regs \<noteq> 1 \<Longrightarrow> int_num regs \<noteq> 8 \<Longrightarrow> \<exists>s'. irq_handler env regs s = Inr s' \<and> RTC_READ s' = RTC_READ s \<and> mem s' = mem s"
  by (simp add: irq_handler_def pic_handler_def pit_handler_def Let_def cli_and_save_def restore_flags_def cli_def sti_def
    send_eoi_keeps)

text \<open>The keyboard's interrupt does not touch the flag either. It returns when the line buffers and cursors are within bounds and the
  controller reports no further key.\<close>

lemma keyboard_parts_rtc [simp]:
  "RTC_READ (putc c s) = RTC_READ s" "RTC_READ (update_cursor x y s) = RTC_READ s" "RTC_READ (term_clear s) = RTC_READ s"
  "RTC_READ (snd (change_display_term t u)) = RTC_READ u" "RTC_READ (cli s) = RTC_READ s" "RTC_READ (sti s) = RTC_READ s"
  by (simp_all add: putc_def scroll_down_def update_cursor_def outb_def term_clear_def clear_def change_display_term_def
    copy_4kb_page_def cli_def sti_def Let_def)

lemma store_key_rtc: "store_key v s = Inr s' \<Longrightarrow> RTC_READ s' = RTC_READ s"
  by (auto simp: store_key_def Let_def split: if_splits)

lemma keys_rtc [simp]:
  "RTC_READ (backspace s) = RTC_READ s" "RTC_READ (switch_key k s) = RTC_READ s"
  by (simp_all add: backspace_def switch_key_def Let_def)

lemma enter_rtc: "enter s = Inr s' \<Longrightarrow> RTC_READ s' = RTC_READ s"
  using store_key_rtc [of 10 s] by (auto simp: enter_def Let_def res_bind_def split: sum.splits)

lemma other_key_rtc: "other_key k s = Inr (b, s') \<Longrightarrow> RTC_READ s' = RTC_READ s"
  using store_key_rtc by (fastforce simp: other_key_def Let_def res_bind_def split: sum.splits if_splits)

lemma key_step_rtc: "key_step k s = Inr (b, s') \<Longrightarrow> RTC_READ s' = RTC_READ s"
  using enter_rtc other_key_rtc by (fastforce simp: key_step_def Let_def res_bind_def split: sum.splits if_splits)

lemma keyboard_returns:
  assumes "kb_inv s" "\<forall>es. env 0x64 es AND 2 = 0"
  shows "\<exists>s'. keyboard_handler env s = Some (Inr s') \<and> kb_inv s' \<and> RTC_READ s' = RTC_READ s"
proof -
  let ?s = "s\<lparr>io := In 0x60 (env 0x60 (io s)) # io s\<rparr>" and ?k = "uint (ucast (env 0x60 (io s)) :: u32)"
  obtain b s' where s': "key_step ?k ?s = Inr (b, s')" "kb_inv s'"
    using key_step_inv [of ?s ?k] assms(1) by (auto simp: kb_inv_cursor)
  have "(ucast (env 0x64 es) :: u32) AND 2 = 0" for es
  proof -
    have "(ucast (env 0x64 es) :: u32) AND 2 = ucast (env 0x64 es AND 2)" by (simp add: unsigned_and_eq)
    then show ?thesis using assms(2) by simp
  qed
  then have "keyboard_handler env s = Some (Inr (if b then s' else s'\<lparr>io := In 0x64 (env 0x64 (io s')) # io s'\<rparr>))"
    using s'(1) by (subst keyboard_handler.simps) (simp add: inb_def Let_def)
  then show ?thesis using s'(2) key_step_rtc [OF s'(1)] by (simp add: kb_inv_cursor)
qed

lemma send_eoi_shape: "\<exists>l. send_eoi n s = s\<lparr>io := l\<rparr>"
  by (induction n s rule: send_eoi.induct) (auto simp: send_eoi.simps outb_def)

lemma kb_inv_flags [simp]: "kb_inv (s\<lparr>iflag := f\<rparr>) = kb_inv s" "kb_inv (send_eoi n s) = kb_inv s"
  using send_eoi_shape [of n s] by (auto simp: kb_inv_def)

lemma irq_handler_key:
  assumes "int_num regs = 1" "kb_inv s" "\<forall>es. env 0x64 es AND 2 = 0"
  shows "\<exists>s'. irq_handler env regs s = Inr s' \<and> RTC_READ s' = RTC_READ s \<and> kb_inv s'"
  using keyboard_returns [of "s\<lparr>iflag := False\<rparr>" env] assms
  by (auto simp: irq_handler_def pic_handler_def Let_def cli_and_save_def restore_flags_def cli_def sti_def send_eoi_keeps)

lemma irq_handler_other_inv:
  "int_num regs \<noteq> 1 \<Longrightarrow> int_num regs \<noteq> 8 \<Longrightarrow> irq_handler env regs s = Inr s' \<Longrightarrow> kb_inv s' = kb_inv s"
  by (cases "int_num regs = 0") (auto simp: irq_handler_def pic_handler_def pit_handler_def Let_def cli_and_save_def restore_flags_def cli_def sti_def)

text \<open>
  C10. A process that waits in \<open>rtc_read\<close> is woken by the clock and by nothing else. When the interrupts
  that arrive are any number of other devices', the keyboard's among them, and then one of the clock, the call returns 0 after
  the clock's interrupt, with the later interrupts still to come; memory is unchanged if no key was pressed meanwhile. When
  the clock's never comes, it does not return. If there are keyboard interrupts, the line buffers and cursors are within their
  bounds at the start and the keyboard controller reports no further key at port 0x64. \<open>handler\<close> is what \<open>irq_handler\<close> does wherever that returns.
\<close>

theorem rtc_read_wakes:
  fixes handler :: "u32 \<Rightarrow> 'a kernel_scheme \<Rightarrow> 'a kernel_scheme"
  assumes h: "\<forall>i s s'. irq_handler env (regs\<lparr>int_num := i\<rparr>) s = Inr s' \<longrightarrow> handler i s = s'"
    and "iflag s" and pre: "8 \<notin> set pre"
    and keys: "1 \<in> set pre \<longrightarrow> kb_inv s \<and> (\<forall>es. env 0x64 es AND 2 = 0)"
  shows "(\<exists>s'. rtc_read handler (pre @ 8 # post) s = Inr (0, post, s') \<and> iflag s' \<and> (1 \<notin> set pre \<longrightarrow> mem s' = mem s))
    \<and> rtc_read handler pre s = Inl No_return"
proof -
  have tick: "RTC_READ (handler 8 t) = 0 \<and> mem (handler 8 t) = mem t" for t
    using irq_handler_tick [of "regs\<lparr>int_num := 8\<rparr>" env t] h by auto
  have other: "RTC_READ (handler i t) = RTC_READ t \<and> mem (handler i t) = mem t \<and> kb_inv (handler i t) = kb_inv t"
    if "i \<noteq> 1" "i \<noteq> 8" for i t
    using irq_handler_other [of "regs\<lparr>int_num := i\<rparr>" env t] irq_handler_other_inv [of "regs\<lparr>int_num := i\<rparr>" env t] h that by auto
  have key: "RTC_READ (handler 1 t) = RTC_READ t \<and> kb_inv (handler 1 t)" if "kb_inv t" "1 \<in> set pre" for t
    using irq_handler_key [of "regs\<lparr>int_num := 1\<rparr>" t env] h that keys by auto
  define u where "u = s\<lparr>RTC_READ := 1\<rparr>"
  define P where "P t \<longleftrightarrow> (if 1 \<in> set pre then kb_inv t else mem t = mem s)" for t :: "'a kernel_scheme"
  have "P u" using keys by (simp add: P_def u_def kb_inv_def)
  have step: "RTC_READ (handler i t) = RTC_READ t \<and> P (restore_flags True (handler i t))" if "i \<in> set pre" "P t" for i t
  proof -
    have "i \<noteq> 8" using that(1) pre by auto
    then show ?thesis using that other [of i t] key [of t] by (cases "i = 1") (auto simp: P_def restore_flags_def)
  qed
  have skip: "\<exists>t. RTC_READ t \<noteq> 0 \<and> P t \<and> iflag t
      \<and> spin (\<lambda>s. RTC_READ s \<noteq> 0) handler (pre @ js) u = spin (\<lambda>s. RTC_READ s \<noteq> 0) handler js t" for js
    using assms(2) step \<open>P u\<close> by (intro spin_skip_inv) (auto simp: u_def restore_flags_def)
  obtain t where t: "RTC_READ t \<noteq> 0" "P t" "iflag t"
      "spin (\<lambda>s. RTC_READ s \<noteq> 0) handler (pre @ 8 # post) u = spin (\<lambda>s. RTC_READ s \<noteq> 0) handler (8 # post) t"
    using skip by blast
  have "spin (\<lambda>s. RTC_READ s \<noteq> 0) handler (8 # post) t = Some (post, restore_flags True (handler 8 t))"
    using t tick by (intro spin_wakes) (simp_all add: restore_flags_def)
  with t tick have "\<exists>s'. rtc_read handler (pre @ 8 # post) s = Inr (0, post, s') \<and> iflag s' \<and> (1 \<notin> set pre \<longrightarrow> mem s' = mem s)"
    by (simp add: rtc_read_def Let_def u_def [symmetric] opt_res_def P_def restore_flags_def)
  moreover have "rtc_read handler pre s = Inl No_return"
    using skip [of "[]"] by (auto simp: rtc_read_def Let_def u_def [symmetric] opt_res_def spin_starves)
  ultimately show ?thesis ..
qed

theorem rtc_read_wakes_witness:
  "\<exists>s'. rtc_read (\<lambda>i s. case irq_handler (\<lambda>p es. 0) (registers.make 0 0 0 0 0 0 0 0 i 0 0 0 0 0 0) s of Inr s' \<Rightarrow> s' | Inl e \<Rightarrow> s)
      [0, 1, 12, 0, 8, 0] (kernel_boot\<lparr>iflag := True\<rparr>) = Inr (0, [0], s')"
proof -
  have "kb_inv kernel_boot" using kernel_boot_inv .
  then show ?thesis
    using rtc_read_wakes [of "\<lambda>p es. 0" "registers.make 0 0 0 0 0 0 0 0 0 0 0 0 0 0 0"
      "\<lambda>i s. case irq_handler (\<lambda>p es. 0) (registers.make 0 0 0 0 0 0 0 0 i 0 0 0 0 0 0) s of Inr s' \<Rightarrow> s' | Inl e \<Rightarrow> s"
      "kernel_boot\<lparr>iflag := True\<rparr>" "[0, 1, 12, 0]" "[0]"]
    by (auto simp: registers.defs)
qed

section \<open>Calls that are refused\<close>

text \<open>The reference for a refusal: a call number out of range; a descriptor that is out of range, not in use, or the
  wrong standard stream; a null pointer; a \<open>vidmap\<close> outside the user page; the signal calls.\<close>

definition bad_call :: "u32 \<Rightarrow> u32 \<Rightarrow> u32 \<Rightarrow> 'a proc_scheme \<Rightarrow> bool" where
  "bad_call eax ebx ecx s =
     (let bad_fd = sint ebx < 0 \<or> 8 \<le> sint ebx \<or> check_use (sint ebx) s AND USE = 0
      in sint eax < 1 \<or> 10 < sint eax
       \<or> eax = 3 \<and> (bad_fd \<or> ebx = 1 \<or> ecx = 0)
       \<or> eax = 4 \<and> (bad_fd \<or> ebx = 0 \<or> ecx = 0)
       \<or> eax = 5 \<and> ebx = 0
       \<or> eax = 6 \<and> (bad_fd \<or> ebx = 0 \<or> ebx = 1)
       \<or> eax = 7 \<and> ebx = 0
       \<or> eax = 8 \<and> (ebx < 0x08000000 \<or> 0x08400000 \<le> ebx)
       \<or> eax = 9 \<or> eax = 10)"

lemma flags_round_trip: "restore_flags (iflag s) (cli s) = s" "restore_flags (iflag s) (sti (cli s)) = s"
  "restore_flags (iflag s) (sti s) = s"
  by (simp_all add: restore_flags_def cli_def sti_def)

lemma check_use_flags: "check_use fd (sti (cli s)) = check_use fd s"
  by (simp add: check_use_def cli_def sti_def)

lemma sint_01: "sint (b :: u32) = 1 \<longleftrightarrow> b = 1" "sint (b :: u32) = 0 \<longleftrightarrow> b = 0"
proof -
  have "sint b = sint (c :: u32) \<longleftrightarrow> b = c" for c by (rule inj_eq) (rule inj_signed)
  from this [of 1] show "sint b = 1 \<longleftrightarrow> b = 1" by simp
qed (rule signed_eq_0_iff)

lemma read_sc_refused:
  "fd < 0 \<or> 8 \<le> fd \<or> check_use fd s AND USE = 0 \<or> fd = 1 \<or> buf = 0 \<Longrightarrow> read_sc sy handler junk is fd buf n s = Inr (-1, is, s)"
  by (auto simp: read_sc_def Let_def)

lemma write_sc_refused:
  "fd < 0 \<or> 8 \<le> fd \<or> check_use fd s AND USE = 0 \<or> fd = 0 \<or> buf = 0 \<Longrightarrow> write_sc sy env fd buf n s = Inr (-1, s)"
  by (auto simp: write_sc_def Let_def)

lemma close_sc_refused:
  "fd < 0 \<or> 8 \<le> fd \<or> check_use fd s AND USE = 0 \<or> fd = 0 \<or> fd = 1 \<Longrightarrow> close_sc sy env fd s = Inr (-1, s)"
  by (auto simp: close_sc_def Let_def)

lemma sys_call_refused:
  assumes "bad_call eax ebx ecx s" and "\<not> (sint eax < 1 \<or> 10 < sint eax)"
  shows "sys_call sy env handler lo is eax ebx ecx edx s = Inr (Returned (-1), is, s)"
proof -
  let ?bad = "sint ebx < 0 \<or> 8 \<le> sint ebx \<or> check_use (sint ebx) s AND USE = 0"
  consider (r) "eax = 3" "?bad \<or> sint ebx = 1 \<or> ecx = 0" | (w) "eax = 4" "?bad \<or> sint ebx = 0 \<or> ecx = 0"
    | (o) "eax = 5" "ebx = 0" | (c) "eax = 6" "?bad \<or> sint ebx = 0 \<or> sint ebx = 1"
    | (g) "eax = 7" "ebx = 0" | (v) "eax = 8" "ebx < 0x08000000 \<or> 0x08400000 \<le> ebx" | (h) "eax = 9" | (t) "eax = 10"
    using assms unfolding bad_call_def Let_def sint_01 by blast
  then show ?thesis
  proof cases
    case r
    then show ?thesis by (simp add: sys_call_def read_sc_refused)
  next
    case w
    then show ?thesis by (simp add: sys_call_def write_sc_refused)
  next
    case c
    then show ?thesis by (simp add: sys_call_def close_sc_refused)
  qed (auto simp: sys_call_def open_sc_def getargs_def vidmap_def set_handler_def sigreturn_def Let_def)
qed

lemma bad_call_flags: "bad_call eax ebx ecx (sti (cli s)) = bad_call eax ebx ecx s"
  by (simp add: bad_call_def check_use_flags)



end
