(* ===== verification/Shells.thy ===== *)
theory Shells
  imports Exec
begin

text \<open>
  The first call of \<open>execute\<close>, which the boot code makes: its loop runs three times and starts one
  shell for each terminal. The invariant of the loop says what holds after \<open>r\<close> rounds.
\<close>

section \<open>The loop over the primary shells\<close>

text \<open>The control block of shell \<open>i\<close>: no parent, its own number, and the terminals from the last to the first.\<close>

definition shell_pcb :: "mem \<Rightarrow> u32 \<Rightarrow> u32 \<Rightarrow> bool" where
  "shell_pcb m eip i \<longleftrightarrow> pcb_get m (pcb_addr i) Parent_ptr = 0 \<and> pcb_get m (pcb_addr i) Pid = i
     \<and> pcb_get m (pcb_addr i) Terminal_num = 3 - i \<and> pcb_get m (pcb_addr i) Eip = eip"

text \<open>The processes numbered 1 to \<open>r\<close>, the newest first.\<close>

definition shell_queue :: "nat \<Rightarrow> u32 list" where
  "shell_queue r = map (\<lambda>i. pcb_addr (of_nat i)) (rev [1..<Suc r])"

definition shells_up :: "mem \<Rightarrow> boot_block \<Rightarrow> u32 \<Rightarrow> nat \<Rightarrow> 'a sys_scheme \<Rightarrow> bool" where
  "shells_up m fi inode r s \<longleftrightarrow>
     primary_shell_count s = int r \<and> process_count s = of_nat r \<and> 32 < length (pd s) \<and> fs_info s = fi
     \<and> pq_inv (process_q s) r \<and> pq_items (process_q s) r = shell_queue r
     \<and> (0 < r \<longrightarrow> user_frame s = Some (of_nat r + 1))
     \<and> (\<forall>i \<in> {1..r}. shell_pcb (mem s) (entry_point (\<lambda>a. file_byte fi m inode (unat a)) 0) (of_nat i))
     \<and> (\<forall>i \<in> {1..r}. \<forall>k < file_size fi m inode. saved_frames s (of_nat i + 1) (0x48000 + of_nat k) = file_byte fi m inode k)
     \<and> (\<forall>a. \<not> in_user_page a \<longrightarrow> (\<forall>i \<in> {1..r}. 580 \<le> unat (a - pcb_addr (of_nat i))) \<longrightarrow> mem s a = m a)"

text \<open>The program that is loaded: it fits the page, and neither the user page nor a control block overlaps its blocks.\<close>

definition shell_file :: "mem \<Rightarrow> boot_block \<Rightarrow> u32 \<Rightarrow> bool" where
  "shell_file m fi inode \<longleftrightarrow> 28 \<le> file_size fi m inode \<and> file_size fi m inode \<le> 0x3B8000
     \<and> (\<forall>a \<in> file_area fi m inode. \<not> in_user_page a \<and> (\<forall>i \<in> {1..3}. 580 \<le> unat (a - pcb_addr i)))"

lemma nat_1_3: "i \<in> {1..3 :: nat} \<Longrightarrow> (of_nat i :: u32) \<in> {1..3}"
proof -
  assume "i \<in> {1..3 :: nat}"
  then have "i \<in> {1, 2, 3}" by auto
  then show ?thesis by auto
qed

lemma u32_3_6: "(i :: u32) \<in> {1..3} \<Longrightarrow> i \<in> {1..6}"
  using order_trans [of i 3 6] by simp

lemma shells_file_kept:
  assumes up: "shells_up m fi inode r s" and r: "r \<le> 3" and f: "shell_file m fi inode"
  shows "file_size fi (mem s) inode = file_size fi m inode" "file_area fi (mem s) inode = file_area fi m inode"
    "k < file_size fi m inode \<Longrightarrow> file_byte fi (mem s) inode k = file_byte fi m inode k"
proof -
  have "mem s a = m a" if "a \<in> file_area fi m inode" for a
  proof -
    have "580 \<le> unat (a - pcb_addr (of_nat i))" if i: "i \<in> {1..r}" for i
      using f \<open>a \<in> _\<close> nat_1_3 [of i] i r by (simp add: shell_file_def)
    then show ?thesis using up f that by (simp add: shells_up_def shell_file_def)
  qed
  then have "\<forall>a \<in> file_area fi m inode. mem s a = m a" by blast
  moreover have "file_size fi m inode \<le> 4096 * 1023" using f by (simp add: shell_file_def)
  ultimately show "file_size fi (mem s) inode = file_size fi m inode" "file_area fi (mem s) inode = file_area fi m inode"
    "k < file_size fi m inode \<Longrightarrow> file_byte fi (mem s) inode k = file_byte fi m inode k"
    using file_cong by blast+
qed

lemma shell_queue_Suc: "shell_queue (Suc r) = pcb_addr (of_nat r + 1) # shell_queue r"
  by (simp add: shell_queue_def add.commute)

lemma shell_pcb_kept:
  assumes i: "i \<in> {1..6}" and "\<And>k. k < 580 \<Longrightarrow> m' (pcb_addr i + of_nat k) = m (pcb_addr i + of_nat k)"
  shows "shell_pcb m' eip i = shell_pcb m eip i"
  unfolding shell_pcb_def using pcb_get_cong [of m' "pcb_addr i" m, OF assms(2)] by simp

lemma shells_step:
  assumes up: "shells_up m fi inode r s" and r: "r < 3" and f: "shell_file m fi inode"
    and c: "0 \<notin> set command" "length command \<le> 127" and spaces: "spaces = find_spaces command"
  shows "\<exists>p s'. load_process sy lo command spaces inode (pcb, s) = Inr (p, s') \<and> shells_up m fi inode (Suc r) s'
    \<and> pcb_get p 0 Eip = entry_point (\<lambda>a. file_byte fi m inode (unat a)) 0 \<and> pcb_get p 0 User_esp = 0x083FFFFC"
proof -
  let ?ep = "entry_point (\<lambda>a. file_byte fi m inode (unat a)) 0"
  define j :: u32 where "j = of_nat r + 1"
  have s: "primary_shell_count s = int r" "process_count s = of_nat r" "32 < length (pd s)" "fs_info s = fi"
      "pq_inv (process_q s) r" "pq_items (process_q s) r = shell_queue r" "0 < r \<Longrightarrow> user_frame s = Some (of_nat r + 1)"
    using up unfolding shells_up_def by blast+
  note kept = shells_file_kept [OF up less_imp_le [OF r] f]
  have j3: "j \<in> {1..3}" using nat_1_3 [of "Suc r"] r by (simp add: j_def add.commute)
  then have j6: "j \<in> {1..6}" by (rule u32_3_6)
  have size: "file_size fi m inode \<le> 0x3B8000" "28 \<le> file_size fi m inode" using f by (simp_all add: shell_file_def)
  have ep: "entry_point (\<lambda>a. file_byte fi (mem s) inode (unat a)) 0 = ?ep"
    using size(2) by (simp add: entry_point_def kept)
  have t: "3 - j = (if (0 :: u32) = 0 then word_of_int (3 - primary_shell_count s - 1) else pcb_get (mem s) 0 Terminal_num)"
    by (simp add: s(1) j_def)
  have h: "j = process_count s + 1" "(if 3 \<le> primary_shell_count s then pq_peak (process_q s) else Inr 0) = Inr 0"
      "r < 6" "file_size fi m inode = file_size (fs_info s) (mem s) inode"
      "\<forall>a \<in> file_area (fs_info s) (mem s) inode. \<not> in_user_page a"
    using s r f kept by (auto simp: j_def shell_file_def)
  have next_count: "(if primary_shell_count s < 3 then primary_shell_count s + 1 else primary_shell_count s) = int r + 1" using s(1) r by simp
  obtain p s' where run: "load_process sy lo command spaces inode (pcb, s) = Inr (p, s')"
      and p: "p = fill_pcb sy lo command spaces 0 (3 - j) ?ep j pcb"
      and s': "process_count s' = j" "user_frame s' = Some (j + 1)" "primary_shell_count s' = int r + 1" "fs_info s' = fi"
        "frames s' = saved_frames s" "length (pd s') = length (pd s)"
        "pq_inv (process_q s') (Suc r)" "pq_items (process_q s') (Suc r) = pcb_addr j # shell_queue r"
      and mem: "\<And>a. \<not> in_user_page a \<Longrightarrow> mem s' a = blit (mem s) (pcb_addr j) 580 (\<lambda>k. p (of_nat k)) a"
      and img': "\<And>k. k < file_size fi m inode \<Longrightarrow> mem s' (0x8048000 + of_nat k) = file_byte fi (mem s) inode k"
    using load_process_step [OF h(1) j6 s(3,5) h(3,2) _ t h(4) size h(5), of sy lo command spaces pcb]
    unfolding s(4,6) ep next_count by blast
  have img: "mem s' (0x8048000 + of_nat k) = file_byte fi m inode k" if "k < file_size fi m inode" for k
    using img' [OF that] kept(3) [OF that] by simp
  note fields = fill_pcb_fields [OF c p [unfolded spaces]]
  have pcb_j: "shell_pcb (mem s') ?ep j"
  proof -
    have "pcb_get (mem s') (pcb_addr j) f = pcb_get p 0 f" for f
      using kernel_pcb_kept [OF j6, of "mem s'" "blit (mem s) (pcb_addr j) 580 (\<lambda>k. p (of_nat k))" f] mem by (simp add: pcb_copied)
    then show ?thesis by (simp add: shell_pcb_def fields)
  qed
  have less: "of_nat i \<noteq> j \<and> (of_nat i :: u32) \<in> {1..6}" if "i \<in> {1..r}" for i
  proof -
    have "unat j = Suc r" "unat (of_nat i :: u32) = i" using r that by (simp_all add: j_def unat_word_ariths unat_of_nat32)
    then show ?thesis using that r u32_3_6 [OF nat_1_3 [of i]] by auto
  qed
  have pcb_i: "shell_pcb (mem s') ?ep (of_nat i)" if i: "i \<in> {1..r}" for i
  proof -
    have "mem s' (pcb_addr (of_nat i) + of_nat k) = mem s (pcb_addr (of_nat i) + of_nat k)" if "k < 580" for k
      using less [OF i] that pcbs_apart [OF j6, of "of_nat i" k] pcb_in_kernel [of "of_nat i" k] by (simp add: mem blit_out eq_commute [of j])
    then show ?thesis using shell_pcb_kept less [OF i] i up unfolding shells_up_def by blast
  qed
  have frame: "saved_frames s' (of_nat i + 1) (0x48000 + of_nat k) = file_byte fi m inode k"
    if "i \<in> {1..Suc r}" "k < file_size fi m inode" for i k
  proof (cases "i = Suc r")
    case True
    then have "of_nat i = j" by (simp add: j_def add.commute)
    then show ?thesis using img [OF that(2)] s'(2) by (simp add: saved_frames_def add.commute)
  next
    case False
    then have "i \<in> {1..r}" using that(1) by simp
    moreover from this have "saved_frames s' (of_nat i + 1) = saved_frames s (of_nat i + 1)"
      using less [of i] s'(2,5) by (simp add: saved_frames_def [of s'])
    ultimately show ?thesis using up that(2) by (simp add: shells_up_def)
  qed
  have rest: "mem s' a = m a" if "\<not> in_user_page a" "\<forall>i \<in> {1..Suc r}. 580 \<le> unat (a - pcb_addr (of_nat i))" for a
  proof -
    have "580 \<le> unat (a - pcb_addr j)" using bspec [OF that(2), of "Suc r"] by (simp add: j_def add.commute)
    then show ?thesis using mem [OF that(1)] that up by (simp add: blit_out shells_up_def)
  qed
  have "shell_pcb (mem s') ?ep (of_nat i)" if "i \<in> {1..Suc r}" for i
    using that pcb_i pcb_j by (cases "i = Suc r") (auto simp: j_def add.commute)
  then have "shells_up m fi inode (Suc r) s'"
    unfolding shells_up_def using s' s(3) frame rest by (simp add: shell_queue_Suc j_def algebra_simps)
  then show ?thesis using run fields by auto
qed

section \<open>What \<open>execute\<close> leaves as the boot code set it up\<close>

text \<open>The devices, the tables of the processor, the page tables but for the entry of the process, and the tables of operations.\<close>

definition setup_kept :: "symbols \<Rightarrow> exec_locals \<Rightarrow> 'a sys_scheme \<Rightarrow> 'a sys_scheme \<Rightarrow> bool" where
  "setup_kept sy lo s s' \<longleftrightarrow>
     pd s' = (pd s)[32 := init_4mb_user_pde (junk_pde lo) (0x00400000 + process_count s' * 0x00400000)]
     \<and> pt_0_4 s' = pt_0_4 s \<and> cr0 s' = cr0 s \<and> cr3 s' = pd_addr sy \<and> cr4 s' = cr4 s \<and> io s' = io s \<and> fs_info s' = fs_info s
     \<and> display_terminal s' = display_terminal s \<and> fops_file s' = fops_file s \<and> fops_directory s' = fops_directory s
     \<and> fops_rtc s' = fops_rtc s \<and> fops_terminal s' = fops_terminal s \<and> sys.more s' = sys.more s"

lemma setup_kept_trans: "setup_kept sy lo s t \<Longrightarrow> setup_kept sy lo t u \<Longrightarrow> setup_kept sy lo s u"
  by (simp add: setup_kept_def)

lemma set_cr3_kept:
  fixes s :: "'a sys_scheme"
  assumes "set_cr3 p s = Inr s'"
  shows "pd s' = pd s \<and> pt_0_4 s' = pt_0_4 s \<and> cr0 s' = cr0 s \<and> cr3 s' = p \<and> cr4 s' = cr4 s \<and> io s' = io s \<and> fs_info s' = fs_info s
     \<and> display_terminal s' = display_terminal s \<and> fops_file s' = fops_file s \<and> fops_directory s' = fops_directory s
     \<and> fops_rtc s' = fops_rtc s \<and> fops_terminal s' = fops_terminal s \<and> sys.more s' = sys.more s \<and> process_count s' = process_count s"
  using assms by (auto simp: set_cr3_def Let_def split: option.splits if_splits)

lemma load_process_kept:
  assumes "load_process sy lo command spaces inode (pcb, s) = Inr (p, s')"
  shows "setup_kept sy lo s s'"
  using assms unfolding load_process_def Let_def prod.case
  by (elim res_bindE) (auto elim!: res_bindE dest!: set_cr3_kept simp: setup_kept_def split: if_splits)

section \<open>Three shells\<close>

lemma shells_loop:
  assumes up: "shells_up m fi inode r s" and r: "r < 3" and f: "shell_file m fi inode"
    and c: "0 \<notin> set command" "length command \<le> 127" "spaces = find_spaces command"
  shows "\<exists>p s'. load_loop sy lo command spaces inode (pcb, s) = Inr (p, s') \<and> shells_up m fi inode 3 s' \<and> setup_kept sy lo s s'
    \<and> pcb_get p 0 Eip = entry_point (\<lambda>a. file_byte fi m inode (unat a)) 0 \<and> pcb_get p 0 User_esp = 0x083FFFFC"
  using up r
proof (induction "3 - r" arbitrary: r pcb s)
  case (Suc d)
  obtain p t where t: "load_process sy lo command spaces inode (pcb, s) = Inr (p, t)" "shells_up m fi inode (Suc r) t"
      "pcb_get p 0 Eip = entry_point (\<lambda>a. file_byte fi m inode (unat a)) 0" "pcb_get p 0 User_esp = 0x083FFFFC"
    using shells_step [OF Suc.prems f c] by blast
  note kept = load_process_kept [OF t(1)]
  have count: "primary_shell_count t = int r + 1" using t(2) by (simp add: shells_up_def)
  show ?case
  proof (cases "Suc r < 3")
    case True
    moreover have "d = 3 - Suc r" using Suc.hyps(2) by simp
    ultimately obtain q u where "load_loop sy lo command spaces inode (p, t) = Inr (q, u)" "shells_up m fi inode 3 u" "setup_kept sy lo t u"
      "pcb_get q 0 Eip = entry_point (\<lambda>a. file_byte fi m inode (unat a)) 0" "pcb_get q 0 User_esp = 0x083FFFFC"
      using Suc.hyps(1) [OF _ t(2), of p] by blast
    then show ?thesis using t(1) count True setup_kept_trans [OF kept] by (subst load_loop.simps) simp
  next
    case False
    then have "r = 2" using Suc.prems(2) by simp
    then show ?thesis using t kept count by (subst load_loop.simps) (simp add: numeral_3_eq_3)
  qed
qed simp

text \<open>What the first \<open>execute\<close> of \<open>entry\<close> does, from a state with no process.\<close>

lemma shells_start:
  assumes ready: "program_ready lo ns command n inode s" and cmd: "holds_str command_param command"
    and zero: "primary_shell_count s = 0" "process_count s = 0" "pq_inv (process_q s) 0"
    and pcbs: "\<forall>a \<in> file_area (fs_info s) (mem s) inode. \<forall>i \<in> {1..3}. 580 \<le> unat (a - pcb_addr i)"
    and ep: "ep = entry_point (\<lambda>a. file_byte (fs_info s) (mem s) inode (unat a)) 0"
  shows "\<exists>s'. execute sy lo command_param s = Inr (Enter_user ep 0x083FFFFC, s')
    \<and> process_count s' = 3 \<and> primary_shell_count s' = 3 \<and> user_frame s' = Some 4 \<and> tss_esp0 s' = pcb_addr 3 - 4 \<and> iflag s'
    \<and> setup_kept sy lo s s'
    \<and> pq_inv (process_q s') 3 \<and> pq_items (process_q s') 3 = [pcb_addr 3, pcb_addr 2, pcb_addr 1]
    \<and> (\<forall>i \<in> {1, 2, 3}. shell_pcb (mem s') ep i)
    \<and> (\<forall>i \<in> {1, 2, 3}. \<forall>k < file_size (fs_info s) (mem s) inode.
        saved_frames s' (i + 1) (0x48000 + of_nat k) = file_byte (fs_info s) (mem s) inode k)"
proof -
  define m where "m = blit (mem s) (exe_buff lo) 4 (file_byte (fs_info s) (mem s) inode)"
  note f = exec_file_loads [OF ready m_def]
  have prog: "shell_file m (fs_info s) inode" and c: "0 \<notin> set command" "length command \<le> 127" and pd: "32 < length (pd s)"
    using ready pcbs unfolding shell_file_def program_ready_def f(2,3) by blast+
  have "shells_up m (fs_info s) inode 0 (s\<lparr>mem := m\<rparr>)"
    using zero pd by (simp add: shells_up_def shell_queue_def pq_items_def)
  then obtain p t where t: "load_loop sy lo command (find_spaces command) inode (junk_pcb lo, s\<lparr>mem := m\<rparr>) = Inr (p, t)"
      "shells_up m (fs_info s) inode 3 t" "pcb_get p 0 Eip = ep" "pcb_get p 0 User_esp = 0x083FFFFC"
      "setup_kept sy lo (s\<lparr>mem := m\<rparr>) t"
    using shells_loop [OF _ _ prog c refl, of 0] unfolding ep f(5) by (metis zero_less_numeral)
  have u: "process_count t = 3" "primary_shell_count t = 3" "user_frame t = Some 4" "pq_inv (process_q t) 3"
      "pq_items (process_q t) 3 = shell_queue 3"
      "\<And>i. i \<in> {1..3} \<Longrightarrow> shell_pcb (mem t) ep (of_nat i)"
      "\<And>i k. i \<in> {1..3} \<Longrightarrow> k < file_size (fs_info s) (mem s) inode \<Longrightarrow>
        saved_frames t (of_nat i + 1) (0x48000 + of_nat k) = file_byte (fs_info s) m inode k"
    using t(2) unfolding shells_up_def ep f(5) by (auto simp: f(2))
  let ?t = "t\<lparr>iflag := True, tss_esp0 := pcb_addr 3 - 4\<rparr>"
  have "execute sy lo command_param s = Inr (Enter_user ep 0x083FFFFC, ?t)"
    using t u(1) by (simp add: execute_checks [OF ready cmd] f(1) enter_user_def cli_def restore_flags_def pcb_addr_def)
  moreover have "shell_queue 3 = [pcb_addr 3, pcb_addr 2, pcb_addr 1]" by (simp add: shell_queue_def upt_rec)
  moreover have "saved_frames ?t = saved_frames t" by (simp add: saved_frames_def cong: option.case_cong)
  moreover have "setup_kept sy lo s ?t" using t(5) by (simp add: setup_kept_def)
  ultimately show ?thesis using u u(6) [of 1] u(6) [of 2] u(6) [of 3] u(7) [of 1] u(7) [of 2] u(7) [of 3]
    by (intro exI [of _ ?t]) (simp add: f)
qed

end
