(* ===== verification/Boot.thy ===== *)
theory Boot
  imports Idt Shells
begin

text \<open>
  The C entry point of \<^verbatim>\<open>kernel.c\<close>: the report on the information of the boot loader, the two system
  descriptors of the global table, the initialisation of every component in the order of the
  code, and the start of the first shells. The record extends the kernel's state by what only the
  boot code writes. The addresses the linker gives to the tables, and what the local structures
  held, are parameters.
\<close>

section \<open>Segment descriptors\<close>

record seg_desc =
  seg_lim_15_00 :: u16
  base_15_00 :: u16
  base_23_16 :: u8
  seg_type :: "4 word"
  seg_sys :: "1 word"
  seg_dpl :: "2 word"
  seg_present :: "1 word"
  seg_lim_19_16 :: "4 word"
  avail :: "1 word"
  reserved :: "1 word"
  opsize :: "1 word"
  granularity :: "1 word"
  base_31_24 :: u8

record boot = kernel +
  ldt_desc_ptr :: seg_desc
  tss_desc_ptr :: seg_desc
  tss_ldt_selector :: u16
  tss_ss0 :: u16
  ldtr :: u16
  task_register :: u16
  active_terminal :: int

record boot_symbols =
  entry_addr :: "int_entry \<Rightarrow> u32"
  idt_addr :: u32
  ldt_addr :: u32
  tss_addr :: u32

abbreviation (input) KERNEL_TSS :: u16 where "KERNEL_TSS \<equiv> 0x30"

abbreviation (input) KERNEL_LDT :: u16 where "KERNEL_LDT \<equiv> 0x38"

abbreviation (input) TSS_SIZE :: u32 where "TSS_SIZE \<equiv> 104"

text \<open>The limits that \<^verbatim>\<open>x86_desc.S\<close> computes: one less than the sizes of the segment and of the table of four entries.\<close>

abbreviation (input) tss_size :: u32 where "tss_size \<equiv> 103"

abbreviation (input) ldt_size :: u32 where "ldt_size \<equiv> 31"

definition SET_LDT_PARAMS :: "u32 \<Rightarrow> u32 \<Rightarrow> seg_desc \<Rightarrow> seg_desc" where
  "SET_LDT_PARAMS addr lim str =
     (let str = str\<lparr>base_31_24 := ucast (drop_bit 24 (addr AND 0xFF000000))\<rparr>;
          str = str\<lparr>base_23_16 := ucast (drop_bit 16 (addr AND 0x00FF0000))\<rparr>;
          str = str\<lparr>base_15_00 := ucast (addr AND 0x0000FFFF)\<rparr>;
          str = str\<lparr>seg_lim_19_16 := ucast (drop_bit 16 (lim AND 0x000F0000))\<rparr>
      in str\<lparr>seg_lim_15_00 := ucast (lim AND 0x0000FFFF)\<rparr>)"

definition SET_TSS_PARAMS :: "u32 \<Rightarrow> u32 \<Rightarrow> seg_desc \<Rightarrow> seg_desc" where
  "SET_TSS_PARAMS addr lim str =
     (let str = str\<lparr>base_31_24 := ucast (drop_bit 24 (addr AND 0xFF000000))\<rparr>;
          str = str\<lparr>base_23_16 := ucast (drop_bit 16 (addr AND 0x00FF0000))\<rparr>;
          str = str\<lparr>base_15_00 := ucast (addr AND 0x0000FFFF)\<rparr>;
          str = str\<lparr>seg_lim_19_16 := ucast (drop_bit 16 (lim AND 0x000F0000))\<rparr>
      in str\<lparr>seg_lim_15_00 := ucast (lim AND 0x0000FFFF)\<rparr>)"

text \<open>The block that builds the entry of the local descriptor table; \<open>the_ldt_desc\<close> starts with what the stack held.\<close>

definition construct_ldt :: "boot_symbols \<Rightarrow> seg_desc \<Rightarrow> 'a boot_scheme \<Rightarrow> 'a boot_scheme" where
  "construct_ldt bs the_ldt_desc s =
     (let d = the_ldt_desc\<lparr>granularity := 0\<rparr>;
          d = d\<lparr>opsize := 1\<rparr>;
          d = d\<lparr>reserved := 0\<rparr>;
          d = d\<lparr>avail := 0\<rparr>;
          d = d\<lparr>seg_present := 1\<rparr>;
          d = d\<lparr>seg_dpl := 0\<rparr>;
          d = d\<lparr>seg_sys := 0\<rparr>;
          d = d\<lparr>seg_type := 0x2\<rparr>;
          d = SET_LDT_PARAMS (ldt_addr bs) ldt_size d;
          s = s\<lparr>ldt_desc_ptr := d\<rparr>
      in s\<lparr>ldtr := KERNEL_LDT\<rparr>)"

definition construct_tss :: "boot_symbols \<Rightarrow> seg_desc \<Rightarrow> 'a boot_scheme \<Rightarrow> 'a boot_scheme" where
  "construct_tss bs the_tss_desc s =
     (let d = the_tss_desc\<lparr>granularity := 0\<rparr>;
          d = d\<lparr>opsize := 0\<rparr>;
          d = d\<lparr>reserved := 0\<rparr>;
          d = d\<lparr>avail := 0\<rparr>;
          d = d\<lparr>seg_lim_19_16 := ucast (TSS_SIZE AND 0x000F0000)\<rparr>;
          d = d\<lparr>seg_present := 1\<rparr>;
          d = d\<lparr>seg_dpl := 0\<rparr>;
          d = d\<lparr>seg_sys := 0\<rparr>;
          d = d\<lparr>seg_type := 0x9\<rparr>;
          d = d\<lparr>seg_lim_15_00 := ucast (TSS_SIZE AND 0x0000FFFF)\<rparr>;
          d = SET_TSS_PARAMS (tss_addr bs) tss_size d;
          s = s\<lparr>tss_desc_ptr := d\<rparr>;
          s = s\<lparr>tss_ldt_selector := KERNEL_LDT\<rparr>;
          s = s\<lparr>tss_ss0 := 0x18\<rparr>;
          s = s\<lparr>tss_esp0 := 0x800000\<rparr>
      in s\<lparr>task_register := KERNEL_TSS\<rparr>)"

section \<open>The report on the boot information\<close>

text \<open>The fields of \<open>multiboot_info_t\<close>, \<open>module_t\<close> and \<open>memory_map_t\<close> are 32-bit words, in the order of the declarations.\<close>

datatype mbi_field = Flags | Mem_lower | Mem_upper | Boot_device | Cmdline | Mods_count | Mods_addr
  | Elf_num | Elf_size | Elf_addr | Elf_shndx | Mmap_length | Mmap_addr

fun mbi_index :: "mbi_field \<Rightarrow> u32" where
  "mbi_index Flags = 0" | "mbi_index Mem_lower = 1" | "mbi_index Mem_upper = 2" | "mbi_index Boot_device = 3" | "mbi_index Cmdline = 4"
| "mbi_index Mods_count = 5" | "mbi_index Mods_addr = 6" | "mbi_index Elf_num = 7" | "mbi_index Elf_size = 8" | "mbi_index Elf_addr = 9"
| "mbi_index Elf_shndx = 10" | "mbi_index Mmap_length = 11" | "mbi_index Mmap_addr = 12"

definition mbi_get :: "mbi_field \<Rightarrow> u32 \<Rightarrow> 'a machine_scheme \<Rightarrow> u32" where
  "mbi_get f mbi s = load32 (mem s) (mbi + 4 * mbi_index f)"

datatype module_field = Mod_start | Mod_end | Mod_string | Mod_reserved

fun module_index :: "module_field \<Rightarrow> u32" where
  "module_index Mod_start = 0" | "module_index Mod_end = 1" | "module_index Mod_string = 2" | "module_index Mod_reserved = 3"

definition module_get :: "module_field \<Rightarrow> u32 \<Rightarrow> 'a machine_scheme \<Rightarrow> u32" where
  "module_get f md s = load32 (mem s) (md + 4 * module_index f)"

datatype map_field = Map_size | Base_addr_low | Base_addr_high | Length_low | Length_high | Map_type

fun map_index :: "map_field \<Rightarrow> u32" where
  "map_index Map_size = 0" | "map_index Base_addr_low = 1" | "map_index Base_addr_high = 2" | "map_index Length_low = 3"
| "map_index Length_high = 4" | "map_index Map_type = 5"

definition map_get :: "map_field \<Rightarrow> u32 \<Rightarrow> 'a machine_scheme \<Rightarrow> u32" where
  "map_get f mmap s = load32 (mem s) (mmap + 4 * map_index f)"

definition CHECK_FLAG :: "u32 \<Rightarrow> nat \<Rightarrow> bool" where
  "CHECK_FLAG flags n \<longleftrightarrow> flags AND push_bit n 1 \<noteq> 0"

definition say :: "string \<Rightarrow> u32 list \<Rightarrow> 'a console_scheme \<Rightarrow> 'a console_scheme res" where
  "say format esp s = res_bind (printf format esp s) (\<lambda>(n, s). Inr s)"

definition say_if :: "bool \<Rightarrow> string \<Rightarrow> u32 list \<Rightarrow> 'a console_scheme \<Rightarrow> 'a console_scheme res" where
  "say_if b format esp s = (if b then say format esp s else Inr s)"

text \<open>Flags, memory sizes, boot device and command line.\<close>

definition show_info :: "u32 \<Rightarrow> 'a console_scheme \<Rightarrow> 'a console_scheme res" where
  "show_info mbi s =
     res_bind (say (''flags = 0x%#x'' @ [CHR 0x0A]) [mbi_get Flags mbi s] s) (\<lambda>s.
     res_bind (say_if (CHECK_FLAG (mbi_get Flags mbi s) 0) (''mem_lower = %uKB, mem_upper = %uKB'' @ [CHR 0x0A])
       [mbi_get Mem_lower mbi s, mbi_get Mem_upper mbi s] s) (\<lambda>s.
     res_bind (say_if (CHECK_FLAG (mbi_get Flags mbi s) 1) (''boot_device = 0x%#x'' @ [CHR 0x0A]) [mbi_get Boot_device mbi s] s) (\<lambda>s.
     say_if (CHECK_FLAG (mbi_get Flags mbi s) 2) (''cmdline = %s'' @ [CHR 0x0A]) [mbi_get Cmdline mbi s] s)))"

text \<open>The first sixteen bytes of a module; a \<open>char\<close> is signed and is widened to an argument word.\<close>

fun module_bytes :: "u32 \<Rightarrow> nat list \<Rightarrow> 'a console_scheme \<Rightarrow> 'a console_scheme res" where
  "module_bytes md [] s = Inr s"
| "module_bytes md (i # js) s =
     (case say ''0x%x '' [scast (mem s (module_get Mod_start md s + of_nat i))] s of Inl e \<Rightarrow> Inl e | Inr s' \<Rightarrow> module_bytes md js s')"

definition module_lines :: "u32 \<Rightarrow> u32 \<Rightarrow> 'a console_scheme \<Rightarrow> 'a console_scheme res" where
  "module_lines mod_count md s =
     res_bind (say (''Module %d loaded at address: 0x%#x'' @ [CHR 0x0A]) [mod_count, module_get Mod_start md s] s) (\<lambda>s.
     res_bind (say (''Module %d ends at address: 0x%#x'' @ [CHR 0x0A]) [mod_count, module_get Mod_end md s] s) (\<lambda>s.
     res_bind (say (''First few bytes of module:'' @ [CHR 0x0A]) [] s) (\<lambda>s.
     res_bind (module_bytes md [0..<16] s) (\<lambda>s.
     say [CHR 0x0A] [] s))))"

text \<open>The comparison with \<open>mods_count\<close> is unsigned, and a counter below it does not wrap around.\<close>

function module_loop :: "u32 \<Rightarrow> u32 \<Rightarrow> u32 \<Rightarrow> 'a console_scheme \<Rightarrow> 'a console_scheme res" where
  "module_loop mbi mod_count md s =
     (if mod_count < mbi_get Mods_count mbi s then
        (case module_lines mod_count md s of Inl e \<Rightarrow> Inl e | Inr s' \<Rightarrow> module_loop mbi (mod_count + 1) (md + 16) s')
      else Inr s)"
  by pat_completeness auto
termination
proof (relation "measure (\<lambda>(mbi, mod_count, md, s). 2 ^ 32 - unat mod_count)")
  fix mbi mod_count md :: u32 and s s' :: "'a console_scheme"
  assume "mod_count < mbi_get Mods_count mbi s"
  then have "unat (mod_count + 1) = Suc (unat mod_count)" by (rule unat_Suc_less)
  then show "((mbi, mod_count + 1, md + 16, s'), mbi, mod_count, md, s) \<in> measure (\<lambda>(mbi, mod_count, md, s). 2 ^ 32 - unat mod_count)"
    using unat_lt32 [of mod_count] by simp
qed simp

declare module_loop.simps [simp del]

text \<open>\<open>file_sys_start\<close> is only written here, so without modules it stays uninitialised.\<close>

definition show_modules :: "u32 \<Rightarrow> 'a console_scheme \<Rightarrow> (u32 option \<times> 'a console_scheme) res" where
  "show_modules mbi s =
     (if CHECK_FLAG (mbi_get Flags mbi s) 3 then
        (let md = mbi_get Mods_addr mbi s;
             file_sys_start = module_get Mod_start md s
         in res_bind (module_loop mbi 0 md s) (\<lambda>s. Inr (Some file_sys_start, s)))
      else Inr (None, s))"

definition mmap_lines :: "u32 \<Rightarrow> 'a console_scheme \<Rightarrow> 'a console_scheme res" where
  "mmap_lines mmap s =
     say ('' size = 0x%x,     base_addr = 0x%#x%#x'' @ [CHR 0x0A] @ ''     type = 0x%x,  length    = 0x%#x%#x'' @ [CHR 0x0A])
       [map_get Map_size mmap s, map_get Base_addr_high mmap s, map_get Base_addr_low mmap s, map_get Map_type mmap s,
        map_get Length_high mmap s, map_get Length_low mmap s] s"

text \<open>The step is the entry's own size, so a size of -4 makes the loop run forever.\<close>

partial_function (option) mmap_loop :: "u32 \<Rightarrow> u32 \<Rightarrow> 'a console_scheme \<Rightarrow> 'a console_scheme res option" where
  "mmap_loop mbi mmap s =
     (if mmap < mbi_get Mmap_addr mbi s + mbi_get Mmap_length mbi s then
        (case mmap_lines mmap s of Inl e \<Rightarrow> Some (Inl e) | Inr s' \<Rightarrow> mmap_loop mbi (mmap + map_get Map_size mmap s' + 4) s')
      else Some (Inr s))"

definition show_maps :: "u32 \<Rightarrow> 'a console_scheme \<Rightarrow> 'a console_scheme res" where
  "show_maps mbi s =
     res_bind (say_if (CHECK_FLAG (mbi_get Flags mbi s) 5)
       (''elf_sec: num = %u, size = 0x%#x,'' @ '' addr = 0x%#x, shndx = 0x%#x'' @ [CHR 0x0A])
       [mbi_get Elf_num mbi s, mbi_get Elf_size mbi s, mbi_get Elf_addr mbi s, mbi_get Elf_shndx mbi s] s) (\<lambda>s.
     if CHECK_FLAG (mbi_get Flags mbi s) 6 then
       res_bind (say (''mmap_addr = 0x%#x, mmap_length = 0x%x'' @ [CHR 0x0A]) [mbi_get Mmap_addr mbi s, mbi_get Mmap_length mbi s] s) (\<lambda>s.
       case mmap_loop mbi (mbi_get Mmap_addr mbi s) s of None \<Rightarrow> Inl No_return | Some r \<Rightarrow> r)
     else Inr s)"

section \<open>Start-up\<close>

text \<open>From \<open>idt_init\<close> to \<open>systemcalls_initialize\<close>. No interrupt is taken in between.\<close>

definition init_devices :: "boot_symbols \<Rightarrow> env \<Rightarrow> 'a boot_scheme \<Rightarrow> 'a boot_scheme res" where
  "init_devices bs env s =
     (let s = idt_init (entry_addr bs) (idt_addr bs) s;
          s = i8259_init s;
          s = enable_irq env 8 s;
          s = enable_irq env 2 s;
          s = disable_irq env 0 s
      in res_bind (pit_init env 19 s) (\<lambda>s.
         let s = rtc_init env s
         in Inr (snd (term_open env s))))"

definition init_rest :: "symbols \<Rightarrow> u32 option \<Rightarrow> 'a boot_scheme \<Rightarrow> 'a boot_scheme res" where
  "init_rest sy file_sys_start s =
     (let s = s\<lparr>process_count := 0\<rparr>;
          s = s\<lparr>display_terminal := 0\<rparr>;
          s = s\<lparr>active_terminal := 0\<rparr>;
          s = init_page sy s
      in res_bind (opt_res Uninitialised file_sys_start) (\<lambda>start.
         let s = filesys_init start s;
             s = pq_init s
         in res_bind (say (''Enabling Interrupts'' @ [CHR 0x0A]) [] s) (\<lambda>s.
            let s = sti s
            in Inr (systemcalls_initialize s))))"

text \<open>How \<open>entry\<close> ends: it returns to the \<open>hlt\<close> of \<^verbatim>\<open>boot.S\<close>, it reaches its own \<open>hlt\<close> loop, or \<open>execute\<close> enters user code.\<close>

datatype boot_result = Entry_returned | Hlt_loop | User_mode exec_result

definition entry :: "symbols \<Rightarrow> boot_symbols \<Rightarrow> env \<Rightarrow> exec_locals \<Rightarrow> seg_desc \<Rightarrow> seg_desc \<Rightarrow> u32 \<Rightarrow> u32 \<Rightarrow> 'a boot_scheme
    \<Rightarrow> (boot_result \<times> 'a boot_scheme) res" where
  "entry sy bs env lo junk_ldt junk_tss magic addr s =
     (let s = clear s
      in if magic \<noteq> 0x2BADB002 then
           res_bind (say (''Invalid magic number: 0x%#x'' @ [CHR 0x0A]) [magic] s) (\<lambda>s. Inr (Entry_returned, s))
         else
           res_bind (show_info addr s) (\<lambda>s.
           res_bind (show_modules addr s) (\<lambda>(file_sys_start, s).
           if CHECK_FLAG (mbi_get Flags addr s) 4 \<and> CHECK_FLAG (mbi_get Flags addr s) 5 then
             res_bind (say (''Both bits 4 and 5 are set.'' @ [CHR 0x0A]) [] s) (\<lambda>s. Inr (Entry_returned, s))
           else
             res_bind (show_maps addr s) (\<lambda>s.
             let s = construct_ldt bs junk_ldt s;
                 s = construct_tss bs junk_tss s
             in res_bind (init_devices bs env s) (\<lambda>s.
                res_bind (init_rest sy file_sys_start s) (\<lambda>s.
                res_bind (execute sy lo (str_ptr (map of_char ''shell'')) s) (\<lambda>(r, s).
                case r of Returned n \<Rightarrow> Inr (Hlt_loop, s) | _ \<Rightarrow> Inr (User_mode r, s))))))))"

section \<open>The two descriptors\<close>

text \<open>What the processor reads off a descriptor: base, limit, and the byte with presence, privilege, class and type.\<close>

definition seg_base :: "seg_desc \<Rightarrow> u32" where
  "seg_base d = ucast (base_15_00 d) OR push_bit 16 (ucast (base_23_16 d)) OR push_bit 24 (ucast (base_31_24 d))"

definition seg_limit :: "seg_desc \<Rightarrow> u32" where
  "seg_limit d = ucast (seg_lim_15_00 d) OR push_bit 16 (ucast (seg_lim_19_16 d))"

definition seg_access :: "seg_desc \<Rightarrow> u8" where
  "seg_access d = ucast (seg_type d) OR push_bit 4 (ucast (seg_sys d)) OR push_bit 5 (ucast (seg_dpl d)) OR push_bit 7 (ucast (seg_present d))"

lemma join_bytes:
  "ucast (ucast (a AND 0xFFFF) :: u16) OR push_bit 16 (ucast (ucast (drop_bit 16 (a AND 0xFF0000)) :: u8))
     OR push_bit 24 (ucast (ucast (drop_bit 24 (a AND 0xFF000000)) :: u8)) = (a :: u32)"
proof -
  have f: "(0xFFFF :: u32) = mask 16" "(0xFF0000 :: u32) = push_bit 16 (mask 8)" "(0xFF000000 :: u32) = push_bit 24 (mask 8)"
    by (simp_all add: mask_numeral)
  have "24 + (n - 24) = n \<or> n - 16 < (8 :: nat)" for n by linarith
  then show ?thesis unfolding f by (intro bit_word_eqI) (auto simp: bit_simps, metis+)
qed

lemma set_params_base: "seg_base (SET_LDT_PARAMS a l d) = a" "seg_base (SET_TSS_PARAMS a l d) = a"
  using join_bytes [of a] by (simp_all add: seg_base_def SET_LDT_PARAMS_def SET_TSS_PARAMS_def Let_def)

lemma set_params_keep:
  "seg_access (SET_LDT_PARAMS a l d) = seg_access d" "seg_access (SET_TSS_PARAMS a l d) = seg_access d"
  by (simp_all add: seg_access_def SET_LDT_PARAMS_def SET_TSS_PARAMS_def Let_def)

text \<open>
  The boot code gives the processor a present system descriptor of ring 0 for the task state segment, with its
  base, its 104 bytes and the type of an available 32-bit task, and one for the local
  descriptor table, with its base and 32 bytes. The task state segment names the
  kernel's stack segment. Nothing of what the local structures held before reaches the descriptors.
\<close>

theorem gdt_descriptors:
  "let s' = construct_tss bs junk' (construct_ldt bs junk s)
   in seg_base (tss_desc_ptr s') = tss_addr bs \<and> seg_limit (tss_desc_ptr s') = 104 - 1 \<and> seg_access (tss_desc_ptr s') = 0x89
    \<and> seg_base (ldt_desc_ptr s') = ldt_addr bs \<and> seg_limit (ldt_desc_ptr s') = 4 * 8 - 1 \<and> seg_access (ldt_desc_ptr s') = 0x82
    \<and> task_register s' = KERNEL_TSS \<and> ldtr s' = KERNEL_LDT \<and> tss_ss0 s' = 0x18 \<and> tss_esp0 s' = 0x800000
    \<and> s' = construct_tss bs junk2' (construct_ldt bs junk2 s)"
proof -
  have "seg_limit (SET_LDT_PARAMS a 31 d) = 31" "seg_limit (SET_TSS_PARAMS a 103 d) = 103" for a d
    by (simp_all add: seg_limit_def SET_LDT_PARAMS_def SET_TSS_PARAMS_def Let_def)
  then show ?thesis
    by (simp add: construct_tss_def construct_ldt_def Let_def set_params_base set_params_keep)
      (simp add: seg_access_def SET_LDT_PARAMS_def SET_TSS_PARAMS_def)
qed

section \<open>Printing\<close>

text \<open>A format that \<open>printf\<close> can print with the given number of arguments: every conversion has one, none
  reads a string from memory, and none is cut off.\<close>

fun args_fit :: "bool \<Rightarrow> u8 list \<Rightarrow> nat \<Rightarrow> bool" where
  "args_fit False [] n = True"
| "args_fit True [] n = False"
| "args_fit False (c # buf) n = args_fit (c = 37) buf n"
| "args_fit True (c # buf) n =
     (if c = 35 then args_fit True buf n
      else if c \<in> {120, 117, 100, 99} then 0 < n \<and> args_fit False buf (n - 1)
      else c \<noteq> 115 \<and> args_fit False buf n)"

lemma itoa_prints:
  assumes "2 \<le> unat radix" "unat radix \<le> 36"
  shows "\<exists>ds. itoa v radix = Inr ds \<and> 0 \<notin> set ds \<and> length ds \<le> 32"
proof (cases "v = 0")
  case True
  then show ?thesis by (simp add: itoa_def)
next
  case False
  then obtain ds where ds: "itoa v radix = Inr (map ((!) lookup_digits) ds)" "\<forall>d \<in> set ds. d < unat radix" "length ds \<le> 32"
    using itoa_digits [OF assms False] by blast
  then have "\<forall>d \<in> set ds. lookup_digits ! d \<noteq> 0" using assms(2) lookup_digit_nonzero by fastforce
  then show ?thesis using ds by (metis (no_types, lifting) imageE length_map set_map)
qed

lemma put_prints: "0 \<notin> set xs \<Longrightarrow> length xs < 2 ^ 32 \<Longrightarrow> \<exists>cs. put_list xs s = Inr (fold putc cs s)"
  by (auto simp: put_list_eq)

lemma format_char_prints:
  "args_fit True buf (length esp) \<Longrightarrow>
    \<exists>cs buf' esp'. format_char alternate buf esp s = Inr (buf', esp', fold putc cs s) \<and> args_fit False buf' (length esp')"
proof (induction alternate buf esp s rule: format_char.induct)
  case (1 alternate esp s)
  then show ?case by simp
next
  case (2 alternate c buf esp s)
  have put: "\<exists>cs. put_list (replicate k z @ ds) s = Inr (fold putc cs s)" if "0 \<notin> set ds" "length ds \<le> 32" "k \<le> 32" "z \<noteq> 0" for k z ds
    using that by (intro put_prints) (auto simp: set_replicate_conv_if)
  have digits: "\<exists>ds. itoa v 16 = Inr ds \<and> 0 \<notin> set ds \<and> length ds \<le> 32" "\<exists>ds. itoa v 10 = Inr ds \<and> 0 \<notin> set ds \<and> length ds \<le> 32" for v
    by (rule itoa_prints; simp)+
  show ?case
  proof (cases "c = 35")
    case True
    then show ?thesis using 2 by (simp add: format_char.simps)
  next
    case False
    consider (hex) "c = 120" | (dec) "c = 117" | (int) "c = 100" | (char) "c = 99" | (other) "c \<notin> {120, 117, 100, 99}" by blast
    then show ?thesis
    proof cases
      case hex
      then obtain a esp' where esp: "esp = a # esp'" using 2(2) by (cases esp) simp_all
      obtain ds where ds: "itoa a 16 = Inr ds" "0 \<notin> set ds" "length ds \<le> 32" using digits(1) by blast
      obtain cs cs' where "put_list (replicate (8 - length ds) 48 @ ds) s = Inr (fold putc cs s)" "put_list ds s = Inr (fold putc cs' s)"
        using put [OF ds(2,3), of "8 - length ds" 48] put_prints [OF ds(2), of s] ds(3) by fastforce
      then show ?thesis using hex 2(2) ds esp by (auto simp: format_char.simps)
    next
      case dec
      then obtain a esp' where esp: "esp = a # esp'" using 2(2) by (cases esp) simp_all
      obtain ds where ds: "itoa a 10 = Inr ds" "0 \<notin> set ds" "length ds \<le> 32" using digits(2) by blast
      obtain cs where "put_list ds s = Inr (fold putc cs s)" using put_prints [OF ds(2), of s] ds(3) by auto
      then show ?thesis using dec 2(2) ds esp by (auto simp: format_char.simps)
    next
      case int
      then obtain a esp' where esp: "esp = a # esp'" using 2(2) by (cases esp) simp_all
      obtain ds es where ds: "itoa a 10 = Inr ds" "0 \<notin> set ds" "length ds \<le> 32" "itoa (- a) 10 = Inr es" "0 \<notin> set es" "length es \<le> 32"
        using digits(2) by metis
      obtain cs cs' where "put_list ds s = Inr (fold putc cs s)" "put_list (45 # es) s = Inr (fold putc cs' s)"
        using put_prints [OF ds(2), of s] put [OF ds(5,6), of 1 45] ds(3) by auto
      then show ?thesis using int 2(2) ds esp by (auto simp: format_char.simps)
    next
      case char
      then obtain a esp' where "esp = a # esp'" using 2(2) by (cases esp) simp_all
      then show ?thesis using char 2(2) by (auto simp: format_char.simps intro: exI [of _ "[ucast a]"])
    next
      case other
      then show ?thesis using 2(2) False
        by (cases "c = 37") (auto simp: format_char.simps intro: exI [of _ "[37]"] exI [of _ "[]"])
    qed
  qed
qed

lemma printf_loop_prints:
  "args_fit False buf (length esp) \<Longrightarrow> \<exists>cs. printf_loop buf esp s = Inr (fold putc cs s)"
proof (induction buf esp s rule: printf_loop.induct)
  case (1 buf esp s)
  show ?case
  proof (cases buf)
    case Nil
    then show ?thesis by (subst printf_loop.simps) (auto intro: exI [of _ "[]"])
  next
    case (Cons c buf')
    show ?thesis
    proof (cases "c = 37")
      case True
      then obtain cs b e where b: "format_char False buf' esp s = Inr (b, e, fold putc cs s)" "args_fit False b (length e)"
        using format_char_prints [of buf' esp False s] 1(3) Cons by auto
      then obtain ds where "printf_loop b e (fold putc cs s) = Inr (fold putc ds (fold putc cs s))"
        using 1(1) [OF Cons, of "(b, e, fold putc cs s)" b "(e, fold putc cs s)" e "fold putc cs s"] True by auto
      then show ?thesis using b Cons True by (subst printf_loop.simps) (auto intro: exI [of _ "cs @ ds"])
    next
      case False
      then obtain ds where "printf_loop buf' esp (putc c s) = Inr (fold putc ds (putc c s))"
        using 1(2) [OF Cons] 1(3) Cons by auto
      then show ?thesis using Cons False by (subst printf_loop.simps) (auto intro: exI [of _ "c # ds"])
    qed
  qed
qed

lemma say_prints: "args_fit False (map of_char format) (length esp) \<Longrightarrow> \<exists>cs. say format esp s = Inr (fold putc cs s)"
  using printf_loop_prints [of "map of_char format" esp s] by (auto simp: say_def printf_def)

section \<open>Devices\<close>

text \<open>What the initialisers leave alone: memory, the file system, the queue and the page tables.\<close>

definition same_core :: "'a fs_scheme \<Rightarrow> 'a fs_scheme \<Rightarrow> bool" where
  "same_core s t \<longleftrightarrow> fs_info t = fs_info s \<and> process_q t = process_q s \<and> primary_shell_count t = primary_shell_count s \<and> pd t = pd s
     \<and> pt_0_4 t = pt_0_4 s"

lemma same_core_trans [trans]: "same_core s t \<Longrightarrow> same_core t u \<Longrightarrow> same_core s u"
  by (simp add: same_core_def)

lemma set_vectors_frame:
  "mem (fold (\<lambda>(vec, level, h). idt_set_vector vec level (addr h)) vs s) = mem s
   \<and> same_core s (fold (\<lambda>(vec, level, h). idt_set_vector vec level (addr h)) vs s)"
  by (induction vs arbitrary: s) (auto simp: same_core_def idt_set_vector_def)

lemma idt_init_frame: "mem (idt_init addr p s) = mem s" "same_core s (idt_init addr p s)"
  using set_vectors_frame [of addr idt_vectors s] by (simp_all add: idt_init_def same_core_def)

lemma irq_frame:
  "mem (enable_irq env n s) = mem s" "same_core s (enable_irq env n s)"
  "mem (disable_irq env n s) = mem s" "same_core s (disable_irq env n s)"
  by (simp_all add: enable_irq_def disable_irq_def same_core_def Let_def case_prod_beta inb_def outb_def)

lemma i8259_init_frame: "mem (i8259_init s) = mem s" "same_core s (i8259_init s)"
  by (simp_all add: i8259_init_def same_core_def Let_def outb_def)

lemma rtc_init_frame: "mem (rtc_init env s) = mem s" "same_core s (rtc_init env s)" "iflag (rtc_init env s)"
  by (simp_all add: rtc_init_def same_core_def Let_def case_prod_beta inb_def outb_def cli_def sti_def)

lemma clear_outside: "4000 \<le> unat (a - VIDEO) \<Longrightarrow> mem (clear s) a = mem s a"
proof -
  assume a: "4000 \<le> unat (a - VIDEO)"
  have "a \<noteq> VIDEO + word_of_int (2 * i)" "a \<noteq> VIDEO + word_of_int (2 * i) + 1" if "i \<in> {0..1999}" for i
  proof -
    have "unat (VIDEO + word_of_int (2 * i) - VIDEO) = nat (2 * i)" "unat (VIDEO + word_of_int (2 * i + 1) - VIDEO) = nat (2 * i + 1)"
      using that by (intro unat_offset; simp)+
    then have "unat (VIDEO + word_of_int (2 * i) - VIDEO) < 4000" "unat (VIDEO + word_of_int (2 * i + 1) - VIDEO) < 4000"
      using that by (simp_all add: nat_less_iff)
    with a show "a \<noteq> VIDEO + word_of_int (2 * i)" "a \<noteq> VIDEO + word_of_int (2 * i) + 1" by (auto simp: add.assoc)
  qed
  then have "fold (\<lambda>i m. m(VIDEO + word_of_int (2 * i) := 32, VIDEO + word_of_int (2 * i) + 1 := 7)) is m a = m a"
    if "set is \<subseteq> {0..1999}" for "is" m using that by (induction "is" arbitrary: m) auto
  from this [of "[0..1999]"] show ?thesis by (simp add: clear_def)
qed

lemma term_clear_frame:
  "4000 \<le> unat (a - VIDEO) \<Longrightarrow> mem (term_clear s) a = mem s a" "same_core s (term_clear s)"
  "screen_x (term_clear s) = 0" "screen_y (term_clear s) = 0" "iflag (term_clear s) = iflag s"
  using clear_outside [of a s] by (simp_all add: term_clear_def update_cursor_def Let_def outb_def same_core_def) (simp_all add: clear_def)

lemma fold_keeps: "(\<And>i s. f (g i s) = f s) \<Longrightarrow> f (fold g xs s) = f s"
  by (induction xs arbitrary: s) simp_all

lemma keyboard_init_frame:
  "mem (keyboard_init env s) = mem s" "same_core s (keyboard_init env s)" "iflag (keyboard_init env s) = iflag (enable_irq env 1 s)"
  "io (keyboard_init env s) = io (enable_irq env 1 s)"
  using irq_frame(1) [of env 1 s] irq_frame(2) [of s env 1]
  by (simp_all add: keyboard_init_def clear_keyboard_buf_def same_core_def Let_def upt_rec)

lemma term_open_frame:
  "4000 \<le> unat (a - VIDEO) \<Longrightarrow> mem (snd (term_open env s)) a = mem s a" "same_core s (snd (term_open env s))"
  "screen_x (snd (term_open env s)) = 0" "screen_y (snd (term_open env s)) = 0" "iflag (snd (term_open env s)) = iflag (enable_irq env 1 s)"
  using term_clear_frame(1) [of a "keyboard_init env s"] term_clear_frame(2-5) [of "keyboard_init env s"]
    keyboard_init_frame(1,3,4) [of env s] keyboard_init_frame(2) [of s env]
  by (simp_all add: term_open_def same_core_def Let_def upt_rec)

text \<open>Port traffic with other devices does not reach the interrupt controllers.\<close>

definition other_port :: "io_event \<Rightarrow> bool" where
  "other_port e = (case e of In p v \<Rightarrow> True | Out p v \<Rightarrow> p \<notin> {MASTER_8259_PORT, MASTER_8259_DATA, SLAVE_8259_PORT, SLAVE_8259_DATA})"

definition lines_up :: "'a pic_scheme \<Rightarrow> bool" where
  "lines_up s \<longleftrightarrow> pic_ready s \<and> (\<forall>n < 16. irq_enabled s n)"

lemma pic_state_other:
  "\<forall>e \<in> set es. other_port e \<Longrightarrow> {c, d} \<subseteq> {MASTER_8259_PORT, MASTER_8259_DATA, SLAVE_8259_PORT, SLAVE_8259_DATA}
    \<Longrightarrow> pic_state c d (es @ l) = pic_state c d l"
  by (induction es) (auto simp: other_port_def Let_def split: io_event.splits prod.splits)

lemma lines_up_other: "io t = es @ io s \<Longrightarrow> \<forall>e \<in> set es. other_port e \<Longrightarrow> lines_up t = lines_up s"
  by (simp add: lines_up_def pic_ready_def irq_enabled_def pic_state_other)

lemma lines_up_enable:
  "pic_env env \<Longrightarrow> n < 16 \<Longrightarrow> pic_ready s \<Longrightarrow> \<forall>m < 16. m = n \<or> irq_enabled s m \<Longrightarrow> lines_up (enable_irq env (of_nat n) s)"
  by (simp add: lines_up_def enable_law ready_laws)

lemma pit_init_runs:
  "\<exists>t. pit_init env 19 s = Inr (enable_irq env 0 t) \<and> mem t = mem s \<and> same_core s t
    \<and> (\<exists>es. io t = es @ io s \<and> (\<forall>e \<in> set es. other_port e)) \<and> idt t = idt s \<and> idtr t = idtr s
    \<and> kernel.more t = kernel.more s"
  by (intro exI [of _ "s\<lparr>io := [Out 0x40 245, Out 0x40 78, Out 0x43 54] @ io s\<rparr>"] conjI exI [of _ "[Out 0x40 245, Out 0x40 78, Out 0x43 54]"])
    (simp_all add: pit_init_def Let_def outb_def same_core_def other_port_def)

lemma rtc_init_io: "\<exists>es. io (rtc_init env s) = es @ io s \<and> (\<forall>e \<in> set es. other_port e)"
  by (auto simp: rtc_init_def Let_def case_prod_beta inb_def outb_def cli_def sti_def other_port_def intro!: exI [of _ "[_, _, _, _]"])

lemma term_clear_io: "\<exists>es. io (term_clear s) = es @ io s \<and> (\<forall>e \<in> set es. other_port e)"
  by (auto simp: term_clear_def update_cursor_def clear_def Let_def outb_def other_port_def intro!: exI [of _ "[_, _, _, _]"])

lemma term_open_io: "io (snd (term_open env s)) = io (term_clear (keyboard_init env s))"
  by (simp add: term_open_def Let_def upt_rec)

lemma term_open_lines: "pic_env env \<Longrightarrow> lines_up s \<Longrightarrow> lines_up (snd (term_open env s))"
proof -
  assume "pic_env env" "lines_up s"
  then have "lines_up (enable_irq env (of_nat 1) s)" by (intro lines_up_enable) (simp_all add: lines_up_def)
  then have "lines_up (enable_irq env 1 s)" by simp
  moreover obtain es where "io (snd (term_open env s)) = es @ io (enable_irq env 1 s)" "\<forall>e \<in> set es. other_port e"
    using term_clear_io [of "keyboard_init env s"] unfolding term_open_io keyboard_init_frame(4) by blast
  ultimately show ?thesis by (simp add: lines_up_other)
qed

lemma idt_kept:
  "idt (enable_irq env n s) = idt s" "idtr (enable_irq env n s) = idtr s" "idt (disable_irq env n s) = idt s" "idtr (disable_irq env n s) = idtr s"
  "idt (i8259_init s) = idt s" "idtr (i8259_init s) = idtr s" "idt (rtc_init env s) = idt s" "idtr (rtc_init env s) = idtr s"
  "idt (snd (term_open env s)) = idt s" "idtr (snd (term_open env s)) = idtr s"
  by (simp_all add: enable_irq_def disable_irq_def i8259_init_def rtc_init_def term_open_def keyboard_init_def clear_keyboard_buf_def
    term_clear_def update_cursor_def clear_def Let_def case_prod_beta inb_def outb_def cli_def sti_def upt_rec)

lemma more_kept:
  "kernel.more (enable_irq env n s) = kernel.more s" "kernel.more (disable_irq env n s) = kernel.more s"
  "kernel.more (i8259_init s) = kernel.more s" "kernel.more (rtc_init env s) = kernel.more s"
  "kernel.more (snd (term_open env s)) = kernel.more s" "kernel.more (idt_init addr p s) = kernel.more s"
proof -
  show "kernel.more (idt_init addr p s) = kernel.more s"
  proof -
    have "kernel.more (fold (\<lambda>(vec, level, h). idt_set_vector vec level (addr h)) vs s) = kernel.more s" for vs
      by (induction vs arbitrary: s) (auto simp: idt_set_vector_def)
    then show ?thesis by (simp add: idt_init_def)
  qed
qed (simp_all add: enable_irq_def disable_irq_def i8259_init_def rtc_init_def term_open_def keyboard_init_def clear_keyboard_buf_def
    term_clear_def update_cursor_def clear_def Let_def case_prod_beta inb_def outb_def cli_def sti_def upt_rec)

lemma init_devices_runs:
  shows "\<exists>s'. init_devices bs env s = Inr s' \<and> same_core s s' \<and> (\<forall>a. 4000 \<le> unat (a - VIDEO) \<longrightarrow> mem s' a = mem s a)
    \<and> screen_x s' = 0 \<and> screen_y s' = 0 \<and> iflag s' \<and> (pic_env env \<longrightarrow> lines_up s')
    \<and> idt s' = idt (idt_init (entry_addr bs) (idt_addr bs) s) \<and> idtr s' = Some (0x7FF, idt_addr bs)
    \<and> kernel.more s' = kernel.more s"
proof -
  define s1 where "s1 = i8259_init (idt_init (entry_addr bs) (idt_addr bs) s)"
  define s2 where "s2 = disable_irq env 0 (enable_irq env 2 (enable_irq env 8 s1))"
  obtain t where t: "pit_init env 19 s2 = Inr (enable_irq env 0 t)" "mem t = mem s2" "same_core s2 t"
      "\<exists>es. io t = es @ io s2 \<and> (\<forall>e \<in> set es. other_port e)" "idt t = idt s2" "idtr t = idtr s2" "kernel.more t = kernel.more s2"
    using pit_init_runs [of env s2] by blast
  define s3 where "s3 = rtc_init env (enable_irq env 0 t)"
  have run: "init_devices bs env s = Inr (snd (term_open env s3))"
    by (simp add: init_devices_def Let_def s1_def [symmetric] s2_def [symmetric] t(1) s3_def)
  have core: "same_core s s3"
  proof -
    have "same_core s s1" unfolding s1_def by (rule same_core_trans [OF idt_init_frame(2) i8259_init_frame(2)])
    also have "same_core s1 s2" unfolding s2_def by (rule same_core_trans [OF same_core_trans [OF irq_frame(2) irq_frame(2)] irq_frame(4)])
    also note t(3)
    also have "same_core t s3" unfolding s3_def by (rule same_core_trans [OF irq_frame(2) rtc_init_frame(2)])
    finally show ?thesis .
  qed
  have m: "mem s3 = mem s" by (simp add: s3_def s2_def s1_def t(2) idt_init_frame irq_frame i8259_init_frame rtc_init_frame)
  have "lines_up s3" if env: "pic_env env"
  proof -
    have s1: "pic_ready s1" "irq_enabled s1 n" for n unfolding s1_def by (rule init_ready)+
    have a: "pic_ready (enable_irq env 8 s1)" "\<forall>n < 16. irq_enabled (enable_irq env 8 s1) n"
      using enable_law [OF env s1(1), of 8] s1 by (simp_all add: ready_laws)
    then have b: "pic_ready (enable_irq env 2 (enable_irq env 8 s1))" "\<forall>n < 16. irq_enabled (enable_irq env 2 (enable_irq env 8 s1)) n"
      using enable_law [OF env a(1), of 2] by (simp_all add: ready_laws)
    then have c: "pic_ready s2" "\<forall>n < 16. n = 0 \<or> irq_enabled s2 n"
      using disable_law [OF env b(1), of 0] by (auto simp: s2_def ready_laws)
    obtain es where es: "io t = es @ io s2" "\<forall>e \<in> set es. other_port e" using t(4) by blast
    then have "pic_ready t = pic_ready s2" "irq_enabled t = irq_enabled s2" by (auto simp: fun_eq_iff pic_ready_def irq_enabled_def pic_state_other)
    then have "pic_ready t" "\<forall>n < 16. n = 0 \<or> irq_enabled t n" using c by simp_all
    then have "lines_up (enable_irq env (of_nat 0) t)" using env by (intro lines_up_enable) simp_all
    then show ?thesis using rtc_init_io [of env "enable_irq env 0 t"] by (auto simp: s3_def lines_up_other)
  qed
  moreover have "iflag (enable_irq env 1 s3)"
    using rtc_init_frame(3) by (simp add: s3_def enable_irq_def Let_def case_prod_beta)
  ultimately show ?thesis
    unfolding run using core m same_core_trans [OF core term_open_frame(2)] term_open_lines [of env s3] t(5-7)
    by (intro exI [of _ "snd (term_open env s3)"])
      (simp add: term_open_frame idt_kept more_kept s3_def s2_def s1_def, simp add: idt_init_def)
qed

text \<open>
  The initialisation of the devices always completes. On a machine with two 8259A controllers all sixteen interrupt lines are
  enabled after it, among them the timer's line, which the boot code disables and \<open>pit_init\<close> enables again; and interrupts are already on,
  since \<open>rtc_init\<close> turns them on before paging, the file system and the process queue are set up. The interrupt table is loaded by then,
  with the descriptors of \<open>idt_init\<close>.
\<close>

theorem devices_initialised:
  assumes "pic_env env"
  shows "\<exists>s'. init_devices bs env s = Inr s' \<and> (\<forall>n < 16. irq_enabled s' n) \<and> iflag s'
    \<and> idtr s' = Some (0x7FF, idt_addr bs) \<and> idt s' = idt (idt_init (entry_addr bs) (idt_addr bs) s)"
  using init_devices_runs [of bs env s] assms by (auto simp: lines_up_def)

text \<open>The state at the entry to the C code: nothing is set up.\<close>

definition zero_seg :: seg_desc where
  "zero_seg = \<lparr>seg_lim_15_00 = 0, base_15_00 = 0, base_23_16 = 0, seg_type = 0, seg_sys = 0, seg_dpl = 0, seg_present = 0, seg_lim_19_16 = 0,
     avail = 0, reserved = 0, opsize = 0, granularity = 0, base_31_24 = 0\<rparr>"

definition boot_start :: "mem \<Rightarrow> boot" where
  "boot_start m = kernel.extend (kernel_boot\<lparr>mem := m, process_count := 0\<rparr>)
     \<lparr>ldt_desc_ptr = zero_seg, tss_desc_ptr = zero_seg, tss_ldt_selector = 0, tss_ss0 = 0, ldtr = 0, task_register = 0, active_terminal = 0\<rparr>"

definition sample_boot :: boot_symbols where
  "sample_boot = \<lparr>entry_addr = (\<lambda>h. 0x400000), idt_addr = 0x404000, ldt_addr = 0x403000, tss_addr = 0x402000\<rparr>"

theorem devices_initialised_witness:
  "\<exists>s'. init_devices sample_boot pic_device (boot_start (\<lambda>_. 0)) = Inr s' \<and> irq_enabled s' 0 \<and> iflag s' \<and> idtr s' = Some (0x7FF, 0x404000)"
proof -
  obtain s' where "init_devices sample_boot pic_device (boot_start (\<lambda>_. 0)) = Inr s'" "\<forall>n < 16. irq_enabled s' n" "iflag s'"
      "idtr s' = Some (0x7FF, idt_addr sample_boot)"
    using devices_initialised [OF pic_env_device, of sample_boot "boot_start (\<lambda>_. 0)"] by blast
  then show ?thesis by (auto simp: sample_boot_def)
qed

section \<open>From the boot loader to the shells\<close>

text \<open>The layout that \<open>filesys_init\<close> computes depends on memory only through the first block of the image.\<close>

lemma filesys_init_fields:
  "mem (filesys_init start s) = mem s" "process_count (filesys_init start s) = process_count s" "pd (filesys_init start s) = pd s"
  "process_q (filesys_init start s) = process_q s" "primary_shell_count (filesys_init start s) = primary_shell_count s"
  by (simp_all add: filesys_init_def Let_def case_prod_beta)

definition boot_block_area :: "u32 \<Rightarrow> u32 set" where
  "boot_block_area start = {start + of_nat k | k. k < 4096}"

lemma boot_word: "k < 4092 \<Longrightarrow> \<forall>a \<in> boot_block_area start. m' a = m a \<Longrightarrow> load32 m' (start + of_nat k) = load32 m (start + of_nat k)"
proof -
  assume k: "k < 4092" and same: "\<forall>a \<in> boot_block_area start. m' a = m a"
  have "m' (start + of_nat (k + i)) = m (start + of_nat (k + i))" if "i < 4" for i
    using same k that by (auto simp: boot_block_area_def intro!: exI [of _ "k + i"])
  from this [of 0] this [of 1] this [of 2] this [of 3] show ?thesis by (simp add: load32_def ac_simps)
qed

lemma filesys_init_cong:
  assumes "\<forall>a \<in> boot_block_area start. mem t a = mem s a" and "fs_info t = fs_info s"
  shows "fs_info (filesys_init start t) = fs_info (filesys_init start s)"
  using boot_word [OF _ assms(1), of 0] boot_word [OF _ assms(1), of 4] boot_word [OF _ assms(1), of 8] assms(2)
  by (simp add: filesys_init_def Let_def case_prod_beta add.assoc)

lemma entries_of_init:
  assumes "length (dir_entries (fs_info s)) = 63" "i < 63"
  shows "dir_entries (fs_info (filesys_init start s)) ! i = start + of_nat (64 * Suc i)"
  using assms by (simp add: filesys_init_def dentry_loop_def dentry_loop_spec Let_def algebra_simps del: upt_rec_numeral)

lemma holds_str_cong:
  assumes "\<And>k. k \<le> length xs \<Longrightarrow> m' (p + of_nat k) = m (p + of_nat k)"
  shows "holds_str (ptr_at m' p) xs = holds_str (ptr_at m p) xs"
  using assms by (auto simp: holds_str_def)

lemma boot_directory:
  assumes fi: "fi = fs_info (filesys_init start s)" "length (dir_entries (fs_info s)) = 63"
    and same: "\<forall>a \<in> boot_block_area start. m' a = m a" and dir: "directory fi m ns"
  shows "directory fi m' ns" "i < length ns \<Longrightarrow> load32 m' (dir_entries fi ! i + 36) = load32 m (dir_entries fi ! i + 36)"
proof -
  have entry: "dir_entries fi ! i = start + of_nat (64 * Suc i)" "i < 63" if "i < length ns" for i
    using that dir entries_of_init [OF fi(2), of i start] by (simp_all add: fi(1) directory_def)
  have byte: "m' (start + of_nat k) = m (start + of_nat k)" if "k < 4096" for k
    using same that by (auto simp: boot_block_area_def)
  have "holds_str (ptr_at m' (dir_entries fi ! i)) (ns ! i)" if i: "i < length ns" for i
  proof -
    have len: "length (ns ! i) \<le> 32" "holds_str (ptr_at m (dir_entries fi ! i)) (ns ! i)" using dir i by (simp_all add: directory_def)
    have "m' (dir_entries fi ! i + of_nat k) = m (dir_entries fi ! i + of_nat k)" if "k \<le> length (ns ! i)" for k
      using byte [of "64 * Suc i + k"] entry [OF i] len(1) that by (simp add: add.assoc)
    then show ?thesis using len(2) holds_str_cong by blast
  qed
  then show "directory fi m' ns" using dir by (simp add: directory_def)
  show "load32 m' (dir_entries fi ! i + 36) = load32 m (dir_entries fi ! i + 36)" if i: "i < length ns"
    using boot_word [OF _ same, of "64 * Suc i + 36"] entry [OF i] by (simp add: add.assoc)
qed

lemma boot_program_ready:
  assumes r: "program_ready lo ns command n inode (filesys_init start s)" and len: "length (dir_entries (fs_info s)) = 63"
    and fi: "fi = fs_info (filesys_init start s)" "fs_info t = fi"
    and same: "\<forall>a \<in> boot_block_area start \<union> file_area fi (mem s) inode. mem t a = mem s a"
    and t: "process_count t < 6" "32 < length (pd t)"
  shows "program_ready lo ns command n inode t" "file_size fi (mem t) inode = file_size fi (mem s) inode"
    "file_area fi (mem t) inode = file_area fi (mem s) inode"
    "k < file_size fi (mem s) inode \<Longrightarrow> file_byte fi (mem t) inode k = file_byte fi (mem s) inode k"
proof -
  have block: "\<forall>a \<in> boot_block_area start. mem t a = mem s a" and area: "\<forall>a \<in> file_area fi (mem s) inode. mem t a = mem s a"
    using same by blast+
  have dir: "directory fi (mem s) ns" and size: "28 \<le> file_size fi (mem s) inode" "file_size fi (mem s) inode \<le> 0x3B8000"
    and n: "n < length ns" and inode: "inode = load32 (mem s) (dir_entries fi ! n + 36)"
    using r unfolding program_ready_def filesys_init_fields fi(1) [symmetric] by blast+
  have "file_size fi (mem s) inode \<le> 4096 * 1023" using size by simp
  note f = file_cong [OF area this]
  show "file_size fi (mem t) inode = file_size fi (mem s) inode" "file_area fi (mem t) inode = file_area fi (mem s) inode"
    "k < file_size fi (mem s) inode \<Longrightarrow> file_byte fi (mem t) inode k = file_byte fi (mem s) inode k"
    by (rule f)+ simp_all
  have magic: "map (file_byte fi (mem t) inode) [0, 1, 2, 3] = map (file_byte fi (mem s) inode) [0, 1, 2, 3]" using size(1) by (simp add: f)
  show "program_ready lo ns command n inode t"
    using r t boot_directory(1) [OF fi(1) len block dir]
    unfolding program_ready_def fi(2) filesys_init_fields fi(1) [symmetric] f(1,2) magic boot_directory(2) [OF fi(1) len block dir n]
    by blast
qed

lemma init_page_frame:
  "mem (init_page sy s) = mem s" "length (pd (init_page sy s)) = length (pd s)" "fs_info (init_page sy s) = fs_info s"
  "process_q (init_page sy s) = process_q s" "primary_shell_count (init_page sy s) = primary_shell_count s"
  "process_count (init_page sy s) = process_count s" "screen_x (init_page sy s) = screen_x s" "screen_y (init_page sy s) = screen_y s"
  using fold_keeps [of "\<lambda>s. length (pd s)" "\<lambda>i s. s\<lparr>pd := (pd s)[i := 2]\<rparr>" "[0..<1024]" s]
  by (simp_all add: init_page_def init_table_def set_read_write_def Let_def fold_keeps del: upt_rec_numeral)

lemma putc_core: "same_core s (fold putc cs s)" "process_count (fold putc cs s) = process_count s"
proof -
  have "same_core s (putc c s) \<and> process_count (putc c s) = process_count s" for c and s :: "'a fs_scheme"
    by (simp add: putc_def scroll_down_def Let_def same_core_def)
  then have "same_core s (fold putc cs s) \<and> process_count (fold putc cs s) = process_count s"
    by (induction cs arbitrary: s) (simp_all add: same_core_def)
  then show "same_core s (fold putc cs s)" "process_count (fold putc cs s) = process_count s" by simp_all
qed

lemma init_rest_runs:
  assumes len: "length (dir_entries (fs_info s)) = 63" "length (pcbs (process_q s)) = 6" and screen: "screen_x s = 0" "screen_y s = 0"
    and block: "\<forall>a \<in> boot_block_area start. 4000 \<le> unat (a - VIDEO)"
  shows "\<exists>s'. init_rest sy (Some start) s = Inr s' \<and> process_count s' = 0 \<and> primary_shell_count s' = primary_shell_count s
    \<and> pq_inv (process_q s') 0 \<and> length (pd s') = length (pd s) \<and> fs_info s' = fs_info (filesys_init start s)
    \<and> (\<forall>a. 4000 \<le> unat (a - VIDEO) \<longrightarrow> mem s' a = mem s a)"
proof -
  define t where "t = init_page sy (s\<lparr>process_count := 0, display_terminal := 0, active_terminal := 0\<rparr>)"
  define u where "u = pq_init (filesys_init start t)"
  have t: "mem t = mem s" "fs_info t = fs_info s" "process_q t = process_q s" "length (pd t) = length (pd s)" "process_count t = 0"
      "primary_shell_count t = primary_shell_count s" "screen_x t = 0" "screen_y t = 0"
    using screen by (simp_all add: t_def init_page_frame)
  have fi: "fs_info (filesys_init start t) = fs_info (filesys_init start s)" using t(1,2) by (intro filesys_init_cong) simp_all
  have u: "mem u = mem s" "fs_info u = fs_info (filesys_init start s)" "length (pd u) = length (pd s)" "process_count u = 0"
      "primary_shell_count u = primary_shell_count s" "screen_x u = 0" "screen_y u = 0" "pq_inv (process_q u) 0"
    using t fi len(2) pq_init_inv [of "filesys_init start t"]
    by (simp_all add: u_def filesys_init_fields) (simp_all add: pq_init_def filesys_init_fields filesys_init_def Let_def case_prod_beta)
  obtain cs where cs: "say (''Enabling Interrupts'' @ [CHR 0x0A]) [] u = Inr (fold putc cs u)"
    using say_prints [of "''Enabling Interrupts'' @ [CHR 0x0A]" "[]" u] by auto
  let ?v = "systemcalls_initialize (sti (fold putc cs u))"
  have "init_rest sy (Some start) s = Inr ?v"
    using cs by (simp add: init_rest_def Let_def t_def [symmetric] u_def [symmetric])
  moreover have "mem ?v a = mem s a" if "4000 \<le> unat (a - VIDEO)" for a
    using con.run_outside [of u a cs] that u by (simp add: con.cursor_ok_def on_screen_def systemcalls_initialize_def)
  ultimately show ?thesis using u putc_core(1) [of u cs]
    by (intro exI [of _ ?v]) (simp add: systemcalls_initialize_def sti_def putc_core(2) same_core_def)
qed

text \<open>The same run of \<open>init_rest\<close>, for what it sets up in the processor and the tables, and for what it leaves alone.\<close>

lemma putc_run_shape: "\<exists>m x y. fold putc cs s = s\<lparr>mem := m, screen_x := x, screen_y := y\<rparr>"
proof (induction cs arbitrary: s)
  case Nil
  show ?case by (intro exI [of _ "mem s"] exI [of _ "screen_x s"] exI [of _ "screen_y s"]) simp
next
  case (Cons c cs)
  have "putc c s = s\<lparr>mem := mem (putc c s), screen_x := screen_x (putc c s), screen_y := screen_y (putc c s)\<rparr>"
    by (simp add: putc_def scroll_down_def Let_def)
  then obtain m x y where "putc c s = s\<lparr>mem := m, screen_x := x, screen_y := y\<rparr>" by blast
  then show ?case using Cons.IH [of "putc c s"] by auto
qed

lemma init_page_shape:
  "init_page sy s = s\<lparr>pd := pd (init_page sy s), pt_0_4 := pt_0_4 (init_page sy s), cr0 := cr0 s OR 0x80000000,
     cr3 := pd_addr sy, cr4 := cr4 s OR 0x10\<rparr>"
  by (simp add: init_page_def Let_def init_table_def init_table_fold set_read_write_eq del: upt_rec_numeral)

lemma init_rest_setup:
  fixes s :: "'a boot_scheme"
  assumes "init_rest sy (Some start) s = Inr v" and len: "length (pd s) = 1024" "length (pt_0_4 s) = 1024"
  shows "pd v = pd (init_page sy s)" "pt_0_4 v = pt_0_4 (init_page sy s)" "cr0 v = cr0 s OR 0x80000000" "cr4 v = cr4 s OR 0x10"
    "display_terminal v = 0" "io v = io s" "idt v = idt s" "idtr v = idtr s" "systemcalls_initialize v = v"
    "kernel.more v = kernel.more (s\<lparr>active_terminal := 0\<rparr>)"
proof -
  define t where "t = s\<lparr>process_count := 0, display_terminal := 0, active_terminal := 0\<rparr>"
  define p where "p = init_page sy t"
  have tables: "pd p = pd (init_page sy s)" "pt_0_4 p = pt_0_4 (init_page sy s)"
    using len by (simp_all add: p_def init_page_tables t_def)
  have p: "p = t\<lparr>pd := pd p, pt_0_4 := pt_0_4 p, cr0 := cr0 s OR 0x80000000, cr3 := pd_addr sy, cr4 := cr4 s OR 0x10\<rparr>"
    using init_page_shape [of sy t] by (simp add: p_def t_def)
  obtain fi where fi: "filesys_init start p = p\<lparr>fs_info := fi\<rparr>" by (simp add: filesys_init_def Let_def case_prod_beta)
  obtain q where q: "pq_init (p\<lparr>fs_info := fi\<rparr>) = p\<lparr>fs_info := fi, process_q := q\<rparr>" by (simp add: pq_init_def)
  define u where "u = p\<lparr>fs_info := fi, process_q := q\<rparr>"
  obtain cs where cs: "say (''Enabling Interrupts'' @ [CHR 0x0A]) [] u = Inr (fold putc cs u)"
    using say_prints [of "''Enabling Interrupts'' @ [CHR 0x0A]" "[]" u] by auto
  obtain m x y where "fold putc cs u = u\<lparr>mem := m, screen_x := x, screen_y := y\<rparr>" using putc_run_shape by blast
  then have v: "v = systemcalls_initialize (u\<lparr>mem := m, screen_x := x, screen_y := y, iflag := True\<rparr>)"
    using assms(1) cs by (simp add: init_rest_def Let_def t_def [symmetric] p_def [symmetric] fi q u_def [symmetric] sti_def)
  show "pd v = pd (init_page sy s)" "pt_0_4 v = pt_0_4 (init_page sy s)"
    using tables by (simp_all add: v systemcalls_initialize_def u_def)
  have "cr0 p = cr0 s OR 0x80000000" "cr4 p = cr4 s OR 0x10" "display_terminal p = 0" "io p = io s" "idt p = idt s" "idtr p = idtr s"
    by (subst p, simp add: t_def)+
  moreover have "kernel.more p = kernel.more t" by (subst p) simp
  moreover have "kernel.more t = kernel.more (s\<lparr>active_terminal := 0\<rparr>)" by (cases s) (simp add: t_def)
  ultimately show "cr0 v = cr0 s OR 0x80000000" "cr4 v = cr4 s OR 0x10" "display_terminal v = 0" "io v = io s" "idt v = idt s" "idtr v = idtr s"
      "kernel.more v = kernel.more (s\<lparr>active_terminal := 0\<rparr>)"
    by (simp_all add: v systemcalls_initialize_def u_def)
  show "systemcalls_initialize v = v" by (simp add: v systemcalls_initialize_def)
qed

text \<open>Fields of the extensions of the state.\<close>

lemma sys_more_fields:
  fixes s t :: "'a boot_scheme"
  assumes "sys.more s = sys.more t"
  shows "idt s = idt t" "idtr s = idtr t" "kernel.more s = kernel.more t"
  using assms by (cases s; cases t; simp)+

lemma kernel_more_fields:
  fixes s t :: "'a boot_scheme"
  assumes "kernel.more s = kernel.more t"
  shows "ldt_desc_ptr s = ldt_desc_ptr t" "tss_desc_ptr s = tss_desc_ptr t" "tss_ss0 s = tss_ss0 t" "ldtr s = ldtr t"
    "task_register s = task_register t"
  using assms by (cases s; cases t; simp)+

lemma idt_init_cong:
  fixes s t :: "'a kernel_scheme"
  assumes "idt t = idt s"
  shows "idt (idt_init addr p t) = idt (idt_init addr p s)"
proof -
  have "idt (fold (\<lambda>(vec, level, h). idt_set_vector vec level (addr h)) vs t) = idt (fold (\<lambda>(vec, level, h). idt_set_vector vec level (addr h)) vs s)" for vs
    using assms
  proof (induction vs arbitrary: s t)
    case (Cons v vs)
    obtain vec level h where v: "v = (vec, level, h)" by (rule prod_cases3)
    have "idt (idt_set_vector vec level (addr h) t) = idt (idt_set_vector vec level (addr h) s)"
      using Cons.prems by (simp add: idt_set_vector_def)
    from Cons.IH [OF this] show ?case by (simp add: v)
  qed simp
  then show ?thesis by (simp add: idt_init_def)
qed

text \<open>What the start-up code set up is still there after the first \<open>execute\<close>.\<close>

lemma setup_done:
  fixes s s' u v :: "'a boot_scheme"
  assumes t: "t = construct_tss bs junk_tss (construct_ldt bs junk_ldt s)"
    and u: "pic_env env \<Longrightarrow> lines_up u" "idt u = idt (idt_init (entry_addr bs) (idt_addr bs) t)" "idtr u = Some (0x7FF, idt_addr bs)"
      "kernel.more u = kernel.more t"
    and v: "init_rest sy (Some start) u = Inr v" "length (pd u) = 1024" "length (pt_0_4 u) = 1024"
    and s': "setup_kept sy lo v s'"
  shows "task_register s' = KERNEL_TSS \<and> seg_base (tss_desc_ptr s') = tss_addr bs \<and> tss_ss0 s' = 0x18
      \<and> ldtr s' = KERNEL_LDT \<and> seg_base (ldt_desc_ptr s') = ldt_addr bs"
    "idtr s' = Some (0x7FF, idt_addr bs) \<and> idt s' = idt (idt_init (entry_addr bs) (idt_addr bs) s)"
    "pic_env env \<Longrightarrow> n < 16 \<Longrightarrow> irq_enabled s' n"
    "bit (cr0 s') 31 \<and> bit (cr4 s') 4 \<and> cr3 s' = pd_addr sy \<and> display_terminal s' = 0 \<and> systemcalls_initialize s' = s'"
    "pt_0_4 s' = pt_0_4 (init_page sy u)"
    "pd s' = (pd (init_page sy u))[32 := init_4mb_user_pde (junk_pde lo) (0x00400000 + process_count s' * 0x00400000)]"
proof -
  note v = init_rest_setup [OF v]
  have more: "sys.more s' = sys.more v" and same: "cr0 s' = cr0 v" "cr4 s' = cr4 v" "io s' = io v" "display_terminal s' = display_terminal v"
      "fops_file s' = fops_file v" "fops_directory s' = fops_directory v" "fops_rtc s' = fops_rtc v" "fops_terminal s' = fops_terminal v"
      "cr3 s' = pd_addr sy" "pt_0_4 s' = pt_0_4 v"
    using s' by (simp_all add: setup_kept_def)
  note sm = sys_more_fields [OF more]
  have km: "kernel.more s' = kernel.more (u\<lparr>active_terminal := 0\<rparr>)" using sm(3) v(10) by simp
  show "task_register s' = KERNEL_TSS \<and> seg_base (tss_desc_ptr s') = tss_addr bs \<and> tss_ss0 s' = 0x18
      \<and> ldtr s' = KERNEL_LDT \<and> seg_base (ldt_desc_ptr s') = ldt_addr bs"
    using kernel_more_fields [OF km] kernel_more_fields [OF u(4)]
    by (simp add: t construct_tss_def construct_ldt_def Let_def set_params_base)
  have "idt (idt_init (entry_addr bs) (idt_addr bs) t) = idt (idt_init (entry_addr bs) (idt_addr bs) s)"
    by (rule idt_init_cong) (simp add: t construct_tss_def construct_ldt_def Let_def)
  then show "idtr s' = Some (0x7FF, idt_addr bs) \<and> idt s' = idt (idt_init (entry_addr bs) (idt_addr bs) s)"
    using sm(1,2) v(7,8) u(2,3) by simp
  show "irq_enabled s' n" if "pic_env env" "n < 16"
    using u(1) that same(3) v(6) by (simp add: lines_up_def irq_enabled_def)
  have "systemcalls_initialize s' = s'"
    using v(9) same(5-8) by (cases s'; cases v; simp add: systemcalls_initialize_def)
  moreover have "bit (x OR 0x80000000 :: u32) 31" "bit (y OR 0x10 :: u32) 4" for x y by (simp_all add: bit_or_iff bit_numeral_rec)
  ultimately show "bit (cr0 s') 31 \<and> bit (cr4 s') 4 \<and> cr3 s' = pd_addr sy \<and> display_terminal s' = 0 \<and> systemcalls_initialize s' = s'"
    using same v(3-5) by simp
  show "pt_0_4 s' = pt_0_4 (init_page sy u)"
    "pd s' = (pd (init_page sy u))[32 := init_4mb_user_pde (junk_pde lo) (0x00400000 + process_count s' * 0x00400000)]"
    using s' v(1,2) by (simp_all add: setup_kept_def)
qed

text \<open>
  C27. A boot ends with three shells. When the boot loader passes its magic number and an image of which the boot block and the blocks of
  the program ``shell'' lie outside video memory, the kernel's stack buffer, the three control blocks and the user page, and
  the report on the loader's data completes, then \<open>entry\<close> enters user code at the entry point of the
  shell. By then the processor has the task and local descriptor table segments, the interrupt table of \<open>idt_init\<close>, and paging on with
  the tables of \<open>init_page\<close> and the entry of the running process; all sixteen interrupt lines are enabled, on a machine with two 8259A controllers;
  the layout of the image and the four tables of operations are filled in, and terminal 0 is displayed.
  Three processes run the shell, each with its own copy of the program in its own frame, without a parent, and each on a terminal of its own, from 2
  for the first to 0 for the last (the comment in \<open>execute\<close> gives a process without a parent the displayed terminal);
  the one on terminal 0 runs first, and the others wait behind it.
\<close>

theorem boot_starts_shells:
  assumes report: "show_info addr (clear s0) = Inr s1" "show_modules addr s1 = Inr (Some start, s2)"
      "\<not> (CHECK_FLAG (mbi_get Flags addr s2) 4 \<and> CHECK_FLAG (mbi_get Flags addr s2) 5)" "show_maps addr s2 = Inr s"
    and start: "length (dir_entries (fs_info s)) = 63" "length (pcbs (process_q s)) = 6" "primary_shell_count s = 0"
      "length (pd s) = 1024" "length (pt_0_4 s) = 1024"
    and ready: "program_ready lo ns (map of_char ''shell'') n inode (filesys_init start s)" and fi: "fi = fs_info (filesys_init start s)"
    and apart: "\<forall>a \<in> boot_block_area start \<union> file_area fi (mem s) inode. 4000 \<le> unat (a - VIDEO)"
      "\<forall>a \<in> file_area fi (mem s) inode. \<forall>i \<in> {1..3}. 580 \<le> unat (a - pcb_addr i)"
    and ep: "ep = entry_point (\<lambda>a. file_byte fi (mem s) inode (unat a)) 0"
  shows "\<exists>s'. entry sy bs env lo junk_ldt junk_tss 0x2BADB002 addr s0 = Inr (User_mode (Enter_user ep 0x083FFFFC), s')
    \<and> process_count s' = 3 \<and> iflag s' \<and> user_frame s' = Some 4
    \<and> pq_items (process_q s') 3 = [pcb_addr 3, pcb_addr 2, pcb_addr 1]
    \<and> (\<forall>i \<in> {1, 2, 3}. pcb_get (mem s') (pcb_addr i) Terminal_num = 3 - i \<and> pcb_get (mem s') (pcb_addr i) Parent_ptr = 0
        \<and> pcb_get (mem s') (pcb_addr i) Eip = ep
        \<and> (\<forall>k < file_size fi (mem s) inode. saved_frames s' (i + 1) (0x48000 + of_nat k) = file_byte fi (mem s) inode k))
    \<and> task_register s' = KERNEL_TSS \<and> seg_base (tss_desc_ptr s') = tss_addr bs \<and> tss_ss0 s' = 0x18 \<and> tss_esp0 s' = pcb_addr 3 - 4
    \<and> ldtr s' = KERNEL_LDT \<and> seg_base (ldt_desc_ptr s') = ldt_addr bs
    \<and> idtr s' = Some (0x7FF, idt_addr bs) \<and> idt s' = idt (idt_init (entry_addr bs) (idt_addr bs) s)
    \<and> (pic_env env \<longrightarrow> (\<forall>n < 16. irq_enabled s' n))
    \<and> bit (cr0 s') 31 \<and> bit (cr4 s') 4 \<and> cr3 s' = pd_addr sy \<and> pt_0_4 s' = pt_0_4 (init_page sy s)
    \<and> pd s' = (pd (init_page sy s))[32 := init_4mb_user_pde (junk_pde lo) 0x1000000]
    \<and> fs_info s' = fi \<and> systemcalls_initialize s' = s' \<and> display_terminal s' = 0"
proof -
  define t where "t = construct_tss bs junk_tss (construct_ldt bs junk_ldt s)"
  have t: "mem t = mem s" "same_core s t" by (simp_all add: t_def construct_tss_def construct_ldt_def Let_def same_core_def)
  obtain u where u: "init_devices bs env t = Inr u" "same_core t u" "\<forall>a. 4000 \<le> unat (a - VIDEO) \<longrightarrow> mem u a = mem s a"
      "screen_x u = 0" "screen_y u = 0" "pic_env env \<Longrightarrow> lines_up u" "idt u = idt (idt_init (entry_addr bs) (idt_addr bs) t)"
      "idtr u = Some (0x7FF, idt_addr bs)" "kernel.more u = kernel.more t" using init_devices_runs [of bs env t] t(1) by auto
  have core: "fs_info u = fs_info s" "process_q u = process_q s" "primary_shell_count u = 0" "pd u = pd s" "pt_0_4 u = pt_0_4 s"
    using same_core_trans [OF t(2) u(2)] start(3) by (simp_all add: same_core_def)
  have block: "\<forall>a \<in> boot_block_area start. 4000 \<le> unat (a - VIDEO)" using apart(1) by blast
  have fu: "fs_info (filesys_init start u) = fi"
    unfolding fi using block u(3) core(1) by (intro filesys_init_cong) simp_all
  obtain v where v: "init_rest sy (Some start) u = Inr v" "process_count v = 0" "primary_shell_count v = 0" "pq_inv (process_q v) 0"
      "length (pd v) = length (pd s)" "fs_info v = fi" "\<forall>a. 4000 \<le> unat (a - VIDEO) \<longrightarrow> mem v a = mem u a"
    using init_rest_runs [of u start sy] start(1,2) u(4,5) block unfolding core fu by auto
  have same: "\<forall>a \<in> boot_block_area start \<union> file_area fi (mem s) inode. mem v a = mem s a" using apart(1) u(3) v(7) by simp
  have "32 < length (pd v)" "process_count v < 6" using ready v(2,5) by (simp_all add: program_ready_def filesys_init_fields)
  note r = boot_program_ready [OF ready start(1) fi v(6) same this(2,1)]
  have size: "28 \<le> file_size fi (mem s) inode"
    using ready unfolding program_ready_def filesys_init_fields fi by blast
  have ep': "ep = entry_point (\<lambda>a. file_byte (fs_info v) (mem v) inode (unat a)) 0"
    using size by (simp add: ep entry_point_def v(6) r(4))
  have area: "\<forall>a \<in> file_area (fs_info v) (mem v) inode. \<forall>i \<in> {1..3}. 580 \<le> unat (a - pcb_addr i)" using apart(2) by (simp add: v(6) r(3))
  have cmd: "holds_str (str_ptr (map of_char ''shell'')) (map of_char ''shell'')" by (rule holds_str_ptr) simp_all
  obtain s' where s': "execute sy lo (str_ptr (map of_char ''shell'')) v = Inr (Enter_user ep 0x083FFFFC, s')"
      "process_count s' = 3" "user_frame s' = Some 4" "iflag s'" "pq_items (process_q s') 3 = [pcb_addr 3, pcb_addr 2, pcb_addr 1]"
      "\<forall>i \<in> {1, 2, 3}. shell_pcb (mem s') ep i"
      "\<forall>i \<in> {1, 2, 3}. \<forall>k < file_size fi (mem s) inode. saved_frames s' (i + 1) (0x48000 + of_nat k) = file_byte fi (mem v) inode k"
      "tss_esp0 s' = pcb_addr 3 - 4" "setup_kept sy lo v s'"
    using shells_start [OF r(1) cmd v(3,2,4) area ep', of sy] unfolding v(6) r(2) by blast
  have "entry sy bs env lo junk_ldt junk_tss 0x2BADB002 addr s0 = Inr (User_mode (Enter_user ep 0x083FFFFC), s')"
    using report t_def u(1) v(1) s'(1) by (auto simp: entry_def Let_def)
  note run = this
  have len: "length (pd u) = 1024" "length (pt_0_4 u) = 1024" using core start by simp_all
  note up = setup_done [OF t_def u(6-9) v(1) len s'(9)]
  have "pt_0_4 s' = pt_0_4 (init_page sy s)" "pd s' = (pd (init_page sy s))[32 := init_4mb_user_pde (junk_pde lo) 0x1000000]" "fs_info s' = fi"
    using up(5,6) s'(2,9) v(6) len start(4,5) by (simp_all add: init_page_tables setup_kept_def)
  with run show ?thesis using s'(2-8) r(4) up(1-4) by (intro exI [of _ s']) (simp add: shell_pcb_def)
qed

text \<open>A boot loader that passes one module at 0x1000, an image whose only file ``shell'' has 28 bytes: a magic number and
  the entry point 0x08048018.\<close>

definition boot_mem :: mem where
  "boot_mem a = (case map_of [(0x1000, 1), (0x1004, 1), (0x1008, 4), (0x1040, 115), (0x1041, 104), (0x1042, 101), (0x1043, 108), (0x1044, 108),
     (0x1060, 2), (0x2000, 28), (0x3000, 0x7F), (0x3001, 0x45), (0x3002, 0x4C), (0x3003, 0x46), (0x3018, 0x18), (0x3019, 0x80), (0x301A, 4),
     (0x301B, 8), (0x9000, 8), (0x9019, 0x91), (0x9101, 0x10)] a of None \<Rightarrow> 0 | Some v \<Rightarrow> v)"

lemma boot_start_fields:
  "mem (boot_start m) = m" "fs_info (boot_start m) = sample_fs" "length (pcbs (process_q (boot_start m))) = 6" "primary_shell_count (boot_start m) = 0"
  "length (pd (boot_start m)) = 1024" "length (pt_0_4 (boot_start m)) = 1024" "screen_x (boot_start m) = 0" "screen_y (boot_start m) = 0" "process_count (boot_start m) = 0"
  by (simp_all add: boot_start_def kernel_boot_def kernel.defs sys.defs sys_boot_defs)

text \<open>Any state that agrees with it below the video page.\<close>

definition boot_loaded :: "'a boot_scheme \<Rightarrow> bool" where
  "boot_loaded s \<longleftrightarrow> (\<forall>a. unat a < 0x10000 \<longrightarrow> mem s a = boot_mem a) \<and> length (dir_entries (fs_info s)) = 63 \<and> length (pcbs (process_q s)) = 6
     \<and> primary_shell_count s = 0 \<and> process_count s = 0 \<and> length (pd s) = 1024 \<and> length (pt_0_4 s) = 1024"

lemma boot_report:
  "\<exists>s. show_info 0x9000 (clear (boot_start boot_mem)) = Inr s \<and> show_modules 0x9000 s = Inr (Some 0x1000, s)
    \<and> show_maps 0x9000 s = Inr s \<and> \<not> CHECK_FLAG (mbi_get Flags 0x9000 s) 4 \<and> boot_loaded s"
proof -
  define s0 where "s0 = clear (boot_start boot_mem)"
  have s0: "mem s0 a = boot_mem a" if "unat a < 0x10000" for a
  proof -
    have "4000 \<le> unat (a - VIDEO)" using that by (simp add: unat_sub_if' word_le_nat_alt)
    then show ?thesis by (simp add: s0_def clear_outside boot_start_fields)
  qed
  obtain cs where cs: "say (''flags = 0x%#x'' @ [CHR 0x0A]) [mbi_get Flags 0x9000 s0] s0 = Inr (fold putc cs s0)"
    using say_prints [of "''flags = 0x%#x'' @ [CHR 0x0A]" "[mbi_get Flags 0x9000 s0]" s0] by auto
  define s where "s = fold putc cs s0"
  have core: "same_core (boot_start boot_mem) s" "process_count s = 0" "screen_x s0 = 0" "screen_y s0 = 0"
    using putc_core(1) [of s0 cs] putc_core(2) [of cs s0] by (simp_all add: s_def s0_def same_core_def clear_def boot_start_fields)
  have m: "mem s a = boot_mem a" if "unat a < 0x10000" for a
  proof -
    have "4000 \<le> unat (a - VIDEO)" using that by (simp add: unat_sub_if' word_le_nat_alt)
    then show ?thesis using con.run_outside [of s0 a cs] s0 [OF that] core(3,4) by (simp add: s_def con.cursor_ok_def on_screen_def)
  qed
  have loaded: "boot_loaded s"
    using m core(1,2) by (simp add: boot_loaded_def same_core_def boot_start_fields) (simp add: sample_fs_def)
  have "load32 (mem s) 0x9000 = 8" "load32 (mem s) 0x9014 = 0" "load32 (mem s) 0x9018 = 0x9100" "load32 (mem s) 0x9100 = 0x1000"
    by (simp_all add: load32_def m) (simp_all add: boot_mem_def)
  then have w: "mbi_get Flags 0x9000 s = 8" "mbi_get Mods_count 0x9000 s = 0" "mbi_get Mods_addr 0x9000 s = 0x9100" "module_get Mod_start 0x9100 s = 0x1000"
    by (simp_all add: mbi_get_def module_get_def)
  have "show_info 0x9000 s0 = Inr s" using cs w(1) by (simp add: show_info_def say_if_def s_def [symmetric] CHECK_FLAG_def)
  moreover have "show_modules 0x9000 s = Inr (Some 0x1000, s)"
    using w by (simp add: show_modules_def CHECK_FLAG_def Let_def module_loop.simps [of _ 0])
  moreover have "show_maps 0x9000 s = Inr s" using w(1) by (simp add: show_maps_def say_if_def CHECK_FLAG_def)
  ultimately show ?thesis using loaded w(1) by (intro exI [of _ s]) (simp add: s0_def CHECK_FLAG_def)
qed

lemma boot_image_facts:
  assumes "boot_loaded s" and fi: "fi = fs_info (filesys_init 0x1000 s)"
  shows "file_size fi (mem s) 0 = 28" "k < 28 \<Longrightarrow> file_byte fi (mem s) 0 k = boot_mem (0x3000 + of_nat k)"
    "a \<in> boot_block_area 0x1000 \<union> file_area fi (mem s) 0 \<Longrightarrow> unat a < 0x4000"
    "num_dir_entries fi = 1" "dir_entries fi ! 0 = 0x1040"
proof -
  have m: "\<And>a. unat a < 0x10000 \<Longrightarrow> mem s a = boot_mem a" and len: "length (dir_entries (fs_info s)) = 63" using assms(1) by (simp_all add: boot_loaded_def)
  have w: "load32 (mem s) 0x1000 = 1" "load32 (mem s) 0x1004 = 1" "load32 (mem s) 0x2000 = 28" "load32 (mem s) 0x2004 = 0"
    by (simp_all add: load32_def m) (simp_all add: boot_mem_def)
  have f: "num_dir_entries fi = 1" "inode_blocks fi = 0x2000" "data_blocks fi = 0x3000" "filesys_ptr fi = 0x1000"
    using len w by (simp_all add: fi filesys_init_def dentry_loop_def dentry_loop_spec Let_def del: upt_rec_numeral)
  then show "num_dir_entries fi = 1" by simp
  show "dir_entries fi ! 0 = 0x1040" using entries_of_init [OF len, of 0 "0x1000"] by (simp add: fi)
  have i: "inode_ptr fi 0 = 0x2000" by (simp add: inode_ptr_def f)
  show size: "file_size fi (mem s) 0 = 28" by (simp add: file_size_def i w)
  have b: "block_addr fi (mem s) 0 0 = 0x3000" by (simp add: block_addr_def dblock_def i w f)
  show "file_byte fi (mem s) 0 k = boot_mem (0x3000 + of_nat k)" if "k < 28"
    using that by (simp add: file_byte_def b m unat_word_ariths unat_of_nat32)
  have b': "block_addr fi (mem s) 0 k = 0x3000" if "1024 * k < 7" for k using that b by (cases k) simp_all
  show "unat a < 0x4000" if "a \<in> boot_block_area 0x1000 \<union> file_area fi (mem s) 0"
  proof -
    from that consider k where "a = 0x1000 + of_nat k" "k < 4096" | k where "a = 0x2000 + of_nat k" "k < 4096" | k where "a = 0x3000 + of_nat k" "k < 4096"
      by (auto simp: boot_block_area_def file_area_def i size b')
    then show ?thesis by cases (simp_all add: unat_word_ariths unat_of_nat32)
  qed
qed

lemma boot_sample_ready:
  assumes "boot_loaded s"
  shows "program_ready exec_stack [map of_char ''shell''] (map of_char ''shell'') 0 0 (filesys_init 0x1000 s)"
proof -
  define fi where "fi = fs_info (filesys_init 0x1000 s)"
  note f = boot_image_facts [OF assms fi_def]
  have m: "\<And>a. unat a < 0x10000 \<Longrightarrow> mem s a = boot_mem a" using assms by (simp add: boot_loaded_def)
  have sp: "find_spaces (map of_char ''shell'') = []" by (simp add: find_spaces_def upt_rec)
  have "directory fi (mem s) [map of_char ''shell'']"
    by (auto simp: directory_def f(4,5) holds_str_def m less_Suc_eq) (simp_all add: boot_mem_def)
  moreover have "load32 (mem s) (dir_entries fi ! 0 + 36) = 0" by (simp add: f(5) load32_def m) (simp add: boot_mem_def)
  moreover have "map (file_byte fi (mem s) 0) [0, 1, 2, 3] = [0x7F, 0x45, 0x4C, 0x46]"
    by (simp add: f(2)) (simp add: boot_mem_def)
  moreover have "\<not> in_user_page a \<and> 4 \<le> unat (a - 0x7FDF00)" if "a \<in> file_area fi (mem s) 0" for a
    using f(3) [of a] that by (simp add: in_user_page_def word_less_nat_alt unat_sub_if' word_le_nat_alt)
  ultimately show ?thesis using assms sp f(1)
    by (simp add: program_ready_def filesys_init_fields fi_def [symmetric] program_name_def boot_loaded_def exec_stack_def)
qed

theorem boot_starts_shells_witness:
  "\<exists>s'. entry sample_symbols sample_boot pic_device exec_stack zero_seg zero_seg 0x2BADB002 0x9000 (boot_start boot_mem)
      = Inr (User_mode (Enter_user 0x08048018 0x083FFFFC), s')
     \<and> process_count s' = 3 \<and> pcb_get (mem s') (pcb_addr 2) Terminal_num = 1 \<and> irq_enabled s' 8 \<and> idtr s' = Some (0x7FF, 0x404000)"
proof -
  obtain s where s: "show_info 0x9000 (clear (boot_start boot_mem)) = Inr s" "show_modules 0x9000 s = Inr (Some 0x1000, s)"
      "show_maps 0x9000 s = Inr s" "\<not> CHECK_FLAG (mbi_get Flags 0x9000 s) 4" "boot_loaded s" using boot_report by blast
  define fi where "fi = fs_info (filesys_init 0x1000 s)"
  note f = boot_image_facts [OF s(5) fi_def]
  have ep: "0x08048018 = entry_point (\<lambda>a. file_byte fi (mem s) 0 (unat a)) 0"
    by (simp add: entry_point_def f(2)) (simp add: boot_mem_def push_bit_eq_mult)
  have "4000 \<le> unat (a - VIDEO)" if "a \<in> boot_block_area 0x1000 \<union> file_area fi (mem s) 0" for a
    using f(3) [OF that] by (simp add: unat_sub_if' word_le_nat_alt)
  moreover have "580 \<le> unat (a - pcb_addr i)" if "a \<in> file_area fi (mem s) 0" "i \<in> {1..3}" for a i
    using f(3) [of a] that(1) u32_1_6 [OF u32_3_6 [OF that(2)]] by (elim insertE emptyE; simp add: pcb_addr_def unat_sub_if' word_le_nat_alt)
  moreover have "length (dir_entries (fs_info s)) = 63" "length (pcbs (process_q s)) = 6" "primary_shell_count s = 0"
      "length (pd s) = 1024" "length (pt_0_4 s) = 1024"
    using s(5) by (simp_all add: boot_loaded_def)
  moreover have "\<not> (CHECK_FLAG (mbi_get Flags 0x9000 s) 4 \<and> CHECK_FLAG (mbi_get Flags 0x9000 s) 5)" using s(4) by simp
  ultimately obtain s' where "entry sample_symbols sample_boot pic_device exec_stack zero_seg zero_seg 0x2BADB002 0x9000 (boot_start boot_mem)
        = Inr (User_mode (Enter_user 0x08048018 0x083FFFFC), s')" "process_count s' = 3"
      "\<forall>i \<in> {1, 2, 3}. pcb_get (mem s') (pcb_addr i) Terminal_num = 3 - i" "\<forall>n < 16. irq_enabled s' n" "idtr s' = Some (0x7FF, idt_addr sample_boot)"
    using pic_env_device boot_starts_shells [OF s(1,2) _ s(3) _ _ _ _ _ boot_sample_ready [OF s(5)] fi_def _ _ ep, of sample_symbols sample_boot pic_device zero_seg zero_seg]
    by blast
  then show ?thesis by (auto simp: sample_boot_def)
qed

end
