(* ===== verification/Ulib.thy ===== *)
theory Ulib
  imports Klib_String
begin

text \<open>
  The library of the user programs, \<^verbatim>\<open>syscalls/ece391support.c\<close>, and the wrappers of the system calls. The
  operating system under a program is a record of what the program can do with it: raise
  interrupt 128 with four registers, and read and write its memory; the addresses of its string
  constants are part of it. The string routines are proved equivalent to those of the kernel.
\<close>

section \<open>Strings\<close>

partial_function (option) ece391_strlen_from :: "mem \<Rightarrow> u32 \<Rightarrow> u32 \<Rightarrow> u32 option" where
  "ece391_strlen_from m s len = (if m s \<noteq> 0 then ece391_strlen_from m (s + 1) (len + 1) else Some len)"

definition ece391_strlen :: "mem \<Rightarrow> u32 \<Rightarrow> u32 option" where
  "ece391_strlen m s = ece391_strlen_from m s 0"

partial_function (option) ece391_strcpy :: "mem \<Rightarrow> u32 \<Rightarrow> u32 \<Rightarrow> mem option" where
  "ece391_strcpy m dst src =
     (let c = m src;
          m = m(dst := c)
      in if c \<noteq> 0 then ece391_strcpy m (dst + 1) (src + 1) else Some m)"

text \<open>The bytes are unsigned, unlike those the kernel's \<open>strncmp\<close> compares.\<close>

partial_function (option) ece391_strcmp :: "mem \<Rightarrow> u32 \<Rightarrow> u32 \<Rightarrow> int option" where
  "ece391_strcmp m s1 s2 =
     (if m s1 = m s2 then
        (if m s1 = 0 then Some 0 else ece391_strcmp m (s1 + 1) (s2 + 1))
      else Some (uint (m s1) - uint (m s2)))"

function ece391_strncmp_loop :: "mem \<Rightarrow> u32 \<Rightarrow> u32 \<Rightarrow> u32 \<Rightarrow> int" where
  "ece391_strncmp_loop m s1 s2 n =
     (if m s1 = m s2 then
        (if m s1 = 0 \<or> n - 1 = 0 \<or> n = 0 then 0 else ece391_strncmp_loop m (s1 + 1) (s2 + 1) (n - 1))
      else uint (m s1) - uint (m s2))"
  by pat_completeness auto
termination
  by (relation "measure (\<lambda>(m, s1, s2, n). unat n)") (auto simp: unat_minus_one unat_gt_0)

text \<open>The loop is entered with \<open>n\<close> different from 0 only, so it never sees 0.\<close>

definition ece391_strncmp :: "mem \<Rightarrow> u32 \<Rightarrow> u32 \<Rightarrow> u32 \<Rightarrow> int" where
  "ece391_strncmp m s1 s2 n = (if n = 0 then 0 else ece391_strncmp_loop m s1 s2 n)"

function ece391_strrev_loop :: "mem \<Rightarrow> u32 \<Rightarrow> int \<Rightarrow> int \<Rightarrow> mem" where
  "ece391_strrev_loop m s b e =
     (if b < e then
        (let tmp = m (s + word_of_int e);
             m = m(s + word_of_int e := m (s + word_of_int b));
             m = m(s + word_of_int b := tmp)
         in ece391_strrev_loop m s (b + 1) (e - 1))
      else m)"
  by pat_completeness auto
termination
  by (relation "measure (\<lambda>(m, s, b, e). nat (e - b))") auto

definition ece391_strrev :: "mem \<Rightarrow> u32 \<Rightarrow> mem res" where
  "ece391_strrev m s =
     res_bind (opt_res No_return (ece391_strlen m s)) (\<lambda>len.
       let e = sint (len - 1)
       in if e \<le> 0 then Inr m else Inr (ece391_strrev_loop m s 0 e))"

text \<open>The remainder of \<open>newval\<close> by \<open>radix\<close> is unsigned, because \<open>newval\<close> is.\<close>

function ece391_itoa_loop :: "mem \<Rightarrow> u32 \<Rightarrow> u32 \<Rightarrow> u32 \<Rightarrow> (mem \<times> u32) res" where
  "ece391_itoa_loop m newbuf newval radix =
     (if newval = 0 then Inr (m, newbuf)
      else if radix = 0 then Inl Divide_error
      else if length lookup_digits \<le> unat (newval mod radix) then Inl Bounds
      else if radix = 1 then Inl No_return
      else ece391_itoa_loop (m(newbuf := lookup_digits ! unat (newval mod radix))) (newbuf + 1) (newval div radix) radix)"
  by pat_completeness auto
termination
proof (relation "measure (\<lambda>(m, newbuf, newval, radix). unat newval)")
  fix m :: mem and newbuf newval radix :: u32
  assume nz: "newval \<noteq> 0" and r: "radix \<noteq> 0" "radix \<noteq> 1"
  then have "1 < unat radix" by (intro u32_gt_1)
  moreover have "0 < unat newval" using nz by (simp add: unat_gt_0)
  ultimately show "((m(newbuf := lookup_digits ! unat (newval mod radix)), newbuf + 1, newval div radix, radix),
      m, newbuf, newval, radix) \<in> measure (\<lambda>(m, newbuf, newval, radix). unat newval)"
    by (simp add: unat_div)
qed simp

definition ece391_itoa :: "mem \<Rightarrow> u32 \<Rightarrow> u32 \<Rightarrow> u32 \<Rightarrow> mem res" where
  "ece391_itoa m value buf radix =
     (if value = 0 then Inr (m(buf := of_char (CHR ''0''), buf + 1 := 0))
      else res_bind (ece391_itoa_loop m buf value radix) (\<lambda>(m, newbuf). ece391_strrev (m(newbuf := 0)) buf))"

declare ece391_strncmp_loop.simps [simp del] ece391_strrev_loop.simps [simp del] ece391_itoa_loop.simps [simp del]

section \<open>System calls\<close>

text \<open>What a program sees of the system: the trap with \<open>eax\<close>, \<open>ebx\<close>, \<open>ecx\<close> and \<open>edx\<close>, its memory, and the address of each of
  its string constants.\<close>

record 's os =
  trap :: "u32 \<Rightarrow> u32 \<Rightarrow> u32 \<Rightarrow> u32 \<Rightarrow> 's \<Rightarrow> (int \<times> 's) res"
  umem :: "'s \<Rightarrow> mem"
  set_umem :: "mem \<Rightarrow> 's \<Rightarrow> 's"
  lit :: "string \<Rightarrow> u32"

text \<open>The wrappers of \<^verbatim>\<open>ece391syscall.S\<close>. A call with fewer than three arguments loads the other registers from the
  stack above them; the system ignores them, and they are 0 here.\<close>

definition ece391_execute :: "'s os \<Rightarrow> u32 \<Rightarrow> 's \<Rightarrow> (int \<times> 's) res" where
  "ece391_execute os command = trap os 2 command 0 0"

definition ece391_read :: "'s os \<Rightarrow> int \<Rightarrow> u32 \<Rightarrow> int \<Rightarrow> 's \<Rightarrow> (int \<times> 's) res" where
  "ece391_read os fd buf nbytes = trap os 3 (word_of_int fd) buf (word_of_int nbytes)"

definition ece391_write :: "'s os \<Rightarrow> int \<Rightarrow> u32 \<Rightarrow> int \<Rightarrow> 's \<Rightarrow> (int \<times> 's) res" where
  "ece391_write os fd buf nbytes = trap os 4 (word_of_int fd) buf (word_of_int nbytes)"

definition ece391_open :: "'s os \<Rightarrow> u32 \<Rightarrow> 's \<Rightarrow> (int \<times> 's) res" where
  "ece391_open os filename = trap os 5 filename 0 0"

definition ece391_close :: "'s os \<Rightarrow> int \<Rightarrow> 's \<Rightarrow> (int \<times> 's) res" where
  "ece391_close os fd = trap os 6 (word_of_int fd) 0 0"

definition ece391_getargs :: "'s os \<Rightarrow> u32 \<Rightarrow> int \<Rightarrow> 's \<Rightarrow> (int \<times> 's) res" where
  "ece391_getargs os buf nbytes = trap os 7 buf (word_of_int nbytes) 0"

definition ece391_vidmap :: "'s os \<Rightarrow> u32 \<Rightarrow> 's \<Rightarrow> (int \<times> 's) res" where
  "ece391_vidmap os screen_start = trap os 8 screen_start 0 0"

definition ece391_set_handler :: "'s os \<Rightarrow> int \<Rightarrow> u32 \<Rightarrow> 's \<Rightarrow> (int \<times> 's) res" where
  "ece391_set_handler os signum handler = trap os 9 (word_of_int signum) handler 0"

definition ece391_fdputs :: "'s os \<Rightarrow> int \<Rightarrow> u32 \<Rightarrow> 's \<Rightarrow> 's res" where
  "ece391_fdputs os fd str s =
     res_bind (opt_res No_return (ece391_strlen (umem os s) str)) (\<lambda>n.
     res_bind (ece391_write os fd str (sint n) s) (\<lambda>(r, s). Inr s))"

text \<open>Printing a string constant on standard output, which most programs do.\<close>

definition put_lit :: "'s os \<Rightarrow> string \<Rightarrow> 's \<Rightarrow> 's res" where
  "put_lit os str = ece391_fdputs os 1 (lit os str)"

definition poke :: "'s os \<Rightarrow> u32 \<Rightarrow> u8 \<Rightarrow> 's \<Rightarrow> 's" where
  "poke os a v s = set_umem os ((umem os s)(a := v)) s"

section \<open>Equivalence with the kernel's routines\<close>

lemma option_eqI: "(\<And>r. x = Some r \<Longrightarrow> y = Some r) \<Longrightarrow> (\<And>r. y = Some r \<Longrightarrow> x = Some r) \<Longrightarrow> x = y"
  by (cases x; cases y) auto

lemma strlen_from_user:
  assumes "ece391_strlen_from m p len = Some r"
  shows "\<forall>s. p = s + len \<longrightarrow> strlen_from (ptr_at m s) len = Some r"
proof (rule ece391_strlen_from.raw_induct [where P = "\<lambda>m p len r. \<forall>s. p = s + len \<longrightarrow> strlen_from (ptr_at m s) len = Some r", OF _ assms])
  fix f and m :: mem and p len r :: u32
  assume IH: "\<And>m p len r. f m p len = Some r \<Longrightarrow> \<forall>s. p = s + len \<longrightarrow> strlen_from (ptr_at m s) len = Some r"
    and eq: "(if m p \<noteq> 0 then f m (p + 1) (len + 1) else Some len) = Some r"
  show "\<forall>s. p = s + len \<longrightarrow> strlen_from (ptr_at m s) len = Some r"
  proof (intro allI impI)
    fix s
    assume "p = s + len"
    then show "strlen_from (ptr_at m s) len = Some r"
      using eq IH [of m "p + 1" "len + 1" r] by (subst strlen_from.simps) (simp add: add.assoc split: if_splits)
  qed
qed

lemma user_strlen_from:
  assumes "strlen_from c len = Some r"
  shows "c = ptr_at m s \<longrightarrow> ece391_strlen_from m (s + len) len = Some r"
proof (rule strlen_from.raw_induct [where P = "\<lambda>c len r. c = ptr_at m s \<longrightarrow> ece391_strlen_from m (s + len) len = Some r", OF _ assms])
  fix f and c :: cptr and len r :: u32
  assume IH: "\<And>c len r. f c len = Some r \<Longrightarrow> c = ptr_at m s \<longrightarrow> ece391_strlen_from m (s + len) len = Some r"
    and eq: "(if c len \<noteq> 0 then f c (len + 1) else Some len) = Some r"
  show "c = ptr_at m s \<longrightarrow> ece391_strlen_from m (s + len) len = Some r"
  proof
    assume c: "c = ptr_at m s"
    show "ece391_strlen_from m (s + len) len = Some r"
    proof (cases "m (s + len) = 0")
      case True
      then show ?thesis using eq c by (subst ece391_strlen_from.simps) simp
    next
      case False
      then have "ece391_strlen_from m (s + (len + 1)) (len + 1) = Some r" using IH [of c "len + 1" r] eq c by simp
      then show ?thesis using False by (subst ece391_strlen_from.simps) (simp add: add.assoc)
    qed
  qed
qed

lemma ece391_strlen_eq: "ece391_strlen m s = strlen (ptr_at m s)"
proof (rule option_eqI)
  show "ece391_strlen m s = Some r \<Longrightarrow> strlen (ptr_at m s) = Some r" for r
    using strlen_from_user [of m s 0 r, THEN spec, of s] by (simp add: ece391_strlen_def strlen_def)
  show "strlen (ptr_at m s) = Some r \<Longrightarrow> ece391_strlen m s = Some r" for r
    using user_strlen_from [of "ptr_at m s" 0 r m s] by (simp add: ece391_strlen_def strlen_def)
qed

lemma strcpy_from_user:
  assumes "ece391_strcpy m p q = Some r"
  shows "\<forall>i. p = dst + i \<longrightarrow> q = src + i \<longrightarrow> strcpy_from m dst (\<lambda>m. ptr_at m src) i = Some r"
proof (rule ece391_strcpy.raw_induct [where P = "\<lambda>m p q r. \<forall>i. p = dst + i \<longrightarrow> q = src + i \<longrightarrow> strcpy_from m dst (\<lambda>m. ptr_at m src) i = Some r",
      OF _ assms])
  fix f and m r :: mem and p q :: u32
  assume IH: "\<And>m p q r. f m p q = Some r \<Longrightarrow> \<forall>i. p = dst + i \<longrightarrow> q = src + i \<longrightarrow> strcpy_from m dst (\<lambda>m. ptr_at m src) i = Some r"
    and eq: "(let c = m q; m = m(p := c) in if c \<noteq> 0 then f m (p + 1) (q + 1) else Some m) = Some r"
  show "\<forall>i. p = dst + i \<longrightarrow> q = src + i \<longrightarrow> strcpy_from m dst (\<lambda>m. ptr_at m src) i = Some r"
  proof (intro allI impI)
    fix i
    assume p: "p = dst + i" "q = src + i"
    show "strcpy_from m dst (\<lambda>m. ptr_at m src) i = Some r"
    proof (cases "m (src + i) = 0")
      case True
      then show ?thesis using eq p by (subst strcpy_from.simps) (simp add: Let_def)
    next
      case False
      then have "strcpy_from (m(p := m q)) dst (\<lambda>m. ptr_at m src) (i + 1) = Some r"
        using eq p IH [of "m(p := m q)" "p + 1" "q + 1" r] by (simp add: Let_def add.assoc)
      then show ?thesis using False p by (subst strcpy_from.simps) simp
    qed
  qed
qed

lemma user_strcpy_from:
  assumes "strcpy_from m dst c i = Some r"
  shows "c = (\<lambda>m. ptr_at m src) \<longrightarrow> ece391_strcpy m (dst + i) (src + i) = Some r"
proof (rule strcpy_from.raw_induct [where P = "\<lambda>m dst c i r. c = (\<lambda>m. ptr_at m src) \<longrightarrow> ece391_strcpy m (dst + i) (src + i) = Some r",
      OF _ assms])
  fix f and m r :: mem and dst i :: u32 and c :: "mem \<Rightarrow> cptr"
  assume IH: "\<And>m dst c i r. f m dst c i = Some r \<Longrightarrow> c = (\<lambda>m. ptr_at m src) \<longrightarrow> ece391_strcpy m (dst + i) (src + i) = Some r"
    and eq: "(if c m i \<noteq> 0 then f (m(dst + i := c m i)) dst c (i + 1) else Some (m(dst + i := 0))) = Some r"
  show "c = (\<lambda>m. ptr_at m src) \<longrightarrow> ece391_strcpy m (dst + i) (src + i) = Some r"
  proof
    assume c: "c = (\<lambda>m. ptr_at m src)"
    show "ece391_strcpy m (dst + i) (src + i) = Some r"
    proof (cases "m (src + i) = 0")
      case True
      then show ?thesis using eq c by (subst ece391_strcpy.simps) (simp add: Let_def)
    next
      case False
      then have "ece391_strcpy (m(dst + i := m (src + i))) (dst + (i + 1)) (src + (i + 1)) = Some r"
        using eq c IH [of "m(dst + i := c m i)" dst c "i + 1" r] by simp
      then show ?thesis using False by (subst ece391_strcpy.simps) (simp add: Let_def add.assoc)
    qed
  qed
qed

lemma ece391_strcpy_eq: "ece391_strcpy m dst src = strcpy m dst (\<lambda>m. ptr_at m src)"
proof (rule option_eqI)
  show "ece391_strcpy m dst src = Some r \<Longrightarrow> strcpy m dst (\<lambda>m. ptr_at m src) = Some r" for r
    using strcpy_from_user [of m dst src r dst src, THEN spec, of 0] by (simp add: strcpy_def)
  show "strcpy m dst (\<lambda>m. ptr_at m src) = Some r \<Longrightarrow> ece391_strcpy m dst src = Some r" for r
    using user_strcpy_from [of m dst "\<lambda>m. ptr_at m src" 0 r src] by (simp add: strcpy_def)
qed

lemma strncmp_loop_eq:
  assumes "i < n"
  shows "ece391_strncmp_loop m (s1 + i) (s2 + i) (n - i) = 0 \<longleftrightarrow> strncmp_from (ptr_at m s1) (ptr_at m s2) n i = 0"
  using assms
proof (induction "ptr_at m s1" "ptr_at m s2" n i rule: strncmp_from.induct)
  case (1 n i)
  have k: "n - i - 1 = n - (i + 1)" "n \<noteq> i" using 1(2) by (auto simp: algebra_simps)
  show ?case
  proof (cases "m (s1 + i) \<noteq> m (s2 + i) \<or> m (s1 + i) = 0")
    case True
    then show ?thesis using 1(2)
      by (subst ece391_strncmp_loop.simps, subst strncmp_from.simps) (auto simp: word_uint_eq_iff [symmetric] uint_0_iff)
  next
    case False
    have u: "ece391_strncmp_loop m (s1 + i) (s2 + i) (n - i)
        = (if n - (i + 1) = 0 then 0 else ece391_strncmp_loop m (s1 + (i + 1)) (s2 + (i + 1)) (n - (i + 1)))"
      using False by (subst ece391_strncmp_loop.simps) (simp only: k(1), simp add: k(2) add.assoc)
    have s: "strncmp_from (ptr_at m s1) (ptr_at m s2) n i = strncmp_from (ptr_at m s1) (ptr_at m s2) n (i + 1)"
      using False 1(2) by (subst strncmp_from.simps) simp
    show ?thesis
    proof (cases "i + 1 < n")
      case True
      then have "n - (i + 1) \<noteq> 0" by auto
      then show ?thesis using 1(1) [OF 1(2) _ True] False u s by simp
    next
      case no: False
      then have "unat (i + 1) = unat n" using unat_Suc_less [OF 1(2)] 1(2) by (simp add: word_less_nat_alt)
      then have "i + 1 = n" by (rule unsigned_word_eqI)
      then show ?thesis using u s by (simp add: strncmp_from.simps [of _ _ n n])
    qed
  qed
qed

lemma ece391_strncmp_zero: "ece391_strncmp m s1 s2 n = 0 \<longleftrightarrow> strncmp (ptr_at m s1) (ptr_at m s2) n = 0"
proof (cases "n = 0")
  case True
  then show ?thesis by (simp add: ece391_strncmp_def strncmp_def strncmp_from.simps)
next
  case False
  then have "0 < n" by (simp add: word_neq_0_conv)
  then show ?thesis using False strncmp_loop_eq [of 0 n m s1 s2] by (simp add: ece391_strncmp_def strncmp_def)
qed

text \<open>Reversal in memory and on the list of the bytes.\<close>

lemma blit_set_nth:
  assumes "k < length xs" "length xs < 2 ^ 32"
  shows "(blit m s (length xs) ((!) xs))(s + of_nat k := v) = blit m s (length xs) ((!) (xs[k := v]))"
proof
  fix a
  have "a = s + of_nat k \<longleftrightarrow> unat (a - s) = k"
  proof
    assume "unat (a - s) = k"
    then have "a - s = of_nat k" by (metis of_nat_unat ucast_id)
    then show "a = s + of_nat k" by (simp add: algebra_simps)
  next
    assume "a = s + of_nat k"
    then show "unat (a - s) = k" using assms by (simp add: unat_of_nat32)
  qed
  then show "((blit m s (length xs) ((!) xs))(s + of_nat k := v)) a = blit m s (length xs) ((!) (xs[k := v])) a"
    using assms by (auto simp: blit_def nth_list_update)
qed

lemma strrev_loop_mem:
  assumes "0 \<le> b" "e < int (length xs)" "length xs < 2 ^ 32"
  shows "ece391_strrev_loop (blit m s (length xs) ((!) xs)) s b e = blit m s (length xs) ((!) (strrev_loop xs b e))"
  using assms
proof (induction xs b e rule: strrev_loop.induct)
  case (1 xs b e)
  show ?case
  proof (cases "b < e")
    case True
    let ?m = "blit m s (length xs) ((!) xs)"
    have n: "nat b < length xs" "nat e < length xs" "(word_of_int b :: u32) = of_nat (nat b)" "(word_of_int e :: u32) = of_nat (nat e)"
      using 1(2,3) True by simp_all
    have at: "?m (s + of_nat (nat b)) = xs ! nat b" "?m (s + of_nat (nat e)) = xs ! nat e"
      using n 1(4) by (simp_all add: blit_in)
    have "?m(s + word_of_int e := ?m (s + word_of_int b), s + word_of_int b := ?m (s + word_of_int e))
        = blit m s (length xs) ((!) (xs[nat e := xs ! nat b, nat b := xs ! nat e]))"
      unfolding n(3,4) at using n 1(4) blit_set_nth [of "nat b" "xs[nat e := xs ! nat b]" m s "xs ! nat e"] by (simp add: blit_set_nth)
    moreover have "ece391_strrev_loop (blit m s (length xs) ((!) (xs[nat e := xs ! nat b, nat b := xs ! nat e]))) s (b + 1) (e - 1)
        = blit m s (length xs) ((!) (strrev_loop (xs[nat e := xs ! nat b, nat b := xs ! nat e]) (b + 1) (e - 1)))"
      using 1(1) [OF True] 1(2-4) by simp
    ultimately show ?thesis using True
      by (subst ece391_strrev_loop.simps, subst strrev_loop.simps) (simp add: Let_def)
  next
    case False
    then show ?thesis by (simp add: ece391_strrev_loop.simps strrev_loop.simps)
  qed
qed

lemma itoa_loop_length: "itoa_loop v r acc = Inr ds \<Longrightarrow> length ds \<le> length acc + unat v \<and> take (length acc) ds = acc"
proof (induction v r acc rule: itoa_loop.induct)
  case (1 v r acc)
  show ?case
  proof (cases "v = 0")
    case True
    then show ?thesis using 1(2) by (simp add: itoa_loop.simps)
  next
    case False
    then have c: "r \<noteq> 0" "\<not> length lookup_digits \<le> unat (v mod r)" "r \<noteq> 1"
      and run: "itoa_loop (v div r) r (acc @ [lookup_digits ! unat (v mod r)]) = Inr ds"
      using 1(2) by (simp_all add: itoa_loop.simps [of v] split: if_splits)
    have "1 < unat r" "0 < unat v" using u32_gt_1 [OF c(1,3)] False by (simp_all add: unat_gt_0)
    then have "unat (v div r) < unat v" by (simp add: unat_div)
    moreover note 1(1) [OF False c run]
    ultimately show ?thesis by (auto simp: take_Suc_conv_app_nth dest: arg_cong [where f = "take (length acc)"])
  qed
qed

lemma itoa_loop_mem:
  "itoa_loop v r acc = Inr ds \<Longrightarrow> ece391_itoa_loop m p v r
    = Inr (blit m p (length (drop (length acc) ds)) ((!) (drop (length acc) ds)), p + of_nat (length (drop (length acc) ds)))"
proof (induction v r acc arbitrary: m p rule: itoa_loop.induct)
  case (1 v r acc)
  show ?case
  proof (cases "v = 0")
    case True
    then show ?thesis using 1(2) by (simp add: itoa_loop.simps ece391_itoa_loop.simps)
  next
    case False
    then have c: "r \<noteq> 0" "\<not> length lookup_digits \<le> unat (v mod r)" "r \<noteq> 1"
      and run: "itoa_loop (v div r) r (acc @ [lookup_digits ! unat (v mod r)]) = Inr ds"
      using 1(2) by (simp_all add: itoa_loop.simps [of v] split: if_splits)
    let ?d = "lookup_digits ! unat (v mod r)" and ?ds = "drop (Suc (length acc)) ds"
    have "unat (v div r) < unat v" using u32_gt_1 [OF c(1,3)] False by (simp add: unat_div unat_gt_0)
    then have len: "length ?ds < unat v" "take (Suc (length acc)) ds = acc @ [?d]" using itoa_loop_length [OF run] by auto
    have ds: "drop (length acc) ds = ?d # ?ds"
    proof -
      have "drop (length acc) (take (Suc (length acc)) ds @ ?ds) = ?d # ?ds" unfolding len(2) by simp
      then show ?thesis by simp
    qed
    have "blit (blit m p 1 (\<lambda>_. ?d)) (p + of_nat 1) (length ?ds) ((!) ?ds) = blit m p (1 + length ?ds) (\<lambda>i. if i < 1 then ?d else ?ds ! (i - 1))"
      using len(1) unat_lt32 [of v] by (intro blit_append) simp
    also have "\<dots> = blit m p (Suc (length ?ds)) ((!) (?d # ?ds))" by (auto intro!: blit_cong simp: nth_Cons')
    finally show ?thesis using 1(1) [OF False c run, of "m(p := ?d)" "p + 1"] False c
      by (subst ece391_itoa_loop.simps) (simp add: ds blit_update algebra_simps)
  qed
qed

lemma sint_small: "- (2 ^ 31) \<le> k \<Longrightarrow> k < 2 ^ 31 \<Longrightarrow> sint (word_of_int k :: u32) = k"
  by (simp add: signed_of_int signed_take_bit_int_eq_self)

lemma ece391_itoa_eq:
  assumes "2 \<le> unat radix" "unat radix \<le> 36" and ds: "itoa v radix = Inr ds"
  shows "ece391_itoa m v buf radix = Inr (blit m buf (Suc (length ds)) (\<lambda>k. (ds @ [0]) ! k))"
proof (cases "v = 0")
  case True
  then have "ds = [48]" using ds by (simp add: itoa_def)
  moreover have "m(buf := 48, buf + 1 := 0) = blit m buf 2 (\<lambda>k. [48, 0] ! k)"
  proof -
    have "blit (blit m buf 1 (\<lambda>_. 48)) (buf + of_nat 1) 1 (\<lambda>_. 0) = blit m buf (1 + 1) (\<lambda>i. if i < 1 then 48 else 0)"
      by (rule blit_append) simp
    also have "\<dots> = blit m buf 2 (\<lambda>k. [48, 0] ! k)" by (simp add: numeral_2_eq_2) (auto intro!: blit_cong simp: nth_Cons')
    finally show ?thesis by (simp add: blit_update)
  qed
  ultimately show ?thesis using True by (simp add: ece391_itoa_def numeral_2_eq_2)
next
  case False
  obtain xs where xs: "itoa_loop v radix [] = Inr xs" and ds': "ds = strrev xs" using ds False by (auto simp: itoa_def res_bind_eq_Inr)
  obtain gs where gs: "xs = rev (map ((!) lookup_digits) gs)" "\<forall>d \<in> set gs. d < unat radix" "length gs \<le> 32"
    using itoa_loop_digits [OF assms(1,2), of v "[]"] xs by auto
  have "lookup_digits ! d \<noteq> 0" if "d \<in> set gs" for d using that gs(2) assms(2) by (intro lookup_digit_nonzero) fastforce
  then have nz: "0 \<notin> set xs" unfolding gs(1) by (metis (no_types, lifting) imageE set_map set_rev)
  have len: "length xs \<le> 32" using gs by simp
  let ?m = "blit m buf (length xs) ((!) xs)"
  have loop: "ece391_itoa_loop m buf v radix = Inr (?m, buf + of_nat (length xs))" using itoa_loop_mem [OF xs, of m buf] by simp
  have z: "?m(buf + of_nat (length xs) := 0) = blit m buf (length (xs @ [0])) ((!) (xs @ [0]))"
  proof -
    have "blit ?m (buf + of_nat (length xs)) 1 (\<lambda>_. 0) = blit m buf (length xs + 1) (\<lambda>i. if i < length xs then xs ! i else 0)"
      using len by (intro blit_append) simp
    also have "\<dots> = blit m buf (length (xs @ [0])) ((!) (xs @ [0]))" by (auto intro!: blit_cong simp: nth_append)
    finally show ?thesis by (simp add: blit_update)
  qed
  have "holds_str (ptr_at (blit m buf (length (xs @ [0])) ((!) (xs @ [0]))) buf) xs"
    using nz len by (auto simp: holds_str_def blit_in nth_append in_set_conv_nth)
  from strlen_holds [OF this] have sl: "ece391_strlen (blit m buf (length (xs @ [0])) ((!) (xs @ [0]))) buf = Some (of_nat (length xs))"
    by (simp add: ece391_strlen_eq)
  have e: "sint (of_nat (length xs) - 1 :: u32) = int (length xs) - 1"
  proof -
    have "(of_nat (length xs) - 1 :: u32) = word_of_int (int (length xs) - 1)" by simp
    also have "sint \<dots> = int (length xs) - 1" using len by (intro sint_small) simp_all
    finally show ?thesis .
  qed
  have rev: "ece391_strrev (blit m buf (length (xs @ [0])) ((!) (xs @ [0]))) buf
      = Inr (blit m buf (length (xs @ [0])) ((!) (strrev_loop (xs @ [0]) 0 (int (length xs) - 1))))"
  proof (cases "int (length xs) - 1 \<le> 0")
    case True
    then have "strrev_loop (xs @ [0]) 0 (int (length xs) - 1) = xs @ [0]" by (subst strrev_loop.simps) simp
    then show ?thesis using True unfolding ece391_strrev_def sl opt_res_simps res_bind_simps Let_def e by (simp only: if_True)
  next
    case False
    then show ?thesis using strrev_loop_mem [of 0 "int (length xs) - 1" "xs @ [0]" m buf] len
      unfolding ece391_strrev_def sl opt_res_simps res_bind_simps Let_def e by simp
  qed
  have "strrev_loop (xs @ [0]) 0 (int (length xs) - 1) = ds @ [0]"
    unfolding ds' strrev_rev [OF nz]
    by (rule nth_equalityI) (auto simp: nth_strrev_loop nth_append rev_nth nat_diff_distrib' intro!: arg_cong [where f = "(!) xs"])
  then show ?thesis using False loop z rev by (simp add: ece391_itoa_def ds' strrev_rev [OF nz])
qed

text \<open>
  C32. The string library of the user programs agrees with the kernel's. The lengths and the copies are the same on every memory and for
  every overlap, also where the scan never ends; bounded comparison finds the same strings equal, though the one compares unsigned and
  the other signed bytes; and for every radix from 2 to 36 the user's \<open>itoa\<close>, which works in the caller's buffer, leaves
  there exactly the digits of the kernel's, with a terminator, and changes no other byte.
\<close>

theorem user_library_agrees:
  assumes "2 \<le> unat radix" "unat radix \<le> 36"
  shows "ece391_strlen m p = strlen (ptr_at m p)
    \<and> ece391_strcpy m p q = strcpy m p (\<lambda>m. ptr_at m q)
    \<and> (ece391_strncmp m p q n = 0 \<longleftrightarrow> strncmp (ptr_at m p) (ptr_at m q) n = 0)
    \<and> (\<exists>ds. itoa v radix = Inr ds \<and> ece391_itoa m v p radix = Inr (blit m p (Suc (length ds)) (\<lambda>k. (ds @ [0]) ! k)))"
proof -
  obtain ds where "itoa v radix = Inr ds" using itoa_digits [OF assms, of v] by (cases "v = 0") (auto simp: itoa_def)
  then show ?thesis using ece391_itoa_eq [OF assms] by (simp add: ece391_strlen_eq ece391_strcpy_eq ece391_strncmp_zero)
qed

theorem user_library_agrees_witness:
  "\<exists>ds. itoa 255 16 = Inr ds \<and> ece391_itoa (\<lambda>_. 7) 255 0x8048000 16 = Inr (blit (\<lambda>_. 7) 0x8048000 (Suc (length ds)) (\<lambda>k. (ds @ [0]) ! k))"
  using user_library_agrees [of 16 "\<lambda>_. 7" "0x8048000" 0 0 255] by simp

text \<open>The unbounded comparison, on terminated strings.\<close>

lemma ece391_strcmp_holds:
  assumes "holds_str (ptr_at m p) xs" and "holds_str (ptr_at m q) ys"
  shows "\<exists>r. ece391_strcmp m p q = Some r \<and> (r = 0 \<longleftrightarrow> xs = ys)"
  using assms
proof (induction xs arbitrary: ys p q)
  case Nil
  have "m p = 0" using Nil(1) by (simp add: holds_str_def)
  moreover have "m q = 0 \<longleftrightarrow> ys = []" using Nil(2) by (cases ys) (auto simp: holds_str_def dest: spec [of _ 0])
  ultimately show ?case by (subst ece391_strcmp.simps) (auto simp: uint_0_iff)
next
  case (Cons x xs)
  have p: "m p = x" "x \<noteq> 0" using Cons(2) by (auto simp: holds_str_def dest: spec [of _ 0])
  have tl: "holds_str (ptr_at m (r + 1)) zs" if "holds_str (ptr_at m r) (z # zs)" for r z zs
    using that by (auto simp: holds_str_def nth_Cons' add.assoc dest: spec [of _ "Suc _"])
  show ?case
  proof (cases ys)
    case Nil
    then have "m q = 0" using Cons(3) by (simp add: holds_str_def)
    then show ?thesis using p Nil by (subst ece391_strcmp.simps) (auto simp: uint_0_iff)
  next
    case ys: (Cons y ys')
    have q: "m q = y" using Cons(3) ys by (auto simp: holds_str_def dest: spec [of _ 0])
    show ?thesis
    proof (cases "x = y")
      case True
      then show ?thesis using Cons(1) [OF tl [OF Cons(2)] tl [OF Cons(3) [unfolded ys]]] p q ys by (subst ece391_strcmp.simps) simp
    next
      case False
      then show ?thesis using p q ys by (subst ece391_strcmp.simps) (simp add: word_uint_eq_iff)
    qed
  qed
qed

end
