(* ===== verification/Syserr.thy ===== *)
theory Syserr
  imports Ulib
begin

text \<open>
  The program \<^verbatim>\<open>syscalls/ece391syserr.c\<close>: eight tests of how the system refuses bad calls, and the
  menu around them. Each test prints a line for every call that is not refused and then its
  verdict. The buffers on the program's stack are parameters. The locale \<open>refusing_system\<close> states what the
  tests expect of the system; the interpretation on the kernel is with the kernel's calls.
\<close>

section \<open>The tests\<close>

abbreviation (input) NEG_FD :: int where "NEG_FD \<equiv> -1073741823"

abbreviation (input) BIG_FD :: int where "BIG_FD \<equiv> 1073741823"

abbreviation (input) BIG_NUM :: int where "BIG_NUM \<equiv> 1073741823"

abbreviation (input) NEG_NUM :: int where "NEG_NUM \<equiv> -1073741823"

text \<open>The inline assembly sets \<open>eax\<close> only; the other registers hold what they held.\<close>

definition call_sys :: "'s os \<Rightarrow> u32 \<times> u32 \<times> u32 \<Rightarrow> int \<Rightarrow> 's \<Rightarrow> (int \<times> 's) res" where
  "call_sys os regs num = (case regs of (ebx, ecx, edx) \<Rightarrow> trap os (word_of_int num) ebx ecx edx)"

text \<open>The statement \<open>if (-1 != call) { fail = 2; print }\<close>.\<close>

definition expect_refused :: "'s os \<Rightarrow> ('s \<Rightarrow> (int \<times> 's) res) \<Rightarrow> string \<Rightarrow> int \<times> 's \<Rightarrow> (int \<times> 's) res" where
  "expect_refused os call msg st =
     (let (fail, s) = st
      in res_bind (call s) (\<lambda>(r, s).
         if - 1 \<noteq> r then res_bind (put_lit os msg s) (\<lambda>s. Inr (2, s)) else Inr (fail, s)))"

definition verdict :: "'s os \<Rightarrow> string \<Rightarrow> int \<times> 's \<Rightarrow> (int \<times> 's) res" where
  "verdict os name st =
     (let (fail, s) = st
      in res_bind (if fail \<noteq> 0 then put_lit os (name @ '': FAIL'' @ [CHR 0x0A]) s else put_lit os (name @ '': PASS'' @ [CHR 0x0A]) s)
           (\<lambda>s. Inr (fail, s)))"

definition err_neg_fd :: "'s os \<Rightarrow> u32 \<Rightarrow> 's \<Rightarrow> (int \<times> 's) res" where
  "err_neg_fd os buf s =
     res_bind (expect_refused os (ece391_read os NEG_FD buf 31) (''read fail'' @ [CHR 0x0A]) (0, s)) (\<lambda>st.
     res_bind (expect_refused os (ece391_write os NEG_FD buf 31) (''write fail'' @ [CHR 0x0A]) st) (\<lambda>st.
     res_bind (expect_refused os (ece391_close os NEG_FD) (''close fail'' @ [CHR 0x0A]) st) (\<lambda>st.
     verdict os ''err_neg_fd'' st)))"

definition err_big_fd :: "'s os \<Rightarrow> u32 \<Rightarrow> 's \<Rightarrow> (int \<times> 's) res" where
  "err_big_fd os buf s =
     res_bind (expect_refused os (ece391_read os BIG_FD buf 31) (''read fail'' @ [CHR 0x0A]) (0, s)) (\<lambda>st.
     res_bind (expect_refused os (ece391_write os BIG_FD buf 31) (''write fail'' @ [CHR 0x0A]) st) (\<lambda>st.
     res_bind (expect_refused os (ece391_close os BIG_FD) (''close fail'' @ [CHR 0x0A]) st) (\<lambda>st.
     verdict os ''err_big_fd'' st)))"

text \<open>The two loops of \<open>err_open_lots\<close>, over the remaining rounds and over the descriptors.\<close>

fun open_lots :: "'s os \<Rightarrow> nat \<Rightarrow> int \<times> 's \<Rightarrow> (int \<times> 's) res" where
  "open_lots os 0 st = Inr st"
| "open_lots os (Suc k) st =
     (let (cnt, s) = st
      in case ece391_open os (lit os ''.'') s of Inl e \<Rightarrow> Inl e
         | Inr (r, s) \<Rightarrow> open_lots os k (if - 1 = r then cnt + 1 else cnt, s))"

fun close_all :: "'s os \<Rightarrow> int list \<Rightarrow> 's \<Rightarrow> 's res" where
  "close_all os [] s = Inr s"
| "close_all os (i # js) s = (case ece391_close os i s of Inl e \<Rightarrow> Inl e | Inr (r, s) \<Rightarrow> close_all os js s)"

definition err_open_lots :: "'s os \<Rightarrow> 's \<Rightarrow> (int \<times> 's) res" where
  "err_open_lots os s =
     res_bind (open_lots os 7 (0, s)) (\<lambda>(cnt, s).
     res_bind (close_all os [2..7] s) (\<lambda>s.
     if cnt = 1 then res_bind (put_lit os (''err_open_lots: PASS'' @ [CHR 0x0A]) s) (\<lambda>s. Inr (0, s))
     else res_bind (put_lit os (''err_open_lots: FAIL'' @ [CHR 0x0A]) s) (\<lambda>s. Inr (2, s))))"

definition err_open :: "'s os \<Rightarrow> 's \<Rightarrow> (int \<times> 's) res" where
  "err_open os s =
     res_bind (expect_refused os (ece391_open os (lit os ''helloo'')) ([CHR 0x27] @ ''helloo'' @ [CHR 0x27] @ '' fail'' @ [CHR 0x0A]) (0, s)) (\<lambda>st.
     res_bind (expect_refused os (ece391_open os (lit os ''shel'')) ([CHR 0x27] @ ''shel'' @ [CHR 0x27] @ '' fail'' @ [CHR 0x0A]) st) (\<lambda>st.
     res_bind (expect_refused os (ece391_open os (lit os [])) (''empty string fail'' @ [CHR 0x0A]) st) (\<lambda>st.
     verdict os ''err_open'' st)))"

fun expect_each :: "'s os \<Rightarrow> (int \<Rightarrow> 's \<Rightarrow> (int \<times> 's) res) \<Rightarrow> string \<Rightarrow> int list \<Rightarrow> int \<times> 's \<Rightarrow> (int \<times> 's) res" where
  "expect_each os call msg [] st = Inr st"
| "expect_each os call msg (i # js) st =
     (case expect_refused os (call i) msg st of Inl e \<Rightarrow> Inl e | Inr st \<Rightarrow> expect_each os call msg js st)"

definition err_unopened :: "'s os \<Rightarrow> u32 \<Rightarrow> 's \<Rightarrow> (int \<times> 's) res" where
  "err_unopened os buf s =
     res_bind (expect_each os (ece391_close os) (''close unopened or invalid fd fail'' @ [CHR 0x0A]) [0..7] (0, s)) (\<lambda>st.
     res_bind (expect_each os (\<lambda>i. ece391_read os i buf 31) (''read from unopened fd fail'' @ [CHR 0x0A]) [2..7] st) (\<lambda>st.
     res_bind (expect_each os (\<lambda>i. ece391_write os i buf 31) (''write to unopened fd fail'' @ [CHR 0x0A]) [2..7] st) (\<lambda>st.
     verdict os ''err_unopened'' st)))"

definition err_vidmap :: "'s os \<Rightarrow> 's \<Rightarrow> (int \<times> 's) res" where
  "err_vidmap os s =
     res_bind (expect_refused os (ece391_vidmap os 0) (''Null pointer fail'' @ [CHR 0x0A]) (0, s)) (\<lambda>st.
     res_bind (expect_refused os (ece391_vidmap os 0x400000) (''Kernel pointer fail fail'' @ [CHR 0x0A]) st) (\<lambda>st.
     verdict os ''err_vidmap'' st))"

definition err_stdin_out :: "'s os \<Rightarrow> u32 \<Rightarrow> 's \<Rightarrow> (int \<times> 's) res" where
  "err_stdin_out os buf s =
     res_bind (expect_refused os (ece391_write os 0 buf 31) (''write to stdin fail'' @ [CHR 0x0A]) (0, s)) (\<lambda>st.
     res_bind (expect_refused os (ece391_read os 1 buf 31) (''read from stdout fail'' @ [CHR 0x0A]) st) (\<lambda>st.
     verdict os ''err_stdin_out'' st))"

definition err_syscall_num :: "'s os \<Rightarrow> u32 \<times> u32 \<times> u32 \<Rightarrow> 's \<Rightarrow> (int \<times> 's) res" where
  "err_syscall_num os regs s =
     res_bind (expect_refused os (call_sys os regs BIG_NUM) (''syscall 0 fail'' @ [CHR 0x0A]) (0, s)) (\<lambda>st.
     res_bind (expect_refused os (call_sys os regs NEG_NUM) (''big num syscall fail'' @ [CHR 0x0A]) st) (\<lambda>st.
     res_bind (expect_refused os (call_sys os regs 0) (''neg num syscall fail'' @ [CHR 0x0A]) st) (\<lambda>st.
     verdict os ''err_syscall_num'' st)))"

text \<open>The statement \<open>fail += test()\<close>.\<close>

definition add_test :: "('s \<Rightarrow> (int \<times> 's) res) \<Rightarrow> int \<times> 's \<Rightarrow> (int \<times> 's) res" where
  "add_test test st = (let (fail, s) = st in res_bind (test s) (\<lambda>(r, s). Inr (fail + r, s)))"

definition all_tests :: "'s os \<Rightarrow> u32 \<times> u32 \<times> u32 \<Rightarrow> u32 \<Rightarrow> 's \<Rightarrow> (int \<times> 's) res" where
  "all_tests os regs buf s =
     res_bind (add_test (err_neg_fd os buf) (0, s)) (\<lambda>st.
     res_bind (add_test (err_big_fd os buf) st) (\<lambda>st.
     res_bind (add_test (err_open_lots os) st) (\<lambda>st.
     res_bind (add_test (err_open os) st) (\<lambda>st.
     res_bind (add_test (err_unopened os buf) st) (\<lambda>st.
     res_bind (add_test (err_vidmap os) st) (\<lambda>st.
     res_bind (add_test (err_stdin_out os buf) st) (\<lambda>st.
     res_bind (add_test (err_syscall_num os regs) st) (\<lambda>(fail, s).
     res_bind (if fail \<noteq> 0 then put_lit os ([CHR 0x0A] @ ''Overall Tests: FAIL'' @ [CHR 0x0A]) s
               else put_lit os ([CHR 0x0A] @ ''Overall Tests: PASS'' @ [CHR 0x0A]) s) (\<lambda>s. Inr (fail, s))))))))))"

definition syserr_main :: "'s os \<Rightarrow> u32 \<times> u32 \<times> u32 \<Rightarrow> u32 \<Rightarrow> u32 \<Rightarrow> 's \<Rightarrow> (int \<times> 's) res" where
  "syserr_main os regs buf buf32 s =
     res_bind (put_lit os ''Choose from tests 1-8. 0 to run all: '' s) (\<lambda>s.
     res_bind (ece391_read os 0 buf 127 s) (\<lambda>(cnt, s).
     if - 1 = cnt then res_bind (put_lit os (''Can'' @ [CHR 0x27] @ ''t read test #'' @ [CHR 0x0A]) s) (\<lambda>s. Inr (2, s))
     else let select = uint (umem os s buf) - 48
          in if select = 0 then all_tests os regs buf32 s
             else if select = 1 then err_neg_fd os buf32 s
             else if select = 2 then err_big_fd os buf32 s
             else if select = 3 then err_open_lots os s
             else if select = 4 then err_open os s
             else if select = 5 then err_unopened os buf32 s
             else if select = 6 then err_vidmap os s
             else if select = 7 then err_stdin_out os buf32 s
             else if select = 8 then err_syscall_num os regs s
             else res_bind (put_lit os ''Invalid test number. Choose from tests 1-8 or 0'' s) (\<lambda>s. Inr (0, s))))"

section \<open>What the tests rely on\<close>

text \<open>A test passes when it prints its verdict and nothing else, and returns 0.\<close>

definition passes :: "'s os \<Rightarrow> string \<Rightarrow> ('s \<Rightarrow> (int \<times> 's) res) \<Rightarrow> 's \<Rightarrow> bool" where
  "passes os name test s \<longleftrightarrow> test s = res_bind (put_lit os (name @ '': PASS'' @ [CHR 0x0A]) s) (\<lambda>s. Inr (0, s))"

lemma expect_refused_simp: "call s = Inr (- 1, s) \<Longrightarrow> expect_refused os call msg (fail, s) = Inr (fail, s)"
  by (simp add: expect_refused_def)

lemma expect_each_simp: "\<forall>i \<in> set js. call i s = Inr (- 1, s) \<Longrightarrow> expect_each os call msg js (fail, s) = Inr (fail, s)"
  by (induction js) (simp_all add: expect_refused_simp)

lemma verdict_simp: "verdict os name (0, s) = res_bind (put_lit os (name @ '': PASS'' @ [CHR 0x0A]) s) (\<lambda>s. Inr (0, s))"
  by (simp add: verdict_def)

text \<open>A system that refuses bad calls: \<open>refused\<close> calls return -1 and have no effect, and they include the call numbers, descriptors,
  directions and pointers the tests try.\<close>

locale refusing_system =
  fixes os :: "'s os"
    and refused :: "u32 \<Rightarrow> u32 \<Rightarrow> u32 \<Rightarrow> 's \<Rightarrow> bool"
  assumes refuse: "refused eax ebx ecx s \<Longrightarrow> trap os eax ebx ecx edx s = Inr (- 1, s)"
    and bad_number: "sint eax < 1 \<or> 10 < sint eax \<Longrightarrow> refused eax ebx ecx s"
    and bad_descriptor: "sint ebx < 0 \<or> 8 \<le> sint ebx \<Longrightarrow> eax \<in> {3, 4, 6} \<Longrightarrow> refused eax ebx ecx s"
    and one_way: "refused 3 1 ecx s" "refused 4 0 ecx s"
    and standard_stays: "refused 6 0 ecx s" "refused 6 1 ecx s"
    and screen_in_page: "ebx < 0x08000000 \<Longrightarrow> refused 8 ebx ecx s"
begin

lemmas wrappers = ece391_read_def ece391_write_def ece391_close_def ece391_vidmap_def ece391_open_def call_sys_def

lemma calls_refused:
  "sint (word_of_int fd :: u32) < 0 \<or> 8 \<le> sint (word_of_int fd :: u32) \<Longrightarrow> ece391_read os fd buf n s = Inr (- 1, s)"
  "sint (word_of_int fd :: u32) < 0 \<or> 8 \<le> sint (word_of_int fd :: u32) \<Longrightarrow> ece391_write os fd buf n s = Inr (- 1, s)"
  "sint (word_of_int fd :: u32) < 0 \<or> 8 \<le> sint (word_of_int fd :: u32) \<Longrightarrow> ece391_close os fd s = Inr (- 1, s)"
  by (simp_all add: wrappers refuse bad_descriptor)

lemma descriptors_pass: "passes os ''err_neg_fd'' (err_neg_fd os buf) s" "passes os ''err_big_fd'' (err_big_fd os buf) s"
  by (simp_all add: passes_def err_neg_fd_def err_big_fd_def calls_refused expect_refused_simp verdict_simp)

lemma vidmap_passes: "passes os ''err_vidmap'' (err_vidmap os) s"
  by (simp add: passes_def err_vidmap_def wrappers refuse screen_in_page expect_refused_simp verdict_simp)

lemma stdin_out_passes: "passes os ''err_stdin_out'' (err_stdin_out os buf) s"
  by (simp add: passes_def err_stdin_out_def wrappers refuse one_way expect_refused_simp verdict_simp)

lemma syscall_num_passes: "passes os ''err_syscall_num'' (err_syscall_num os regs) s"
  by (cases regs) (simp add: passes_def err_syscall_num_def wrappers refuse bad_number expect_refused_simp verdict_simp)

lemma unopened_passes:
  assumes "\<And>fd. fd \<in> {2..7} \<Longrightarrow> refused 3 (word_of_int fd) buf s \<and> refused 4 (word_of_int fd) buf s \<and> refused 6 (word_of_int fd) 0 s"
  shows "passes os ''err_unopened'' (err_unopened os buf) s"
proof -
  have fds: "set [0..7 :: int] = insert 0 (insert 1 {2..7})" "set [2..7 :: int] = {2..7}" by auto
  have c: "\<forall>i \<in> set [0..7]. ece391_close os i s = Inr (- 1, s)"
    unfolding fds using assms standard_stays [of 0 s] by (auto simp: wrappers intro!: refuse)
  have r: "\<forall>i \<in> set [2..7]. ece391_read os i buf 31 s = Inr (- 1, s)" and w: "\<forall>i \<in> set [2..7]. ece391_write os i buf 31 s = Inr (- 1, s)"
    unfolding fds using assms by (auto simp: wrappers intro!: refuse)
  show ?thesis
    unfolding passes_def err_unopened_def expect_each_simp [where call = "ece391_close os", OF c] res_bind_simps
      expect_each_simp [where call = "\<lambda>i. ece391_read os i buf 31", OF r] expect_each_simp [where call = "\<lambda>i. ece391_write os i buf 31", OF w]
      verdict_simp by (rule refl)
qed

lemma open_passes:
  assumes "refused 5 (lit os ''helloo'') 0 s" "refused 5 (lit os ''shel'') 0 s" "refused 5 (lit os []) 0 s"
  shows "passes os ''err_open'' (err_open os) s"
  using assms by (simp add: passes_def err_open_def wrappers refuse expect_refused_simp verdict_simp)

end

end
