(* ===== verification/Ukernel.thy ===== *)
theory Ukernel
  imports Idt Syserr
begin

text \<open>
  The kernel as the system under the user programs: interrupt 128 goes through \<open>handler_syscall\<close> of the model, with the
  interrupts that arrive meanwhile in the state. The contracts of the program theories are interpreted here.
\<close>

section \<open>The kernel as a system\<close>

text \<open>A call that does not come back to the program, such as \<open>halt\<close> or the start of another program, is not a result here.\<close>

definition kernel_os :: "symbols \<Rightarrow> env \<Rightarrow> ('i \<Rightarrow> 'a sys_scheme \<Rightarrow> 'a sys_scheme) \<Rightarrow> exec_locals \<Rightarrow> (string \<Rightarrow> u32)
    \<Rightarrow> ('i list \<times> 'a sys_scheme) os" where
  "kernel_os sy env handler lo literals =
     \<lparr>trap = (\<lambda>eax ebx ecx edx (js, s). res_bind (handler_syscall sy env handler lo js eax ebx ecx edx s) (\<lambda>(r, js, s).
        case r of Returned n \<Rightarrow> Inr (n, (js, s)) | _ \<Rightarrow> Inl Unmodelled)),
      umem = (\<lambda>(js, s). mem s), set_umem = (\<lambda>m (js, s). (js, s\<lparr>mem := m\<rparr>)), lit = literals\<rparr>"

lemma kernel_os_simps [simp]:
  "umem (kernel_os sy env handler lo literals) (js, s) = mem s"
  "set_umem (kernel_os sy env handler lo literals) m (js, s) = (js, s\<lparr>mem := m\<rparr>)"
  "lit (kernel_os sy env handler lo literals) = literals"
  by (simp_all add: kernel_os_def)

lemma kernel_trap:
  assumes "sys_call sy env handler lo js eax ebx ecx edx (sti (cli s)) = Inr (Returned r, js', s')" and "1 \<le> sint eax" "sint eax \<le> 10"
  shows "trap (kernel_os sy env handler lo literals) eax ebx ecx edx (js, s) = Inr (r, (js', restore_flags (iflag s) s'))"
  using assms by (simp add: kernel_os_def handler_syscall_def Let_def)

section \<open>Refused calls\<close>

text \<open>Beside the bad calls, an \<open>open\<close> of a name that no directory entry has.\<close>

definition refused_call :: "u32 \<Rightarrow> u32 \<Rightarrow> u32 \<Rightarrow> 'i list \<times> 'a sys_scheme \<Rightarrow> bool" where
  "refused_call eax ebx ecx st \<longleftrightarrow> bad_call eax ebx ecx (snd st)
     \<or> eax = 5 \<and> (\<exists>ns xs. directory (fs_info (snd st)) (mem (snd st)) ns \<and> holds_str (ptr_at (mem (snd st)) ebx) xs \<and> length xs \<le> 32 \<and> xs \<notin> set ns)"

lemma open_missing:
  assumes "directory (fs_info s) (mem s) ns" "holds_str (ptr_at (mem s) filename) xs" "length xs \<le> 32" "xs \<notin> set ns"
  shows "open_sc sy env junk filename s = Inr (- 1, s)"
proof -
  have "read_dentry_by_name (fs_info s) (mem s) (Some (ptr_at (mem s) filename)) (Some junk) = Inr (- 1, Some junk)"
    using find_name_miss [OF assms(1-3), of 0 junk] assms
    by (auto simp: read_dentry_by_name_def strlen_holds name_length in_set_conv_nth)
  then show ?thesis by (simp add: open_sc_def Let_def split: option.splits)
qed

lemma handler_refuses:
  assumes "refused_call eax ebx ecx (js, s)"
  shows "handler_syscall sy env handler lo js eax ebx ecx edx s = Inr (Returned (- 1), js, s)"
proof (cases "bad_call eax ebx ecx s")
  case bad: True
  show ?thesis
  proof (cases "sint eax < 1 \<or> 10 < sint eax")
    case True
    then show ?thesis by (simp add: handler_syscall_def Let_def flags_round_trip)
  next
    case False
    then have "sys_call sy env handler lo js eax ebx ecx edx (sti (cli s)) = Inr (Returned (- 1), js, sti (cli s))"
      using bad by (intro sys_call_refused) (simp_all add: bad_call_flags)
    with False show ?thesis by (simp add: handler_syscall_def Let_def flags_round_trip)
  qed
next
  case False
  then obtain ns xs where m: "eax = 5" "directory (fs_info s) (mem s) ns" "holds_str (ptr_at (mem s) ebx) xs" "length xs \<le> 32" "xs \<notin> set ns"
    using assms by (auto simp: refused_call_def)
  then have "open_sc sy env (junk_dentry lo) ebx (sti (cli s)) = Inr (- 1, sti (cli s))"
    using open_missing [of "sti (cli s)" ns ebx xs sy env "junk_dentry lo"] by (simp add: cli_def sti_def)
  then show ?thesis using m(1) by (simp add: handler_syscall_def sys_call_def Let_def flags_round_trip)
qed

interpretation ros: refusing_system "kernel_os sy env handler lo literals" refused_call for sy env handler lo literals
proof
  fix eax ebx ecx edx :: u32 and st :: "'a list \<times> 'b sys_scheme"
  assume "refused_call eax ebx ecx st"
  then show "trap (kernel_os sy env handler lo literals) eax ebx ecx edx st = Inr (- 1, st)"
    using handler_refuses [of eax ebx ecx "fst st" "snd st" sy env handler lo edx] by (cases st) (simp add: kernel_os_def)
qed (auto simp: refused_call_def bad_call_def Let_def)

section \<open>The descriptor table behind the traps\<close>

text \<open>A system whose \<open>open\<close> and \<open>close\<close> keep a descriptor table: the test that opens too many descriptors passes on it, and
  gives the table back.\<close>

locale table_system = descriptor_table tab "ece391_open os" "ece391_close os" ok valid entry
  for os :: "'s os" and tab :: "'s \<Rightarrow> int \<Rightarrow> 'e option" and ok :: "'s \<Rightarrow> bool" and valid :: "u32 \<Rightarrow> 's \<Rightarrow> bool" and entry :: "u32 \<Rightarrow> 's \<Rightarrow> 'e"
begin

definition used :: "int \<Rightarrow> 's \<Rightarrow> bool" where
  "used n s \<longleftrightarrow> (\<forall>fd. 0 \<le> fd \<and> fd < 8 \<longrightarrow> (tab s fd \<noteq> None \<longleftrightarrow> fd < n))"

lemma used_lowest: "used n s \<Longrightarrow> 0 \<le> n \<Longrightarrow> n < 8 \<Longrightarrow> lowest_free (tab s) n"
  by (auto simp: used_def lowest_free_def)

lemma open_next:
  assumes "ok s" "valid f s" "used n s" "0 \<le> n" "n < 8"
  shows "\<exists>s'. ece391_open os f s = Inr (n, s') \<and> ok s' \<and> valid f s' \<and> used (n + 1) s' \<and> (\<forall>fd < n. tab s' fd = tab s fd)"
proof -
  obtain s' where s': "ece391_open os f s = Inr (n, s')" "ok s'" "tab s' = (tab s)(n \<mapsto> entry f s)" "valid f s'"
    using opn_free [OF assms(1,2) used_lowest [OF assms(3-5)]] assms(2) by blast
  moreover have "used (n + 1) s'" using assms(3) by (auto simp: used_def s'(3))
  ultimately show ?thesis by auto
qed

lemma open_lots_counts:
  "ok s \<Longrightarrow> valid (lit os ''.'') s \<Longrightarrow> k \<le> 6 \<Longrightarrow> used (8 - int k) s \<Longrightarrow>
    \<exists>s'. open_lots os (Suc k) (0, s) = Inr (1, s') \<and> ok s' \<and> used 8 s' \<and> (\<forall>fd < 8 - int k. tab s' fd = tab s fd)"
proof (induction k arbitrary: s)
  case 0
  then have "ece391_open os (lit os ''.'') s = Inr (- 1, s)" by (intro opn_full) (auto simp: used_def table_full_def)
  then show ?case using 0 by auto
next
  case (Suc k)
  define n where "n = 8 - int (Suc k)"
  have n: "n + 1 = 8 - int k" "0 \<le> n" "n < 8" "n \<noteq> - 1" using Suc.prems(3) by (simp_all add: n_def)
  obtain t where t: "ece391_open os (lit os ''.'') s = Inr (n, t)" "ok t" "valid (lit os ''.'') t" "used (8 - int k) t" "\<forall>fd < n. tab t fd = tab s fd"
    using open_next [OF Suc.prems(1,2) Suc.prems(4) [folded n_def] n(2,3)] n(1) by auto
  obtain s' where "open_lots os (Suc k) (0, t) = Inr (1, s')" "ok s'" "used 8 s'" "\<forall>fd < n + 1. tab s' fd = tab t fd"
    using Suc.IH [OF t(2,3) _ t(4)] Suc.prems(3) n(1) by auto
  then show ?case using t n by (auto simp: n_def [symmetric])
qed

lemma close_all_frees:
  "ok s \<Longrightarrow> set js \<subseteq> {2..7} \<Longrightarrow> distinct js \<Longrightarrow> \<forall>fd \<in> set js. tab s fd \<noteq> None \<Longrightarrow>
    \<exists>s'. close_all os js s = Inr s' \<and> ok s' \<and> (\<forall>fd. tab s' fd = (if fd \<in> set js then None else tab s fd))"
proof (induction js arbitrary: s)
  case (Cons i js)
  obtain t where t: "ece391_close os i s = Inr (0, t)" "ok t" "tab t = (tab s)(i := None)"
    using cls_used [of s i] Cons.prems by auto
  have "\<forall>fd \<in> set js. tab t fd \<noteq> None" using Cons.prems(3,4) t(3) by auto
  then obtain s' where "close_all os js t = Inr s'" "ok s'" "\<forall>fd. tab s' fd = (if fd \<in> set js then None else tab t fd)"
    using Cons.IH [OF t(2)] Cons.prems(2,3) by auto
  then show ?case using t by auto
qed simp

lemma open_lots_passes:
  assumes "ok s" "valid (lit os ''.'') s" "used 2 s"
  shows "\<exists>s'. err_open_lots os s = res_bind (put_lit os (''err_open_lots: PASS'' @ [CHR 0x0A]) s') (\<lambda>s. Inr (0, s))
    \<and> ok s' \<and> (\<forall>fd. 0 \<le> fd \<and> fd < 8 \<longrightarrow> tab s' fd = tab s fd)"
proof -
  have seven: "(7 :: nat) = Suc 6" by simp
  obtain t where t: "open_lots os 7 (0, s) = Inr (1, t)" "ok t" "used 8 t" "\<forall>fd < 2. tab t fd = tab s fd"
    using open_lots_counts [OF assms(1,2), of 6] assms(3) unfolding seven by auto
  have "set [2..7 :: int] \<subseteq> {2..7}" "distinct [2..7 :: int]" "\<forall>fd \<in> set [2..7]. tab t fd \<noteq> None"
    using t(3) by (simp, simp, simp add: used_def del: upto_rec_numeral)
  then obtain s' where s': "close_all os [2..7] t = Inr s'" "ok s'" "\<forall>fd. tab s' fd = (if fd \<in> set [2..7] then None else tab t fd)"
    using close_all_frees [OF t(2), of "[2..7]"] by blast
  have "tab s' fd = tab s fd" if "0 \<le> fd" "fd < 8" for fd
  proof (cases "fd < 2")
    case True
    then show ?thesis using s'(3) t(4) by (simp del: upto_rec_numeral)
  next
    case False
    then have "tab s fd = None" using that assms(3) unfolding used_def by blast
    then show ?thesis using False that s'(3) by (simp del: upto_rec_numeral)
  qed
  then show ?thesis using t(1) s'(1,2) by (intro exI [of _ s']) (simp add: err_open_lots_def del: upto_rec_numeral)
qed

end

text \<open>The flags a trap changes and restores are not part of the table.\<close>

lemma flags_kept:
  fixes s :: "'a sys_scheme"
  shows "fd_tab (restore_flags f s) = fd_tab s" "table_ok sy ns (restore_flags f s) = table_ok sy ns s" "name_ok ns n (restore_flags f s) = name_ok ns n s"
  "fresh_entry sy ns n (restore_flags f s) = fresh_entry sy ns n s"
proof -
  have "check_use fd (restore_flags f s) = check_use fd s" for fd by (simp add: check_use_def restore_flags_def)
  then show tab: "fd_tab (restore_flags f s) = fd_tab s" by (simp add: fd_tab_def fun_eq_iff restore_flags_def)
  have "systemcalls_initialize (restore_flags f s) = restore_flags f s \<longleftrightarrow> systemcalls_initialize s = s"
  proof -
    have "systemcalls_initialize (restore_flags f s) = restore_flags f (systemcalls_initialize s)"
      by (simp add: systemcalls_initialize_def restore_flags_def)
    moreover have "restore_flags f t = restore_flags f s \<longleftrightarrow> t = s" if "iflag t = iflag s" for t :: "'a sys_scheme"
    proof
      assume eq: "restore_flags f t = restore_flags f s"
      have twice: "restore_flags (iflag u) (restore_flags f u) = u" for u :: "'a sys_scheme" by (simp add: restore_flags_def)
      have "t = restore_flags (iflag t) (restore_flags f t)" by (simp only: twice)
      also have "\<dots> = s" by (simp only: that eq twice)
      finally show "t = s" .
    qed simp
    ultimately show ?thesis by (simp add: systemcalls_initialize_def)
  qed
  then show "table_ok sy ns (restore_flags f s) = table_ok sy ns s"
    unfolding table_ok_def fd_ok_def tab by (simp add: restore_flags_def)
qed (simp_all add: name_ok_def fresh_entry_def restore_flags_def Let_def)

lemma sti_cli: "sti (cli s) = restore_flags True s"
  by (simp add: sti_def cli_def restore_flags_def)

lemma flags_twice: "restore_flags f (restore_flags g s) = restore_flags f s" "restore_flags (iflag s) s = s"
  by (simp_all add: restore_flags_def)

lemma kernel_open:
  "open_sc sy env (junk_dentry lo) n (restore_flags True s) = Inr (r, s') \<Longrightarrow>
    ece391_open (kernel_os sy env handler lo literals) n (js, s) = Inr (r, (js, restore_flags (iflag s) s'))"
  unfolding ece391_open_def by (rule kernel_trap) (simp_all add: sys_call_def sti_cli)

lemma kernel_close:
  assumes "close_sc sy env fd (restore_flags True s) = Inr (r, s')" and "- (2 ^ 31) \<le> fd" "fd < 2 ^ 31"
  shows "ece391_close (kernel_os sy env handler lo literals) fd (js, s) = Inr (r, (js, restore_flags (iflag s) s'))"
  unfolding ece391_close_def using assms by (intro kernel_trap) (simp_all add: sys_call_def sti_cli sint_small)

interpretation ufd: table_system "kernel_os sy env handler lo literals" "fd_tab \<circ> snd" "table_ok sy ns \<circ> snd" "\<lambda>n. name_ok ns n \<circ> snd" "\<lambda>n. fresh_entry sy ns n \<circ> snd"
  for sy env handler lo literals ns
proof
  fix st :: "'a list \<times> 'b sys_scheme" and n fd
  obtain js s where st: "st = (js, s)" by (cases st)
  let ?t = "restore_flags True s"
  assume "(table_ok sy ns \<circ> snd) st" "(name_ok ns n \<circ> snd) st" "lowest_free ((fd_tab \<circ> snd) st) fd"
  then obtain s' where s': "open_sc sy env (junk_dentry lo) n ?t = Inr (fd, s')" "table_ok sy ns s'" "fd_tab s' = (fd_tab ?t)(fd \<mapsto> fresh_entry sy ns n ?t)"
      "\<forall>k. name_ok ns k ?t \<longrightarrow> name_ok ns k s' \<and> fresh_entry sy ns k s' = fresh_entry sy ns k ?t"
    using fdt.opn_free [of sy ns ?t n fd env "junk_dentry lo"] by (auto simp: flags_kept st)
  then show "\<exists>s'. ece391_open (kernel_os sy env handler lo literals) n st = Inr (fd, s') \<and> (table_ok sy ns \<circ> snd) s'
      \<and> (fd_tab \<circ> snd) s' = ((fd_tab \<circ> snd) st)(fd \<mapsto> (fresh_entry sy ns n \<circ> snd) st)
      \<and> (\<forall>k. (name_ok ns k \<circ> snd) st \<longrightarrow> (name_ok ns k \<circ> snd) s' \<and> (fresh_entry sy ns k \<circ> snd) s' = (fresh_entry sy ns k \<circ> snd) st)"
    using kernel_open [OF s'(1), of handler literals js]
    by (intro exI [of _ "(js, restore_flags (iflag s) s')"]) (simp add: st flags_kept)
next
  fix st :: "'a list \<times> 'b sys_scheme" and n
  obtain js s where st: "st = (js, s)" by (cases st)
  assume "(table_ok sy ns \<circ> snd) st" "(name_ok ns n \<circ> snd) st" "table_full ((fd_tab \<circ> snd) st)"
  then have "open_sc sy env (junk_dentry lo) n (restore_flags True s) = Inr (- 1, restore_flags True s)"
    by (intro fdt.opn_full) (simp_all add: flags_kept st)
  from kernel_open [OF this, of handler literals js]
  show "ece391_open (kernel_os sy env handler lo literals) n st = Inr (- 1, st)" by (simp add: st flags_twice)
next
  fix st :: "'a list \<times> 'b sys_scheme" and fd
  obtain js s where st: "st = (js, s)" by (cases st)
  let ?t = "restore_flags True s"
  assume fd: "(table_ok sy ns \<circ> snd) st" "2 \<le> fd" "fd < 8" "(fd_tab \<circ> snd) st fd \<noteq> None"
  then obtain s' where s': "close_sc sy env fd ?t = Inr (0, s')" "table_ok sy ns s'" "fd_tab s' = (fd_tab ?t)(fd := None)"
      "\<forall>k. name_ok ns k ?t \<longrightarrow> name_ok ns k s' \<and> fresh_entry sy ns k s' = fresh_entry sy ns k ?t"
    using fdt.cls_used [of sy ns ?t fd env] by (auto simp: flags_kept st)
  then show "\<exists>s'. ece391_close (kernel_os sy env handler lo literals) fd st = Inr (0, s') \<and> (table_ok sy ns \<circ> snd) s'
      \<and> (fd_tab \<circ> snd) s' = ((fd_tab \<circ> snd) st)(fd := None)
      \<and> (\<forall>k. (name_ok ns k \<circ> snd) st \<longrightarrow> (name_ok ns k \<circ> snd) s' \<and> (fresh_entry sy ns k \<circ> snd) s' = (fresh_entry sy ns k \<circ> snd) st)"
    using kernel_close [OF s'(1), of handler lo literals js] fd
    by (intro exI [of _ "(js, restore_flags (iflag s) s')"]) (simp add: st flags_kept)
next
  fix st :: "'a list \<times> 'b sys_scheme" and fd
  obtain js s where st: "st = (js, s)" by (cases st)
  assume fd: "(table_ok sy ns \<circ> snd) st" "- (2 ^ 31) \<le> fd" "fd < 2 ^ 31" "fd < 2 \<or> 8 \<le> fd \<or> (fd_tab \<circ> snd) st fd = None"
  then have "close_sc sy env fd (restore_flags True s) = Inr (- 1, restore_flags True s)"
    by (intro fdt.cls_unused [of sy ns]) (simp_all add: flags_kept st)
  from kernel_close [OF this fd(2,3), of handler lo literals js]
  show "ece391_close (kernel_os sy env handler lo literals) fd st = Inr (- 1, st)" by (simp add: st flags_twice)
qed

section \<open>The error tests on the kernel\<close>

lemma free_refused:
  assumes "fd \<in> {2..7}" "fd_tab s fd = None"
  shows "refused_call 3 (word_of_int fd) ecx (js, s)" "refused_call 4 (word_of_int fd) ecx (js, s)" "refused_call 6 (word_of_int fd) ecx (js, s)"
proof -
  have "check_use (sint (word_of_int fd :: u32)) s AND USE = 0"
    using assms by (simp add: fd_tab_def sint_small split: if_splits)
  then show "refused_call 3 (word_of_int fd) ecx (js, s)" "refused_call 4 (word_of_int fd) ecx (js, s)" "refused_call 6 (word_of_int fd) ecx (js, s)"
    by (simp_all add: refused_call_def bad_call_def Let_def)
qed

text \<open>
  C16. The kernel passes the eight error tests. In a process with only its standard streams open, whose directory has ``.'' but none of the names
  the fourth test tries, each of the tests prints the line of its verdict, PASS, and no line about a call that was not refused, and returns 0. Seven of them
  leave the state as it is until they print. The third one opens seven times, is refused once, and closes what it opened, so that the
  descriptor table is then as before.
\<close>

theorem syserr_tests_pass:
  assumes ok: "symbols_ok sy" "fd_ok sy ns s" and dot: "name_ok ns (literals ''.'') s" "holds_str (ptr_at (mem s) (literals ''.'')) (map of_char ''.'')"
    and fresh: "\<forall>fd. 0 \<le> fd \<and> fd < 8 \<longrightarrow> (fd_tab s fd \<noteq> None \<longleftrightarrow> fd < 2)"
    and names: "\<forall>x \<in> {''helloo'', ''shel'', []}. holds_str (ptr_at (mem s) (literals x)) (map of_char x) \<and> map of_char x \<notin> set ns"
    and os: "os = kernel_os sy env handler lo literals"
  shows "passes os ''err_neg_fd'' (err_neg_fd os buf) (js, s) \<and> passes os ''err_big_fd'' (err_big_fd os buf) (js, s)
    \<and> passes os ''err_open'' (err_open os) (js, s) \<and> passes os ''err_unopened'' (err_unopened os buf) (js, s)
    \<and> passes os ''err_vidmap'' (err_vidmap os) (js, s) \<and> passes os ''err_stdin_out'' (err_stdin_out os buf) (js, s)
    \<and> passes os ''err_syscall_num'' (err_syscall_num os regs) (js, s)
    \<and> (\<exists>js' s'. err_open_lots os (js, s) = res_bind (put_lit os (''err_open_lots: PASS'' @ [CHR 0x0A]) (js', s')) (\<lambda>s. Inr (0, s))
        \<and> (\<forall>fd. 0 \<le> fd \<and> fd < 8 \<longrightarrow> fd_tab s' fd = fd_tab s fd))"
proof -
  have dir: "directory (fs_info s) (mem s) ns" using ok(2) by (simp add: fd_ok_def)
  have "refused_call 5 (literals x) 0 (js, s)" if "x \<in> {''helloo'', ''shel'', []}" for x
  proof -
    have "length (map of_char x :: u8 list) \<le> 32" using that by auto
    then show ?thesis unfolding refused_call_def snd_conv using dir bspec [OF names that] by blast
  qed
  then have op: "refused_call 5 (lit os ''helloo'') 0 (js, s)" "refused_call 5 (lit os ''shel'') 0 (js, s)" "refused_call 5 (lit os []) 0 (js, s)"
    by (simp_all add: os)
  have free: "fd_tab s fd = None" if "fd \<in> {2..7}" for fd using fresh [rule_format, of fd] that by auto
  have un: "refused_call 3 (word_of_int fd) buf (js, s) \<and> refused_call 4 (word_of_int fd) buf (js, s) \<and> refused_call 6 (word_of_int fd) 0 (js, s)"
    if "fd \<in> {2..7}" for fd using free_refused [OF that free [OF that]] by blast
  have "(table_ok sy ns \<circ> snd) (js, s)" "(name_ok ns (lit os ''.'') \<circ> snd) (js, s)" "ufd.used 2 (js, s)"
    using ok dot(1) fresh by (simp_all add: table_ok_def os ufd.used_def)
  then obtain st where "err_open_lots os (js, s) = res_bind (put_lit os (''err_open_lots: PASS'' @ [CHR 0x0A]) st) (\<lambda>s. Inr (0, s))"
      "\<forall>fd. 0 \<le> fd \<and> fd < 8 \<longrightarrow> fd_tab (snd st) fd = fd_tab s fd"
    using ufd.open_lots_passes [of sy ns "(js, s)" env handler lo literals] by (auto simp: os)
  moreover obtain js' s' where "st = (js', s')" by (cases st)
  ultimately have lots: "\<exists>js' s'. err_open_lots os (js, s) = res_bind (put_lit os (''err_open_lots: PASS'' @ [CHR 0x0A]) (js', s')) (\<lambda>s. Inr (0, s))
        \<and> (\<forall>fd. 0 \<le> fd \<and> fd < 8 \<longrightarrow> fd_tab s' fd = fd_tab s fd)" by auto
  show ?thesis
    using ros.open_passes [OF op [unfolded os]] lots ros.unopened_passes [of buf "(js, s)" sy env handler lo literals] un unfolding os
    by (intro conjI ros.descriptors_pass ros.vidmap_passes ros.stdin_out_passes ros.syscall_num_passes) blast+
qed

text \<open>The sample process with the directory ``.'' and ``bc'' and the constants of the program in its page.\<close>

definition tests_mem :: mem where
  "tests_mem = proc_mem(0x1040 := 46, 0x1060 := 1, 0x8048000 := 46, 0x8048010 := 104, 0x8048011 := 101, 0x8048012 := 108, 0x8048013 := 108,
     0x8048014 := 111, 0x8048015 := 111, 0x8048020 := 115, 0x8048021 := 104, 0x8048022 := 101, 0x8048023 := 108)"

definition tests_literals :: "string \<Rightarrow> u32" where
  "tests_literals x = (if x = ''.'' then 0x8048000 else if x = ''helloo'' then 0x8048010 else if x = ''shel'' then 0x8048020 else 0x8048030)"

lemmas tests_defs = tests_mem_def proc_mem_def sample_image_def

lemma tests_tab: "0 \<le> fd \<Longrightarrow> fd < 8 \<Longrightarrow> fd_tab (proc_state\<lparr>mem := tests_mem\<rparr>) fd \<noteq> None \<longleftrightarrow> fd < 2"
proof -
  assume "0 \<le> fd" "fd < 8"
  then have "fd \<in> {0, 1, 2, 3, 4, 5, 6, 7}" by auto
  then show ?thesis by (elim insertE emptyE; simp add: fd_tab_def check_use_def fd_at_def proc_pblock load32_def tests_defs)
qed

lemma tests_fd_ok: "fd_ok sample_symbols [[46], [98, 99]] (proc_state\<lparr>mem := tests_mem\<rparr>)"
proof (rule sample_fd_ok)
  show "directory sample_fs tests_mem [[46], [98, 99]]"
    by (auto simp: directory_def sample_fs_def tests_defs holds_str_def less_Suc_eq)
qed (simp_all only: tests_tab, simp_all add: tests_defs)

lemma tests_name_ok: "name_ok [[46], [98, 99]] 0x8048000 (proc_state\<lparr>mem := tests_mem\<rparr>)"
proof -
  have "off_pcb 0x7FE000 (0x8048000 + of_nat k)" if "k < 32" for k
    using that by (simp add: off_pcb_def unat_word_ariths unat_of_nat32)
  then show ?thesis by (simp add: name_ok_def proc_pblock holds_str_def) (simp add: tests_defs)
qed

lemma tests_names:
  "x \<in> {''helloo'', ''shel'', []} \<Longrightarrow>
    holds_str (ptr_at tests_mem (tests_literals x)) (map of_char x) \<and> map of_char x \<notin> set [[46], [98, 99 :: u8]]"
  by (elim insertE emptyE) (simp_all add: tests_literals_def holds_str_def All_less_Suc tests_defs)

theorem syserr_tests_pass_witness:
  "passes (kernel_os sample_symbols (\<lambda>p es. 0) (\<lambda>i :: nat. id) exec_stack tests_literals) ''err_unopened''
     (err_unopened (kernel_os sample_symbols (\<lambda>p es. 0) (\<lambda>i. id) exec_stack tests_literals) 0x83FFF00) ([], proc_state\<lparr>mem := tests_mem\<rparr>)"
proof -
  have dot: "name_ok [[46], [98, 99]] (tests_literals ''.'') (proc_state\<lparr>mem := tests_mem\<rparr>)"
      "holds_str (ptr_at (mem (proc_state\<lparr>mem := tests_mem\<rparr>)) (tests_literals ''.'')) (map of_char ''.'')"
    using tests_name_ok by (simp_all add: tests_literals_def) (simp add: holds_str_def tests_defs)
  have "\<forall>x \<in> {''helloo'', ''shel'', []}. holds_str (ptr_at (mem (proc_state\<lparr>mem := tests_mem\<rparr>)) (tests_literals x)) (map of_char x)
      \<and> map of_char x \<notin> set [[46], [98, 99 :: u8]]" using tests_names by simp
  from syserr_tests_pass [OF proc_symbols_ok tests_fd_ok dot _ this refl, of "\<lambda>p es. 0" "\<lambda>i. id" exec_stack "0x83FFF00" "[]" "(0, 0, 0)"]
  show ?thesis using tests_tab by blast
qed

end
