(* ===== verification/Uprogs.thy ===== *)
theory Uprogs
  imports Ulib
begin

text \<open>
  The programs \<^verbatim>\<open>cat\<close>, \<^verbatim>\<open>ls\<close>, \<^verbatim>\<open>grep\<close>, \<^verbatim>\<open>shell\<close>, \<^verbatim>\<open>hello\<close>, \<^verbatim>\<open>counter\<close>,
  \<^verbatim>\<open>testprint\<close>, \<^verbatim>\<open>pingpong\<close> and \<^verbatim>\<open>sigtest\<close> of the directory \<^verbatim>\<open>syscalls\<close>, over the system calls of the
  library. Variables that live in memory, because the program passes their addresses, are given by
  their addresses. A loop whose end depends on the system is a partial function: it is \<open>None\<close> when
  the program never ends. The locale \<open>stream_system\<close> states what \<open>cat\<close> and \<open>ls\<close> need of the system; its
  interpretations on the kernel are with the kernel's calls.
\<close>

section \<open>The programs\<close>

text \<open>The first step of a program whose rest may not end.\<close>

definition and_then :: "'a res \<Rightarrow> ('a \<Rightarrow> 'b res option) \<Rightarrow> 'b res option" where
  "and_then r f = (case r of Inl e \<Rightarrow> Some (Inl e) | Inr x \<Rightarrow> f x)"

lemma and_then_simps [simp]: "and_then (Inl e) f = Some (Inl e)" "and_then (Inr x) f = f x"
  by (simp_all add: and_then_def)

text \<open>Printing a message and returning.\<close>

definition quit :: "'s os \<Rightarrow> string \<Rightarrow> int \<Rightarrow> 's \<Rightarrow> (int \<times> 's) res option" where
  "quit os msg r s = Some (res_bind (put_lit os (msg @ [CHR 0x0A]) s) (\<lambda>s. Inr (r, s)))"

subsection \<open>cat\<close>

partial_function (option) cat_loop :: "'s os \<Rightarrow> int \<Rightarrow> u32 \<Rightarrow> 's \<Rightarrow> (int \<times> 's) res option" where
  "cat_loop os fd buf s =
     (case ece391_read os fd buf 1024 s of Inl e \<Rightarrow> Some (Inl e)
      | Inr (cnt, s) \<Rightarrow>
          if cnt = 0 then Some (Inr (0, s))
          else if - 1 = cnt then quit os ''file read failed'' 3 s
          else case ece391_write os 1 buf cnt s of Inl e \<Rightarrow> Some (Inl e)
            | Inr (r, s) \<Rightarrow> if - 1 = r then Some (Inr (3, s)) else cat_loop os fd buf s)"

definition cat_main :: "'s os \<Rightarrow> u32 \<Rightarrow> 's \<Rightarrow> (int \<times> 's) res option" where
  "cat_main os buf s =
     and_then (ece391_getargs os buf 1024 s) (\<lambda>(r, s).
       if 0 \<noteq> r then quit os ''could not read arguments'' 3 s
       else and_then (ece391_open os buf s) (\<lambda>(fd, s).
         if - 1 = fd then quit os ''file not found'' 2 s else cat_loop os fd buf s))"

subsection \<open>ls\<close>

partial_function (option) ls_loop :: "'s os \<Rightarrow> int \<Rightarrow> u32 \<Rightarrow> 's \<Rightarrow> (int \<times> 's) res option" where
  "ls_loop os fd buf s =
     (case ece391_read os fd buf 32 s of Inl e \<Rightarrow> Some (Inl e)
      | Inr (cnt, s) \<Rightarrow>
          if cnt = 0 then Some (Inr (0, s))
          else if - 1 = cnt then quit os ''directory entry read failed'' 3 s
          else case ece391_write os 1 buf (cnt + 1) (poke os (buf + word_of_int cnt) 10 s) of Inl e \<Rightarrow> Some (Inl e)
            | Inr (r, s) \<Rightarrow> if - 1 = r then Some (Inr (3, s)) else ls_loop os fd buf s)"

definition ls_main :: "'s os \<Rightarrow> u32 \<Rightarrow> 's \<Rightarrow> (int \<times> 's) res option" where
  "ls_main os buf s =
     and_then (ece391_open os (lit os ''.'') s) (\<lambda>(fd, s).
       if - 1 = fd then quit os ''directory open failed'' 2 s else ls_loop os fd buf s)"

subsection \<open>shell\<close>

text \<open>What the shell prints about the result of a command.\<close>

definition shell_report :: "'s os \<Rightarrow> int \<Rightarrow> 's \<Rightarrow> 's res" where
  "shell_report os rval s =
     (if - 1 = rval then put_lit os (''no such command'' @ [CHR 0x0A]) s
      else if 256 = rval then put_lit os (''program terminated by exception'' @ [CHR 0x0A]) s
      else if 0 \<noteq> rval then put_lit os (''program terminated abnormally'' @ [CHR 0x0A]) s
      else Inr s)"

partial_function (option) shell_loop :: "'s os \<Rightarrow> u32 \<Rightarrow> 's \<Rightarrow> (int \<times> 's) res option" where
  "shell_loop os buf s =
     (case put_lit os ''391OS> '' s of Inl e \<Rightarrow> Some (Inl e)
      | Inr s \<Rightarrow>
         case ece391_read os 0 buf 1023 s of Inl e \<Rightarrow> Some (Inl e)
         | Inr (cnt, s) \<Rightarrow>
            if - 1 = cnt then quit os ''read from keyboard failed'' 3 s
            else
              (let cnt = (if 0 < cnt \<and> umem os s (buf + word_of_int (cnt - 1)) = 10 then cnt - 1 else cnt);
                   s = poke os (buf + word_of_int cnt) 0 s
               in case ece391_strcmp (umem os s) buf (lit os ''exit'') of None \<Rightarrow> None
                  | Some c \<Rightarrow>
                      if 0 = c then Some (Inr (0, s))
                      else if umem os s buf = 0 then shell_loop os buf s
                      else case ece391_execute os buf s of Inl e \<Rightarrow> Some (Inl e)
                        | Inr (rval, s) \<Rightarrow>
                            case shell_report os rval s of Inl e \<Rightarrow> Some (Inl e) | Inr s \<Rightarrow> shell_loop os buf s))"

definition shell_main :: "'s os \<Rightarrow> u32 \<Rightarrow> 's \<Rightarrow> (int \<times> 's) res option" where
  "shell_main os buf s = and_then (put_lit os (''Starting 391 Shell'' @ [CHR 0x0A]) s) (shell_loop os buf)"

subsection \<open>hello, testprint and counter\<close>

definition hello_main :: "'s os \<Rightarrow> u32 \<Rightarrow> 's \<Rightarrow> (int \<times> 's) res" where
  "hello_main os buf s =
     res_bind (put_lit os (''Hi, what'' @ [CHR 0x27] @ ''s your name? '') s) (\<lambda>s.
     res_bind (ece391_read os 0 buf 1023 s) (\<lambda>(cnt, s).
     if - 1 = cnt then res_bind (put_lit os (''Can'' @ [CHR 0x27] @ ''t read name from keyboard.'' @ [CHR 0x0A]) s) (\<lambda>s. Inr (3, s))
     else res_bind (put_lit os ''Hello, '' (poke os (buf + word_of_int cnt) 0 s)) (\<lambda>s.
          res_bind (ece391_fdputs os 1 buf s) (\<lambda>s. Inr (0, s)))))"

definition testprint_main :: "'s os \<Rightarrow> 's \<Rightarrow> (int \<times> 's) res" where
  "testprint_main os s =
     res_bind (put_lit os (''Hello, if this ran, the program was correct. Yay!'' @ [CHR 0x0A]) s) (\<lambda>s. Inr (0, s))"

text \<open>The numbers from \<open>i + 1\<close> on, \<open>k\<close> of them.\<close>

fun counter_loop :: "'s os \<Rightarrow> u32 \<Rightarrow> nat \<Rightarrow> u32 \<Rightarrow> 's \<Rightarrow> 's res" where
  "counter_loop os buf 0 i s = Inr s"
| "counter_loop os buf (Suc k) i s =
     res_bind (ece391_itoa (umem os s) (i + 1) buf 10) (\<lambda>m.
     res_bind (ece391_fdputs os 1 buf (set_umem os m s)) (\<lambda>s.
     res_bind (put_lit os [CHR 0x0A] s) (\<lambda>s. counter_loop os buf k (i + 1) s)))"

definition counter_max :: "u8 \<Rightarrow> nat" where
  "counter_max c = (if c = of_char (CHR ''0'') then 100 else if c = of_char (CHR ''1'') then 10000
     else if c = of_char (CHR ''2'') then 100000 else 0)"

definition counter_main :: "'s os \<Rightarrow> u32 \<Rightarrow> 's \<Rightarrow> (int \<times> 's) res" where
  "counter_main os buf s =
     res_bind (put_lit os (''Enter the Test Number: (0): 100, (1): 10000, (2): 100000'' @ [CHR 0x0A]) s) (\<lambda>s.
     res_bind (ece391_read os 0 buf 1023 s) (\<lambda>(cnt, s).
     if - 1 = cnt then res_bind (put_lit os (''Can'' @ [CHR 0x27] @ ''t read the number from keyboard.'' @ [CHR 0x0A]) s) (\<lambda>s. Inr (3, s))
     else let s = poke os (buf + word_of_int cnt) 0 s
          in res_bind (opt_res No_return (ece391_strlen (umem os s) buf)) (\<lambda>n.
             if 1 < n \<or> n = 1 \<and> (umem os s buf < of_char (CHR ''0'') \<or> of_char (CHR ''2'') < umem os s buf)
             then res_bind (put_lit os (''Wrong Choice!'' @ [CHR 0x0A]) s) (\<lambda>s. Inr (0, s))
             else res_bind (counter_loop os buf (counter_max (umem os s buf)) 0 s) (\<lambda>s. Inr (0, s)))))"

subsection \<open>grep\<close>

text \<open>The end of the line that starts at \<open>line_end\<close>; \<open>data\<close> is the address of the buffer.\<close>

function find_line_end :: "mem \<Rightarrow> u32 \<Rightarrow> int \<Rightarrow> int \<Rightarrow> int" where
  "find_line_end m data kept line_end =
     (if line_end < kept \<and> m (data + word_of_int line_end) \<noteq> 10 then find_line_end m data kept (line_end + 1) else line_end)"
  by pat_completeness auto
termination
  by (relation "measure (\<lambda>(m, data, kept, line_end). nat (kept - line_end))") auto

text \<open>The search through one line. The first comparison is between a signed and an unsigned character.\<close>

function search_line :: "'s os \<Rightarrow> u32 \<Rightarrow> u32 \<Rightarrow> u32 \<Rightarrow> u32 \<Rightarrow> int \<Rightarrow> int \<Rightarrow> int \<Rightarrow> 's \<Rightarrow> 's res" where
  "search_line os s s_len fname data line_start line_end check st =
     (if check < line_end then
        (if sint (umem os st s) = uint (umem os st (data + word_of_int check))
            \<and> ece391_strncmp (umem os st) (data + word_of_int check) s s_len = 0
         then res_bind (ece391_fdputs os 1 fname st) (\<lambda>st.
              res_bind (put_lit os '':'' st) (\<lambda>st.
              res_bind (ece391_fdputs os 1 (data + word_of_int line_start) st) (\<lambda>st.
              put_lit os [CHR 0x0A] st)))
         else search_line os s s_len fname data line_start line_end (check + 1) st)
      else Inr st)"
  by pat_completeness auto
termination
  by (relation "measure (\<lambda>(os, s, s_len, fname, data, line_start, line_end, check, st). nat (line_end - check))") auto

declare find_line_end.simps [simp del] search_line.simps [simp del]

lemma find_line_end_ge: "line_end \<le> find_line_end m data kept line_end"
proof (induction m data kept line_end rule: find_line_end.induct)
  case (1 m data kept line_end)
  then show ?case by (subst find_line_end.simps) auto
qed

text \<open>The lines in the buffer from \<open>line_start\<close> on; the result is the number of bytes kept for the next read.\<close>

function grep_lines :: "'s os \<Rightarrow> u32 \<Rightarrow> u32 \<Rightarrow> u32 \<Rightarrow> u32 \<Rightarrow> int \<Rightarrow> int \<Rightarrow> int \<Rightarrow> 's \<Rightarrow> (int \<times> 's) res" where
  "grep_lines os s s_len fname data cnt kept line_start st =
     (let line_end = find_line_end (umem os st) data kept line_start
      in if umem os st (data + word_of_int line_end) \<noteq> 10 \<and> 0 \<noteq> cnt \<and> line_start \<noteq> 0 then
           (let st = poke os (data + word_of_int line_end) 0 st
            in res_bind (opt_res No_return (ece391_strcpy (umem os st) data (data + word_of_int line_start))) (\<lambda>m.
                 Inr (kept - line_start, set_umem os m st)))
         else
           (case search_line os s s_len fname data line_start line_end line_start (poke os (data + word_of_int line_end) 0 st) of
              Inl e \<Rightarrow> Inl e
            | Inr st \<Rightarrow> if kept \<le> line_end + 1 then Inr (0, st)
                else grep_lines os s s_len fname data cnt kept (line_end + 1) st))"
  by pat_completeness auto
termination
proof (relation "measure (\<lambda>(os, s, s_len, fname, data, cnt, kept, line_start, st). nat (kept - line_start))")
  fix os :: "'s os" and kept line_start line_end and data and st :: 's
  assume "line_end = find_line_end (umem os st) data kept line_start" "\<not> kept \<le> line_end + 1"
  moreover from this have "line_start \<le> line_end" by (simp add: find_line_end_ge)
  ultimately show "((os, s, s_len, fname, data, cnt, kept, line_end + 1, x2), os, s, s_len, fname, data, cnt, kept, line_start, st)
      \<in> measure (\<lambda>(os, s, s_len, fname, data, cnt, kept, line_start, st). nat (kept - line_start))" for s s_len fname cnt x2
    by simp
qed simp

declare grep_lines.simps [simp del]

partial_function (option) grep_reads :: "'s os \<Rightarrow> u32 \<Rightarrow> u32 \<Rightarrow> u32 \<Rightarrow> u32 \<Rightarrow> int \<Rightarrow> int \<Rightarrow> 's \<Rightarrow> (int \<times> 's) res option" where
  "grep_reads os s s_len fname data fd kept st =
     (case ece391_read os fd (data + word_of_int kept) (1024 - kept) st of Inl e \<Rightarrow> Some (Inl e)
      | Inr (cnt, st) \<Rightarrow>
          if - 1 = cnt then quit os ''file read failed'' (- 1) st
          else case grep_lines os s s_len fname data cnt (kept + cnt) 0 st of Inl e \<Rightarrow> Some (Inl e)
            | Inr (kept, st) \<Rightarrow>
                if 0 = cnt then
                  (case ece391_close os fd st of Inl e \<Rightarrow> Some (Inl e)
                   | Inr (r, st) \<Rightarrow> if - 1 = r then quit os ''file close failed'' (- 1) st else Some (Inr (0, st)))
                else grep_reads os s s_len fname data fd kept st)"

definition do_one_file :: "'s os \<Rightarrow> u32 \<Rightarrow> u32 \<Rightarrow> u32 \<Rightarrow> 's \<Rightarrow> (int \<times> 's) res option" where
  "do_one_file os data s fname st =
     and_then (opt_res No_return (ece391_strlen (umem os st) s)) (\<lambda>s_len.
     and_then (ece391_open os fname st) (\<lambda>(fd, st).
       if - 1 = fd then quit os ''file open failed'' (- 1) st else grep_reads os s s_len fname data fd 0 st))"

partial_function (option) grep_files :: "'s os \<Rightarrow> u32 \<Rightarrow> u32 \<Rightarrow> u32 \<Rightarrow> int \<Rightarrow> 's \<Rightarrow> (int \<times> 's) res option" where
  "grep_files os data search buf fd st =
     (case ece391_read os fd buf 32 st of Inl e \<Rightarrow> Some (Inl e)
      | Inr (cnt, st) \<Rightarrow>
          if cnt = 0 then Some (Inr (0, st))
          else if - 1 = cnt then quit os ''directory entry read failed'' 3 st
          else if umem os st buf = of_char (CHR ''.'') then grep_files os data search buf fd st
          else case do_one_file os data search buf (poke os (buf + word_of_int cnt) 0 st) of None \<Rightarrow> None
            | Some r \<Rightarrow> (case r of Inl e \<Rightarrow> Some (Inl e)
                | Inr (r, st) \<Rightarrow> if 0 \<noteq> r then Some (Inr (3, st)) else grep_files os data search buf fd st))"

definition grep_main :: "'s os \<Rightarrow> u32 \<Rightarrow> u32 \<Rightarrow> u32 \<Rightarrow> 's \<Rightarrow> (int \<times> 's) res option" where
  "grep_main os data search buf st =
     and_then (ece391_getargs os search 1024 st) (\<lambda>(r, st).
       if 0 \<noteq> r then quit os ''could not read argument'' 3 st
       else and_then (ece391_open os (lit os ''.'') st) (\<lambda>(fd, st).
         if - 1 = fd then quit os ''directory open failed'' 2 st else grep_files os data search buf fd st))"

subsection \<open>pingpong\<close>

text \<open>The loop over \<open>i\<close> that clears the inner part of the line.\<close>

definition clear_world :: "'s os \<Rightarrow> u32 \<Rightarrow> int list \<Rightarrow> 's \<Rightarrow> 's" where
  "clear_world os buf is s = fold (\<lambda>i s. poke os (buf + word_of_int i) (of_char (CHR '' '')) s) is s"

definition poke32 :: "'s os \<Rightarrow> u32 \<Rightarrow> u32 \<Rightarrow> 's \<Rightarrow> 's" where
  "poke32 os a v s = set_umem os (store32 (umem os s) a v) s"

fun pingpong_move :: "'s os \<Rightarrow> u32 \<Rightarrow> u32 \<Rightarrow> int \<Rightarrow> u8 \<Rightarrow> int list \<Rightarrow> 's \<Rightarrow> 's res" where
  "pingpong_move os buf garbage rtc_fd curchar [] s = Inr s"
| "pingpong_move os buf garbage rtc_fd curchar (j # js) s =
     res_bind (ece391_fdputs os 1 buf (poke os (buf + word_of_int j) curchar (clear_world os buf [2..77] s))) (\<lambda>s.
     res_bind (ece391_read os rtc_fd garbage 4 s) (\<lambda>(r, s). pingpong_move os buf garbage rtc_fd curchar js s))"

partial_function (option) pingpong_loop :: "'s os \<Rightarrow> u32 \<Rightarrow> u32 \<Rightarrow> int \<Rightarrow> u8 \<Rightarrow> 's \<Rightarrow> (int \<times> 's) res option" where
  "pingpong_loop os buf garbage rtc_fd curchar s =
     (case pingpong_move os buf garbage rtc_fd curchar [2..77] s of Inl e \<Rightarrow> Some (Inl e)
      | Inr s \<Rightarrow>
         case pingpong_move os buf garbage rtc_fd curchar (rev [2..77]) s of Inl e \<Rightarrow> Some (Inl e)
         | Inr s \<Rightarrow> pingpong_loop os buf garbage rtc_fd (if curchar = of_char (CHR ''Z'') then of_char (CHR ''A'') else curchar + 1) s)"

definition pingpong_main :: "'s os \<Rightarrow> u32 \<Rightarrow> u32 \<Rightarrow> u32 \<Rightarrow> 's \<Rightarrow> (int \<times> 's) res option" where
  "pingpong_main os buf ret_val garbage s =
     (let s = clear_world os buf [0..80] s;
          s = poke os (buf + 80) 0 s;
          s = poke os (buf + 79) 10 s;
          s = poke os (buf + 78) (of_char (CHR ''|'')) s;
          s = poke os (buf + 1) (of_char (CHR ''|'')) s
      in and_then (ece391_open os (lit os ''rtc'') s) (\<lambda>(rtc_fd, s).
         and_then (ece391_write os rtc_fd ret_val 4 (poke32 os ret_val 32 s)) (\<lambda>(r, s).
         pingpong_loop os buf garbage rtc_fd (of_char (CHR ''A'')) (poke32 os ret_val (word_of_int r) s))))"

subsection \<open>sigtest\<close>

text \<open>The switch that prints a signal number.\<close>

definition put_signum :: "'s os \<Rightarrow> int \<Rightarrow> 's \<Rightarrow> 's res" where
  "put_signum os signum =
     (if signum = 0 then put_lit os (''0'' @ [CHR 0x0A]) else if signum = 1 then put_lit os (''1'' @ [CHR 0x0A])
      else if signum = 2 then put_lit os (''2'' @ [CHR 0x0A]) else if signum = 3 then put_lit os (''3'' @ [CHR 0x0A])
      else put_lit os (''invalid'' @ [CHR 0x0A]))"

text \<open>The addresses of the variables \<open>charbuf\<close>, \<open>badbuf\<close> and the local \<open>buf\<close>, and of the argument.\<close>

definition segfault_sighandler :: "'s os \<Rightarrow> u32 \<Rightarrow> u32 \<Rightarrow> u32 \<Rightarrow> u32 \<Rightarrow> 's \<Rightarrow> 's res" where
  "segfault_sighandler os charbuf badbuf buf signum_at s =
     res_bind (put_lit os ''Segfault signal handler called, signum: '' s) (\<lambda>s.
     res_bind (put_signum os (sint (load32 (umem os s) signum_at)) s) (\<lambda>s.
     res_bind (put_lit os (''Press enter to continue...'' @ [CHR 0x0A]) s) (\<lambda>s.
     res_bind (ece391_read os 0 buf 1 s) (\<lambda>(r, s).
     put_lit os (''Signal handler returning'' @ [CHR 0x0A]) (poke32 os (signum_at + 28) charbuf (poke32 os badbuf charbuf s))))))"

definition alarm_sighandler :: "'s os \<Rightarrow> int \<Rightarrow> 's \<Rightarrow> 's res" where
  "alarm_sighandler os signum s =
     res_bind (put_lit os ''Alarm signal handler called, signum: '' s) (put_signum os signum)"

text \<open>The store through \<open>badbuf\<close> faults while it is null. \<open>segfault\<close> and \<open>alarm\<close> are the addresses of the handlers.\<close>

definition sigtest_main :: "'s os \<Rightarrow> u32 \<Rightarrow> u32 \<Rightarrow> u32 \<Rightarrow> u32 \<Rightarrow> u32 \<Rightarrow> 's \<Rightarrow> (int \<times> 's) res" where
  "sigtest_main os charbuf badbuf segfault alarm buf s =
     res_bind (ece391_getargs os buf 1024 s) (\<lambda>(r, s).
     if 0 \<noteq> r then res_bind (put_lit os (''could not read argument'' @ [CHR 0x0A]) s) (\<lambda>s. Inr (3, s))
     else
       res_bind (if umem os s buf = of_char (CHR ''1'')
                 then res_bind (put_lit os (''Installing signal handlers'' @ [CHR 0x0A]) s) (\<lambda>s.
                      res_bind (ece391_set_handler os 1 segfault s) (\<lambda>(r, s).
                      res_bind (ece391_set_handler os 3 alarm s) (\<lambda>(r, s). Inr s)))
                 else Inr s) (\<lambda>s.
       res_bind (put_lit os (''Hi, what'' @ [CHR 0x27] @ ''s your name? '') s) (\<lambda>s.
       res_bind (ece391_read os 0 buf 1023 s) (\<lambda>(cnt, s).
       if - 1 = cnt then res_bind (put_lit os (''Can'' @ [CHR 0x27] @ ''t read name from keyboard.'' @ [CHR 0x0A]) s) (\<lambda>s. Inr (3, s))
       else let p = load32 (umem os s) badbuf
            in if p = 0 then Inl Null_pointer
               else res_bind (put_lit os ''Hello, '' (poke os (buf + word_of_int cnt) 0 (poke os p 1 s))) (\<lambda>s.
                    res_bind (ece391_fdputs os 1 buf s) (\<lambda>s.
                    res_bind (if umem os s charbuf = 1 then put_lit os (''success'' @ [CHR 0x0A]) s
                              else put_lit os (''failure'' @ [CHR 0x0A]) s) (\<lambda>s. Inr (0, s))))))))"

section \<open>Copying a stream to the terminal\<close>

text \<open>
  A system with a stream behind descriptor \<open>fd\<close> and a display behind descriptor 1. The stream delivers its
  \<open>chunks\<close> one by one into a buffer of \<open>n + 1\<close> bytes and then 0. What a write of bytes does to the
  display is given by the function \<open>put\<close> on what it shows, \<open>out\<close>. Reading does not change the display, nor writing the stream,
  and the program can write to its buffer.
\<close>

locale stream_system =
  fixes os :: "'s os" and fd :: int and buf :: u32 and n :: nat
    and ok :: "'s \<Rightarrow> bool" and chunks :: "'s \<Rightarrow> u8 list list" and out :: "'s \<Rightarrow> 'v" and put :: "u8 \<Rightarrow> 'v \<Rightarrow> 'v"
  assumes deliver: "ok s \<Longrightarrow> chunks s = c # cs \<Longrightarrow> \<exists>s'. ece391_read os fd buf (int n) s = Inr (int (length c), s')
      \<and> ok s' \<and> chunks s' = cs \<and> out s' = out s \<and> (\<forall>k < length c. umem os s' (buf + of_nat k) = c ! k)"
    and finished: "ok s \<Longrightarrow> chunks s = [] \<Longrightarrow> \<exists>s'. ece391_read os fd buf (int n) s = Inr (0, s') \<and> out s' = out s"
    and chunk_length: "ok s \<Longrightarrow> c \<in> set (chunks s) \<Longrightarrow> 0 < length c \<and> length c \<le> n"
    and display: "ok s \<Longrightarrow> k \<le> Suc n \<Longrightarrow> \<exists>s'. ece391_write os 1 buf (int k) s = Inr (0, s') \<and> ok s' \<and> chunks s' = chunks s
      \<and> out s' = fold put (map (\<lambda>i. umem os s (buf + of_nat i)) [0..<k]) (out s)"
    and store_byte: "ok s \<Longrightarrow> k \<le> n \<Longrightarrow> ok (poke os (buf + of_nat k) v s) \<and> chunks (poke os (buf + of_nat k) v s) = chunks s
      \<and> out (poke os (buf + of_nat k) v s) = out s \<and> umem os (poke os (buf + of_nat k) v s) = (umem os s)(buf + of_nat k := v)"
    and buffer_size: "n < 2 ^ 31"
begin

lemma buffer_bytes: "\<forall>k < length c. m (buf + of_nat k) = c ! k \<Longrightarrow> map (\<lambda>i. m (buf + of_nat i)) [0..<length c] = c"
  by (intro nth_equalityI) simp_all

lemma cat_copies:
  "n = 1024 \<Longrightarrow> ok s \<Longrightarrow> \<exists>s'. cat_loop os fd buf s = Some (Inr (0, s')) \<and> out s' = fold put (concat (chunks s)) (out s)"
proof (induction "chunks s" arbitrary: s)
  case Nil
  then obtain s' where "ece391_read os fd buf 1024 s = Inr (0, s')" "out s' = out s" using finished [of s] by auto
  then show ?case using Nil by (subst cat_loop.simps) simp
next
  case (Cons c cs)
  obtain s1 where s1: "ece391_read os fd buf 1024 s = Inr (int (length c), s1)" "ok s1" "chunks s1 = cs" "out s1 = out s"
      "\<forall>k < length c. umem os s1 (buf + of_nat k) = c ! k"
    using deliver [OF Cons.prems(2) Cons.hyps(2) [symmetric]] Cons.prems(1) by auto
  have c: "0 < length c" "length c \<le> n" using chunk_length [OF Cons.prems(2), of c] Cons.hyps(2) [symmetric] by simp_all
  obtain s2 where s2: "ece391_write os 1 buf (int (length c)) s1 = Inr (0, s2)" "ok s2" "chunks s2 = cs" "out s2 = fold put c (out s)"
    using display [OF s1(2), of "length c"] c s1 buffer_bytes [OF s1(5)] by auto
  obtain s' where "cat_loop os fd buf s2 = Some (Inr (0, s'))" "out s' = fold put (concat cs) (out s2)"
    using Cons.hyps(1) [of s2] Cons.prems(1) s2(2,3) by auto
  then show ?case using s1(1) s2 c(1) Cons.hyps(2) [symmetric] by (subst cat_loop.simps) simp
qed

lemma ls_lists:
  "n = 32 \<Longrightarrow> ok s \<Longrightarrow> \<exists>s'. ls_loop os fd buf s = Some (Inr (0, s')) \<and> out s' = fold put (concat (map (\<lambda>c. c @ [10]) (chunks s))) (out s)"
proof (induction "chunks s" arbitrary: s)
  case Nil
  then obtain s' where "ece391_read os fd buf 32 s = Inr (0, s')" "out s' = out s" using finished [of s] by auto
  then show ?case using Nil by (subst ls_loop.simps) simp
next
  case (Cons c cs)
  obtain s1 where s1: "ece391_read os fd buf 32 s = Inr (int (length c), s1)" "ok s1" "chunks s1 = cs" "out s1 = out s"
      "\<forall>k < length c. umem os s1 (buf + of_nat k) = c ! k"
    using deliver [OF Cons.prems(2) Cons.hyps(2) [symmetric]] Cons.prems(1) by auto
  have c: "0 < length c" "length c \<le> n" using chunk_length [OF Cons.prems(2), of c] Cons.hyps(2) [symmetric] by simp_all
  let ?s = "poke os (buf + of_nat (length c)) 10 s1"
  have p: "ok ?s" "chunks ?s = cs" "out ?s = out s" "umem os ?s = (umem os s1)(buf + of_nat (length c) := 10)"
    using store_byte [OF s1(2) c(2), of 10] s1(3,4) by simp_all
  have "umem os ?s (buf + of_nat k) = (c @ [10]) ! k" if "k < length (c @ [10])" for k
  proof (cases "k = length c")
    case False
    then have k: "k < length c" using that by simp
    then have "unat (of_nat k :: u32) \<noteq> unat (of_nat (length c) :: u32)" using c buffer_size by (simp add: unat_of_nat32)
    then have "buf + of_nat k \<noteq> buf + of_nat (length c)" by auto
    then show ?thesis using p(4) s1(5) k by (simp add: nth_append)
  qed (simp add: p(4))
  then have bytes: "map (\<lambda>i. umem os ?s (buf + of_nat i)) [0..<length (c @ [10])] = c @ [10]" by (intro buffer_bytes) simp
  obtain s2 where s2: "ece391_write os 1 buf (int (length (c @ [10]))) ?s = Inr (0, s2)" "ok s2" "chunks s2 = cs"
      "out s2 = fold put (c @ [10]) (out s)"
    using display [OF p(1), of "length (c @ [10])"] c p(2,3) unfolding bytes by auto
  obtain s' where "ls_loop os fd buf s2 = Some (Inr (0, s'))" "out s' = fold put (concat (map (\<lambda>c. c @ [10]) cs)) (out s2)"
    using Cons.hyps(1) [of s2] Cons.prems(1) s2(2,3) by auto
  then show ?case using s1(1) s2 c(1) Cons.hyps(2) [symmetric] by (subst ls_loop.simps) (simp add: add.commute)
qed

end

end
