(* ===== verification/Ustreams.thy ===== *)
theory Ustreams
  imports Ukernel Uprogs
begin

text \<open>
  Files and the directory of the kernel as streams, and its screen as the display, for the programs
  \<^verbatim>\<open>cat\<close> and \<^verbatim>\<open>ls\<close>: the contract \<open>stream_system\<close> is interpreted on the kernel's calls, once for a regular file and
  once for the directory.
\<close>

section \<open>The running process and its screen\<close>

text \<open>The running process is at the front of the queue, its terminal is displayed and the cursor is on the screen.\<close>

definition shown :: "'a terminals_scheme \<Rightarrow> bool" where
  "shown s \<longleftrightarrow> pq_peak (process_q s) = Inr (current_pblock s) \<and> 0 < process_count s
     \<and> pcb_get (mem s) (current_pblock s) Terminal_num = word_of_int (display_terminal s) \<and> on_screen (screen_y s) (screen_x s)"

definition screen :: "'a console_scheme \<Rightarrow> tty" where
  "screen s = page_view VIDEO (mem s) (screen_x s) (screen_y s)"

lemma page_view_cong:
  assumes "\<And>a. unat (a - base) < 4000 \<Longrightarrow> m' a = m a"
  shows "page_view base m' x y = page_view base m x y"
  using cell_in_page(1) assms by (auto simp: page_view_def fun_eq_iff)

text \<open>A change that keeps the control block of the process and the directory.\<close>

definition quiet :: "u8 list list \<Rightarrow> 'a sys_scheme \<Rightarrow> 'a sys_scheme \<Rightarrow> bool" where
  "quiet ns s s' \<longleftrightarrow> fs_info s' = fs_info s \<and> process_count s' = process_count s \<and> process_q s' = process_q s
     \<and> display_terminal s' = display_terminal s \<and> (systemcalls_initialize s = s \<longrightarrow> systemcalls_initialize s' = s')
     \<and> (\<forall>k < 580. mem s' (current_pblock s + of_nat k) = mem s (current_pblock s + of_nat k))
     \<and> (\<forall>i < length ns. \<forall>k < 64. mem s' (dir_entries (fs_info s) ! i + of_nat k) = mem s (dir_entries (fs_info s) ! i + of_nat k))"

lemma quiet_tab:
  assumes "quiet ns s s'" "process_count s \<in> {1..6}"
  shows "fd_tab s' = fd_tab s"
proof
  fix fd
  show "fd_tab s' fd = fd_tab s fd"
  proof (cases "0 \<le> fd \<and> fd < 8")
    case True
    have "same_entry (mem s') (mem s) (fd_at (current_pblock s) fd)"
      unfolding same_entry_def
    proof (intro allI impI)
      fix k :: nat
      assume "k < 48"
      moreover have "nat fd < 8" using True by (simp add: nat_less_iff)
      ultimately have "64 + 48 * nat fd + k < 580" by linarith
      moreover have "fd_at (current_pblock s) fd + of_nat k = current_pblock s + of_nat (64 + 48 * nat fd + k)"
        using True by (simp add: fd_at_nat)
      ultimately show "mem s' (fd_at (current_pblock s) fd + of_nat k) = mem s (fd_at (current_pblock s) fd + of_nat k)"
        using assms(1) unfolding quiet_def by (simp only:)
    qed
    from same_entry_view [OF this] show ?thesis
      using assms True by (simp add: fd_tab_def check_use_load quiet_def del: atLeastAtMost_iff)
  qed (auto simp: fd_tab_def)
qed

lemma quiet_str:
  assumes "quiet ns s s'" "i < length ns" "length xs \<le> 31"
  shows "holds_str (ptr_at (mem s') (dir_entries (fs_info s) ! i)) xs = holds_str (ptr_at (mem s) (dir_entries (fs_info s) ! i)) xs"
  using assms by (simp add: holds_str_def quiet_def)

lemma quiet_type:
  assumes "quiet ns s s'" "i < length ns"
  shows "mem s' (dir_entries (fs_info s) ! i + 32) = mem s (dir_entries (fs_info s) ! i + 32)"
proof -
  have "\<forall>k < 64. mem s' (dir_entries (fs_info s) ! i + of_nat k) = mem s (dir_entries (fs_info s) ! i + of_nat k)"
    using assms unfolding quiet_def by blast
  from this [rule_format, of 32] show ?thesis by simp
qed

lemma quiet_ok:
  assumes "quiet ns s s'" "fd_ok sy ns s"
  shows "fd_ok sy ns s'"
proof -
  have "directory (fs_info s) (mem s') ns"
    using assms quiet_str [OF assms(1)] by (simp add: fd_ok_def directory_def)
  moreover note quiet_type [OF assms(1)]
  moreover have "fd_tab s' = fd_tab s" using assms by (intro quiet_tab) (simp_all add: fd_ok_def)
  ultimately show ?thesis using assms by (simp add: fd_ok_def quiet_def)
qed

lemma quiet_shown: "quiet ns s s' \<Longrightarrow> shown s \<Longrightarrow> on_screen (screen_y s') (screen_x s') \<Longrightarrow> shown s'"
  using pcb_get_cong [of "mem s'" "current_pblock s" "mem s"] by (simp add: quiet_def shown_def)

text \<open>The buffer of \<open>n + 1\<close> bytes, the screen, the control block and the directory do not overlap.\<close>

definition in_place :: "u8 list list \<Rightarrow> u32 \<Rightarrow> nat \<Rightarrow> 'a fs_scheme \<Rightarrow> bool" where
  "in_place ns buf n s \<longleftrightarrow> buf \<noteq> 0 \<and> (\<forall>k \<le> n. 4000 \<le> unat (buf + of_nat k - VIDEO))
     \<and> (\<forall>k < 580. Suc n \<le> unat (current_pblock s + of_nat k - buf))
     \<and> (\<forall>i < length ns. \<forall>k < 64. Suc n \<le> unat (dir_entries (fs_info s) ! i + of_nat k - buf)
          \<and> 4000 \<le> unat (dir_entries (fs_info s) ! i + of_nat k - VIDEO))"

lemma pcb_off_screen:
  assumes "i \<in> {1..6}" "k < 580"
  shows "4000 \<le> unat (pcb_addr i + of_nat k - VIDEO)"
proof -
  have d: "0x700000 \<le> unat (pcb_addr i - VIDEO)" "unat (pcb_addr i - VIDEO) \<le> 0x800000"
    using u32_1_6 [OF assms(1)] by (elim insertE emptyE; simp add: pcb_addr_def)+
  then have "unat ((pcb_addr i - VIDEO) + of_nat k) = unat (pcb_addr i - VIDEO) + k"
    using assms(2) by (simp add: unat_word_ariths unat_of_nat32)
  moreover have "pcb_addr i + of_nat k - VIDEO = (pcb_addr i - VIDEO) + of_nat k" by simp
  ultimately have "unat (pcb_addr i + of_nat k - VIDEO) = unat (pcb_addr i - VIDEO) + k" by (simp only:)
  then show ?thesis using d by simp
qed

lemma quietI:
  assumes "in_place ns buf n s" "process_count s \<in> {1..6}"
    and "\<And>a. Suc n \<le> unat (a - buf) \<Longrightarrow> 4000 \<le> unat (a - VIDEO) \<Longrightarrow> mem s' a = mem s a"
    and "fs_info s' = fs_info s" "process_count s' = process_count s" "process_q s' = process_q s" "display_terminal s' = display_terminal s"
    and "systemcalls_initialize s = s \<longrightarrow> systemcalls_initialize s' = s'"
  shows "quiet ns s s'"
  using assms pcb_off_screen [OF assms(2)] by (simp add: quiet_def in_place_def)

text \<open>A process that reads descriptor \<open>fd\<close> into the buffer and writes it to its terminal.\<close>

definition stream_ok :: "symbols \<Rightarrow> u8 list list \<Rightarrow> int \<Rightarrow> u32 \<Rightarrow> nat \<Rightarrow> 'a sys_scheme \<Rightarrow> bool" where
  "stream_ok sy ns fd buf n s \<longleftrightarrow> table_ok sy ns s \<and> shown s \<and> in_place ns buf n s \<and> 2 \<le> fd \<and> n < 2 ^ 30
     \<and> (\<exists>e. fd_tab s 1 = Some e \<and> v_ops e = fops_terminal_functions sy)"

lemma stream_okD:
  assumes "stream_ok sy ns fd buf n s"
  shows "symbols_ok sy" "fd_ok sy ns s" "process_count s \<in> {1..6}" "systemcalls_initialize s = s" "shown s" "in_place ns buf n s"
    "on_screen (screen_y s) (screen_x s)"
  using assms by (simp_all add: stream_ok_def table_ok_def fd_ok_def shown_def)

lemma stream_quiet:
  assumes "stream_ok sy ns fd buf n s" "quiet ns s s'" "on_screen (screen_y s') (screen_x s')"
  shows "stream_ok sy ns fd buf n s'"
proof -
  have "fd_tab s' = fd_tab s" using stream_okD(3) [OF assms(1)] assms(2) by (intro quiet_tab)
  moreover have "in_place ns buf n s'" using stream_okD(6) [OF assms(1)] assms(2) by (simp add: in_place_def quiet_def)
  ultimately show ?thesis
    using assms quiet_ok [OF assms(2) stream_okD(2) [OF assms(1)]] quiet_shown [OF assms(2)] by (simp add: stream_ok_def table_ok_def)
qed

lemma stream_step:
  assumes ok: "stream_ok sy ns fd buf n s" and st: "fd_step s fd s'"
    and e: "\<And>e. fd_tab s' fd = Some e \<Longrightarrow> v_ops e \<in> {fops_file_functions sy, fops_directory_functions sy, fops_rtc_functions sy}"
    and same: "process_q s' = process_q s" "display_terminal s' = display_terminal s" "screen_x s' = screen_x s" "screen_y s' = screen_y s"
  shows "stream_ok sy ns fd buf n s'"
proof -
  have eq: "process_count s' = process_count s" "fs_info s' = fs_info s" "0 \<le> fd" using st by (simp_all add: fd_step_def)
  have "mem s' (current_pblock s + 60 + of_nat j) = mem s (current_pblock s + 60 + of_nat j)" if "j < 4" for j
  proof -
    have "current_pblock s + 60 + of_nat j - fd_at (current_pblock s) fd = of_nat (60 + j) - of_nat (64 + 48 * nat fd)"
      by (simp add: fd_at_nat [OF eq(3)])
    moreover have "nat fd < 8" using st by (simp add: fd_step_def nat_less_iff)
    then have "60 + j < 64 + 48 * nat fd" "64 + 48 * nat fd < 1000" using that by linarith+
    then have "48 \<le> unat (of_nat (60 + j) - of_nat (64 + 48 * nat fd) :: u32)"
      using unat_of_nat32 [of "60 + j"] that by (subst unat_minus_of_nat32_wrap) simp_all
    ultimately have "48 \<le> unat (current_pblock s + 60 + of_nat j - fd_at (current_pblock s) fd)" by (simp only:)
    then show ?thesis using st unfolding fd_step_def by blast
  qed
  from this [of 0] this [of 1] this [of 2] this [of 3]
  have "pcb_get (mem s') (current_pblock s) Terminal_num = pcb_get (mem s) (current_pblock s) Terminal_num"
    unfolding pcb_get_def by (intro load32_cong) (simp_all add: field_at_def)
  then have "shown s'" using stream_okD(5) [OF ok] same eq by (simp add: shown_def)
  moreover have "fd_tab s' 1 = fd_tab s 1" using ok by (intro step_tab_other [OF st]) (simp add: stream_ok_def)
  ultimately show ?thesis
    using ok step_ok [OF st stream_okD(2) [OF ok] e] eq by (simp add: stream_ok_def table_ok_def in_place_def)
qed

section \<open>Writing to the screen\<close>

lemma write_loop_putc:
  assumes "on_screen (screen_y s) (screen_x s)" and "\<And>j. i \<le> j \<Longrightarrow> j < i + k \<Longrightarrow> 4000 \<le> unat (buf + of_nat j - VIDEO)"
  shows "write_loop (\<lambda>c s. Inr (putc c s)) buf i k s = Inr (fold putc (map (\<lambda>j. mem s (buf + of_nat j)) [i..<i + k]) s)"
  using assms
proof (induction k arbitrary: i s)
  case (Suc k)
  let ?c = "mem s (buf + of_nat i)"
  have cur: "con.cursor_ok s" using Suc.prems(1) by (simp add: con.cursor_ok_def)
  have "on_screen (screen_y (putc ?c s)) (screen_x (putc ?c s))" using con.put_cursor [OF cur] by (simp add: con.cursor_ok_def)
  then have "write_loop (\<lambda>c s. Inr (putc c s)) buf (Suc i) k (putc ?c s)
      = Inr (fold putc (map (\<lambda>j. mem (putc ?c s) (buf + of_nat j)) [Suc i..<Suc i + k]) (putc ?c s))"
    using Suc.prems(2) by (intro Suc.IH) simp_all
  moreover have "mem (putc ?c s) (buf + of_nat j) = mem s (buf + of_nat j)" if "j \<in> set [Suc i..<Suc i + k]" for j
    using that Suc.prems(2) [of j] by (intro con.put_outside [OF cur]) auto
  then have "map (\<lambda>j. mem (putc ?c s) (buf + of_nat j)) [Suc i..<Suc i + k] = map (\<lambda>j. mem s (buf + of_nat j)) [Suc i..<Suc i + k]"
    by (intro map_cong refl)
  moreover have "[i..<i + Suc k] = i # [Suc i..<Suc i + k]" by (simp add: upt_conv_Cons)
  ultimately show ?case by (simp only: write_loop.simps res_bind_simps list.map fold_simps)
qed simp

lemma fold_putc_shape:
  fixes s :: "'a console_scheme"
  shows "fold putc cs s = s\<lparr>mem := mem (fold putc cs s), screen_x := screen_x (fold putc cs s), screen_y := screen_y (fold putc cs s)\<rparr>"
  by (intro console.equality) simp_all

lemma write_displayed:
  fixes s :: "'a sys_scheme"
  assumes ok: "stream_ok sy ns fd buf n s" and k: "k \<le> Suc n"
  shows "\<exists>s'. write_sc sy env 1 buf (int k) s = Inr (0, s') \<and> quiet ns s s' \<and> on_screen (screen_y s') (screen_x s')
    \<and> (\<forall>a. 4000 \<le> unat (a - VIDEO) \<longrightarrow> mem s' a = mem s a) \<and> dir_read_count s' = dir_read_count s
    \<and> screen s' = fold tty_put (map (\<lambda>j. mem s (buf + of_nat j)) [0..<k]) (screen s)"
proof -
  let ?cs = "map (\<lambda>j. mem s (buf + of_nat j)) [0..<k]"
  define t where "t = fold putc ?cs s"
  have pl: "in_place ns buf n s" and pc: "process_count s \<in> {1..6}" and init: "systemcalls_initialize s = s" and sy: "symbols_ok sy"
    and scr: "on_screen (screen_y s) (screen_x s)" and sh: "shown s" using stream_okD [OF ok] by simp_all
  have cur: "con.cursor_ok s" using scr by (simp add: con.cursor_ok_def)
  obtain l where l: "update_cursor (screen_x t) (screen_y t) t = t\<lparr>io := l\<rparr>" using update_cursor_shape [of "screen_x t" "screen_y t" t] by blast
  have "write_loop (\<lambda>c s. Inr (putc c s)) buf 0 k s = Inr t"
    using write_loop_putc [OF scr, of 0 k buf] pl k by (simp add: t_def in_place_def)
  then have "term_write buf (int k) s = Inr (0, t\<lparr>io := l\<rparr>)"
    using sh pl l by (simp add: term_write_def pq_get_active_term_def shown_def in_place_def)
  moreover obtain e where e: "fd_tab s 1 = Some e" "v_ops e = fops_terminal_functions sy" using ok by (auto simp: stream_ok_def)
  then have "check_use 1 s AND USE \<noteq> 0" "load32 (mem s) (fop_ptr_at (current_pblock s) 1) = fops_terminal_functions sy"
    by (auto simp: fd_tab_def fd_view_at_def split: if_splits)
  moreover have "fops_terminal_functions sy \<noteq> 0" "fops_terminal_functions sy \<noteq> fops_file_functions sy"
      "fops_terminal_functions sy \<noteq> fops_directory_functions sy" "fops_terminal_functions sy \<noteq> fops_rtc_functions sy"
    using sy by (auto simp: symbols_ok_def)
  ultimately have "write_sc sy env 1 buf (int k) s = Inr (0, t\<lparr>io := l\<rparr>)"
    using pl pblock_nonzero [OF pc] tables_ready [OF init]
    by (simp add: write_sc_def fops_of_def call_write_def in_place_def Let_def)
  moreover have t: "t = s\<lparr>mem := mem t, screen_x := screen_x t, screen_y := screen_y t\<rparr>" unfolding t_def by (rule fold_putc_shape)
  have out: "mem (t\<lparr>io := l\<rparr>) a = mem s a" if "4000 \<le> unat (a - VIDEO)" for a
    using con.run_outside [OF cur that, of ?cs] by (simp add: t_def)
  have fields: "fs_info t = fs_info s" "process_count t = process_count s" "process_q t = process_q s" "display_terminal t = display_terminal s"
      "dir_read_count t = dir_read_count s"
    by (subst t, simp)+
  have "systemcalls_initialize (t\<lparr>io := l\<rparr>) = t\<lparr>io := l\<rparr>"
    by (subst (1 2) t, subst (2) init [symmetric]) (simp add: systemcalls_initialize_def)
  then have "quiet ns s (t\<lparr>io := l\<rparr>)" using out by (intro quietI [OF pl pc]) (simp_all add: fields)
  moreover have "on_screen (screen_y t) (screen_x t)" using con.run_cursor [OF cur, of ?cs] by (simp add: con.cursor_ok_def t_def)
  moreover have "screen (t\<lparr>io := l\<rparr>) = fold tty_put ?cs (screen s)"
    using con.run_refines_tty [OF cur, of ?cs] by (simp add: con.view_def screen_def t_def)
  ultimately show ?thesis using out fields(5) by auto
qed

section \<open>A regular file as a stream\<close>

definition file_inode :: "nat \<Rightarrow> 'a fs_scheme \<Rightarrow> u32" where
  "file_inode i s = load32 (mem s) (dir_entries (fs_info s) ! i + 36)"

text \<open>The contents of the file of directory entry \<open>i\<close>, and the part a descriptor has not read yet.\<close>

definition file_bytes :: "nat \<Rightarrow> 'a fs_scheme \<Rightarrow> u8 list" where
  "file_bytes i s = map (file_byte (fs_info s) (mem s) (file_inode i s)) [0..<file_size (fs_info s) (mem s) (file_inode i s)]"

definition file_pos :: "int \<Rightarrow> 'a proc_scheme \<Rightarrow> nat" where
  "file_pos fd s = (case fd_tab s fd of Some e \<Rightarrow> unat (v_pos e) | None \<Rightarrow> 0)"

text \<open>The file of entry \<open>i\<close> lies outside the buffer, the screen and the control block.\<close>

definition file_place :: "nat \<Rightarrow> u32 \<Rightarrow> 'a fs_scheme \<Rightarrow> bool" where
  "file_place i buf s \<longleftrightarrow> file_size (fs_info s) (mem s) (file_inode i s) \<le> 4096 * 1023
     \<and> (\<forall>a \<in> file_area (fs_info s) (mem s) (file_inode i s). off_pcb (current_pblock s) a \<and> 1025 \<le> unat (a - buf) \<and> 4000 \<le> unat (a - VIDEO))"

definition file_stream :: "symbols \<Rightarrow> u8 list list \<Rightarrow> nat \<Rightarrow> int \<Rightarrow> u32 \<Rightarrow> 'a sys_scheme \<Rightarrow> bool" where
  "file_stream sy ns i fd buf s \<longleftrightarrow> stream_ok sy ns fd buf 1024 s \<and> i < length ns \<and> file_place i buf s
     \<and> (\<exists>v pos. fd_tab s fd = Some \<lparr>v_ops = fops_file_functions sy, v_inode = v, v_name = ns ! i, v_pos = pos\<rparr>
          \<and> unat pos \<le> length (file_bytes i s))"

function pieces :: "nat \<Rightarrow> 'a list \<Rightarrow> 'a list list" where
  "pieces n xs = (if xs = [] \<or> n = 0 then [] else take n xs # pieces n (drop n xs))"
  by pat_completeness auto
termination
  by (relation "measure (\<lambda>(n, xs). length xs)") auto

declare pieces.simps [simp del]

lemma concat_pieces: "0 < n \<Longrightarrow> concat (pieces n xs) = xs"
proof (induction n xs rule: pieces.induct)
  case (1 n xs)
  then show ?case by (subst pieces.simps) simp
qed

lemma pieces_length: "c \<in> set (pieces n xs) \<Longrightarrow> 0 < length c \<and> length c \<le> n"
proof (induction n xs rule: pieces.induct)
  case (1 n xs)
  then show ?case by (subst (asm) (2) pieces.simps) (auto split: if_splits)
qed

text \<open>Two states with the same file.\<close>

definition same_file :: "nat \<Rightarrow> 'a fs_scheme \<Rightarrow> 'a fs_scheme \<Rightarrow> bool" where
  "same_file i s s' \<longleftrightarrow> fs_info s' = fs_info s \<and> process_count s' = process_count s \<and> file_inode i s' = file_inode i s
     \<and> (\<forall>a \<in> file_area (fs_info s) (mem s) (file_inode i s). mem s' a = mem s a)"

lemma same_file_kept:
  assumes "same_file i s s'" "file_place i buf s"
  shows "file_place i buf s'" "file_bytes i s' = file_bytes i s"
proof -
  have eq: "fs_info s' = fs_info s" "process_count s' = process_count s" "file_inode i s' = file_inode i s"
    using assms(1) by (simp_all add: same_file_def)
  have "\<forall>a \<in> file_area (fs_info s) (mem s) (file_inode i s). mem s' a = mem s a" using assms(1) by (simp add: same_file_def)
  note same = file_cong [OF this]
  have size: "file_size (fs_info s) (mem s) (file_inode i s) \<le> 4096 * 1023" using assms(2) by (simp add: file_place_def)
  show "file_place i buf s'" using assms(2) unfolding file_place_def eq same(1,2) [OF size] .
  show "file_bytes i s' = file_bytes i s" unfolding file_bytes_def eq same(1) [OF size] using same(3) [OF size] by simp
qed

lemma entry_inode_kept:
  assumes "\<And>k. k < 64 \<Longrightarrow> mem s' (dir_entries (fs_info s) ! i + of_nat k) = mem s (dir_entries (fs_info s) ! i + of_nat k)"
    and "fs_info s' = fs_info s"
  shows "file_inode i s' = file_inode i s"
proof -
  have "mem s' (dir_entries (fs_info s) ! i + 36 + of_nat j) = mem s (dir_entries (fs_info s) ! i + 36 + of_nat j)" if "j < 4" for j
    using assms(1) [of "36 + j"] that by (simp add: add.assoc)
  from this [of 0] this [of 1] this [of 2] this [of 3] show ?thesis
    unfolding file_inode_def assms(2) by (intro load32_cong) simp_all
qed

lemma quiet_file:
  assumes "quiet ns s s'" "i < length ns" "\<forall>a \<in> file_area (fs_info s) (mem s) (file_inode i s). mem s' a = mem s a"
  shows "same_file i s s'"
  using assms entry_inode_kept [of s' s i] by (simp add: same_file_def quiet_def)

lemma file_stream_quiet:
  assumes ok: "file_stream sy ns i fd buf s" and q: "quiet ns s s'" and scr: "on_screen (screen_y s') (screen_x s')"
    and area: "\<forall>a \<in> file_area (fs_info s) (mem s) (file_inode i s). mem s' a = mem s a"
  shows "file_stream sy ns i fd buf s'" "file_bytes i s' = file_bytes i s" "file_pos fd s' = file_pos fd s"
proof -
  have st: "stream_ok sy ns fd buf 1024 s" "i < length ns" "file_place i buf s" using ok by (simp_all add: file_stream_def)
  note same = same_file_kept [OF quiet_file [OF q st(2) area] st(3)]
  have tab: "fd_tab s' = fd_tab s" using q stream_okD(3) [OF st(1)] by (rule quiet_tab)
  show "file_stream sy ns i fd buf s'" "file_bytes i s' = file_bytes i s" "file_pos fd s' = file_pos fd s"
    using ok stream_quiet [OF st(1) q scr] same by (simp_all add: file_stream_def tab file_pos_def)
qed

lemma screen_kept:
  assumes "\<And>a. unat (a - VIDEO) < 4000 \<Longrightarrow> mem s' a = mem s a" "screen_x s' = screen_x s" "screen_y s' = screen_y s"
  shows "screen s' = screen s"
  unfolding screen_def assms(2,3) by (rule page_view_cong) (rule assms(1))

lemma off_screen_buffer:
  assumes "in_place ns buf n s" "unat (a - VIDEO) < 4000" "n < 2 ^ 31"
  shows "Suc n \<le> unat (a - buf)"
proof (rule ccontr)
  assume "\<not> Suc n \<le> unat (a - buf)"
  then have "unat (a - buf) \<le> n" by simp
  then have "4000 \<le> unat (buf + of_nat (unat (a - buf)) - VIDEO)" using assms(1) unfolding in_place_def by blast
  then show False using assms(2) by simp
qed

lemma off_screen_pcb:
  assumes "process_count s \<in> {1..6}" "unat (a - VIDEO) < 4000"
  shows "off_pcb (current_pblock s) a"
  unfolding off_pcb_def
proof (rule ccontr)
  assume "\<not> 580 \<le> unat (a - current_pblock s)"
  then have "4000 \<le> unat (current_pblock s + of_nat (unat (a - current_pblock s)) - VIDEO)" by (intro pcb_off_screen [OF assms(1)]) simp
  then show False using assms(2) by simp
qed

text \<open>A change of the descriptor's own entry.\<close>

lemma file_stream_step:
  assumes sok: "stream_ok sy ns fd buf 1024 s" and i: "i < length ns" and pl: "file_place i buf s" and st: "fd_step s fd s'"
    and e: "fd_tab s' fd = Some \<lparr>v_ops = fops_file_functions sy, v_inode = v, v_name = ns ! i, v_pos = pos\<rparr>" "unat pos \<le> length (file_bytes i s)"
    and same: "process_q s' = process_q s" "display_terminal s' = display_terminal s" "screen_x s' = screen_x s" "screen_y s' = screen_y s"
  shows "file_stream sy ns i fd buf s'" "file_bytes i s' = file_bytes i s" "file_pos fd s' = unat pos" "screen s' = screen s"
proof -
  have eq: "process_count s' = process_count s" "fs_info s' = fs_info s" using st by (simp_all add: fd_step_def)
  have "file_inode i s' = file_inode i s"
    using dir_off [OF stream_okD(2) [OF sok] i] step_off [OF st] by (intro entry_inode_kept eq) simp
  then have "same_file i s s'" using step_off [OF st] pl eq by (simp add: same_file_def file_place_def)
  note kept = same_file_kept [OF this pl]
  show "file_bytes i s' = file_bytes i s" by (rule kept(2))
  have "stream_ok sy ns fd buf 1024 s'" using e(1) same by (intro stream_step [OF sok st]) simp_all
  then show "file_stream sy ns i fd buf s'" using e i kept by (simp add: file_stream_def)
  show "file_pos fd s' = unat pos" by (simp add: file_pos_def e(1))
  show "screen s' = screen s"
    using off_screen_pcb [OF stream_okD(3) [OF sok]] step_off [OF st] same by (intro screen_kept) simp_all
qed

lemma file_read_next:
  fixes s :: "'a sys_scheme"
  assumes ok: "file_stream sy ns i fd buf s"
  defines "n \<equiv> min 1024 (length (file_bytes i s) - file_pos fd s)"
  shows "\<exists>s'. read_sc sy handler junk js fd buf 1024 s = Inr (int n, js, s') \<and> file_stream sy ns i fd buf s'
    \<and> file_bytes i s' = file_bytes i s \<and> file_pos fd s' = file_pos fd s + n \<and> screen s' = screen s
    \<and> (\<forall>k < n. mem s' (buf + of_nat k) = file_bytes i s ! (file_pos fd s + k))"
proof -
  let ?inode = "file_inode i s" and ?p = "current_pblock s"
  have st: "stream_ok sy ns fd buf 1024 s" and i: "i < length ns" and pl: "file_place i buf s" using ok by (simp_all add: file_stream_def)
  obtain v pos where e: "fd_tab s fd = Some \<lparr>v_ops = fops_file_functions sy, v_inode = v, v_name = ns ! i, v_pos = pos\<rparr>"
    and pos: "unat pos \<le> file_size (fs_info s) (mem s) ?inode" using ok by (auto simp: file_stream_def file_bytes_def)
  have in_pl: "in_place ns buf 1024 s" and fd: "2 \<le> fd" "fd < 8" and pc: "process_count s \<in> {1..6}" and init: "systemcalls_initialize s = s"
    using st stream_okD [OF st] e by (auto simp: stream_ok_def fd_tab_def split: if_splits)
  have fp: "file_pos fd s = unat pos" by (simp add: file_pos_def e)
  have len: "length (file_bytes i s) = file_size (fs_info s) (mem s) ?inode" by (simp add: file_bytes_def)
  have n: "n = min (nat 1024) (file_size (fs_info s) (mem s) ?inode - unat pos)" "n \<le> 1024" by (simp_all add: n_def len fp)
  have far: "\<forall>a \<in> file_area (fs_info s) (mem s) ?inode. n \<le> unat (a - buf)" "\<forall>k < 580. n \<le> unat (?p + of_nat k - buf)"
    using pl in_pl n(2) by (fastforce simp: file_place_def, fastforce simp: in_place_def)
  have buf: "buf \<noteq> 0" and size: "file_size (fs_info s) (mem s) ?inode \<le> 4096 * 1023" and bounds: "fd \<noteq> 1" "(0 :: int) \<le> 1024" "(1024 :: int) < 2 ^ 31"
    using in_pl pl fd by (simp_all add: in_place_def file_place_def)
  define m where "m = blit (mem s) buf n (\<lambda>k. file_byte (fs_info s) (mem s) ?inode (unat pos + k))"
  let ?s = "s\<lparr>mem := m\<rparr>" and ?t = "s\<lparr>mem := store32 m (file_pos_at ?p fd) (pos + of_nat n)\<rparr>"
  note rd = read_at [OF stream_okD(1,2) [OF st] i e bounds(1) file_inode_def pos size bounds(2,3) n(1) buf far, folded m_def]
  have m: "m a = mem s a" if "1025 \<le> unat (a - buf)" for a unfolding m_def using that n(2) by (intro blit_out) simp
  have "systemcalls_initialize ?s = ?s" using tables_ready_step [OF init, where M = m and es = "io s" and f = "iflag s"] by simp
  then have q: "quiet ns s ?s" using m by (intro quietI [OF in_pl pc]) simp_all
  have area: "\<forall>a \<in> file_area (fs_info s) (mem s) ?inode. mem ?s a = mem s a" using m pl by (simp add: file_place_def)
  have scr: "on_screen (screen_y ?s) (screen_x ?s)" using stream_okD(7) [OF st] by simp
  note s1 = file_stream_quiet [OF ok q scr area]
  have step: "fd_step ?s fd ?t"
    using fd pc tables_ready_step [OF init, where es = "io s" and f = "iflag s"] by (simp add: fd_step_def store_in_entry')
  have le: "unat (pos + of_nat n) \<le> length (file_bytes i ?s)" unfolding s1(2) rd(4) using pos by (simp add: len n(1))
  have "stream_ok sy ns fd buf 1024 ?s" "file_place i buf ?s" using s1(1) by (simp_all add: file_stream_def)
  note s2 = file_stream_step [OF this(1) i this(2) step rd(3) le]
  have "screen ?s = screen s" using m off_screen_buffer [OF in_pl] by (intro screen_kept) simp_all
  then have "file_stream sy ns i fd buf ?t" "file_bytes i ?t = file_bytes i s" "file_pos fd ?t = file_pos fd s + n" "screen ?t = screen s"
    using s2 by (simp_all add: s1(2) rd(4) fp)
  moreover have "\<forall>k < n. mem ?t (buf + of_nat k) = file_bytes i s ! (file_pos fd s + k)"
  proof (intro allI impI)
    fix k
    assume k: "k < n"
    then have "unat pos + k < file_size (fs_info s) (mem s) ?inode" using n(1) by linarith
    then have "file_bytes i s ! (file_pos fd s + k) = file_byte (fs_info s) (mem s) ?inode (unat pos + k)" by (simp add: fp file_bytes_def)
    then show "mem ?t (buf + of_nat k) = file_bytes i s ! (file_pos fd s + k)" using rd(2) k by simp
  qed
  ultimately show ?thesis using rd(1) [of handler junk js] by blast
qed

lemma file_write:
  fixes s :: "'a sys_scheme"
  assumes ok: "file_stream sy ns i fd buf s" and k: "k \<le> 1025"
  shows "\<exists>s'. write_sc sy env 1 buf (int k) s = Inr (0, s') \<and> file_stream sy ns i fd buf s' \<and> file_bytes i s' = file_bytes i s
    \<and> file_pos fd s' = file_pos fd s \<and> screen s' = fold tty_put (map (\<lambda>j. mem s (buf + of_nat j)) [0..<k]) (screen s)"
proof -
  have st: "stream_ok sy ns fd buf 1024 s" and pl: "file_place i buf s" using ok by (simp_all add: file_stream_def)
  obtain s' where s': "write_sc sy env 1 buf (int k) s = Inr (0, s')" "quiet ns s s'" "on_screen (screen_y s') (screen_x s')"
      "\<forall>a. 4000 \<le> unat (a - VIDEO) \<longrightarrow> mem s' a = mem s a"
      "screen s' = fold tty_put (map (\<lambda>j. mem s (buf + of_nat j)) [0..<k]) (screen s)"
    using write_displayed [OF st, of k env] k by auto
  have "\<forall>a \<in> file_area (fs_info s) (mem s) (file_inode i s). mem s' a = mem s a" using s'(4) pl by (simp add: file_place_def)
  from file_stream_quiet [OF ok s'(2,3) this] show ?thesis using s'(1,5) by blast
qed

text \<open>A store to the buffer.\<close>

lemma quiet_store:
  fixes s :: "'a sys_scheme" and v :: u8
  assumes st: "stream_ok sy ns fd buf n s" and k: "k \<le> n"
  defines "s' \<equiv> s\<lparr>mem := (mem s)(buf + of_nat k := v)\<rparr>"
  shows "quiet ns s s'" "screen s' = screen s" "on_screen (screen_y s') (screen_x s')" "Suc n \<le> unat (a - buf) \<Longrightarrow> mem s' a = mem s a"
proof -
  have pl: "in_place ns buf n s" and pc: "process_count s \<in> {1..6}" and init: "systemcalls_initialize s = s" and n: "n < 2 ^ 31"
    using stream_okD [OF st] st by (simp_all add: stream_ok_def)
  show other: "mem s' a = mem s a" if "Suc n \<le> unat (a - buf)" for a
    using that k n by (auto simp: s'_def unat_of_nat32)
  have "systemcalls_initialize s' = s'"
    using tables_ready_step [OF init, where M = "mem s'" and es = "io s" and f = "iflag s"] by (simp add: s'_def)
  then show "quiet ns s s'" using other by (intro quietI [OF pl pc]) (simp_all add: s'_def)
  show "screen s' = screen s" using other off_screen_buffer [OF pl _ n] by (intro screen_kept) (simp_all add: s'_def)
  show "on_screen (screen_y s') (screen_x s')" using stream_okD(7) [OF st] by (simp add: s'_def)
qed

lemma file_store:
  fixes s :: "'a sys_scheme" and v :: u8
  assumes ok: "file_stream sy ns i fd buf s" and k: "k \<le> 1024"
  defines "s' \<equiv> s\<lparr>mem := (mem s)(buf + of_nat k := v)\<rparr>"
  shows "file_stream sy ns i fd buf s'" "file_bytes i s' = file_bytes i s" "file_pos fd s' = file_pos fd s" "screen s' = screen s"
proof -
  have st: "stream_ok sy ns fd buf 1024 s" and pl: "file_place i buf s" using ok by (simp_all add: file_stream_def)
  note q = quiet_store [OF st k, where v = v, folded s'_def]
  have "\<forall>a \<in> file_area (fs_info s) (mem s) (file_inode i s). mem s' a = mem s a" using q(4) pl by (simp add: file_place_def)
  from file_stream_quiet [OF ok q(1,3) this] q(2)
  show "file_stream sy ns i fd buf s'" "file_bytes i s' = file_bytes i s" "file_pos fd s' = file_pos fd s" "screen s' = screen s" by simp_all
qed

section \<open>The streams behind the traps\<close>

text \<open>The state in which a program with an argument of at most 31 characters starts: the kernel delivers it to the buffer.\<close>

definition argument_is :: "u8 list \<Rightarrow> u32 \<Rightarrow> 'a proc_scheme \<Rightarrow> bool" where
  "argument_is xs buf s \<longleftrightarrow> xs \<noteq> [] \<and> pcb_get (mem s) (current_pblock s) Argument_length = of_nat (length xs) + 1
     \<and> holds_str (ptr_at (mem s) (argument_buffer_at (current_pblock s))) xs \<and> 1024 \<le> unat (buf - argument_buffer_at (current_pblock s))"

lemma kernel_read:
  assumes "read_sc sy handler (junk_dentry lo) js fd buf n (restore_flags True s) = Inr (r, js', s')"
    and "- (2 ^ 31) \<le> fd" "fd < 2 ^ 31" "- (2 ^ 31) \<le> n" "n < 2 ^ 31"
  shows "ece391_read (kernel_os sy env handler lo literals) fd buf n (js, s) = Inr (r, (js', restore_flags (iflag s) s'))"
  unfolding ece391_read_def using assms by (intro kernel_trap) (simp_all add: sys_call_def sti_cli sint_small)

lemma kernel_write:
  assumes "write_sc sy env fd buf n (restore_flags True s) = Inr (r, s')"
    and "- (2 ^ 31) \<le> fd" "fd < 2 ^ 31" "- (2 ^ 31) \<le> n" "n < 2 ^ 31"
  shows "ece391_write (kernel_os sy env handler lo literals) fd buf n (js, s) = Inr (r, (js, restore_flags (iflag s) s'))"
  unfolding ece391_write_def using assms by (intro kernel_trap) (simp_all add: sys_call_def sti_cli sint_small)

lemma kernel_poke: "poke (kernel_os sy env handler lo literals) a v (js, s) = (js, s\<lparr>mem := (mem s)(a := v)\<rparr>)"
  by (simp add: poke_def)

lemma flags_stream [simp]:
  fixes s :: "'a sys_scheme"
  shows "stream_ok sy ns fd buf n (restore_flags f s) = stream_ok sy ns fd buf n s" "screen (restore_flags f s) = screen s"
    "file_bytes i (restore_flags f s) = file_bytes i s" "file_pos fd (restore_flags f s) = file_pos fd s"
    "file_stream sy ns i fd buf (restore_flags f s) = file_stream sy ns i fd buf s"
    "dir_read_count (restore_flags f s) = dir_read_count s" "fs_info (restore_flags f s) = fs_info s"
    "file_place i buf (restore_flags f s) = file_place i buf s" "argument_is xs buf (restore_flags f s) = argument_is xs buf s"
proof -
  have "shown (restore_flags f s) = shown s" "in_place ns buf n (restore_flags f s) = in_place ns buf n s" for n
    by (simp_all add: shown_def in_place_def restore_flags_def)
  then show ok: "stream_ok sy ns fd buf n (restore_flags f s) = stream_ok sy ns fd buf n s" for n
    by (simp add: stream_ok_def flags_kept)
  show "screen (restore_flags f s) = screen s" "dir_read_count (restore_flags f s) = dir_read_count s" "fs_info (restore_flags f s) = fs_info s"
      "argument_is xs buf (restore_flags f s) = argument_is xs buf s"
    by (simp_all add: screen_def argument_is_def restore_flags_def)
  show "file_pos fd (restore_flags f s) = file_pos fd s" by (simp add: file_pos_def flags_kept)
  have inode: "file_inode i (restore_flags f s) = file_inode i s" "fs_info (restore_flags f s) = fs_info s"
      "process_count (restore_flags f s) = process_count s"
    by (simp_all add: file_inode_def restore_flags_def)
  then show bytes: "file_bytes i (restore_flags f s) = file_bytes i s" by (simp add: file_bytes_def)
  show place: "file_place i buf (restore_flags f s) = file_place i buf s" by (simp add: file_place_def inode)
  show "file_stream sy ns i fd buf (restore_flags f s) = file_stream sy ns i fd buf s"
    unfolding file_stream_def ok bytes flags_kept place by simp
qed


text \<open>The rest of the file in the pieces \<^verbatim>\<open>cat\<close> reads.\<close>

definition file_chunks :: "nat \<Rightarrow> int \<Rightarrow> 'a fs_scheme \<Rightarrow> u8 list list" where
  "file_chunks i fd s = pieces 1024 (drop (file_pos fd s) (file_bytes i s))"

lemma file_chunks_next:
  assumes "file_stream sy ns i fd buf s" "file_bytes i s' = file_bytes i s"
    and n: "n = min 1024 (length (file_bytes i s) - file_pos fd s)" "file_pos fd s' = file_pos fd s + n"
  shows "file_chunks i fd s = (if n = 0 then [] else take n (drop (file_pos fd s) (file_bytes i s)) # file_chunks i fd s')"
proof (cases "n = 0")
  case True
  then have "drop (file_pos fd s) (file_bytes i s) = []" using n(1) by simp
  then show ?thesis using True by (simp add: file_chunks_def pieces.simps)
next
  case False
  let ?r = "drop (file_pos fd s) (file_bytes i s)"
  have "take 1024 ?r = take n ?r" "drop 1024 ?r = drop n ?r" using n(1) by (simp_all add: min_def)
  then show ?thesis
    using False n assms(2) unfolding file_chunks_def by (subst pieces.simps) (auto simp: add.commute)
qed

interpretation fstream: stream_system "kernel_os sy env handler lo literals" fd buf 1024 "file_stream sy ns i fd buf \<circ> snd" "file_chunks i fd \<circ> snd"
  "screen \<circ> snd" tty_put for sy env handler lo literals ns i fd buf
proof
  fix st :: "'a list \<times> 'b sys_scheme" and c cs
  obtain js s where st: "st = (js, s)" by (cases st)
  let ?t = "restore_flags True s" and ?n = "min 1024 (length (file_bytes i s) - file_pos fd s)"
  assume ok: "(file_stream sy ns i fd buf \<circ> snd) st" and c: "(file_chunks i fd \<circ> snd) st = c # cs"
  then obtain s' where s': "read_sc sy handler (junk_dentry lo) js fd buf 1024 ?t = Inr (int ?n, js, s')" "file_stream sy ns i fd buf s'"
      "file_bytes i s' = file_bytes i s" "file_pos fd s' = file_pos fd s + ?n" "screen s' = screen s"
      "\<forall>k < ?n. mem s' (buf + of_nat k) = file_bytes i s ! (file_pos fd s + k)"
    using file_read_next [of sy ns i fd buf ?t handler "junk_dentry lo" js] by (auto simp: st)
  have fd: "- (2 ^ 31) \<le> fd" "fd < 2 ^ 31" using ok by (auto simp: st file_stream_def stream_ok_def fd_tab_def split: if_splits)
  have "c = take ?n (drop (file_pos fd s) (file_bytes i s))" "cs = file_chunks i fd s'"
    using c file_chunks_next [of sy ns i fd buf s s', OF _ s'(3) refl s'(4)] ok by (auto simp: st split: if_splits)
  moreover from this have "length c = ?n" by simp
  moreover have "file_pos fd s \<le> length (file_bytes i s)" using ok by (auto simp: st file_stream_def file_pos_def)
  ultimately show "\<exists>s'. ece391_read (kernel_os sy env handler lo literals) fd buf (int 1024) st = Inr (int (length c), s')
      \<and> (file_stream sy ns i fd buf \<circ> snd) s' \<and> (file_chunks i fd \<circ> snd) s' = cs \<and> (screen \<circ> snd) s' = (screen \<circ> snd) st
      \<and> (\<forall>k < length c. umem (kernel_os sy env handler lo literals) s' (buf + of_nat k) = c ! k)"
    using kernel_read [OF s'(1) fd] s'(2,5,6)
    by (intro exI [of _ "(js, restore_flags (iflag s) s')"]) (simp add: st file_chunks_def)
next
  fix st :: "'a list \<times> 'b sys_scheme"
  obtain js s where st: "st = (js, s)" by (cases st)
  let ?t = "restore_flags True s" and ?n = "min 1024 (length (file_bytes i s) - file_pos fd s)"
  assume ok: "(file_stream sy ns i fd buf \<circ> snd) st" and c: "(file_chunks i fd \<circ> snd) st = []"
  then obtain s' where s': "read_sc sy handler (junk_dentry lo) js fd buf 1024 ?t = Inr (int ?n, js, s')" "file_bytes i s' = file_bytes i s"
      "file_pos fd s' = file_pos fd s + ?n" "screen s' = screen s"
    using file_read_next [of sy ns i fd buf ?t handler "junk_dentry lo" js] by (auto simp: st)
  have fd: "- (2 ^ 31) \<le> fd" "fd < 2 ^ 31" using ok by (auto simp: st file_stream_def stream_ok_def fd_tab_def split: if_splits)
  have "?n = 0" using c file_chunks_next [of sy ns i fd buf s s', OF _ s'(2) refl s'(3)] ok by (auto simp: st split: if_splits)
  then show "\<exists>s'. ece391_read (kernel_os sy env handler lo literals) fd buf (int 1024) st = Inr (0, s') \<and> (screen \<circ> snd) s' = (screen \<circ> snd) st"
    using kernel_read [OF s'(1) fd] s'(4) by (intro exI [of _ "(js, restore_flags (iflag s) s')"]) (simp add: st)
next
  fix st :: "'a list \<times> 'b sys_scheme" and c
  assume "c \<in> set ((file_chunks i fd \<circ> snd) st)"
  then show "0 < length c \<and> length c \<le> 1024" using pieces_length [of c 1024] by (auto simp: file_chunks_def)
next
  fix st :: "'a list \<times> 'b sys_scheme" and k
  obtain js s where st: "st = (js, s)" by (cases st)
  assume "(file_stream sy ns i fd buf \<circ> snd) st" and k: "k \<le> Suc 1024"
  then obtain s' where "write_sc sy env 1 buf (int k) (restore_flags True s) = Inr (0, s')" "file_stream sy ns i fd buf s'" "file_bytes i s' = file_bytes i s"
      "file_pos fd s' = file_pos fd s" "screen s' = fold tty_put (map (\<lambda>j. mem s (buf + of_nat j)) [0..<k]) (screen s)"
    using file_write [of sy ns i fd buf "restore_flags True s" k env] by (auto simp: st)
  then show "\<exists>s'. ece391_write (kernel_os sy env handler lo literals) 1 buf (int k) st = Inr (0, s') \<and> (file_stream sy ns i fd buf \<circ> snd) s'
      \<and> (file_chunks i fd \<circ> snd) s' = (file_chunks i fd \<circ> snd) st
      \<and> (screen \<circ> snd) s' = fold tty_put (map (\<lambda>j. umem (kernel_os sy env handler lo literals) st (buf + of_nat j)) [0..<k]) ((screen \<circ> snd) st)"
    using kernel_write [of sy env 1 buf "int k" s 0 s'] k
    by (intro exI [of _ "(js, restore_flags (iflag s) s')"]) (simp add: st file_chunks_def)
next
  fix st :: "'a list \<times> 'b sys_scheme" and k :: nat and v :: u8
  obtain js s where st: "st = (js, s)" by (cases st)
  assume "(file_stream sy ns i fd buf \<circ> snd) st" and k: "k \<le> 1024"
  then have "file_stream sy ns i fd buf s" by (simp add: st)
  from file_store [OF this k, of v]
  show "(file_stream sy ns i fd buf \<circ> snd) (poke (kernel_os sy env handler lo literals) (buf + of_nat k) v st)
      \<and> (file_chunks i fd \<circ> snd) (poke (kernel_os sy env handler lo literals) (buf + of_nat k) v st) = (file_chunks i fd \<circ> snd) st
      \<and> (screen \<circ> snd) (poke (kernel_os sy env handler lo literals) (buf + of_nat k) v st) = (screen \<circ> snd) st
      \<and> umem (kernel_os sy env handler lo literals) (poke (kernel_os sy env handler lo literals) (buf + of_nat k) v st)
        = (umem (kernel_os sy env handler lo literals) st)(buf + of_nat k := v)"
    by (simp add: st kernel_poke file_chunks_def)
qed simp

section \<open>The program cat on the kernel\<close>

lemma open_starts_stream:
  fixes s :: "'a sys_scheme"
  assumes sok: "stream_ok sy ns fd buf 1024 s" and i: "i < length ns" and pl: "file_place i buf s" and free: "lowest_free (fd_tab s) fd"
    and nm: "name_ok ns filename s" "holds_str (ptr_at (mem s) filename) (ns ! i)" and type: "mem s (dir_entries (fs_info s) ! i + 32) = 2"
  shows "\<exists>s'. open_sc sy env junk filename s = Inr (fd, s') \<and> file_stream sy ns i fd buf s' \<and> file_bytes i s' = file_bytes i s
    \<and> file_pos fd s' = 0 \<and> screen s' = screen s"
proof -
  have sy: "symbols_ok sy" and ok: "fd_ok sy ns s" using stream_okD [OF sok] by simp_all
  obtain s' where s': "open_sc sy env junk filename s = Inr (fd, s')" "fd_step s fd s'" "fd_tab s' fd = Some (fresh_entry sy ns filename s)"
      "s' = s\<lparr>mem := mem s', io := io s', iflag := iflag s'\<rparr>"
    using open_sc_step [OF sy ok nm(1) free] by blast
  have dist: "distinct ns" and len: "length (ns ! i) \<le> 31" using ok i by (simp_all add: fd_ok_def)
  obtain v where entry: "fresh_entry sy ns filename s = \<lparr>v_ops = fops_file_functions sy, v_inode = v, v_name = ns ! i, v_pos = 0\<rparr>"
    using type by (simp add: fresh_entry_def Let_def name_of [OF nm(2) len] index_of [OF dist i] del: upt_rec_numeral)
  have same: "process_q s' = process_q s" "display_terminal s' = display_terminal s" "screen_x s' = screen_x s" "screen_y s' = screen_y s"
    by (subst s'(4), simp)+
  have "unat (0 :: u32) \<le> length (file_bytes i s)" by simp
  from file_stream_step [OF sok i pl s'(2) s'(3) [unfolded entry] this same] show ?thesis using s'(1) by auto
qed

lemma off_pcb_buffer:
  assumes "in_place ns buf n s" "k \<le> n" "n < 2 ^ 31"
  shows "off_pcb (current_pblock s) (buf + of_nat k)"
  unfolding off_pcb_def
proof (rule ccontr)
  let ?d = "unat (buf + of_nat k - current_pblock s)"
  assume "\<not> 580 \<le> ?d"
  then have "Suc n \<le> unat (current_pblock s + of_nat ?d - buf)" using assms(1) unfolding in_place_def by (meson not_less)
  moreover have "current_pblock s + of_nat ?d - buf = of_nat k" by simp
  ultimately show False using assms(2,3) by (simp add: unat_of_nat32)
qed

lemma kernel_getargs:
  "getargs buf n (restore_flags True s) = (r, s') \<Longrightarrow> - (2 ^ 31) \<le> n \<Longrightarrow> n < 2 ^ 31 \<Longrightarrow>
    ece391_getargs (kernel_os sy env handler lo literals) buf n (js, s) = Inr (r, (js, restore_flags (iflag s) s'))"
  unfolding ece391_getargs_def by (rule kernel_trap) (simp_all add: sys_call_def sti_cli sint_small)

lemma argument_delivered:
  fixes s :: "'a sys_scheme"
  assumes sok: "stream_ok sy ns fd buf 1024 s" and i: "i < length ns" and pl: "file_place i buf s" and arg: "argument_is (ns ! i) buf s"
  shows "\<exists>s'. getargs buf 1024 s = (0, s') \<and> stream_ok sy ns fd buf 1024 s' \<and> same_file i s s' \<and> fd_tab s' = fd_tab s \<and> screen s' = screen s
    \<and> name_ok ns buf s' \<and> holds_str (ptr_at (mem s') buf) (ns ! i) \<and> quiet ns s s'"
proof -
  let ?m = "blit (mem s) buf 1024 (\<lambda>k. mem s (argument_buffer_at (current_pblock s) + of_nat k))" and ?s = "\<lambda>m. s\<lparr>mem := m\<rparr>"
  have in_pl: "in_place ns buf 1024 s" and pc: "process_count s \<in> {1..6}" and init: "systemcalls_initialize s = s" and len: "length (ns ! i) \<le> 31"
    using stream_okD [OF sok] i by (simp_all add: fd_ok_def)
  have "word_of_int 1024 \<le> buf - argument_buffer_at (current_pblock s)" using arg by (simp add: argument_is_def word_le_nat_alt)
  then have ga: "getargs buf 1024 s = (0, ?s ?m)" "holds_str (ptr_at (mem (snd (getargs buf 1024 s))) buf) (ns ! i)"
    using getargs_delivers [of s "ns ! i" 1024 buf] arg in_pl len by (simp_all add: argument_is_def in_place_def)
  have m: "?m a = mem s a" if "1025 \<le> unat (a - buf)" for a using that by (intro blit_out) simp
  have "systemcalls_initialize (?s ?m) = ?s ?m" using tables_ready_step [OF init, where M = ?m and es = "io s" and f = "iflag s"] by simp
  then have q: "quiet ns s (?s ?m)" using m by (intro quietI [OF in_pl pc]) simp_all
  have "\<forall>a \<in> file_area (fs_info s) (mem s) (file_inode i s). mem (?s ?m) a = mem s a" using m pl by (simp add: file_place_def)
  then have same: "same_file i s (?s ?m)" by (rule quiet_file [OF q i])
  have ok: "stream_ok sy ns fd buf 1024 (?s ?m)" using stream_okD(7) [OF sok] by (intro stream_quiet [OF sok q]) simp
  have "name_ok ns buf (?s ?m)"
    using ga i in_pl off_pcb_buffer [OF stream_okD(6) [OF ok]] nth_mem [OF i] by (auto simp: name_ok_def in_place_def)
  moreover have "screen (?s ?m) = screen s" using m off_screen_buffer [OF in_pl] by (intro screen_kept) simp_all
  ultimately show ?thesis using ga same ok quiet_tab [OF q pc] q by (intro exI [of _ "?s ?m"]) simp
qed

text \<open>
  C14. The program \<^verbatim>\<open>cat\<close> prints a file. In a process of the displayed terminal whose argument is the name of a regular file, with a free
  descriptor, \<^verbatim>\<open>cat\<close> ends and returns 0 for every size of the file, and the screen is then what an 80 by 25 terminal
  shows after the bytes of the file, all of them and in their order, from what it showed before. The image, the control block,
  the screen and the program's buffer do not overlap. The result rests on the trap, \<open>getargs\<close>, \<open>open\<close>, the descriptor table, the directory, the
  blocks of the file, \<open>write\<close> and scrolling.
\<close>

theorem cat_prints_file:
  fixes s :: "'a sys_scheme"
  assumes "stream_ok sy ns fd buf 1024 s" and "i < length ns" and "file_place i buf s" and "argument_is (ns ! i) buf s"
    and "lowest_free (fd_tab s) fd" and "mem s (dir_entries (fs_info s) ! i + 32) = 2"
  shows "\<exists>js' s'. cat_main (kernel_os sy env handler lo literals) buf (js, s) = Some (Inr (0, (js', s')))
    \<and> screen s' = fold tty_put (file_bytes i s) (screen s)"
proof -
  let ?os = "kernel_os sy env handler lo literals"
  obtain s1 where s1: "getargs buf 1024 (restore_flags True s) = (0, s1)" "stream_ok sy ns fd buf 1024 s1" "same_file i (restore_flags True s) s1"
      "fd_tab s1 = fd_tab s" "screen s1 = screen s" "name_ok ns buf s1" "holds_str (ptr_at (mem s1) buf) (ns ! i)" "quiet ns (restore_flags True s) s1"
    using argument_delivered [of sy ns fd buf "restore_flags True s" i] assms(1-4) by (auto simp: flags_kept)
  let ?t = "restore_flags True (restore_flags (iflag s) s1)"
  have file1: "file_place i buf s1" "file_bytes i s1 = file_bytes i s" using same_file_kept [OF s1(3), of buf] assms(3) by simp_all
  have "mem s1 (dir_entries (fs_info s1) ! i + 32) = 2"
    using quiet_type [OF s1(8) assms(2)] assms(6) s1(8) by (simp add: quiet_def)
  then obtain s2 where s2: "open_sc sy env (junk_dentry lo) buf ?t = Inr (fd, s2)" "file_stream sy ns i fd buf s2"
      "file_bytes i s2 = file_bytes i s" "file_pos fd s2 = 0" "screen s2 = screen s"
    using open_starts_stream [of sy ns fd buf ?t i buf env "junk_dentry lo"] s1(2,4-7) file1 assms(2,5)
    by (auto simp: flags_twice flags_kept)
  let ?u = "(js, restore_flags (iflag (restore_flags (iflag s) s1)) s2)"
  obtain st where st: "cat_loop ?os fd buf ?u = Some (Inr (0, st))" "(screen \<circ> snd) st = fold tty_put (concat (file_chunks i fd (snd ?u))) (screen (snd ?u))"
    using fstream.cat_copies [OF refl, of sy ns i fd buf ?u env handler lo literals] s2(2) by auto
  have "concat (file_chunks i fd (snd ?u)) = file_bytes i s" using s2(3,4) by (simp add: file_chunks_def concat_pieces)
  moreover have "fd \<noteq> - 1" using assms(1) by (simp add: stream_ok_def)
  moreover have "ece391_getargs ?os buf 1024 (js, s) = Inr (0, (js, restore_flags (iflag s) s1))"
    using s1(1) by (intro kernel_getargs) simp_all
  moreover have "ece391_open ?os buf (js, restore_flags (iflag s) s1) = Inr (fd, ?u)" using s2(1) by (intro kernel_open)
  ultimately have "cat_main ?os buf (js, s) = Some (Inr (0, st))" "screen (snd st) = fold tty_put (file_bytes i s) (screen s)"
    using st s2(5) by (simp_all add: cat_main_def)
  then show ?thesis by (cases st) auto
qed

text \<open>The sample process in the displayed terminal, with the terminal behind its standard output and the argument ``a''.\<close>

definition cat_mem :: mem where
  "cat_mem = proc_mem(0x7FE070 := 0x30, 0x7FE072 := 0x41, 0x7FE1C0 := 2, 0x7FE1C4 := 97)"

lemmas cat_mem_defs = cat_mem_def proc_mem_def sample_image_def

lemma cat_low: "unat a < 0x14000 \<Longrightarrow> cat_mem a = sample_image a"
  by (auto simp: cat_mem_def proc_mem_def)

lemma cat_tab: "0 \<le> fd \<Longrightarrow> fd < 8 \<Longrightarrow> fd_tab (proc_state\<lparr>mem := cat_mem\<rparr>) fd \<noteq> None \<longleftrightarrow> fd < 2"
proof -
  assume "0 \<le> fd" "fd < 8"
  then have "fd \<in> {0, 1, 2, 3, 4, 5, 6, 7}" by auto
  then show ?thesis by (elim insertE emptyE; simp add: fd_tab_def check_use_def fd_at_def proc_pblock load32_def cat_mem_defs)
qed

lemma cat_fd_ok: "fd_ok sample_symbols [[97], [98, 99]] (proc_state\<lparr>mem := cat_mem\<rparr>)"
proof (rule sample_fd_ok)
  show "directory sample_fs cat_mem [[97], [98, 99]]"
    by (auto simp: directory_def sample_fs_def cat_mem_defs holds_str_def less_Suc_eq)
qed (simp_all only: cat_tab, simp_all add: cat_mem_defs)

lemma sample_shown:
  assumes "pcb_get m 0x7FE000 Terminal_num = 0"
  shows "shown (proc_state\<lparr>mem := m\<rparr>)"
proof -
  have "pq_peak (process_q proc_state) = Inr 0x7FE000" "display_terminal proc_state = 0" "on_screen (screen_y proc_state) (screen_x proc_state)"
    by (simp_all add: proc_state_def sys_boot_defs pq_peak_def pq_ref_def proc_pblock on_screen_def)
  then show ?thesis using assms by (simp add: shown_def proc_pblock)
qed

text \<open>The image of the sample lies below 0x14000, the buffer is in the user page.\<close>

lemma low_apart: "unat a < 0x14000 \<Longrightarrow> 4000 \<le> unat (a - VIDEO) \<and> 1025 \<le> unat (a - 0x8050000)"
  by (simp add: unat_sub_if' word_le_nat_alt)

lemma sample_in_place: "length ns = 2 \<Longrightarrow> n \<le> 1024 \<Longrightarrow> in_place ns 0x8050000 n (proc_state\<lparr>mem := m\<rparr>)"
proof -
  assume ns: "length ns = 2" and n: "n \<le> 1024"
  have "Suc n \<le> unat (dir_entries sample_fs ! i + of_nat k - 0x8050000) \<and> 4000 \<le> unat (dir_entries sample_fs ! i + of_nat k - VIDEO)"
    if "i < 2" "k < 64" for i k
  proof -
    have "i = 0 \<or> i = 1" using that by auto
    then have "unat (dir_entries sample_fs ! i + of_nat k) < 0x14000"
      using that(2) by (elim disjE) (simp_all add: sample_fs_def unat_word_ariths unat_of_nat32)
    then show ?thesis using low_apart [of "dir_entries sample_fs ! i + of_nat k"] n by simp
  qed
  moreover have "4000 \<le> unat (0x8050000 + of_nat k - VIDEO)" if "k \<le> n" for k
    using that n by (simp add: unat_word_ariths unat_of_nat32)
  moreover have "Suc n \<le> unat (0x7FE000 + of_nat k - 0x8050000 :: u32)" if "k < 580" for k
    using that n by (simp add: unat_sub_if' word_le_nat_alt unat_word_ariths unat_of_nat32)
  ultimately show ?thesis using ns by (simp add: in_place_def proc_pblock)
qed

lemma sample_stream_ok:
  assumes ok: "fd_ok sample_symbols ns (proc_state\<lparr>mem := m\<rparr>)" "length ns = 2" "n \<le> 1024"
    and pcb: "pcb_get m 0x7FE000 Terminal_num = 0" "load32 m 0x7FE070 = 0x410030" "load32 m 0x7FE09C = 1"
  shows "stream_ok sample_symbols ns 2 0x8050000 n (proc_state\<lparr>mem := m\<rparr>)"
proof -
  have "fd_tab (proc_state\<lparr>mem := m\<rparr>) 1 = Some (fd_view_at m 0x7FE070)" "v_ops (fd_view_at m 0x7FE070) = 0x410030"
    using pcb by (simp_all add: fd_tab_def check_use_def fd_at_def proc_pblock fd_view_at_def del: upt_rec_numeral)
  then show ?thesis
    using ok sample_shown [OF pcb(1)] sample_in_place [OF ok(2,3), of m] proc_symbols_ok
    by (simp add: stream_ok_def table_ok_def sample_symbols_def)
qed

lemma cat_stream_ok: "stream_ok sample_symbols [[97], [98, 99]] 2 0x8050000 1024 (proc_state\<lparr>mem := cat_mem\<rparr>)"
  by (rule sample_stream_ok [OF cat_fd_ok]) (simp_all add: pcb_get_def field_at_def load32_def cat_mem_defs push_bit_eq_mult)

lemma cat_file:
  "file_inode 0 (proc_state\<lparr>mem := cat_mem\<rparr>) = 0" "file_place 0 0x8050000 (proc_state\<lparr>mem := cat_mem\<rparr>)"
  "argument_is [97] 0x8050000 (proc_state\<lparr>mem := cat_mem\<rparr>)" "lowest_free (fd_tab (proc_state\<lparr>mem := cat_mem\<rparr>)) 2"
proof -
  show inode: "file_inode 0 (proc_state\<lparr>mem := cat_mem\<rparr>) = 0" by (simp add: file_inode_def load32_def sample_fs_def cat_mem_defs)
  have "\<forall>a \<in> file_area sample_fs sample_image 0. cat_mem a = sample_image a" using sample_apart cat_low by blast
  note same = file_cong [OF this, unfolded sample_size, simplified]
  show "file_place 0 0x8050000 (proc_state\<lparr>mem := cat_mem\<rparr>)"
    using sample_apart low_apart low_off_pcb by (simp add: file_place_def inode same proc_pblock)
  show "argument_is [97] 0x8050000 (proc_state\<lparr>mem := cat_mem\<rparr>)"
    by (simp add: argument_is_def proc_pblock pcb_get_def field_at_def holds_str_def) (simp add: load32_def cat_mem_defs)
  show "lowest_free (fd_tab (proc_state\<lparr>mem := cat_mem\<rparr>)) 2"
    using cat_tab [of 2] cat_tab by (simp add: lowest_free_def)
qed

theorem cat_prints_file_witness:
  "\<exists>js' s'. cat_main (kernel_os sample_symbols (\<lambda>p es. 0) (\<lambda>i :: nat. id) exec_stack tests_literals) 0x8050000 ([], proc_state\<lparr>mem := cat_mem\<rparr>)
      = Some (Inr (0, (js', s')))
    \<and> screen s' = fold tty_put (file_bytes 0 (proc_state\<lparr>mem := cat_mem\<rparr>)) (screen (proc_state\<lparr>mem := cat_mem\<rparr>))"
  using cat_prints_file [OF cat_stream_ok, of 0 "\<lambda>p es. 0" "\<lambda>i. id" exec_stack tests_literals "[]"] cat_file
  by (simp add: sample_fs_def cat_mem_defs)

end
