(* ===== verification/Ulisting.thy ===== *)
theory Ulisting
  imports Ustreams
begin

text \<open>
  The directory of the kernel as a stream of names, for the program \<^verbatim>\<open>ls\<close>. The position is the kernel's
  global counter, so a listing starts where the last read of any process ended; it is at the start
  when that listing ran to its end.
\<close>

section \<open>The directory as a stream\<close>

definition dir_stream :: "symbols \<Rightarrow> u8 list list \<Rightarrow> int \<Rightarrow> u32 \<Rightarrow> 'a sys_scheme \<Rightarrow> bool" where
  "dir_stream sy ns fd buf s \<longleftrightarrow> stream_ok sy ns fd buf 32 s \<and> [] \<notin> set ns \<and> unat (dir_read_count s) \<le> length ns
     \<and> (\<exists>e. fd_tab s fd = Some e \<and> v_ops e = fops_directory_functions sy)"

definition dir_chunks :: "u8 list list \<Rightarrow> 'a fs_scheme \<Rightarrow> u8 list list" where
  "dir_chunks ns s = drop (unat (dir_read_count s)) ns"

lemma dir_stream_quiet:
  assumes "dir_stream sy ns fd buf s" "quiet ns s s'" "on_screen (screen_y s') (screen_x s')" "unat (dir_read_count s') \<le> length ns"
  shows "dir_stream sy ns fd buf s'"
proof -
  have st: "stream_ok sy ns fd buf 32 s" using assms(1) by (simp add: dir_stream_def)
  show ?thesis using assms stream_quiet [OF st assms(2,3)] quiet_tab [OF assms(2) stream_okD(3) [OF st]] by (simp add: dir_stream_def)
qed

lemma read_sc_directory:
  assumes ok: "dir_stream sy ns fd buf s"
  shows "read_sc sy handler junk js fd buf n s = res_bind (read_directory junk buf s) (\<lambda>(r, s). Inr (sint r, js, s))"
proof -
  have st: "stream_ok sy ns fd buf 32 s" using ok by (simp add: dir_stream_def)
  obtain e where e: "fd_tab s fd = Some e" "v_ops e = fops_directory_functions sy" using ok by (auto simp: dir_stream_def)
  then have "0 \<le> fd" "fd < 8" "check_use fd s AND USE \<noteq> 0" "load32 (mem s) (fop_ptr_at (current_pblock s) fd) = fops_directory_functions sy"
    by (auto simp: fd_tab_def fd_view_at_def split: if_splits)
  moreover have "fops_directory_functions sy \<noteq> 0" "fops_directory_functions sy \<noteq> fops_file_functions sy" "buf \<noteq> 0" "fd \<noteq> 1"
    using stream_okD(1,6) [OF st] st by (auto simp: symbols_ok_def in_place_def stream_ok_def)
  ultimately show ?thesis
    using pblock_nonzero [OF stream_okD(3) [OF st]] tables_ready [OF stream_okD(4) [OF st]]
    by (simp add: read_sc_def Let_def fops_of_def call_read_def)
qed

lemma tables_kept:
  assumes "systemcalls_initialize s = s"
  shows "systemcalls_initialize (s\<lparr>dir_read_count := c, mem := m\<rparr>) = s\<lparr>dir_read_count := c, mem := m\<rparr>"
  by (subst (2) assms [symmetric]) (simp add: systemcalls_initialize_def)

lemma dir_read_next:
  fixes s :: "'a sys_scheme"
  assumes ok: "dir_stream sy ns fd buf s" and c: "dir_chunks ns s = c # cs"
  shows "\<exists>s'. read_sc sy handler junk js fd buf 32 s = Inr (int (length c), js, s') \<and> dir_stream sy ns fd buf s' \<and> dir_chunks ns s' = cs
    \<and> screen s' = screen s \<and> (\<forall>k < length c. mem s' (buf + of_nat k) = c ! k)"
proof -
  let ?d = "unat (dir_read_count s)" and ?s = "s\<lparr>dir_read_count := dir_read_count s + 1, mem := name_blit (mem s) buf c\<rparr>"
  have st: "stream_ok sy ns fd buf 32 s" using ok by (simp add: dir_stream_def)
  have dir: "directory (fs_info s) (mem s) ns" and pl: "in_place ns buf 32 s" and pc: "process_count s \<in> {1..6}"
    and init: "systemcalls_initialize s = s" and len: "\<forall>xs \<in> set ns. length xs \<le> 31"
    using stream_okD [OF st] by (simp_all add: fd_ok_def)
  have rest: "drop ?d ns = c # cs" using c by (simp add: dir_chunks_def)
  then have "?d < length ns" by (metis drop_eq_Nil2 list.distinct(1) not_le)
  with rest have d: "?d < length ns" "c = ns ! ?d" "cs = drop (Suc ?d) ns" by (simp_all add: Cons_nth_drop_Suc [symmetric])
  then have lc: "length c \<le> 31" using len by simp
  have "?d < 63" using d(1) dir by (simp add: directory_def)
  then have d1: "unat (dir_read_count s + 1) = Suc ?d" by (simp add: unat_word_ariths)
  have m: "name_blit (mem s) buf c a = mem s a" if "33 \<le> unat (a - buf)" for a
    unfolding name_blit_def using that lc by (intro blit_out) simp
  have "quiet ns s ?s" using m tables_kept [OF init] by (intro quietI [OF pl pc]) simp_all
  then have "dir_stream sy ns fd buf ?s" using d(1) d1 stream_okD(7) [OF st] by (intro dir_stream_quiet [OF ok]) simp_all
  moreover have "dir_chunks ns ?s = cs" using d d1 by (simp add: dir_chunks_def)
  moreover have "screen ?s = screen s" using m off_screen_buffer [OF pl] by (intro screen_kept) simp_all
  moreover have "\<forall>k < length c. mem ?s (buf + of_nat k) = c ! k" using lc by (simp add: name_blit_def blit_in)
  moreover have "sint (of_nat (length c) :: u32) = int (length c)" using lc by (simp add: signed_of_nat signed_take_bit_int_eq_self)
  ultimately show ?thesis
    using read_directory_entry [OF dir d(1), of junk buf] read_sc_directory [OF ok, of handler junk js 32] d(2)
    by (intro exI [of _ ?s]) simp
qed

lemma dir_read_end:
  fixes s :: "'a sys_scheme"
  assumes ok: "dir_stream sy ns fd buf s" and c: "dir_chunks ns s = []"
  shows "\<exists>s'. read_sc sy handler junk js fd buf 32 s = Inr (0, js, s') \<and> screen s' = screen s"
proof -
  have "fd_ok sy ns s" using ok stream_okD(2) [of sy ns fd buf 32 s] by (simp add: dir_stream_def)
  then have "directory (fs_info s) (mem s) ns" "length ns \<le> unat (dir_read_count s)" using c by (simp_all add: fd_ok_def dir_chunks_def)
  from read_directory_end [OF this, of junk buf] show ?thesis
    using read_sc_directory [OF ok, of handler junk js 32] by (simp add: screen_def)
qed

lemma dir_write:
  fixes s :: "'a sys_scheme"
  assumes ok: "dir_stream sy ns fd buf s" and k: "k \<le> 33"
  shows "\<exists>s'. write_sc sy env 1 buf (int k) s = Inr (0, s') \<and> dir_stream sy ns fd buf s' \<and> dir_chunks ns s' = dir_chunks ns s
    \<and> screen s' = fold tty_put (map (\<lambda>j. mem s (buf + of_nat j)) [0..<k]) (screen s)"
proof -
  have st: "stream_ok sy ns fd buf 32 s" and d: "unat (dir_read_count s) \<le> length ns" using ok by (simp_all add: dir_stream_def)
  obtain s' where s': "write_sc sy env 1 buf (int k) s = Inr (0, s')" "quiet ns s s'" "on_screen (screen_y s') (screen_x s')"
      "dir_read_count s' = dir_read_count s" "screen s' = fold tty_put (map (\<lambda>j. mem s (buf + of_nat j)) [0..<k]) (screen s)"
    using write_displayed [OF st, of k env] k by auto
  then show ?thesis using dir_stream_quiet [OF ok s'(2,3)] d by (simp add: dir_chunks_def)
qed

lemma dir_store:
  fixes s :: "'a sys_scheme" and v :: u8
  assumes ok: "dir_stream sy ns fd buf s" and k: "k \<le> 32"
  defines "s' \<equiv> s\<lparr>mem := (mem s)(buf + of_nat k := v)\<rparr>"
  shows "dir_stream sy ns fd buf s'" "dir_chunks ns s' = dir_chunks ns s" "screen s' = screen s"
proof -
  have st: "stream_ok sy ns fd buf 32 s" and d: "unat (dir_read_count s) \<le> length ns" using ok by (simp_all add: dir_stream_def)
  note q = quiet_store [OF st k, where v = v, folded s'_def]
  show "dir_stream sy ns fd buf s'" "dir_chunks ns s' = dir_chunks ns s" "screen s' = screen s"
    using dir_stream_quiet [OF ok q(1,3)] q(2) d by (simp_all add: s'_def dir_chunks_def)
qed

lemma flags_dir [simp]:
  fixes s :: "'a sys_scheme"
  shows "dir_stream sy ns fd buf (restore_flags f s) = dir_stream sy ns fd buf s" "dir_chunks ns (restore_flags f s) = dir_chunks ns s"
  by (simp_all add: dir_stream_def dir_chunks_def flags_kept)

interpretation dstream: stream_system "kernel_os sy env handler lo literals" fd buf 32 "dir_stream sy ns fd buf \<circ> snd" "dir_chunks ns \<circ> snd"
  "screen \<circ> snd" tty_put for sy env handler lo literals ns fd buf
proof
  fix st :: "'a list \<times> 'b sys_scheme" and c cs
  obtain js s where st: "st = (js, s)" by (cases st)
  let ?t = "restore_flags True s"
  assume ok: "(dir_stream sy ns fd buf \<circ> snd) st" and c: "(dir_chunks ns \<circ> snd) st = c # cs"
  have fd: "- (2 ^ 31) \<le> fd" "fd < 2 ^ 31" using ok by (auto simp: st dir_stream_def stream_ok_def fd_tab_def split: if_splits)
  obtain s' where "read_sc sy handler (junk_dentry lo) js fd buf 32 ?t = Inr (int (length c), js, s')" "dir_stream sy ns fd buf s'"
      "dir_chunks ns s' = cs" "screen s' = screen s" "\<forall>k < length c. mem s' (buf + of_nat k) = c ! k"
    using dir_read_next [of sy ns fd buf ?t c cs handler "junk_dentry lo" js] ok c by (auto simp: st)
  then show "\<exists>s'. ece391_read (kernel_os sy env handler lo literals) fd buf (int 32) st = Inr (int (length c), s')
      \<and> (dir_stream sy ns fd buf \<circ> snd) s' \<and> (dir_chunks ns \<circ> snd) s' = cs \<and> (screen \<circ> snd) s' = (screen \<circ> snd) st
      \<and> (\<forall>k < length c. umem (kernel_os sy env handler lo literals) s' (buf + of_nat k) = c ! k)"
    using kernel_read [of sy handler lo js fd buf 32 s "int (length c)" js s'] fd
    by (intro exI [of _ "(js, restore_flags (iflag s) s')"]) (simp add: st)
next
  fix st :: "'a list \<times> 'b sys_scheme"
  obtain js s where st: "st = (js, s)" by (cases st)
  assume ok: "(dir_stream sy ns fd buf \<circ> snd) st" and c: "(dir_chunks ns \<circ> snd) st = []"
  have fd: "- (2 ^ 31) \<le> fd" "fd < 2 ^ 31" using ok by (auto simp: st dir_stream_def stream_ok_def fd_tab_def split: if_splits)
  obtain s' where "read_sc sy handler (junk_dentry lo) js fd buf 32 (restore_flags True s) = Inr (0, js, s')" "screen s' = screen s"
    using dir_read_end [of sy ns fd buf "restore_flags True s" handler "junk_dentry lo" js] ok c by (auto simp: st)
  then show "\<exists>s'. ece391_read (kernel_os sy env handler lo literals) fd buf (int 32) st = Inr (0, s') \<and> (screen \<circ> snd) s' = (screen \<circ> snd) st"
    using kernel_read [of sy handler lo js fd buf 32 s 0 js s'] fd
    by (intro exI [of _ "(js, restore_flags (iflag s) s')"]) (simp add: st)
next
  fix st :: "'a list \<times> 'b sys_scheme" and c
  assume ok: "(dir_stream sy ns fd buf \<circ> snd) st" and "c \<in> set ((dir_chunks ns \<circ> snd) st)"
  then have "c \<in> set ns" "c \<noteq> []" by (auto simp: dir_chunks_def dir_stream_def dest: in_set_dropD)
  moreover have "fd_ok sy ns (snd st)" using ok stream_okD(2) [of sy ns fd buf 32 "snd st"] by (simp add: dir_stream_def)
  ultimately show "0 < length c \<and> length c \<le> 32" by (auto simp: fd_ok_def)
next
  fix st :: "'a list \<times> 'b sys_scheme" and k
  obtain js s where st: "st = (js, s)" by (cases st)
  assume "(dir_stream sy ns fd buf \<circ> snd) st" and k: "k \<le> Suc 32"
  then obtain s' where "write_sc sy env 1 buf (int k) (restore_flags True s) = Inr (0, s')" "dir_stream sy ns fd buf s'"
      "dir_chunks ns s' = dir_chunks ns s" "screen s' = fold tty_put (map (\<lambda>j. mem s (buf + of_nat j)) [0..<k]) (screen s)"
    using dir_write [of sy ns fd buf "restore_flags True s" k env] by (auto simp: st)
  then show "\<exists>s'. ece391_write (kernel_os sy env handler lo literals) 1 buf (int k) st = Inr (0, s') \<and> (dir_stream sy ns fd buf \<circ> snd) s'
      \<and> (dir_chunks ns \<circ> snd) s' = (dir_chunks ns \<circ> snd) st
      \<and> (screen \<circ> snd) s' = fold tty_put (map (\<lambda>j. umem (kernel_os sy env handler lo literals) st (buf + of_nat j)) [0..<k]) ((screen \<circ> snd) st)"
    using kernel_write [of sy env 1 buf "int k" s 0 s'] k
    by (intro exI [of _ "(js, restore_flags (iflag s) s')"]) (simp add: st)
next
  fix st :: "'a list \<times> 'b sys_scheme" and k :: nat and v :: u8
  obtain js s where st: "st = (js, s)" by (cases st)
  assume "(dir_stream sy ns fd buf \<circ> snd) st" and k: "k \<le> 32"
  then have "dir_stream sy ns fd buf s" by (simp add: st)
  from dir_store [OF this k, of v]
  show "(dir_stream sy ns fd buf \<circ> snd) (poke (kernel_os sy env handler lo literals) (buf + of_nat k) v st)
      \<and> (dir_chunks ns \<circ> snd) (poke (kernel_os sy env handler lo literals) (buf + of_nat k) v st) = (dir_chunks ns \<circ> snd) st
      \<and> (screen \<circ> snd) (poke (kernel_os sy env handler lo literals) (buf + of_nat k) v st) = (screen \<circ> snd) st
      \<and> umem (kernel_os sy env handler lo literals) (poke (kernel_os sy env handler lo literals) (buf + of_nat k) v st)
        = (umem (kernel_os sy env handler lo literals) st)(buf + of_nat k := v)"
    by (simp add: st kernel_poke)
qed simp

section \<open>The program ls on the kernel\<close>

lemma open_starts_listing:
  fixes s :: "'a sys_scheme"
  assumes sok: "stream_ok sy ns fd buf 32 s" and ns: "i < length ns" "[] \<notin> set ns" and free: "lowest_free (fd_tab s) fd"
    and nm: "name_ok ns filename s" "holds_str (ptr_at (mem s) filename) (ns ! i)" and type: "mem s (dir_entries (fs_info s) ! i + 32) = 1"
    and start: "unat (dir_read_count s) \<le> length ns"
  shows "\<exists>s'. open_sc sy env junk filename s = Inr (fd, s') \<and> dir_stream sy ns fd buf s' \<and> dir_chunks ns s' = dir_chunks ns s \<and> screen s' = screen s"
proof -
  have sy: "symbols_ok sy" and ok: "fd_ok sy ns s" using stream_okD [OF sok] by simp_all
  obtain s' where s': "open_sc sy env junk filename s = Inr (fd, s')" "fd_step s fd s'" "fd_tab s' fd = Some (fresh_entry sy ns filename s)"
      "s' = s\<lparr>mem := mem s', io := io s', iflag := iflag s'\<rparr>"
    using open_sc_step [OF sy ok nm(1) free] by blast
  have dist: "distinct ns" and len: "length (ns ! i) \<le> 31" using ok ns(1) by (simp_all add: fd_ok_def)
  have entry: "v_ops (fresh_entry sy ns filename s) = fops_directory_functions sy"
    using type by (simp add: fresh_entry_def Let_def name_of [OF nm(2) len] index_of [OF dist ns(1)] del: upt_rec_numeral)
  have same: "process_q s' = process_q s" "display_terminal s' = display_terminal s" "screen_x s' = screen_x s" "screen_y s' = screen_y s"
      "dir_read_count s' = dir_read_count s"
    by (subst s'(4), simp)+
  have "stream_ok sy ns fd buf 32 s'" using s'(3) entry same by (intro stream_step [OF sok s'(2)]) simp_all
  moreover have "screen s' = screen s"
    using off_screen_pcb [OF stream_okD(3) [OF sok]] step_off [OF s'(2)] same by (intro screen_kept) simp_all
  ultimately show ?thesis using s'(1,3) entry same(5) ns(2) start by (simp add: dir_stream_def dir_chunks_def)
qed

text \<open>
  C15. The program \<^verbatim>\<open>ls\<close> lists the directory, from where the kernel's counter of directory reads stands. In a process of the
  displayed terminal with a free descriptor, when the directory contains
  ``.'', \<^verbatim>\<open>ls\<close> ends and returns 0, and the screen is then what an 80 by 25 terminal shows after the names of the directory in
  order, each on its own line, from what it showed before. The counter is one static variable of the kernel that \<open>open\<close> does not reset: the names
  printed are all of them when it is 0, as after boot and after every listing that reached the end, and otherwise only those from the counter on.
\<close>

theorem ls_lists_directory:
  fixes s :: "'a sys_scheme"
  assumes "stream_ok sy ns fd buf 32 s" and "i < length ns" "ns ! i = [46]" "[] \<notin> set ns" and "lowest_free (fd_tab s) fd"
    and "name_ok ns (literals ''.'') s" "holds_str (ptr_at (mem s) (literals ''.'')) [46]"
    and "mem s (dir_entries (fs_info s) ! i + 32) = 1" and "unat (dir_read_count s) \<le> length ns"
  shows "\<exists>js' s'. ls_main (kernel_os sy env handler lo literals) buf (js, s) = Some (Inr (0, (js', s')))
    \<and> screen s' = fold tty_put (concat (map (\<lambda>name. name @ [10]) (drop (unat (dir_read_count s)) ns))) (screen s)
    \<and> (dir_read_count s = 0 \<longrightarrow> screen s' = fold tty_put (concat (map (\<lambda>name. name @ [10]) ns)) (screen s))"
proof -
  let ?os = "kernel_os sy env handler lo literals" and ?t = "restore_flags True s"
  obtain s1 where s1: "open_sc sy env (junk_dentry lo) (literals ''.'') ?t = Inr (fd, s1)" "dir_stream sy ns fd buf s1"
      "dir_chunks ns s1 = drop (unat (dir_read_count s)) ns"
      "screen s1 = screen s"
    using open_starts_listing [of sy ns fd buf ?t i "literals ''.''" env "junk_dentry lo"] assms by (auto simp: flags_kept dir_chunks_def)
  let ?u = "(js, restore_flags (iflag s) s1)"
  obtain st where st: "ls_loop ?os fd buf ?u = Some (Inr (0, st))"
      "(screen \<circ> snd) st = fold tty_put (concat (map (\<lambda>name. name @ [10]) (dir_chunks ns (snd ?u)))) (screen (snd ?u))"
    using dstream.ls_lists [OF refl, of sy ns fd buf ?u env handler lo literals] s1(2) by auto
  have "ece391_open ?os (literals ''.'') (js, s) = Inr (fd, ?u)" using s1(1) by (intro kernel_open)
  moreover have "fd \<noteq> - 1" using assms(1) by (simp add: stream_ok_def)
  ultimately have "ls_main ?os buf (js, s) = Some (Inr (0, st))" 
      "screen (snd st) = fold tty_put (concat (map (\<lambda>name. name @ [10]) (drop (unat (dir_read_count s)) ns))) (screen s)"
    using st s1(3,4) by (simp_all add: ls_main_def)
  then show ?thesis by (cases st) auto
qed

definition ls_mem :: mem where
  "ls_mem = tests_mem(0x7FE070 := 0x30, 0x7FE072 := 0x41)"

lemmas ls_defs = ls_mem_def tests_defs

lemma ls_tab: "0 \<le> fd \<Longrightarrow> fd < 8 \<Longrightarrow> fd_tab (proc_state\<lparr>mem := ls_mem\<rparr>) fd \<noteq> None \<longleftrightarrow> fd < 2"
proof -
  assume "0 \<le> fd" "fd < 8"
  then have "fd \<in> {0, 1, 2, 3, 4, 5, 6, 7}" by auto
  then show ?thesis by (elim insertE emptyE; simp add: fd_tab_def check_use_def fd_at_def proc_pblock load32_def ls_defs)
qed

lemma ls_fd_ok: "fd_ok sample_symbols [[46], [98, 99]] (proc_state\<lparr>mem := ls_mem\<rparr>)"
proof (rule sample_fd_ok)
  show "directory sample_fs ls_mem [[46], [98, 99]]"
    by (auto simp: directory_def sample_fs_def ls_defs holds_str_def less_Suc_eq)
qed (simp_all only: ls_tab, simp_all add: ls_defs)

lemma ls_stream_ok: "stream_ok sample_symbols [[46], [98, 99]] 2 0x8050000 32 (proc_state\<lparr>mem := ls_mem\<rparr>)"
  by (rule sample_stream_ok [OF ls_fd_ok]) (simp_all add: pcb_get_def field_at_def load32_def ls_defs push_bit_eq_mult)

lemma ls_sample:
  "name_ok [[46], [98, 99]] (tests_literals ''.'') (proc_state\<lparr>mem := ls_mem\<rparr>)" "holds_str (ptr_at ls_mem (tests_literals ''.'')) [46]"
  "lowest_free (fd_tab (proc_state\<lparr>mem := ls_mem\<rparr>)) 2" "ls_mem 0x1060 = 1" "dir_read_count (proc_state\<lparr>mem := ls_mem\<rparr>) = 0"
proof -
  have "off_pcb 0x7FE000 (0x8048000 + of_nat k)" if "k < 32" for k
    using that by (simp add: off_pcb_def unat_word_ariths unat_of_nat32)
  then show "name_ok [[46], [98, 99]] (tests_literals ''.'') (proc_state\<lparr>mem := ls_mem\<rparr>)"
    by (simp add: name_ok_def proc_pblock holds_str_def tests_literals_def) (simp add: ls_defs)
  show "lowest_free (fd_tab (proc_state\<lparr>mem := ls_mem\<rparr>)) 2" using ls_tab [of 2] ls_tab by (simp add: lowest_free_def)
qed (simp_all add: holds_str_def tests_literals_def ls_defs proc_state_def sys_boot_defs)

theorem ls_lists_directory_witness:
  "\<exists>js' s'. ls_main (kernel_os sample_symbols (\<lambda>p es. 0) (\<lambda>i :: nat. id) exec_stack tests_literals) 0x8050000 ([], proc_state\<lparr>mem := ls_mem\<rparr>)
      = Some (Inr (0, (js', s')))
    \<and> screen s' = fold tty_put [46, 10, 98, 99, 10] (screen (proc_state\<lparr>mem := ls_mem\<rparr>))"
  using ls_lists_directory [OF ls_stream_ok, of 0 tests_literals "\<lambda>p es. 0" "\<lambda>i. id" exec_stack "[]"] ls_sample
  by (simp add: sample_fs_def)

end
