(* ===== verification/Execfail.thy ===== *)
theory Execfail
  imports Exec
begin

text \<open>
  The commands \<open>execute\<close> refuses, and what a refused command leaves: text on the screen and the four bytes
  it read to look for the magic number, nothing else.
\<close>

section \<open>Plain text\<close>

lemma printf_plain:
  assumes "of_char (CHR ''%'') \<notin> set (map of_char format :: u8 list)"
  shows "printf format esp s = Inr (of_nat (length format), fold putc (map of_char format) s)"
proof -
  have "printf_loop bs esp s = Inr (fold putc bs s)" if "of_char (CHR ''%'') \<notin> set bs" for bs
    using that by (induction bs arbitrary: s) (simp_all add: printf_loop.simps)
  then show ?thesis using assms by (simp add: printf_def)
qed

text \<open>A change of the screen, the cursor and the buffer for the magic number.\<close>

definition printed :: "exec_locals \<Rightarrow> 'a sys_scheme \<Rightarrow> 'a sys_scheme \<Rightarrow> bool" where
  "printed lo s s' \<longleftrightarrow> on_screen (screen_y s') (screen_x s') \<and> s' = s\<lparr>mem := mem s', screen_x := screen_x s', screen_y := screen_y s'\<rparr>
     \<and> (\<forall>a. 4000 \<le> unat (a - VIDEO) \<longrightarrow> 4 \<le> unat (a - exe_buff lo) \<longrightarrow> mem s' a = mem s a)"

lemma printed_fields:
  assumes "printed lo s s'"
  shows "fs_info s' = fs_info s" "process_count s' = process_count s" "process_q s' = process_q s" "iflag s' = iflag s"
    "display_terminal s' = display_terminal s" "on_screen (screen_y s') (screen_x s')"
proof -
  have eq: "s' = s\<lparr>mem := mem s', screen_x := screen_x s', screen_y := screen_y s'\<rparr>" using assms by (simp add: printed_def)
  show "fs_info s' = fs_info s" "process_count s' = process_count s" "process_q s' = process_q s" "iflag s' = iflag s"
    "display_terminal s' = display_terminal s" by (subst eq, simp)+
qed (use assms in \<open>simp add: printed_def\<close>)

lemma printed_trans:
  assumes "printed lo s t" "printed lo t u"
  shows "printed lo s u"
proof -
  have t: "t = s\<lparr>mem := mem t, screen_x := screen_x t, screen_y := screen_y t\<rparr>" and u: "u = t\<lparr>mem := mem u, screen_x := screen_x u, screen_y := screen_y u\<rparr>"
    using assms by (simp_all add: printed_def)
  note u
  also have "t\<lparr>mem := mem u, screen_x := screen_x u, screen_y := screen_y u\<rparr> = s\<lparr>mem := mem u, screen_x := screen_x u, screen_y := screen_y u\<rparr>"
    using arg_cong [OF t, of "\<lambda>t. t\<lparr>mem := mem u, screen_x := screen_x u, screen_y := screen_y u\<rparr>"] by simp
  finally show ?thesis using assms by (simp add: printed_def)
qed

lemma printed_text:
  fixes s :: "'a sys_scheme"
  assumes "on_screen (screen_y s) (screen_x s)"
  shows "printed lo s (fold putc cs s)"
proof -
  have cur: "con.cursor_ok s" using assms by (simp add: con.cursor_ok_def)
  have "fold putc cs s = s\<lparr>mem := mem (fold putc cs s), screen_x := screen_x (fold putc cs s), screen_y := screen_y (fold putc cs s)\<rparr>"
    by (intro console.equality) simp_all
  then show ?thesis using con.run_cursor [OF cur, of cs] con.run_outside [OF cur, of _ cs] by (simp add: printed_def con.cursor_ok_def)
qed

section \<open>Refused commands\<close>

text \<open>A process more fits, the directory is readable and apart from the screen and the buffer, and the cursor is on the screen.\<close>

definition exec_calm :: "exec_locals \<Rightarrow> u8 list list \<Rightarrow> 'a sys_scheme \<Rightarrow> bool" where
  "exec_calm lo ns s \<longleftrightarrow> directory (fs_info s) (mem s) ns \<and> distinct ns \<and> process_count s < 6 \<and> on_screen (screen_y s) (screen_x s)
     \<and> (\<forall>i < length ns. \<forall>k < 64. 4000 \<le> unat (dir_entries (fs_info s) ! i + of_nat k - VIDEO) \<and> 4 \<le> unat (dir_entries (fs_info s) ! i + of_nat k - exe_buff lo))"

text \<open>The file of entry \<open>i\<close> has four bytes or more and does not start with the magic number.\<close>

definition not_program :: "exec_locals \<Rightarrow> nat \<Rightarrow> 'a fs_scheme \<Rightarrow> bool" where
  "not_program lo i s \<longleftrightarrow> (let inode = load32 (mem s) (dir_entries (fs_info s) ! i + 36)
     in 4 \<le> file_size (fs_info s) (mem s) inode \<and> file_size (fs_info s) (mem s) inode \<le> 4096 * 1023
        \<and> (\<forall>a \<in> file_area (fs_info s) (mem s) inode. 4000 \<le> unat (a - VIDEO) \<and> 4 \<le> unat (a - exe_buff lo))
        \<and> map (file_byte (fs_info s) (mem s) inode) [0..<4] \<noteq> 0x7F # map of_char ''ELF'')"

definition refused_command :: "exec_locals \<Rightarrow> u8 list list \<Rightarrow> 'a fs_scheme \<Rightarrow> u8 list \<Rightarrow> bool" where
  "refused_command lo ns s command \<longleftrightarrow> program_name command = [] \<or> 1 < length (find_spaces command)
     \<or> length (program_name command) \<le> 32 \<and> program_name command \<notin> set ns
     \<or> (\<exists>i < length ns. ns ! i = program_name command \<and> not_program lo i s)"

lemma exec_file_refuses:
  fixes s :: "'a sys_scheme"
  assumes calm: "exec_calm lo ns s" and np: "not_program lo i s" and inode: "inode = load32 (mem s) (dir_entries (fs_info s) ! i + 36)"
    and c: "0 \<notin> set command" "length command \<le> 127"
  shows "\<exists>s'. exec_file sy lo command inode s = Inr (Returned (- 1), s') \<and> printed lo s s'"
proof -
  let ?fi = "fs_info s" and ?b = "exe_buff lo"
  have size: "4 \<le> file_size ?fi (mem s) inode" "file_size ?fi (mem s) inode \<le> 4096 * 1023"
    and area: "\<forall>a \<in> file_area ?fi (mem s) inode. 4 \<le> unat (a - ?b)" and bytes: "map (file_byte ?fi (mem s) inode) [0..<4] \<noteq> 0x7F # map of_char ''ELF''"
    using np by (simp_all add: not_program_def Let_def inode del: upt_rec_numeral)
  let ?m = "blit (mem s) ?b 4 (\<lambda>k. file_byte ?fi (mem s) inode (unat (0 :: u32) + k))"
  have rd: "read_data ?fi inode 0 ?b 4 (mem s) = Inr (of_nat 4, ?m)"
    using size area by (intro read_data_spec) simp_all
  have at: "?m ?b = file_byte ?fi (mem s) inode 0" "?m (?b + 1) = file_byte ?fi (mem s) inode 1"
      "?m (?b + 2) = file_byte ?fi (mem s) inode 2" "?m (?b + 3) = file_byte ?fi (mem s) inode 3"
    using blit_in [of 0 4 "mem s" ?b] blit_in [of 1 4 "mem s" ?b] blit_in [of 2 4 "mem s" ?b] blit_in [of 3 4 "mem s" ?b] by simp_all
  have "\<not> is_elf ?m ?b" using bytes unfolding is_elf_def at by (auto simp: upt_rec numeral_2_eq_2 numeral_3_eq_3)
  let ?text = "map of_char ''ERROR.  '' @ program_name command @ map of_char ('' is not an executable file.'' @ [CHR 0x0A]) :: u8 list"
  have "0 \<notin> set ?text" using program_name_zero [OF c(1)] by auto
  moreover have "length ?text < 2 ^ 32" using c(2) by (simp add: program_name_def)
  ultimately have "put_list ?text (s\<lparr>mem := ?m\<rparr>) = Inr (fold putc ?text (s\<lparr>mem := ?m\<rparr>))" by (rule put_list_eq)
  then have "exec_file sy lo command inode s = Inr (Returned (- 1), fold putc ?text (s\<lparr>mem := ?m\<rparr>))"
    using rd \<open>\<not> is_elf ?m ?b\<close> by (simp add: exec_file_def fail_def)
  moreover have scr: "on_screen (screen_y s) (screen_x s)" using calm by (simp add: exec_calm_def)
  have "printed lo s (s\<lparr>mem := ?m\<rparr>)" using scr by (simp add: printed_def blit_out)
  moreover have "printed lo (s\<lparr>mem := ?m\<rparr>) (fold putc ?text (s\<lparr>mem := ?m\<rparr>))" using scr by (intro printed_text) simp
  ultimately show ?thesis using printed_trans by blast
qed

lemma execute_refused:
  fixes s :: "'a sys_scheme"
  assumes calm: "exec_calm lo ns s" and cmd: "holds_str command_param command" "length command \<le> 127" "length (find_spaces command) \<le> 100"
    and ref: "refused_command lo ns s command"
  shows "\<exists>s'. execute sy lo command_param s = Inr (Returned (- 1), s') \<and> printed lo s s'"
proof -
  have c0: "0 \<notin> set command" by (rule holds_str_nonzero [OF cmd(1)])
  have scr: "on_screen (screen_y s) (screen_x s)" and dir: "directory (fs_info s) (mem s) ns" "distinct ns" and room: "\<not> 6 \<le> process_count s"
    using calm by (simp_all add: exec_calm_def not_le)
  have empty: "holds_str (str_ptr []) []" by (rule holds_str_ptr) simp_all
  have "printed lo s s" using scr by (simp add: printed_def)
  show ?thesis
  proof (cases "strncmp command_param (str_ptr []) 2 = 0 \<or> program_name command = []")
    case True
    then show ?thesis using room cmd \<open>printed lo s s\<close> by (auto simp: execute_def c_string_holds [OF cmd(1)] fail_def)
  next
    case nonempty: False
    show ?thesis
    proof (cases "1 < length (find_spaces command)")
      case True
      define msg where "msg = ''ERROR: Command contains too many spaces and/or too many arguments.'' @ [CHR 0x0A]"
      have "execute sy lo command_param s = res_bind (printf msg [] s) (\<lambda>(n, s). fail s)"
        using True nonempty room cmd by (simp add: execute_def c_string_holds [OF cmd(1)] msg_def)
      moreover have "printf msg [] s = Inr (of_nat (length msg), fold putc (map of_char msg) s)"
        by (rule printf_plain) (simp add: msg_def)
      ultimately show ?thesis using printed_text [OF scr] by (simp add: fail_def)
    next
      case one: False
      then have run: "length (program_name command) \<le> 32 \<Longrightarrow> execute sy lo command_param s
          = res_bind (read_dentry_by_name (fs_info s) (mem s) (Some (str_ptr (program_name command))) (Some (junk_dentry lo))) (\<lambda>(r, d).
            if r = - 1 then fail s else exec_file sy lo command (dinode (case d of Some d \<Rightarrow> d | None \<Rightarrow> junk_dentry lo)) s)"
        using nonempty room cmd by (simp add: execute_def c_string_holds [OF cmd(1)])
      have name: "length (program_name command) \<le> 32 \<Longrightarrow> holds_str (str_ptr (program_name command)) (program_name command)"
        using program_name_zero [OF c0] by (intro holds_str_ptr) simp_all
      consider "length (program_name command) \<le> 32" "program_name command \<notin> set ns"
        | i where "i < length ns" "ns ! i = program_name command" "not_program lo i s"
        using ref nonempty one by (auto simp: refused_command_def)
      then show ?thesis
      proof cases
        case 1
        then have "read_dentry_by_name (fs_info s) (mem s) (Some (str_ptr (program_name command))) (Some (junk_dentry lo)) = Inr (- 1, Some (junk_dentry lo))"
          using find_name_miss [OF dir(1) name [OF 1(1)] 1(1), of 0 "junk_dentry lo"]
          by (auto simp: read_dentry_by_name_def strlen_holds [OF name] name_length in_set_conv_nth)
        then show ?thesis using run [OF 1(1)] \<open>printed lo s s\<close> by (simp add: fail_def)
      next
        case 2
        then have len: "length (program_name command) \<le> 32" using dir(1) by (metis directory_def)
        have first: "\<forall>j < i. ns ! j \<noteq> program_name command" using 2(1,2) dir(2) nth_eq_iff_index_eq [of ns _ i] by fastforce
        obtain d where "read_dentry_by_name (fs_info s) (mem s) (Some (str_ptr (program_name command))) (Some (junk_dentry lo)) = Inr (0, Some d)"
            "dinode d = load32 (mem s) (dir_entries (fs_info s) ! i + 36)"
          using lookup_hit [OF dir(1) name [OF len] len 2(1,2) first, of "junk_dentry lo"] by auto
        then show ?thesis using run [OF len] exec_file_refuses [OF calm 2(3) refl c0 cmd(2), of sy] by simp
      qed
    qed
  qed
qed

text \<open>
  C25. \<open>execute\<close> refuses what is not the name of a program with at most one argument: the empty command and one that starts with a space, a
  command with more than one space, a name of at most 32 characters that no file has, and a file of at least four bytes that does not start with the
  magic number of an executable. (A longer name overflows the array \<open>program_name\<close> of 33 bytes before the lookup, and for a shorter file
  the comparison reads bytes of the buffer that were never written; neither case is covered.) It returns
  -1, no process is started, and nothing changes but the text page, where a message may appear, the cursor and the four
  bytes of its buffer.
\<close>

theorem execute_refuses:
  fixes s :: "'a sys_scheme"
  assumes "exec_calm lo ns s" and "holds_str command_param command" "length command \<le> 127" "length (find_spaces command) \<le> 100"
    and "refused_command lo ns s command"
  shows "\<exists>m x y. execute sy lo command_param s = Inr (Returned (- 1), s\<lparr>mem := m, screen_x := x, screen_y := y\<rparr>) \<and> on_screen y x
    \<and> (\<forall>a. 4000 \<le> unat (a - VIDEO) \<longrightarrow> 4 \<le> unat (a - exe_buff lo) \<longrightarrow> m a = mem s a)"
proof -
  obtain s' where s': "execute sy lo command_param s = Inr (Returned (- 1), s')" "printed lo s s'" using execute_refused [OF assms] by blast
  then have "s' = s\<lparr>mem := mem s', screen_x := screen_x s', screen_y := screen_y s'\<rparr>" by (simp add: printed_def)
  with s'(1) have "execute sy lo command_param s = Inr (Returned (- 1), s\<lparr>mem := mem s', screen_x := screen_x s', screen_y := screen_y s'\<rparr>)" by simp
  then show ?thesis using s'(2) unfolding printed_def by blast
qed

lemma exec_sample_calm: "exec_calm exec_stack [[97], [98, 99]] exec_state"
proof -
  have "4000 \<le> unat (dir_entries sample_fs ! i + of_nat k - VIDEO) \<and> 4 \<le> unat (dir_entries sample_fs ! i + of_nat k - exe_buff exec_stack)"
    if "i < 2" "k < 64" for i k
  proof -
    have "i = 0 \<or> i = 1" using that by auto
    then have "unat (dir_entries sample_fs ! i + of_nat k) < 0x14000"
      using that(2) by (elim disjE) (simp_all add: sample_fs_def unat_word_ariths unat_of_nat32)
    then show ?thesis by (simp add: exec_stack_def unat_sub_if' word_le_nat_alt)
  qed
  then show ?thesis
    using exec_directory by (simp add: exec_calm_def) (simp add: exec_state_def proc_state_def sys_boot_defs on_screen_def)
qed

theorem execute_refuses_witness:
  "\<exists>s'. execute sample_symbols exec_stack (str_ptr [97, 98]) exec_state = Inr (Returned (- 1), s')"
proof -
  have "holds_str (str_ptr [97, 98]) [97, 98]" by (rule holds_str_ptr) simp_all
  moreover have "find_spaces [97, 98] = []" by (simp add: find_spaces_def upt_rec)
  moreover from this have "refused_command exec_stack [[97], [98, 99]] exec_state [97, 98]" by (simp add: refused_command_def program_name_def)
  ultimately show ?thesis using execute_refuses [OF exec_sample_calm, of "str_ptr [97, 98]" "[97, 98]" sample_symbols] by auto
qed

end
