(* ===== verification/Testcode.thy ===== *)
theory Testcode
  imports Boot Execfail
begin

text \<open>
  The self tests of \<^verbatim>\<open>testcode.c\<close>: a tour through the file system and the clock for the first two
  checkpoints, the commands \<open>execute\<close> must refuse for the third, and the dispatch by name. What the local
  variables held before they were written and the addresses of the local arrays are a record. The conversion \<open>%s\<close> of a local
  array prints its bytes. A test that starts a program does not come back: its result is that of \<open>execute\<close>.
\<close>

section \<open>The tests\<close>

record test_locals =
  test_dentry :: dentry
  test_dentry2 :: dentry
  data_buf :: u32
  dir_buf :: u32
  file_buf :: u32
  file_ret :: u32
  i_at :: u32

abbreviation (input) nl :: string where "nl \<equiv> [CHR 0x0A]"

definition entry_of :: "dentry \<Rightarrow> dentry option \<Rightarrow> dentry" where
  "entry_of junk d = (case d of Some d \<Rightarrow> d | None \<Rightarrow> junk)"

text \<open>Lines 18 to 22.\<close>

definition show_meta :: "'a fs_scheme \<Rightarrow> 'a fs_scheme res" where
  "show_meta s =
     res_bind (say (''    starting address of file system: 0x%#x'' @ nl) [filesys_ptr (fs_info s)] (clear s)) (\<lambda>s.
     res_bind (say (''    number of directory entries: %d'' @ nl) [num_dir_entries (fs_info s)] s) (\<lambda>s.
     res_bind (say (''    number of inodes: %d'' @ nl) [num_inodes (fs_info s)] s) (\<lambda>s.
     say (''    number of data blocks: %d'' @ nl) [num_data_blocks (fs_info s)] s)))"

text \<open>The loop over the directory from index \<open>i\<close> on, \<open>k\<close> entries.\<close>

fun show_names :: "nat \<Rightarrow> u32 \<Rightarrow> dentry \<Rightarrow> 'a fs_scheme \<Rightarrow> 'a fs_scheme res" where
  "show_names 0 i d s = Inr s"
| "show_names (Suc k) i d s =
     res_bind (read_dentry_by_index (fs_info s) (mem s) i (Some d)) (\<lambda>(r, d').
       let d = entry_of d d'
       in res_bind (say ''    file %d: '' [i] s) (\<lambda>s.
          res_bind (put_list (dname d) s) (\<lambda>s.
          res_bind (say ('' inode#: %d'' @ nl) [dinode d] s) (\<lambda>s. show_names k (i + 1) d s))))"

definition show_dentry :: "dentry \<Rightarrow> 'a console_scheme \<Rightarrow> 'a console_scheme res" where
  "show_dentry d s =
     res_bind (say ''    File Name: '' [] s) (\<lambda>s.
     res_bind (put_list (dname d) s) (\<lambda>s.
     res_bind (say nl [] s) (\<lambda>s.
     res_bind (say (''    File Type: %d'' @ nl) [ucast (dtype d)] s) (\<lambda>s.
     say (''    Inode Number: %d'' @ nl) [dinode d] s))))"

abbreviation (input) long_name :: string where "long_name \<equiv> ''verylargetxtwithverylongname.tx''"

definition test_by_name :: "dentry \<Rightarrow> 'a fs_scheme \<Rightarrow> (dentry \<times> 'a fs_scheme) res" where
  "test_by_name d s =
     res_bind (say (''    Testing read_dentry_by_name...'' @ nl) [] (clear s)) (\<lambda>s.
     res_bind (read_dentry_by_name (fs_info s) (mem s) (Some (str_ptr (map of_char long_name))) (Some d)) (\<lambda>(i, d').
       let d = entry_of d d'
       in res_bind (if i = 0 then show_dentry d s
                    else say (''    Error reading file: '' @ [CHR 0x27] @ long_name @ [CHR 0x27] @ nl) [] s) (\<lambda>s. Inr (d, s))))"

definition test_by_index :: "dentry \<Rightarrow> 'a fs_scheme \<Rightarrow> (dentry \<times> 'a fs_scheme) res" where
  "test_by_index d s =
     res_bind (say (''    Testing read_dentry_by_index...'' @ nl) [] s) (\<lambda>s.
     res_bind (read_dentry_by_index (fs_info s) (mem s) 7 (Some d)) (\<lambda>(i, d').
       let d = entry_of d d'
       in res_bind (if i = 0 then show_dentry d s else say (''    Error reading file at index: %d'' @ nl) [7] s) (\<lambda>s. Inr (d, s))))"

definition test_read_data :: "test_locals \<Rightarrow> dentry \<Rightarrow> 'a fs_scheme \<Rightarrow> 'a fs_scheme res" where
  "test_read_data lc d s =
     res_bind (say (''    Testing read_data....'' @ nl) [] s) (\<lambda>s.
     res_bind (read_dentry_by_name (fs_info s) (mem s) (Some (str_ptr (map of_char long_name))) (Some d)) (\<lambda>(i, d').
       let d = entry_of d d'
       in res_bind (say (''    reading data from file '' @ [CHR 0x27]) [] s) (\<lambda>s.
          res_bind (put_list (dname d) s) (\<lambda>s.
          res_bind (say ([CHR 0x27] @ '' (inode # %d)'' @ nl) [dinode d] s) (\<lambda>s.
          let s = clear s
          in res_bind (read_data (fs_info s) (dinode d) 0 (data_buf lc) 2 (mem s)) (\<lambda>(i, m).
             let s = s\<lparr>mem := m\<rparr>
             in if i \<noteq> - 1 then res_bind (say (''    num bytes read: %d'' @ nl) [i] s) (say (''%s'' @ nl) [data_buf lc])
                else say (''    Error reading data from file'' @ nl) [] s))))))"

text \<open>The loop of \<open>k\<close> reads of the directory.\<close>

fun show_reads :: "test_locals \<Rightarrow> dentry \<Rightarrow> nat \<Rightarrow> 'a fs_scheme \<Rightarrow> 'a fs_scheme res" where
  "show_reads lc junk 0 s = Inr s"
| "show_reads lc junk (Suc k) s =
     res_bind (read_directory junk (dir_buf lc) s) (\<lambda>(dir_ret, s).
     res_bind (say ''    Number of bytes read: %d  '' [dir_ret] s) (\<lambda>s.
     res_bind (if 0 < sint dir_ret then say (''File name: '' @ [CHR 0x27] @ ''%s'' @ [CHR 0x27] @ '' '') [dir_buf lc] s else Inr s) (\<lambda>s.
     res_bind (say nl [] s) (\<lambda>s. show_reads lc junk k s))))"

text \<open>The loop that prints the bytes of \<open>file_buf\<close> from index \<open>a\<close> on.\<close>

fun show_bytes :: "u32 \<Rightarrow> nat \<Rightarrow> 'a console_scheme \<Rightarrow> 'a console_scheme res" where
  "show_bytes p 0 s = Inr s"
| "show_bytes p (Suc k) s = res_bind (say ''%c'' [ucast (mem s p)] s) (show_bytes (p + 1) k)"

definition test_read_file :: "test_locals \<Rightarrow> 'a console_scheme \<Rightarrow> 'a console_scheme res" where
  "test_read_file lc s =
     res_bind (say (''    Testing read_file...'' @ nl) [] (clear s)) (\<lambda>s.
     res_bind (say (''    Number of bytes read: %d'' @ nl) [file_ret lc] s) (\<lambda>s.
     res_bind (if 0 < file_ret lc then res_bind (say '' data from buffer: '' [] s) (show_bytes (file_buf lc) 100) else Inr s) (say nl [])))"

definition test_rtc :: "env \<Rightarrow> ('i \<Rightarrow> 'a fs_scheme \<Rightarrow> 'a fs_scheme) \<Rightarrow> test_locals \<Rightarrow> 'i list \<Rightarrow> 'a fs_scheme \<Rightarrow> ('i list \<times> 'a fs_scheme) res" where
  "test_rtc env handler lc js s =
     (let s = s\<lparr>mem := store32 (mem s) (i_at lc) 4\<rparr>;
          (r, s) = rtc_open env s
      in res_bind (rtc_write env (i_at lc) s) (\<lambda>(r, s).
         let s = s\<lparr>mem := store32 (mem s) (i_at lc) 1025\<rparr>
         in res_bind (rtc_write env (i_at lc) s) (\<lambda>(r, s).
            res_bind (if r = - 1 then say (''rtc_write(1025,4) returns -1'' @ nl) [] s else Inr s) (\<lambda>s.
            res_bind (rtc_read handler js s) (\<lambda>(r, js, s).
            let (r, s) = rtc_close s
            in res_bind (if r = 0 then say (''rtc_close returns 0'' @ nl) [] s else Inr s) (\<lambda>s. Inr (js, rtc_set_flag s)))))))"

definition testCP1_and_CP2 :: "env \<Rightarrow> ('i \<Rightarrow> 'a fs_scheme \<Rightarrow> 'a fs_scheme) \<Rightarrow> test_locals \<Rightarrow> dentry \<Rightarrow> 'i list \<Rightarrow> 'a fs_scheme
    \<Rightarrow> (int \<times> 'i list \<times> 'a fs_scheme) res" where
  "testCP1_and_CP2 env handler lc junk js s =
     res_bind (show_meta s) (\<lambda>s.
     res_bind (show_names (unat (num_dir_entries (fs_info s))) 0 (test_dentry lc) s) (\<lambda>s.
     res_bind (test_by_name (test_dentry2 lc) s) (\<lambda>(d, s).
     res_bind (test_by_index d s) (\<lambda>(d, s).
     res_bind (test_read_data lc d s) (\<lambda>s.
     res_bind (say (''    Testing read_directory...'' @ nl) [] (clear s)) (\<lambda>s.
     res_bind (show_reads lc junk 20 s) (\<lambda>s.
     res_bind (test_read_file lc s) (\<lambda>s.
     res_bind (test_rtc env handler lc js s) (\<lambda>(js, s). Inr (0, js, s))))))))))"

definition testCP1 :: "env \<Rightarrow> ('i \<Rightarrow> 'a fs_scheme \<Rightarrow> 'a fs_scheme) \<Rightarrow> test_locals \<Rightarrow> dentry \<Rightarrow> 'i list \<Rightarrow> 'a fs_scheme
    \<Rightarrow> (int \<times> 'i list \<times> 'a fs_scheme) res" where
  "testCP1 env handler lc junk js s =
     res_bind (say (''Testing Checkpoint 1............'' @ nl) [] s) (testCP1_and_CP2 env handler lc junk js)"

definition testCP2 :: "env \<Rightarrow> ('i \<Rightarrow> 'a fs_scheme \<Rightarrow> 'a fs_scheme) \<Rightarrow> test_locals \<Rightarrow> dentry \<Rightarrow> 'i list \<Rightarrow> 'a fs_scheme
    \<Rightarrow> (int \<times> 'i list \<times> 'a fs_scheme) res" where
  "testCP2 env handler lc junk js s =
     res_bind (say (''Testing Checkpoint 2............'' @ nl) [] s) (testCP1_and_CP2 env handler lc junk js)"

subsection \<open>The third checkpoint\<close>

text \<open>One check of \<open>testCP3_execute\<close>: the command must be refused. The value that is passed on is \<open>is_passing\<close>.\<close>

definition expect_fail :: "symbols \<Rightarrow> exec_locals \<Rightarrow> string \<Rightarrow> string \<Rightarrow> string \<Rightarrow> exec_result \<times> 'a sys_scheme \<Rightarrow> (exec_result \<times> 'a sys_scheme) res" where
  "expect_fail sy lo command failed passed st =
     (case st of (Returned is_passing, s) \<Rightarrow>
        res_bind (execute sy lo (str_ptr (map of_char command)) s) (\<lambda>(r, s).
          case r of Returned ret_val \<Rightarrow>
              if ret_val \<noteq> - 1 then res_bind (say (failed @ nl) [] s) (\<lambda>s. Inr (Returned 0, s))
              else res_bind (say (passed @ nl) [] s) (\<lambda>s. Inr (Returned is_passing, s))
          | _ \<Rightarrow> Inr (r, s))
      | _ \<Rightarrow> Inr st)"

text \<open>The last check starts a program when there is one.\<close>

definition try_ls :: "symbols \<Rightarrow> exec_locals \<Rightarrow> exec_result \<times> 'a sys_scheme \<Rightarrow> (exec_result \<times> 'a sys_scheme) res" where
  "try_ls sy lo st =
     (case st of (Returned is_passing, s) \<Rightarrow>
        res_bind (execute sy lo (str_ptr (map of_char ''ls'')) s) (\<lambda>(r, s).
          case r of Returned ret_val \<Rightarrow>
              res_bind (say (''    execute: test '' @ [CHR 0x27] @ ''ls'' @ [CHR 0x27] @ ''- ret_val = %d'' @ nl) [word_of_int ret_val] s) (\<lambda>s.
                Inr (Returned (if ret_val \<noteq> - 1 then 1 else is_passing), s))
          | _ \<Rightarrow> Inr (r, s))
      | _ \<Rightarrow> Inr st)"

definition testCP3_execute :: "symbols \<Rightarrow> exec_locals \<Rightarrow> 'a sys_scheme \<Rightarrow> (exec_result \<times> 'a sys_scheme) res" where
  "testCP3_execute sy lo s =
     res_bind (say (''CP3: Testing execute()...'' @ nl) [] s) (\<lambda>s.
     res_bind (expect_fail sy lo [] ''    execute: FAILED empty string command'' ''    execute: passed empty string command'' (Returned 1, s)) (\<lambda>st.
     res_bind (expect_fail sy lo ''    '' ''    execute: FAILED all spaces command'' ''    execute: passed all spaces command'' st) (\<lambda>st.
     res_bind (expect_fail sy lo ''catb'' ''    execute: FAILED bad filename command'' ''    execute: passed bad filename command'' st) (\<lambda>st.
     res_bind (expect_fail sy lo ''garbage'' ''    execute: FAILED bad filename command 2'' ''    execute: passed bad filename command 2'' st) (\<lambda>st.
     res_bind (expect_fail sy lo ''lots of words and spaces'' ''    execute: FAILED mult words bad command''
       ''    execute: passed mult words bad command'' st) (\<lambda>st.
     res_bind (expect_fail sy lo ''frame0.txt'' ''    execute: test non-executable- FAILED'' ''    execute: test non-executable- passed'' st)
       (try_ls sy lo)))))))"

definition testCP3 :: "symbols \<Rightarrow> exec_locals \<Rightarrow> 'a sys_scheme \<Rightarrow> (exec_result \<times> 'a sys_scheme) res" where
  "testCP3 sy lo s = res_bind (say (''Testing Checkpoint 3............'' @ nl) [] s) (testCP3_execute sy lo)"

definition testCP4 :: "'a console_scheme \<Rightarrow> (int \<times> 'a console_scheme) res" where
  "testCP4 s = res_bind (say (''Testing Checkpoint 4............'' @ nl) [] s) (\<lambda>s. Inr (0, s))"

definition testCP5 :: "'a console_scheme \<Rightarrow> (int \<times> 'a console_scheme) res" where
  "testCP5 s = res_bind (say (''Testing Checkpoint 5............'' @ nl) [] s) (\<lambda>s. Inr (0, s))"

text \<open>A name that is none of these leaves \<open>ret_val\<close> uninitialised.\<close>

definition run_tests :: "symbols \<Rightarrow> exec_locals \<Rightarrow> env \<Rightarrow> ('i \<Rightarrow> 'a sys_scheme \<Rightarrow> 'a sys_scheme) \<Rightarrow> test_locals \<Rightarrow> dentry \<Rightarrow> cptr \<Rightarrow> 'i list
    \<Rightarrow> 'a sys_scheme \<Rightarrow> (exec_result \<times> 'i list \<times> 'a sys_scheme) res" where
  "run_tests sy lo env handler lc junk test_name js s =
     res_bind (opt_res No_return (strlen test_name)) (\<lambda>n.
       let named = (\<lambda>name. strncmp test_name (str_ptr (map of_char name)) n = 0);
           plain = (\<lambda>r. res_bind r (\<lambda>(v, s). Inr (Returned v, js, s)))
       in if named ''cp1'' \<or> named ''checkpoint1'' then res_bind (testCP1 env handler lc junk js s) (\<lambda>(v, js, s). Inr (Returned v, js, s))
          else if named ''cp2'' \<or> named ''checkpoint2'' then res_bind (testCP2 env handler lc junk js s) (\<lambda>(v, js, s). Inr (Returned v, js, s))
          else if named ''cp3'' \<or> named ''checkpoint3'' then res_bind (testCP3 sy lo s) (\<lambda>(v, s). Inr (v, js, s))
          else if named ''cp4'' \<or> named ''checkpoint4'' then plain (testCP4 s)
          else if named ''cp5'' \<or> named ''final'' \<or> named ''checkpoint5'' then plain (testCP5 s)
          else Inl Uninitialised)"

section \<open>The checks of the third checkpoint\<close>

lemma printed_entry:
  assumes "exec_calm lo ns s" "printed lo s s'" "i < length ns" "k < 64"
  shows "mem s' (dir_entries (fs_info s) ! i + of_nat k) = mem s (dir_entries (fs_info s) ! i + of_nat k)"
  using assms by (simp add: exec_calm_def printed_def)

lemma printed_calm:
  assumes "exec_calm lo ns s" "printed lo s s'"
  shows "exec_calm lo ns s'"
proof -
  have "holds_str (ptr_at (mem s') (dir_entries (fs_info s) ! i)) (ns ! i)" if i: "i < length ns" for i
  proof -
    have "holds_str (ptr_at (mem s) (dir_entries (fs_info s) ! i)) (ns ! i)" "length (ns ! i) \<le> 32"
      using assms(1) i by (simp_all add: exec_calm_def directory_def)
    moreover from this have "mem s' (dir_entries (fs_info s) ! i + of_nat k) = mem s (dir_entries (fs_info s) ! i + of_nat k)"
      if "k \<le> length (ns ! i)" for k using that by (intro printed_entry [OF assms i]) simp
    ultimately show ?thesis by (simp add: holds_str_def)
  qed
  then have "directory (fs_info s) (mem s') ns" using assms(1) by (simp add: exec_calm_def directory_def)
  then show ?thesis using assms(1) printed_fields [OF assms(2)] by (simp add: exec_calm_def)
qed

lemma printed_not_program:
  assumes calm: "exec_calm lo ns s" "i < length ns" and p: "printed lo s s'" and np: "not_program lo i s"
  shows "not_program lo i s'"
proof -
  let ?inode = "load32 (mem s) (dir_entries (fs_info s) ! i + 36)"
  have "mem s' (dir_entries (fs_info s) ! i + 36 + of_nat k) = mem s (dir_entries (fs_info s) ! i + 36 + of_nat k)" if "k < 4" for k
    using printed_entry [OF calm(1) p calm(2), of "36 + k"] that by (simp add: add.assoc)
  from this [of 0] this [of 1] this [of 2] this [of 3] have inode: "load32 (mem s') (dir_entries (fs_info s) ! i + 36) = ?inode"
    by (intro load32_cong) simp_all
  have "\<forall>a \<in> file_area (fs_info s) (mem s) ?inode. mem s' a = mem s a" and size: "file_size (fs_info s) (mem s) ?inode \<le> 4096 * 1023"
      "4 \<le> file_size (fs_info s) (mem s) ?inode"
    using np p by (auto simp: not_program_def printed_def Let_def)
  note same = file_cong [OF this(1) size(1)]
  have bytes: "map (file_byte (fs_info s) (mem s') ?inode) [0..<4] = map (file_byte (fs_info s) (mem s) ?inode) [0..<4]"
    using same(3) size(2) by (intro map_cong) simp_all
  show ?thesis using np unfolding not_program_def Let_def printed_fields(1) [OF p] inode same(1,2) bytes .
qed

lemma refused_kept: "exec_calm lo ns s \<Longrightarrow> printed lo s s' \<Longrightarrow> refused_command lo ns s command \<Longrightarrow> refused_command lo ns s' command"
  using printed_not_program [of lo ns s _ s'] by (auto simp: refused_command_def)

lemma expect_fail_passes:
  fixes s :: "'a sys_scheme"
  assumes calm: "exec_calm lo ns s" and ref: "refused_command lo ns s (map of_char command)"
    and c: "0 \<notin> set (map of_char command :: u8 list)" "length command \<le> 100" and msg: "of_char (CHR ''%'') \<notin> set (map of_char passed :: u8 list)"
  shows "\<exists>s'. expect_fail sy lo command failed passed (Returned v, s) = Inr (Returned v, s') \<and> printed lo s s'"
proof -
  have "holds_str (str_ptr (map of_char command)) (map of_char command)" using c by (intro holds_str_ptr) simp_all
  moreover have "length (find_spaces (map of_char command)) \<le> 100"
    using length_filter_le [of _ "[0..<length (map of_char command :: u8 list)]"] c(2) by (fastforce simp: find_spaces_def intro: order_trans)
  ultimately obtain t where t: "execute sy lo (str_ptr (map of_char command)) s = Inr (Returned (- 1), t)" "printed lo s t"
    using execute_refused [OF calm _ _ _ ref, of "str_ptr (map of_char command)" sy] c(2) by auto
  have "say (passed @ [CHR 0x0A]) [] t = Inr (fold putc (map of_char (passed @ [CHR 0x0A])) t)"
    using msg by (simp add: say_def printf_plain)
  moreover have "printed lo t (fold putc (map of_char (passed @ [CHR 0x0A])) t)" by (rule printed_text) (rule printed_fields(6) [OF t(2)])
  ultimately show ?thesis using t printed_trans [OF t(2)] by (simp add: expect_fail_def)
qed

lemma cp3_refused:
  assumes names: "map of_char ''catb'' \<notin> set ns" "map of_char ''garbage'' \<notin> set ns"
    and frame: "\<forall>i < length ns. ns ! i = map of_char ''frame0.txt'' \<longrightarrow> not_program lo i s" and x: "x \<in> {[], ''    '', ''catb'', ''garbage'', ''lots of words and spaces'', ''frame0.txt''}"
  shows "refused_command lo ns s (map of_char x)" "0 \<notin> set (map of_char x :: u8 list)" "length x \<le> 100"
proof -
  let ?c = "\<lambda>x. map of_char x :: u8 list"
  have names': "program_name (?c ''catb'') = ?c ''catb''" "program_name (?c ''garbage'') = ?c ''garbage''" "program_name (?c ''frame0.txt'') = ?c ''frame0.txt''"
      "length (?c ''catb'') \<le> 32" "length (?c ''garbage'') \<le> 32" "length (?c ''frame0.txt'') \<le> 32"
    and spaces: "program_name (?c []) = []" "program_name (?c ''    '') = []" "1 < length (find_spaces (?c ''lots of words and spaces''))"
    by (simp_all add: find_spaces_def program_name_def upt_rec)
  have "?c ''frame0.txt'' \<notin> set ns \<or> (\<exists>i < length ns. ns ! i = ?c ''frame0.txt'' \<and> not_program lo i s)"
    using frame by (auto simp: in_set_conv_nth)
  then have "refused_command lo ns s (?c ''catb'')" "refused_command lo ns s (?c ''garbage'')" "refused_command lo ns s (?c ''frame0.txt'')"
      "refused_command lo ns s (?c [])" "refused_command lo ns s (?c ''    '')" "refused_command lo ns s (?c ''lots of words and spaces'')"
    unfolding refused_command_def names' using names names'(4-6) spaces by blast+
  then show "refused_command lo ns s (map of_char x)" using x by blast
  show "0 \<notin> set (map of_char x :: u8 list)" "length x \<le> 100" using x by auto
qed

text \<open>
  C26. The third checkpoint's test of \<open>execute\<close> passes: the first six commands are all refused, with \<open>is_passing\<close> still 1 before the last
  one, and up to there only the text page, the cursor and the four bytes of the buffer have changed. The directory has no file with the names that are
  tried, and \<^verbatim>\<open>frame0.txt\<close>, if it is there, is not an executable.
\<close>

theorem execute_checks_pass:
  fixes s :: "'a sys_scheme"
  assumes calm: "exec_calm lo ns s" and names: "map of_char ''catb'' \<notin> set ns" "map of_char ''garbage'' \<notin> set ns"
    and frame: "\<forall>i < length ns. ns ! i = map of_char ''frame0.txt'' \<longrightarrow> not_program lo i s"
  shows "\<exists>s'. testCP3_execute sy lo s = try_ls sy lo (Returned 1, s') \<and> printed lo s s'"
proof -
  let ?c = "\<lambda>x. map of_char x :: u8 list" and ?cmds = "{[], ''    '', ''catb'', ''garbage'', ''lots of words and spaces'', ''frame0.txt''}"
  note ref = cp3_refused [OF names frame]
  define ok where "ok t \<longleftrightarrow> printed lo s t" for t
  have step: "\<exists>t'. expect_fail sy lo x f p (Returned 1, t) = Inr (Returned 1, t') \<and> ok t'"
    if "ok t" "x \<in> ?cmds" "of_char (CHR ''%'') \<notin> set (?c p)" for x f p t
  proof -
    have "printed lo s t" using that(1) by (simp add: ok_def)
    then have "exec_calm lo ns t" "refused_command lo ns t (?c x)" using calm printed_calm refused_kept ref(1) [OF that(2)] by blast+
    from expect_fail_passes [OF this ref(2,3) [OF that(2)] that(3), of sy f 1] show ?thesis
      using \<open>printed lo s t\<close> printed_trans unfolding ok_def by blast
  qed
  have "on_screen (screen_y s) (screen_x s)" using calm by (simp add: exec_calm_def)
  then have "ok (fold putc (?c (''CP3: Testing execute()...'' @ [CHR 0x0A])) s)" unfolding ok_def by (rule printed_text)
  moreover have "say (''CP3: Testing execute()...'' @ [CHR 0x0A]) [] s = Inr (fold putc (?c (''CP3: Testing execute()...'' @ [CHR 0x0A])) s)"
  proof -
    have "of_char (CHR ''%'') \<notin> set (?c (''CP3: Testing execute()...'' @ [CHR 0x0A]))" by simp
    from printf_plain [OF this, of "[]" s] show ?thesis unfolding say_def by (simp only: res_bind_simps prod.case)
  qed
  ultimately obtain t0 where t0: "say (''CP3: Testing execute()...'' @ [CHR 0x0A]) [] s = Inr t0" "ok t0" by blast
  obtain t1 where t1: "expect_fail sy lo [] ''    execute: FAILED empty string command'' ''    execute: passed empty string command'' (Returned 1, t0)
      = Inr (Returned 1, t1)" "ok t1"
    using step [OF t0(2), of "[]" "''    execute: passed empty string command''" "''    execute: FAILED empty string command''"] by auto
  obtain t2 where t2: "expect_fail sy lo ''    '' ''    execute: FAILED all spaces command'' ''    execute: passed all spaces command'' (Returned 1, t1)
      = Inr (Returned 1, t2)" "ok t2"
    using step [OF t1(2), of "''    ''" "''    execute: passed all spaces command''" "''    execute: FAILED all spaces command''"] by auto
  obtain t3 where t3: "expect_fail sy lo ''catb'' ''    execute: FAILED bad filename command'' ''    execute: passed bad filename command'' (Returned 1, t2)
      = Inr (Returned 1, t3)" "ok t3"
    using step [OF t2(2), of "''catb''" "''    execute: passed bad filename command''" "''    execute: FAILED bad filename command''"] by auto
  obtain t4 where t4: "expect_fail sy lo ''garbage'' ''    execute: FAILED bad filename command 2'' ''    execute: passed bad filename command 2'' (Returned 1, t3)
      = Inr (Returned 1, t4)" "ok t4"
    using step [OF t3(2), of "''garbage''" "''    execute: passed bad filename command 2''" "''    execute: FAILED bad filename command 2''"] by auto
  obtain t5 where t5: "expect_fail sy lo ''lots of words and spaces'' ''    execute: FAILED mult words bad command''
      ''    execute: passed mult words bad command'' (Returned 1, t4) = Inr (Returned 1, t5)" "ok t5"
    using step [OF t4(2), of "''lots of words and spaces''" "''    execute: passed mult words bad command''" "''    execute: FAILED mult words bad command''"] by auto
  obtain t6 where t6: "expect_fail sy lo ''frame0.txt'' ''    execute: test non-executable- FAILED'' ''    execute: test non-executable- passed''
      (Returned 1, t5) = Inr (Returned 1, t6)" "ok t6"
    using step [OF t5(2), of "''frame0.txt''" "''    execute: test non-executable- passed''" "''    execute: test non-executable- FAILED''"] by auto
  have "testCP3_execute sy lo s = try_ls sy lo (Returned 1, t6)"
    unfolding testCP3_execute_def t0(1) res_bind_simps t1(1) t2(1) t3(1) t4(1) t5(1) t6(1) ..
  then show ?thesis using t6(2) unfolding ok_def by blast
qed

theorem execute_checks_pass_witness:
  "\<exists>s'. testCP3_execute sample_symbols exec_stack exec_state = try_ls sample_symbols exec_stack (Returned 1, s') \<and> printed exec_stack exec_state s'"
  using execute_checks_pass [OF exec_sample_calm, of sample_symbols] by (simp add: less_Suc_eq)

end
