(* ===== verification/Kregion.thy ===== *)
theory Kregion
  imports Klib_Mem
begin

text \<open>
  Regions of memory: the addresses of a buffer, and that two memories differ in a region at most. These
  are the frame conditions of the code that works on structures and strings in the memory of a program. Words of 16 bits
  are accessed in little-endian order.
\<close>

section \<open>Words of 16 bits\<close>

definition load16 :: "mem \<Rightarrow> u32 \<Rightarrow> u16" where
  "load16 m a = ucast (m a) OR push_bit 8 (ucast (m (a + 1)))"

definition store16 :: "mem \<Rightarrow> u32 \<Rightarrow> u16 \<Rightarrow> mem" where
  "store16 m a v = m(a := ucast v, a + 1 := ucast (drop_bit 8 v))"

section \<open>Regions of memory\<close>

text \<open>The addresses of \<open>n\<close> bytes from \<open>a\<close> on, and that two memories differ in a set of addresses at most.\<close>

definition span :: "u32 \<Rightarrow> nat \<Rightarrow> u32 set" where
  "span a n = {x. unat (x - a) < n}"

definition agree :: "u32 set \<Rightarrow> mem \<Rightarrow> mem \<Rightarrow> bool" where
  "agree W m m' \<longleftrightarrow> (\<forall>a. a \<notin> W \<longrightarrow> m' a = m a)"

lemma in_span: "k < n \<Longrightarrow> n \<le> 2 ^ 32 \<Longrightarrow> a + of_nat k \<in> span a n"
  by (simp add: span_def unat_of_nat32)

lemma spanE:
  assumes "x \<in> span a n"
  obtains k where "k < n" "x = a + of_nat k"
proof
  show "unat (x - a) < n" using assms by (simp add: span_def)
  show "x = a + of_nat (unat (x - a))" by simp
qed

lemma span_numeral [simp]:
  "a \<in> span a n \<longleftrightarrow> 0 < n"
  "a + 1 \<in> span a n \<longleftrightarrow> 1 < n"
  "a + numeral k \<in> span a n \<longleftrightarrow> unat (numeral k :: u32) < n"
  by (simp_all add: span_def)

lemma span_mono: "n \<le> k \<Longrightarrow> span a n \<subseteq> span a k"
  by (auto simp: span_def)

lemma agree_refl [simp]: "agree W m m"
  by (simp add: agree_def)

lemma agree_mono: "agree W m m' \<Longrightarrow> W \<subseteq> V \<Longrightarrow> agree V m m'"
  by (auto simp: agree_def)

lemma agree_trans: "agree W m m' \<Longrightarrow> agree W m' m'' \<Longrightarrow> agree W m m''"
  by (simp add: agree_def)

lemma agree_upd [simp]: "a \<in> W \<Longrightarrow> agree W m (m'(a := v)) \<longleftrightarrow> agree W m m'"
  by (auto simp: agree_def)

lemma agree_store16 [simp]: "a \<in> W \<Longrightarrow> a + 1 \<in> W \<Longrightarrow> agree W m (store16 m' a v) \<longleftrightarrow> agree W m m'"
  by (simp add: store16_def)

lemma agree_store32 [simp]:
  "a \<in> W \<Longrightarrow> a + 1 \<in> W \<Longrightarrow> a + 2 \<in> W \<Longrightarrow> a + 3 \<in> W \<Longrightarrow> agree W m (store32 m' a v) \<longleftrightarrow> agree W m m'"
  by (simp add: store32_def)

lemma agree_byte: "agree W m m' \<Longrightarrow> a \<notin> W \<Longrightarrow> m' a = m a"
  by (simp add: agree_def)

lemma agree_load16: "agree W m m' \<Longrightarrow> span a 2 \<inter> W = {} \<Longrightarrow> load16 m' a = load16 m a"
proof -
  assume ag: "agree W m m'" and dj: "span a 2 \<inter> W = {}"
  have "a \<in> span a 2" "a + 1 \<in> span a 2" by simp_all
  with dj have "a \<notin> W" "a + 1 \<notin> W" by blast+
  with ag show ?thesis by (simp add: load16_def agree_def)
qed

lemma agree_load32: "agree W m m' \<Longrightarrow> span a 4 \<inter> W = {} \<Longrightarrow> load32 m' a = load32 m a"
proof -
  assume ag: "agree W m m'" and dj: "span a 4 \<inter> W = {}"
  have "a \<in> span a 4" "a + 1 \<in> span a 4" "a + 2 \<in> span a 4" "a + 3 \<in> span a 4" by simp_all
  with dj have "a \<notin> W" "a + 1 \<notin> W" "a + 2 \<notin> W" "a + 3 \<notin> W" by blast+
  with ag show ?thesis by (simp add: load32_def agree_def)
qed

lemma load16_store16 [simp]: "load16 (store16 m a v) a = v"
proof (rule bit_word_eqI)
  fix n :: nat
  assume "n < LENGTH(16)"
  then consider "n < 8" | "8 \<le> n" "n < 16" by fastforce
  then show "bit (load16 (store16 m a v) a) n = bit v n"
    by cases (auto simp: load16_def store16_def bit_simps)
qed

lemma load_store_other:
  "y \<noteq> x \<Longrightarrow> y \<noteq> x + 1 \<Longrightarrow> store16 m x v y = m y"
  "y \<noteq> x \<Longrightarrow> y \<noteq> x + 1 \<Longrightarrow> y + 1 \<noteq> x \<Longrightarrow> load16 (store16 m x v) y = load16 m y"
  "y \<noteq> x \<Longrightarrow> y \<noteq> x + 1 \<Longrightarrow> y + 1 \<noteq> x \<Longrightarrow> y + 2 \<noteq> x \<Longrightarrow> y + 3 \<noteq> x \<Longrightarrow> load32 (store16 m x v) y = load32 m y"
  "y \<noteq> a \<Longrightarrow> y + 1 \<noteq> a \<Longrightarrow> load16 (m(a := c)) y = load16 m y"
  "y \<noteq> a \<Longrightarrow> y + 1 \<noteq> a \<Longrightarrow> y + 2 \<noteq> a \<Longrightarrow> y + 3 \<noteq> a \<Longrightarrow> load32 (m(a := c)) y = load32 m y"
  "y \<noteq> x \<Longrightarrow> y \<noteq> x + 1 \<Longrightarrow> y \<noteq> x + 2 \<Longrightarrow> y \<noteq> x + 3 \<Longrightarrow> store32 m x w y = m y"
  "y \<noteq> x \<Longrightarrow> y \<noteq> x + 1 \<Longrightarrow> y \<noteq> x + 2 \<Longrightarrow> y \<noteq> x + 3 \<Longrightarrow> y + 1 \<noteq> x \<Longrightarrow> load16 (store32 m x w) y = load16 m y"
  by (auto simp: store16_def load16_def load32_def store32_def add_eq_0_iff
      simp flip: add.assoc dest: arg_cong [of _ _ "\<lambda>z. z - 1"])

lemma sub_span: "k + n \<le> d \<Longrightarrow> d \<le> 2 ^ 32 \<Longrightarrow> span (a + of_nat k) n \<subseteq> span a d"
proof
  fix x
  assume kn: "k + n \<le> d" "d \<le> 2 ^ 32" and "x \<in> span (a + of_nat k) n"
  then obtain l where l: "l < n" and "x = a + of_nat k + of_nat l" by (blast elim: spanE)
  then have x: "x = a + of_nat (k + l)" by (simp only: of_nat_add add.assoc)
  show "x \<in> span a d" unfolding x using kn l by (intro in_span) simp_all
qed

lemma agree_blit: "agree (span d n) m (blit m d n f)"
  by (simp add: agree_def span_def blit_def)

text \<open>Regions of numbers that do not overlap give regions of addresses that do not.\<close>

lemma span_less: "unat a + n \<le> 2 ^ 32 \<Longrightarrow> x \<in> span a n \<longleftrightarrow> unat a \<le> unat x \<and> unat x < unat a + n"
proof -
  assume n: "unat a + n \<le> 2 ^ 32"
  show ?thesis
    using n unat_sub_if' [of x a] unat_lt32 [of x] by (auto simp: span_def split: if_splits)
qed

lemma span_apart:
  "unat a + n \<le> unat b \<Longrightarrow> unat b + k \<le> 2 ^ 32 \<Longrightarrow> span a n \<inter> span b k = {} \<and> span b k \<inter> span a n = {}"
  by (auto simp: span_less)

lemma span_next: "k + n \<le> 2 ^ 32 \<Longrightarrow> span a k \<inter> span (a + of_nat k) n = {}"
proof (rule equals0I)
  fix x
  assume kn: "k + n \<le> 2 ^ 32" and "x \<in> span a k \<inter> span (a + of_nat k) n"
  then obtain i j where ij: "i < k" "x = a + of_nat i" "j < n" "x = a + of_nat k + of_nat j" by (blast elim: spanE)
  then have "a + of_nat i = a + of_nat (k + j)" by (simp only: of_nat_add add.assoc)
  then have "(of_nat i :: u32) = of_nat (k + j)" by (rule add_left_imp_eq)
  then have "unat (of_nat i :: u32) = unat (of_nat (k + j) :: u32)" by (rule arg_cong)
  moreover have "i < 2 ^ 32" "k + j < 2 ^ 32" using ij kn by simp_all
  ultimately have "i = k + j" by (simp only: unat_of_nat32)
  with ij show False by simp
qed

text \<open>A string keeps its bytes when a region apart from it is written.\<close>

lemma holds_str_agree:
  assumes ag: "agree W m m'" and dj: "span p (Suc (length xs)) \<inter> W = {}" and str: "holds_str (ptr_at m p) xs"
  shows "holds_str (ptr_at m' p) xs"
proof -
  have "m' (p + of_nat i) = m (p + of_nat i)" if "i \<le> length xs" for i
  proof -
    have "p + of_nat i \<in> span p (Suc (length xs))" using that str by (intro in_span) (simp_all add: holds_str_def)
    with dj show ?thesis by (intro agree_byte [OF ag]) blast
  qed
  with str show ?thesis by (auto simp: holds_str_def)
qed

lemma holds_str_Nil: "holds_str (ptr_at m p) [] \<longleftrightarrow> m p = 0"
  by (simp add: holds_str_def)

lemma holds_str_Cons:
  "holds_str (ptr_at m p) (x # xs) \<longleftrightarrow> m p = x \<and> x \<noteq> 0 \<and> Suc (length xs) < 2 ^ 32 \<and> holds_str (ptr_at m (p + 1)) xs"
  by (auto simp: holds_str_def add.assoc All_less_Suc2)

end
