(* ===== verification/Blink.thy ===== *)
theory Blink
  imports Kregion
begin

text \<open>
  The blinking characters of the demonstration program \<^verbatim>\<open>fish\<close>: the allocator and byte routines of
  \<^verbatim>\<open>fish.c\<close>, and the assembly of \<^verbatim>\<open>blink.S\<close>, which keeps a linked list of blink structures in memory and
  writes their characters to the screen. The structures are read and written byte by byte at the
  offsets of the source. The lemmas relate the list in memory to a list of records, and show that the
  loops over it end and that a tick of the clock does on the memory what a plain list function does on the records.
\<close>

section \<open>The structure in memory\<close>

text \<open>The addresses the linker gives to the variables \<open>vmem_base_addr\<close>, \<open>mp1_list_head\<close> and \<open>blink_array\<close>.\<close>

record blink_symbols =
  vmem_base_addr :: u32
  mp1_list_head :: u32
  blink_array :: u32

text \<open>A field of \<open>struct mp1_blink_struct\<close> is its offset, as in the assembly.\<close>

abbreviation (input) LOCATION :: u32 where "LOCATION \<equiv> 0"

abbreviation (input) ON_CHAR :: u32 where "ON_CHAR \<equiv> 2"

abbreviation (input) OFF_CHAR :: u32 where "OFF_CHAR \<equiv> 3"

abbreviation (input) ON_LENGTH :: u32 where "ON_LENGTH \<equiv> 4"

abbreviation (input) OFF_LENGTH :: u32 where "OFF_LENGTH \<equiv> 6"

abbreviation (input) COUNTDOWN :: u32 where "COUNTDOWN \<equiv> 8"

abbreviation (input) STATUS :: u32 where "STATUS \<equiv> 10"

abbreviation (input) NEXT :: u32 where "NEXT \<equiv> 12"

section \<open>The routines of fish.c\<close>

function ece391_memset_from :: "mem \<Rightarrow> u32 \<Rightarrow> u8 \<Rightarrow> int \<Rightarrow> int \<Rightarrow> mem" where
  "ece391_memset_from m memory c i n =
     (if i < n then ece391_memset_from (m(memory + word_of_int i := c)) memory c (i + 1) n else m)"
  by pat_completeness auto
termination
  by (relation "measure (\<lambda>(m, memory, c, i, n). nat (n - i))") auto

definition ece391_memset :: "mem \<Rightarrow> u32 \<Rightarrow> u8 \<Rightarrow> int \<Rightarrow> mem" where
  "ece391_memset m memory c n = ece391_memset_from m memory c 0 n"

function ece391_memcpy_from :: "mem \<Rightarrow> u32 \<Rightarrow> u32 \<Rightarrow> int \<Rightarrow> int \<Rightarrow> mem" where
  "ece391_memcpy_from m d s i n =
     (if i < n then ece391_memcpy_from (m(d + word_of_int i := m (s + word_of_int i))) d s (i + 1) n else m)"
  by pat_completeness auto
termination
  by (relation "measure (\<lambda>(m, d, s, i, n). nat (n - i))") auto

definition ece391_memcpy :: "mem \<Rightarrow> u32 \<Rightarrow> u32 \<Rightarrow> int \<Rightarrow> int \<times> mem" where
  "ece391_memcpy m dest src n = (0, ece391_memcpy_from m dest src 0 n)"

function mp1_malloc_from :: "blink_symbols \<Rightarrow> int \<Rightarrow> mem \<Rightarrow> u32" where
  "mp1_malloc_from L i m =
     (if i < 80 * 25 then
        (if load16 m (blink_array L + 16 * word_of_int i) = 0 then blink_array L + 16 * word_of_int i
         else mp1_malloc_from L (i + 1) m)
      else 0)"
  by pat_completeness auto
termination
  by (relation "measure (\<lambda>(L, i, m). nat (2000 - i))") auto

text \<open>The size is ignored.\<close>

definition mp1_malloc :: "blink_symbols \<Rightarrow> int \<Rightarrow> mem \<Rightarrow> u32" where
  "mp1_malloc L n m = mp1_malloc_from L 0 m"

definition mp1_free :: "u32 \<Rightarrow> mem \<Rightarrow> mem" where
  "mp1_free memory m = ece391_memset m memory 0 16"

declare ece391_memset_from.simps [simp del] ece391_memcpy_from.simps [simp del] mp1_malloc_from.simps [simp del]

section \<open>The routines of blink.S\<close>

definition mp1_poke :: "blink_symbols \<Rightarrow> u8 \<Rightarrow> u32 \<Rightarrow> mem \<Rightarrow> mem" where
  "mp1_poke L cl eax m = m(load32 m (vmem_base_addr L) + eax := cl)"

text \<open>One turn of \<open>tasklet_loop\<close> at the structure \<open>ebx\<close>, up to \<open>next_loop\<close>; \<open>jg\<close> compares signed words.\<close>

definition tasklet_body :: "blink_symbols \<Rightarrow> u32 \<Rightarrow> mem \<Rightarrow> mem" where
  "tasklet_body L ebx m =
     (let m = store16 m (ebx + COUNTDOWN) (load16 m (ebx + COUNTDOWN) - 1)
      in if 0 < sint (load16 m (ebx + COUNTDOWN)) then m
         else
           let eax = push_bit 1 (ucast (load16 m (ebx + LOCATION)));
               (m, dx) =
                 (if load16 m (ebx + STATUS) AND 1 \<noteq> 0
                  then let m = mp1_poke L (m (ebx + OFF_CHAR)) eax m in (m, load16 m (ebx + OFF_LENGTH))
                  else let m = mp1_poke L (m (ebx + ON_CHAR)) eax m in (m, load16 m (ebx + ON_LENGTH)));
               m = store16 m (ebx + COUNTDOWN) dx
           in store16 m (ebx + STATUS) (load16 m (ebx + STATUS) XOR 1))"

partial_function (option) tasklet_loop :: "blink_symbols \<Rightarrow> u32 \<Rightarrow> mem \<Rightarrow> mem option" where
  "tasklet_loop L ebx m =
     (if ebx = 0 then Some m
      else let m = tasklet_body L ebx m in tasklet_loop L (load32 m (ebx + NEXT)) m)"

definition mp1_rtc_tasklet :: "blink_symbols \<Rightarrow> mem \<Rightarrow> mem option" where
  "mp1_rtc_tasklet L m = tasklet_loop L (load32 m (mp1_list_head L)) m"

partial_function (option) find_loop :: "u16 \<Rightarrow> u32 \<Rightarrow> mem \<Rightarrow> u32 option" where
  "find_loop ax ebx m =
     (if ebx = 0 then Some 0
      else if load16 m (ebx + LOCATION) = ax then Some ebx
      else find_loop ax (load32 m (ebx + NEXT)) m)"

definition mp1_find_helper :: "blink_symbols \<Rightarrow> u32 \<Rightarrow> mem \<Rightarrow> u32 option" where
  "mp1_find_helper L arg m = find_loop (ucast arg) (load32 m (mp1_list_head L)) m"

text \<open>\<open>temp\<close> is the address of the structure on the stack, \<open>-STRUCT_SIZE(%ebp)\<close>; \<open>jae\<close> compares unsigned words.\<close>

definition mp1_ioctl_add :: "blink_symbols \<Rightarrow> u32 \<Rightarrow> u32 \<Rightarrow> mem \<Rightarrow> int \<times> mem" where
  "mp1_ioctl_add L temp arg m =
     (let (eax, m) = ece391_memcpy m temp arg 16
      in if eax \<noteq> 0 then (- 1, m)
         else if 80 * 25 \<le> load16 m (temp + LOCATION) then (- 1, m)
         else
           let m = store16 m (temp + STATUS) 1;
               m = store16 m (temp + COUNTDOWN) (load16 m (temp + ON_LENGTH));
               edx = mp1_malloc L 16 m
           in if edx = 0 then (- 1, m)
              else
                let (r, m) = ece391_memcpy m edx temp 16;
                    m = store32 m (edx + NEXT) (load32 m (mp1_list_head L));
                    m = store32 m (mp1_list_head L) edx;
                    eax = push_bit 1 (ucast (load16 m (edx + LOCATION)))
                in (0, mp1_poke L (m (edx + ON_CHAR)) eax m))"

partial_function (option) remove_find_prev :: "u32 \<Rightarrow> u32 \<Rightarrow> mem \<Rightarrow> u32 option" where
  "remove_find_prev eax edx m =
     (if load32 m edx = eax then Some edx else remove_find_prev eax (load32 m edx + NEXT) m)"

definition mp1_ioctl_remove :: "blink_symbols \<Rightarrow> u32 \<Rightarrow> mem \<Rightarrow> (int \<times> mem) option" where
  "mp1_ioctl_remove L arg m =
     Option.bind (mp1_find_helper L arg m) (\<lambda>eax.
       if eax = 0 then Some (- 1, m)
       else Option.bind (remove_find_prev eax (mp1_list_head L) m) (\<lambda>edx.
         let m = store32 m edx (load32 m (eax + NEXT))
         in Some (0, mp1_free eax m)))"

text \<open>
  \<open>sync_copy_loop\<close>. \<open>testb\<close> sets the sign flag to the top bit of the conjunction and clears the overflow
  flag, and \<open>cmovl\<close> moves when the two flags differ.
\<close>

definition sync_copy :: "blink_symbols \<Rightarrow> u32 \<Rightarrow> u32 \<Rightarrow> mem \<Rightarrow> mem" where
  "sync_copy L esi edi m =
     (let m = store16 m (edi + ON_LENGTH) (load16 m (esi + ON_LENGTH));
          m = store16 m (edi + OFF_LENGTH) (load16 m (esi + OFF_LENGTH));
          m = store16 m (edi + COUNTDOWN) (load16 m (esi + COUNTDOWN));
          m = store16 m (edi + STATUS) (load16 m (esi + STATUS));
          eax = push_bit 1 (ucast (load16 m (edi + LOCATION)));
          ecx = m (edi + OFF_CHAR);
          ebx = m (edi + ON_CHAR);
          sf = bit (m (edi + STATUS) AND 1) 7;
          cl = (if sf \<noteq> False then ebx else ecx)
      in mp1_poke L cl eax m)"

definition mp1_ioctl_sync :: "blink_symbols \<Rightarrow> u32 \<Rightarrow> mem \<Rightarrow> (int \<times> mem) option" where
  "mp1_ioctl_sync L arg m =
     Option.bind (mp1_find_helper L (drop_bit 16 arg) m) (\<lambda>esi.
       if esi = 0 then Some (- 1, m)
       else Option.bind (mp1_find_helper L (arg AND 0xFFFF) m) (\<lambda>edi.
         if edi = 0 then Some (- 1, m) else Some (0, sync_copy L esi edi m)))"

text \<open>\<open>temp\<close> is the address of the two bytes on the stack, \<open>-2(%ebp)\<close>.\<close>

definition mp1_ioctl_find :: "blink_symbols \<Rightarrow> u32 \<Rightarrow> u32 \<Rightarrow> mem \<Rightarrow> (int \<times> mem) option" where
  "mp1_ioctl_find L temp arg m =
     (let (eax, m) = ece391_memcpy m temp arg 2
      in if eax \<noteq> 0 then Some (- 1, m)
         else Option.bind (mp1_find_helper L (ucast (load16 m temp)) m) (\<lambda>eax.
           if eax = 0 then Some (- 1, m)
           else let (r, m) = ece391_memcpy m arg eax 16
                in Some ((if r = 0 then 0 else - 1), m)))"

text \<open>\<open>mp1_ioctl\<close> jumps through \<open>call_table\<close>, which has four entries, without a check of \<open>cmd\<close>. \<open>ebp\<close> is the frame pointer the handler
  sets up.\<close>

definition mp1_ioctl :: "blink_symbols \<Rightarrow> u32 \<Rightarrow> u32 \<Rightarrow> u32 \<Rightarrow> mem \<Rightarrow> (int \<times> mem) res option" where
  "mp1_ioctl L ebp arg cmd m =
     (if cmd = 0 then Some (Inr (mp1_ioctl_add L (ebp - 16) arg m))
      else if cmd = 1 then map_option Inr (mp1_ioctl_remove L arg m)
      else if cmd = 2 then map_option Inr (mp1_ioctl_find L (ebp - 2) arg m)
      else if cmd = 3 then map_option Inr (mp1_ioctl_sync L arg m)
      else Some (Inl Bounds))"

section \<open>The records the memory stands for\<close>

record blink =
  location :: u16
  on_char :: u8
  off_char :: u8
  on_length :: u16
  off_length :: u16
  countdown :: u16
  status :: u16

definition node :: "mem \<Rightarrow> u32 \<Rightarrow> blink" where
  "node m p = \<lparr>location = load16 m (p + LOCATION), on_char = m (p + ON_CHAR), off_char = m (p + OFF_CHAR),
     on_length = load16 m (p + ON_LENGTH), off_length = load16 m (p + OFF_LENGTH),
     countdown = load16 m (p + COUNTDOWN), status = load16 m (p + STATUS)\<rparr>"

definition slot :: "blink_symbols \<Rightarrow> nat \<Rightarrow> u32" where
  "slot L i = blink_array L + of_nat (16 * i)"

text \<open>The list that starts at \<open>p\<close> has the structures at the addresses \<open>ps\<close>, in this order.\<close>

primrec chain :: "mem \<Rightarrow> u32 \<Rightarrow> u32 list \<Rightarrow> bool" where
  "chain m p [] = (p = 0)"
| "chain m p (q # qs) = (p = q \<and> q \<noteq> 0 \<and> chain m (load32 m (q + NEXT)) qs)"

definition vmem :: "blink_symbols \<Rightarrow> mem \<Rightarrow> u32" where
  "vmem L m = load32 m (vmem_base_addr L)"

text \<open>The variables, the array and the screen are apart from each other, and the array is not at address 0.\<close>

definition layout :: "blink_symbols \<Rightarrow> u32 \<Rightarrow> bool" where
  "layout L base \<longleftrightarrow>
     span (vmem_base_addr L) 4 \<inter> span (mp1_list_head L) 4 = {} \<and> span (vmem_base_addr L) 4 \<inter> span (blink_array L) 32000 = {}
     \<and> span (mp1_list_head L) 4 \<inter> span (blink_array L) 32000 = {} \<and> span base 4000 \<inter> span (vmem_base_addr L) 4 = {}
     \<and> span base 4000 \<inter> span (mp1_list_head L) 4 = {} \<and> span base 4000 \<inter> span (blink_array L) 32000 = {}
     \<and> 0 \<notin> span (blink_array L) 32000"

text \<open>
  The list is made of the array elements with the indices \<open>is\<close>; exactly these have a location other
  than 0, which is how the allocator knows them, and all locations are on the screen.
\<close>

definition blink_inv :: "blink_symbols \<Rightarrow> mem \<Rightarrow> nat list \<Rightarrow> bool" where
  "blink_inv L m is \<longleftrightarrow>
     layout L (vmem L m) \<and> distinct is \<and> chain m (load32 m (mp1_list_head L)) (map (slot L) is)
     \<and> set is = {i. i < 2000 \<and> load16 m (slot L i) \<noteq> 0} \<and> (\<forall>i\<in>set is. load16 m (slot L i) < 2000)"

definition blinks :: "blink_symbols \<Rightarrow> mem \<Rightarrow> nat list \<Rightarrow> blink list" where
  "blinks L m is = map (\<lambda>i. node m (slot L i)) is"

text \<open>The characters on the screen; the byte after each is its attribute.\<close>

definition screen :: "blink_symbols \<Rightarrow> mem \<Rightarrow> u8 list" where
  "screen L m = map (\<lambda>l. m (vmem L m + of_nat (2 * l))) [0..<2000]"

text \<open>What a tick does to one structure and to the screen.\<close>

definition expires :: "blink \<Rightarrow> bool" where
  "expires b \<longleftrightarrow> sint (countdown b - 1) \<le> 0"

definition is_on :: "blink \<Rightarrow> bool" where
  "is_on b \<longleftrightarrow> status b AND 1 \<noteq> 0"

definition tick :: "blink \<Rightarrow> blink" where
  "tick b = (if expires b
     then b\<lparr>countdown := (if is_on b then off_length b else on_length b), status := status b XOR 1\<rparr>
     else b\<lparr>countdown := countdown b - 1\<rparr>)"

definition tick_screen :: "blink \<Rightarrow> u8 list \<Rightarrow> u8 list" where
  "tick_screen b scr = (if expires b
     then scr[unat (location b) := (if is_on b then off_char b else on_char b)] else scr)"

section \<open>Where the structures are\<close>

lemma slot_addr: "slot L i + of_nat k = blink_array L + of_nat (16 * i + k)"
  by (simp add: slot_def)

lemma array_addr_eq:
  assumes "j < 32000" "k < 32000" "blink_array L + of_nat j = blink_array L + of_nat k"
  shows "j = k"
proof -
  have "(of_nat j :: u32) = of_nat k" using assms(3) by simp
  then have "unat (of_nat j :: u32) = unat (of_nat k :: u32)" by simp
  with assms(1,2) show ?thesis by (simp add: unat_of_nat32)
qed

lemma slot_span: "i < 2000 \<Longrightarrow> span (slot L i) 16 \<subseteq> span (blink_array L) 32000"
proof
  fix x
  assume i: "i < 2000" and "x \<in> span (slot L i) 16"
  then obtain k where k: "k < 16" and x: "x = slot L i + of_nat k" by (blast elim: spanE)
  have "16 * i + k < 32000" using i k by simp
  then show "x \<in> span (blink_array L) 32000" unfolding x slot_addr by (intro in_span) simp_all
qed

lemma slot_disjoint:
  assumes "i < 2000" "j < 2000" "i \<noteq> j"
  shows "span (slot L i) 16 \<inter> span (slot L j) 16 = {}"
proof (rule equals0I)
  fix x
  assume "x \<in> span (slot L i) 16 \<inter> span (slot L j) 16"
  then obtain k l where kl: "k < 16" "l < 16" and "x = slot L i + of_nat k" "x = slot L j + of_nat l"
    by (blast elim: spanE)
  then have "blink_array L + of_nat (16 * i + k) = blink_array L + of_nat (16 * j + l)"
    unfolding slot_addr by simp
  moreover have "16 * i + k < 32000" "16 * j + l < 32000" using kl assms by simp_all
  ultimately have "16 * i + k = 16 * j + l" using array_addr_eq by blast
  then have "(16 * i + k) div 16 = (16 * j + l) div 16" by (rule arg_cong)
  with kl assms(3) show False by simp
qed

lemma slot_inj: "i < 2000 \<Longrightarrow> j < 2000 \<Longrightarrow> slot L i = slot L j \<longleftrightarrow> i = j"
  using slot_disjoint [of i j L] by (metis span_numeral(1) disjoint_iff zero_less_numeral)

lemma slot_nonzero: "layout L base \<Longrightarrow> i < 2000 \<Longrightarrow> slot L i \<noteq> 0"
  using subsetD [OF slot_span [of i L], of "slot L i"] by (auto simp: layout_def)

lemma node_agree:
  assumes ag: "agree W m m'" and dj: "span p 16 \<inter> W = {}"
  shows "node m' p = node m p" and "load32 m' (p + NEXT) = load32 m (p + NEXT)"
    and "load16 m' p = load16 m p"
proof -
  have sub: "span (p + of_nat k) n \<inter> W = {}" if "k + n \<le> 16" for k n
    using sub_span [OF that, of p] dj by auto
  have w: "load16 m' p = load16 m p" "load16 m' (p + 4) = load16 m (p + 4)" "load16 m' (p + 6) = load16 m (p + 6)"
    "load16 m' (p + 8) = load16 m (p + 8)" "load16 m' (p + 10) = load16 m (p + 10)"
    using agree_load16 [OF ag sub [of 0 2]] agree_load16 [OF ag sub [of 4 2]] agree_load16 [OF ag sub [of 6 2]]
      agree_load16 [OF ag sub [of 8 2]] agree_load16 [OF ag sub [of 10 2]] by simp_all
  have "p + 2 \<in> span p 16" "p + 3 \<in> span p 16" by simp_all
  with dj have "p + 2 \<notin> W" "p + 3 \<notin> W" by blast+
  then have b: "m' (p + 2) = m (p + 2)" "m' (p + 3) = m (p + 3)" by (simp_all add: agree_byte [OF ag])
  show "node m' p = node m p" using w b by (simp add: node_def)
  show "load32 m' (p + NEXT) = load32 m (p + NEXT)" using agree_load32 [OF ag sub [of 12 4]] by simp
  show "load16 m' p = load16 m p" by (rule w)
qed

lemma chain_agree:
  "agree W m m' \<Longrightarrow> \<forall>q\<in>set qs. span q 16 \<inter> W = {} \<Longrightarrow> chain m' p qs = chain m p qs"
  by (induction qs arbitrary: p) (simp_all add: node_agree)

section \<open>The screen\<close>

lemma vmem_agree: "agree W m m' \<Longrightarrow> span (vmem_base_addr L) 4 \<inter> W = {} \<Longrightarrow> vmem L m' = vmem L m"
  by (simp add: vmem_def agree_load32)

lemma screen_agree:
  assumes ag: "agree W m m'" and v: "vmem L m' = vmem L m" and dj: "span (vmem L m) 4000 \<inter> W = {}"
  shows "screen L m' = screen L m"
  unfolding screen_def v
proof (rule map_cong [OF refl])
  fix l
  assume "l \<in> set [0..<2000]"
  then have "vmem L m + of_nat (2 * l) \<in> span (vmem L m) 4000" by (intro in_span) simp_all
  with dj show "m' (vmem L m + of_nat (2 * l)) = m (vmem L m + of_nat (2 * l))"
    by (intro agree_byte [OF ag]) blast
qed

lemma length_screen [simp]: "length (screen L m) = 2000"
  by (simp add: screen_def)

lemma cell_addr: "l < 2000 \<Longrightarrow> vmem L m + of_nat (2 * l) \<in> span (vmem L m) 4000"
  by (intro in_span) simp_all

lemma shifted_location: "push_bit 1 (ucast (l :: u16)) = (of_nat (2 * unat l) :: u32)"
  by (rule word_unat_eq_iff [THEN iffD2])
    (use unsigned_less [of l] in \<open>simp add: push_bit_eq_mult unat_of_nat32 unat_word_ariths unsigned_ucast_eq mult.commute\<close>)

lemma screen_poke:
  assumes l: "l < 2000" and v: "vmem L (m(vmem L m + of_nat (2 * l) := c)) = vmem L m"
  shows "screen L (m(vmem L m + of_nat (2 * l) := c)) = (screen L m)[l := c]"
proof (rule nth_equalityI)
  fix j
  assume "j < length (screen L (m(vmem L m + of_nat (2 * l) := c)))"
  then have j: "j < 2000" by (simp add: screen_def)
  have "(vmem L m + of_nat (2 * j) = vmem L m + of_nat (2 * l)) \<longleftrightarrow> j = l"
  proof
    assume "vmem L m + of_nat (2 * j) = vmem L m + of_nat (2 * l)"
    then have "unat (of_nat (2 * j) :: u32) = unat (of_nat (2 * l) :: u32)" by simp
    moreover have "2 * j < 2 ^ 32" "2 * l < 2 ^ 32" using j l by simp_all
    ultimately show "j = l" by (simp only: unat_of_nat32)
  qed simp
  with j l show "screen L (m(vmem L m + of_nat (2 * l) := c)) ! j = (screen L m)[l := c] ! j"
    unfolding screen_def v by (auto simp: nth_list_update)
qed (simp add: screen_def)

section \<open>A tick\<close>

lemma span_video: "layout L base \<Longrightarrow> i < 2000 \<Longrightarrow> span (slot L i) 16 \<inter> span base 4000 = {}"
  using slot_span [of i L] by (auto simp: layout_def)

lemma span_vars:
  assumes "layout L base" "i < 2000"
  shows "span (vmem_base_addr L) 4 \<inter> (span (slot L i) 16 \<union> span base 4000) = {}"
    and "span (mp1_list_head L) 4 \<inter> (span (slot L i) 16 \<union> span base 4000) = {}"
  using assms slot_span [of i L] by (auto simp: layout_def)

text \<open>Writing to a structure keeps the screen, and writing to the screen keeps the structure.\<close>

lemma node_store:
  "node (store16 m (p + COUNTDOWN) v) p = (node m p)\<lparr>countdown := v\<rparr>"
  "node (store16 m (p + STATUS) v) p = (node m p)\<lparr>status := v\<rparr>"
  "load32 (store16 m (p + COUNTDOWN) v) (p + NEXT) = load32 m (p + NEXT)"
  "load32 (store16 m (p + STATUS) v) (p + NEXT) = load32 m (p + NEXT)"
  by (simp_all add: node_def load_store_other)

lemma node_fields:
  "location (node m p) = load16 m p" "on_char (node m p) = m (p + ON_CHAR)" "off_char (node m p) = m (p + OFF_CHAR)"
  "on_length (node m p) = load16 m (p + ON_LENGTH)" "off_length (node m p) = load16 m (p + OFF_LENGTH)"
  "countdown (node m p) = load16 m (p + COUNTDOWN)" "status (node m p) = load16 m (p + STATUS)"
  by (simp_all add: node_def)

text \<open>Storing in the structure \<open>i\<close>, seen from outside.\<close>

lemma slot_write:
  assumes lay: "layout L (vmem L m)" and i: "i < 2000" and ag: "agree (span (slot L i) 16) m m'"
  shows "vmem L m' = vmem L m" and "screen L m' = screen L m"
proof -
  show v: "vmem L m' = vmem L m" using span_vars(1) [OF lay i] by (intro vmem_agree [OF ag]) blast
  show "screen L m' = screen L m" using span_video [OF lay i] by (intro screen_agree [OF ag v]) blast
qed

text \<open>Showing a character, at the location of the structure \<open>i\<close>.\<close>

lemma poke_at:
  fixes c :: u8 and l :: u16
  assumes lay: "layout L (vmem L m)" and l: "l < 2000"
  defines "m' \<equiv> mp1_poke L c (push_bit 1 (ucast l)) m"
  shows "agree (span (vmem L m) 4000) m m'" and "vmem L m' = vmem L m" and "screen L m' = (screen L m)[unat l := c]"
proof -
  have l': "unat l < 2000" using l by (simp add: word_less_nat_alt)
  have m': "m' = m(vmem L m + of_nat (2 * unat l) := c)"
    unfolding m'_def mp1_poke_def shifted_location vmem_def ..
  show ag: "agree (span (vmem L m) 4000) m m'" unfolding m' using cell_addr [OF l'] by simp
  show v: "vmem L m' = vmem L m" using lay by (intro vmem_agree [OF ag]) (auto simp: layout_def)
  show "screen L m' = (screen L m)[unat l := c]"
    using screen_poke [OF l', of L m c] v unfolding m' by simp
qed

lemma poke_node:
  fixes l :: u16
  assumes lay: "layout L (vmem L m)" and l: "l < 2000" and i: "i < 2000"
  shows "node (mp1_poke L c (push_bit 1 (ucast l)) m) (slot L i) = node m (slot L i)"
    and "load32 (mp1_poke L c (push_bit 1 (ucast l)) m) (slot L i + NEXT) = load32 m (slot L i + NEXT)"
  using node_agree [OF poke_at(1) [OF lay l] span_video [OF lay i]] by simp_all

lemma tasklet_body_eq:
  "tasklet_body L p m =
     (let b = node m p;
          m1 = store16 m (p + COUNTDOWN) (countdown b - 1);
          m2 = mp1_poke L (if is_on b then off_char b else on_char b) (push_bit 1 (ucast (location b))) m1;
          b2 = node m2 p;
          m3 = store16 m2 (p + COUNTDOWN) (if is_on b then off_length b2 else on_length b2)
      in if expires b then store16 m3 (p + STATUS) (status (node m3 p) XOR 1) else m1)"
  unfolding tasklet_body_def Let_def
  by (cases "expires (node m p)"; cases "is_on (node m p)")
    (simp_all add: node_fields is_on_def expires_def load_store_other del: push_bit_Suc)

lemma tasklet_body_tick:
  assumes lay: "layout L (vmem L m)" and i: "i < 2000" and l: "load16 m (slot L i) < 2000"
  defines "p \<equiv> slot L i" and "m' \<equiv> tasklet_body L (slot L i) m"
  shows "node m' p = tick (node m p)" and "load32 m' (p + NEXT) = load32 m (p + NEXT)"
    and "agree (span p 16 \<union> span (vmem L m) 4000) m m'" and "screen L m' = tick_screen (node m p) (screen L m)"
proof -
  let ?b = "node m p"
  define m1 where "m1 = store16 m (p + COUNTDOWN) (countdown ?b - 1)"
  define m2 where "m2 = mp1_poke L (if is_on ?b then off_char ?b else on_char ?b) (push_bit 1 (ucast (location ?b))) m1"
  define m3 where "m3 = store16 m2 (p + COUNTDOWN) (if is_on ?b then off_length ?b else on_length ?b)"
  define m4 where "m4 = store16 m3 (p + STATUS) (status ?b XOR 1)"
  let ?W = "span p 16 \<union> span (vmem L m) 4000"
  have p: "p = slot L i" and lb: "location ?b < 2000" using l by (simp_all add: p_def node_fields)
  have b1: "node m1 p = ?b\<lparr>countdown := countdown ?b - 1\<rparr>" "load32 m1 (p + NEXT) = load32 m (p + NEXT)"
    by (simp_all add: m1_def node_store)
  have ag1: "agree (span p 16) m m1" by (simp add: m1_def add.assoc)
  note s1 = slot_write [OF lay i ag1 [unfolded p]]
  have lay1: "layout L (vmem L m1)" by (simp add: s1 lay)
  have b2: "node m2 p = node m1 p" "load32 m2 (p + NEXT) = load32 m1 (p + NEXT)"
    unfolding m2_def p by (rule poke_node [OF lay1 _ i], use lb p in simp)+
  have s2: "agree (span (vmem L m) 4000) m1 m2" "vmem L m2 = vmem L m"
    "screen L m2 = (screen L m)[unat (location ?b) := (if is_on ?b then off_char ?b else on_char ?b)]"
    using poke_at [OF lay1 lb, of "if is_on ?b then off_char ?b else on_char ?b"] unfolding m2_def [symmetric]
    by (simp_all only: s1)
  have ag3: "agree (span p 16) m2 m4" by (simp add: m3_def m4_def add.assoc)
  have lay2: "layout L (vmem L m2)" by (simp add: s2 lay)
  note s4 = slot_write [OF lay2 i ag3 [unfolded p]]
  have m': "m' = (if expires ?b then m4 else m1)"
    unfolding m'_def p [symmetric] tasklet_body_eq Let_def m1_def [symmetric] m2_def [symmetric]
    by (simp add: m3_def m4_def node_store b2 b1)
  show "node m' p = tick ?b" by (simp add: m' tick_def m4_def m3_def node_store b2 b1)
  show "load32 m' (p + NEXT) = load32 m (p + NEXT)" by (simp add: m' m4_def m3_def node_store b2 b1)
  have "agree ?W m m4"
    using ag1 s2(1) ag3 by (intro agree_trans [of _ m m1 m4] agree_trans [of _ m1 m2 m4]; blast intro: agree_mono)
  then show "agree ?W m m'" using ag1 by (auto simp: m' intro: agree_mono)
  show "screen L m' = tick_screen ?b (screen L m)" by (simp add: m' tick_screen_def s1 s4 s2)
qed

lemma tick_location [simp]: "location (tick b) = location b"
  by (simp add: tick_def)

lemma slots_disjoint:
  assumes "i < 2000" "i \<notin> set is" "set is \<subseteq> {..<2000}"
  shows "span (slot L i) 16 \<inter> (\<Union>j\<in>set is. span (slot L j) 16) = {}"
  using slot_disjoint [of i _ L] assms by fastforce

lemma tasklet_loop_ticks:
  assumes "layout L (vmem L m)" "distinct is" "set is \<subseteq> {..<2000}" "\<forall>i\<in>set is. load16 m (slot L i) < 2000"
    "chain m p (map (slot L) is)"
  shows "\<exists>m'. tasklet_loop L p m = Some m' \<and> chain m' p (map (slot L) is)
    \<and> blinks L m' is = map tick (blinks L m is)
    \<and> agree ((\<Union>i\<in>set is. span (slot L i) 16) \<union> span (vmem L m) 4000) m m'
    \<and> screen L m' = fold tick_screen (blinks L m is) (screen L m)"
  using assms
proof (induction "is" arbitrary: m p)
  case Nil
  then show ?case by (simp add: tasklet_loop.simps blinks_def)
next
  case (Cons i "is")
  let ?p = "slot L i"
  define m1 where "m1 = tasklet_body L ?p m"
  have i: "i < 2000" "i \<notin> set is" "set is \<subseteq> {..<2000}" and p: "p = ?p" "?p \<noteq> 0" and li: "load16 m ?p < 2000"
    using Cons.prems by auto
  note body = tasklet_body_tick [OF Cons.prems(1) i(1) li, folded m1_def]
  let ?W = "span ?p 16 \<union> span (vmem L m) 4000"
  let ?V = "(\<Union>i\<in>set is. span (slot L i) 16) \<union> span (vmem L m) 4000"
  have dj: "span (slot L j) 16 \<inter> ?W = {}" if "j \<in> set is" for j
    using slot_disjoint [of j i L] span_video [OF Cons.prems(1), of j] that i by blast
  have v1: "vmem L m1 = vmem L m" by (rule vmem_agree [OF body(3) span_vars(1) [OF Cons.prems(1) i(1)]])
  have n1: "node m1 (slot L j) = node m (slot L j)" "load16 m1 (slot L j) = load16 m (slot L j)" if "j \<in> set is" for j
    using node_agree [OF body(3) dj [OF that]] by simp_all
  then have bs1: "blinks L m1 is = blinks L m is" by (simp add: blinks_def)
  have "chain m1 (load32 m1 (?p + NEXT)) (map (slot L) is)"
    using Cons.prems(5) chain_agree [OF body(3), of "map (slot L) is"] dj by (simp add: body(2))
  then obtain m' where m': "tasklet_loop L (load32 m1 (?p + NEXT)) m1 = Some m'"
      "chain m' (load32 m1 (?p + NEXT)) (map (slot L) is)" "blinks L m' is = map tick (blinks L m is)"
      "agree ?V m1 m'" "screen L m' = fold tick_screen (blinks L m is) (screen L m1)"
    using Cons.IH [of m1 "load32 m1 (?p + NEXT)"] Cons.prems(1-4) by (auto simp: v1 bs1 n1)
  have djV: "span ?p 16 \<inter> ?V = {}"
    using slots_disjoint [OF i(1,2,3), of L] span_video [OF Cons.prems(1) i(1)] by blast
  have n': "node m' ?p = tick (node m ?p)" "load32 m' (?p + NEXT) = load32 m1 (?p + NEXT)"
    using node_agree [OF m'(4) djV] body(1) by simp_all
  have "agree (?W \<union> ?V) m m'"
    using body(3) m'(4) by (intro agree_trans [of _ m m1 m']) (auto intro: agree_mono)
  moreover have "?W \<union> ?V = (\<Union>i\<in>set (i # is). span (slot L i) 16) \<union> span (vmem L m) 4000" by auto
  moreover have "tasklet_loop L p m = Some m'"
    using m'(1) p by (subst tasklet_loop.simps) (simp add: m1_def Let_def)
  ultimately show ?case
    using m' n' p by (intro exI [of _ m']) (simp add: blinks_def body(4))
qed

text \<open>A write to structures of the list and to the screen that keeps the locations and the links keeps the invariant.\<close>

lemma blink_inv_keep:
  assumes inv: "blink_inv L m is" and ag: "agree ((\<Union>i\<in>set is. span (slot L i) 16) \<union> span (vmem L m) 4000) m m'"
    and ch: "chain m' (load32 m (mp1_list_head L)) (map (slot L) is)"
    and loc: "\<forall>i\<in>set is. load16 m' (slot L i) = load16 m (slot L i)"
  shows "blink_inv L m' is"
proof -
  let ?W = "(\<Union>i\<in>set is. span (slot L i) 16) \<union> span (vmem L m) 4000"
  have lay: "layout L (vmem L m)" and lt: "set is \<subseteq> {..<2000}" using inv by (auto simp: blink_inv_def)
  have vars: "span (vmem_base_addr L) 4 \<inter> ?W = {}" "span (mp1_list_head L) 4 \<inter> ?W = {}"
    using span_vars [OF lay subsetD [OF lt, simplified]] lay by (auto simp: layout_def)
  have v: "vmem L m' = vmem L m" by (rule vmem_agree [OF ag vars(1)])
  have h: "load32 m' (mp1_list_head L) = load32 m (mp1_list_head L)" by (rule agree_load32 [OF ag vars(2)])
  have "load16 m' (slot L i) = load16 m (slot L i)" if "i < 2000" for i
  proof (cases "i \<in> set is")
    case True
    with loc show ?thesis by blast
  next
    case False
    have "span (slot L i) 16 \<inter> ?W = {}"
      using slots_disjoint [OF that False lt, of L] span_video [OF lay that] by blast
    then show ?thesis by (rule node_agree(3) [OF ag])
  qed
  then have "{i. i < 2000 \<and> load16 m' (slot L i) \<noteq> 0} = {i. i < 2000 \<and> load16 m (slot L i) \<noteq> 0}" by auto
  with inv ch loc show ?thesis by (simp add: blink_inv_def v h)
qed

lemma rtc_tasklet_ticks:
  assumes inv: "blink_inv L m is"
  shows "\<exists>m'. mp1_rtc_tasklet L m = Some m' \<and> blink_inv L m' is \<and> blinks L m' is = map tick (blinks L m is)
    \<and> screen L m' = fold tick_screen (blinks L m is) (screen L m)"
proof -
  obtain m' where m': "tasklet_loop L (load32 m (mp1_list_head L)) m = Some m'"
    "chain m' (load32 m (mp1_list_head L)) (map (slot L) is)" "blinks L m' is = map tick (blinks L m is)"
    "agree ((\<Union>i\<in>set is. span (slot L i) 16) \<union> span (vmem L m) 4000) m m'"
    "screen L m' = fold tick_screen (blinks L m is) (screen L m)"
    using inv tasklet_loop_ticks [of L m "is" "load32 m (mp1_list_head L)"] by (auto simp: blink_inv_def)
  have "load16 m' (slot L i) = load16 m (slot L i)" if "i \<in> set is" for i
  proof -
    have "node m' (slot L i) = tick (node m (slot L i))" using m'(3) that by (simp add: blinks_def)
    then have "location (node m' (slot L i)) = location (node m (slot L i))" by simp
    then show ?thesis by (simp add: node_fields)
  qed
  then have "blink_inv L m' is" using m'(2) by (intro blink_inv_keep [OF inv m'(4)]) simp_all
  with m' show ?thesis by (simp add: mp1_rtc_tasklet_def)
qed

section \<open>Finding\<close>

lemma find_loop_finds:
  "chain m p (map (slot L) is) \<Longrightarrow> find_loop ax p m =
     Some (case find (\<lambda>i. load16 m (slot L i) = ax) is of None \<Rightarrow> 0 | Some i \<Rightarrow> slot L i)"
  by (induction "is" arbitrary: p) (simp_all add: find_loop.simps)

lemma find_helper_finds:
  "blink_inv L m is \<Longrightarrow> mp1_find_helper L arg m =
     Some (case find (\<lambda>i. load16 m (slot L i) = ucast arg) is of None \<Rightarrow> 0 | Some i \<Rightarrow> slot L i)"
  by (simp add: mp1_find_helper_def find_loop_finds blink_inv_def)

end
