(* ===== verification/Blinklist.thy ===== *)
theory Blinklist
  imports Blink
begin

text \<open>
  The blink list of \<^verbatim>\<open>fish\<close> under all its commands: what adding, removing, synchronising and looking up do to the
  records the memory stands for, that every run of the program keeps the list well formed so that
  its loops end, and the one input, location 0, with which they do not.
\<close>

section \<open>Copying and clearing\<close>

lemma memset_from_fill:
  "ece391_memset_from m p c i n = fill_fwd (nat (n - i)) c m (p + word_of_int i)"
proof (induction m p c i n rule: ece391_memset_from.induct)
  case (1 m p c i n)
  show ?case
  proof (cases "i < n")
    case True
    then have "nat (n - i) = Suc (nat (n - (i + 1)))" by simp
    with True "1" show ?thesis by (simp add: ece391_memset_from.simps [of m] fun_upd_def ac_simps)
  next
    case False
    then show ?thesis by (simp add: ece391_memset_from.simps)
  qed
qed

lemma memcpy_from_copy:
  "ece391_memcpy_from m d s i n = copy_fwd (nat (n - i)) m (d + word_of_int i) (s + word_of_int i)"
proof (induction m d s i n rule: ece391_memcpy_from.induct)
  case (1 m d s i n)
  show ?case
  proof (cases "i < n")
    case True
    then have "nat (n - i) = Suc (nat (n - (i + 1)))" by simp
    with True "1" show ?thesis by (simp add: ece391_memcpy_from.simps [of m] fun_upd_def ac_simps)
  next
    case False
    then show ?thesis by (simp add: ece391_memcpy_from.simps)
  qed
qed

lemma mp1_free_clears:
  "agree (span p 16) m (mp1_free p m)" "load16 (mp1_free p m) p = 0"
proof -
  have eq: "mp1_free p m = blit m p 16 (\<lambda>_. 0)"
    by (simp add: mp1_free_def ece391_memset_def memset_from_fill fill_fwd_blit)
  show "agree (span p 16) m (mp1_free p m)" unfolding eq by (rule agree_blit)
  show "load16 (mp1_free p m) p = 0" unfolding eq load16_def by (simp add: blit_def)
qed

lemma memcpy_copies:
  assumes "span d n \<inter> span s n = {}" "0 < n" "n \<le> 2 ^ 31"
  shows "ece391_memcpy m d s (int n) = (0, blit m d n (\<lambda>i. m (s + of_nat i)))"
proof -
  have "d \<in> span d n" using assms(2) by simp
  with assms(1) have "d \<notin> span s n" by blast
  then have "n \<le> unat (d - s)" by (simp add: span_def)
  with assms(3) show ?thesis
    by (simp add: ece391_memcpy_def memcpy_from_copy copy_fwd_blit)
qed

text \<open>A copied structure has the fields of the original.\<close>

lemma node_copy:
  assumes "span d 16 \<inter> span s 16 = {}"
  shows "fst (ece391_memcpy m d s 16) = 0" and "agree (span d 16) m (snd (ece391_memcpy m d s 16))"
    and "node (snd (ece391_memcpy m d s 16)) d = node m s"
proof -
  have eq: "ece391_memcpy m d s 16 = (0, blit m d 16 (\<lambda>i. m (s + of_nat i)))"
    using memcpy_copies [OF assms, of m] by simp
  show "fst (ece391_memcpy m d s 16) = 0" "agree (span d 16) m (snd (ece391_memcpy m d s 16))"
    by (simp_all add: eq agree_blit)
  have "blit m d 16 (\<lambda>i. m (s + of_nat i)) (d + of_nat k) = m (s + of_nat k)" if "k < 16" for k
    using that by (intro blit_in) simp_all
  from this [of 0] this [of 1] this [of 2] this [of 3] this [of 4] this [of 5] this [of 6] this [of 7] this [of 8]
    this [of 9] this [of 10] this [of 11]
  show "node (snd (ece391_memcpy m d s 16)) d = node m s"
    by (simp add: eq node_def load16_def add.assoc)
qed

section \<open>Removing\<close>

text \<open>The list after the removal of the first record at a location.\<close>

primrec remove_location :: "u16 \<Rightarrow> blink list \<Rightarrow> blink list" where
  "remove_location l [] = []"
| "remove_location l (b # bs) = (if location b = l then bs else b # remove_location l bs)"

text \<open>The search for the link to the structure \<open>q\<close> stops at the list head or at the field \<open>next\<close> of its predecessor.\<close>

lemma find_prev_stops:
  "chain m (load32 m e) (ps @ q # qs) \<Longrightarrow> q \<notin> set ps \<Longrightarrow>
     remove_find_prev q e m = Some (if ps = [] then e else last ps + NEXT)"
proof (induction ps arbitrary: e)
  case Nil
  then show ?case by (simp add: remove_find_prev.simps)
next
  case (Cons p ps)
  then have "remove_find_prev q e m = remove_find_prev q (p + NEXT) m"
    by (subst remove_find_prev.simps) auto
  with Cons show ?case by simp
qed

lemma chain_unlink:
  assumes "chain m p (ps @ k # q # qs)" "\<forall>r\<in>set (ps @ q # qs). span r 16 \<inter> span k 16 = {}"
  shows "chain (store32 m (k + NEXT) (load32 m (q + NEXT))) p (ps @ k # qs)"
  using assms
proof (induction ps arbitrary: p)
  case Nil
  have "agree (span k 16) m (store32 m (k + NEXT) (load32 m (q + NEXT)))" by (simp add: add.assoc)
  then show ?case using Nil chain_agree by (simp add: load32_store32)
next
  case (Cons r ps)
  have ag: "agree (span k 16) m (store32 m (k + NEXT) (load32 m (q + NEXT)))" by (simp add: add.assoc)
  have "load32 (store32 m (k + NEXT) (load32 m (q + NEXT))) (r + NEXT) = load32 m (r + NEXT)"
    using Cons.prems by (intro node_agree(2) [OF ag]) simp
  with Cons show ?case by simp
qed

lemma find_split:
  "find P xs = Some x \<Longrightarrow> \<exists>ys zs. xs = ys @ x # zs \<and> P x \<and> (\<forall>y\<in>set ys. \<not> P y)"
proof (induction xs)
  case (Cons a xs)
  show ?case
  proof (cases "P a")
    case True
    with Cons.prems show ?thesis by (intro exI [of _ "[]"] exI [of _ xs]) auto
  next
    case False
    with Cons obtain ys zs where "xs = ys @ x # zs" "P x" "\<forall>y\<in>set ys. \<not> P y" by auto
    with False show ?thesis by (intro exI [of _ "a # ys"] exI [of _ zs]) simp
  qed
qed simp

text \<open>Writing a link changes neither the records nor the screen.\<close>

lemma link_write:
  fixes v :: u32
  assumes lay: "layout L (vmem L m)" and e: "e = mp1_list_head L \<or> (\<exists>k<2000. e = slot L k + NEXT)"
  defines "m' \<equiv> store32 m e v"
  shows "i < 2000 \<Longrightarrow> node m' (slot L i) = node m (slot L i)" and "vmem L m' = vmem L m" and "screen L m' = screen L m"
    and "e \<noteq> mp1_list_head L \<Longrightarrow> load32 m' (mp1_list_head L) = load32 m (mp1_list_head L)"
proof -
  have node: "node (store32 m (p + NEXT) v) p = node m p" for p
    by (simp add: node_def load_store_other)
  consider (head) "e = mp1_list_head L" | (link) k where "k < 2000" "e = slot L k + NEXT" using e by blast
  then have "(i < 2000 \<longrightarrow> node m' (slot L i) = node m (slot L i)) \<and> vmem L m' = vmem L m \<and> screen L m' = screen L m
      \<and> (e \<noteq> mp1_list_head L \<longrightarrow> load32 m' (mp1_list_head L) = load32 m (mp1_list_head L))"
  proof cases
    case head
    have ag: "agree (span e 4) m m'" by (simp add: m'_def)
    have v: "vmem L m' = vmem L m" using lay head by (intro vmem_agree [OF ag]) (auto simp: layout_def)
    moreover have "screen L m' = screen L m" using lay head by (intro screen_agree [OF ag v]) (auto simp: layout_def)
    moreover have "node m' (slot L i) = node m (slot L i)" if "i < 2000"
      using lay head slot_span [OF that, of L] by (intro node_agree(1) [OF ag]) (auto simp: layout_def)
    ultimately show ?thesis using head by simp
  next
    case link
    have ag: "agree (span (slot L k) 16) m m'" by (simp add: m'_def link add.assoc)
    have "node m' (slot L i) = node m (slot L i)" if "i < 2000"
    proof (cases "i = k")
      case True
      then show ?thesis by (simp add: m'_def link node)
    next
      case False
      then show ?thesis by (intro node_agree(1) [OF ag] slot_disjoint that link)
    qed
    moreover have "load32 m' (mp1_list_head L) = load32 m (mp1_list_head L)"
      using span_vars(2) [OF lay link(1)] by (intro agree_load32 [OF ag]) blast
    ultimately show ?thesis using slot_write [OF lay link(1) ag] by simp
  qed
  then show "i < 2000 \<Longrightarrow> node m' (slot L i) = node m (slot L i)" "vmem L m' = vmem L m" "screen L m' = screen L m"
    "e \<noteq> mp1_list_head L \<Longrightarrow> load32 m' (mp1_list_head L) = load32 m (mp1_list_head L)" by simp_all
qed

lemma remove_location_split:
  "\<forall>b\<in>set as. location b \<noteq> l \<Longrightarrow> location b = l \<Longrightarrow> remove_location l (as @ b # bs) = as @ bs"
  by (induction as) auto

lemma remove_location_none: "\<forall>b\<in>set bs. location b \<noteq> l \<Longrightarrow> remove_location l bs = bs"
  by (induction bs) auto

lemma unlink_chain:
  assumes inv: "blink_inv L m (xs @ j # ys)"
  defines "e \<equiv> (if xs = [] then mp1_list_head L else slot L (last xs) + NEXT)"
  defines "m1 \<equiv> store32 m e (load32 m (slot L j + NEXT))"
  shows "chain m1 (load32 m1 (mp1_list_head L)) (map (slot L) (xs @ ys))"
    and "e = mp1_list_head L \<or> (\<exists>k<2000. e = slot L k + NEXT)"
proof -
  have lay: "layout L (vmem L m)" and ds: "distinct (xs @ j # ys)" and lt: "set (xs @ j # ys) \<subseteq> {..<2000}"
    and ch: "chain m (load32 m (mp1_list_head L)) (map (slot L) xs @ slot L j # map (slot L) ys)"
    using inv by (auto simp: blink_inv_def)
  show e: "e = mp1_list_head L \<or> (\<exists>k<2000. e = slot L k + NEXT)"
    using lt by (auto simp: e_def dest: last_in_set)
  show "chain m1 (load32 m1 (mp1_list_head L)) (map (slot L) (xs @ ys))"
  proof (cases xs rule: rev_cases)
    case Nil
    have ag: "agree (span (mp1_list_head L) 4) m m1" by (simp add: m1_def e_def Nil)
    have "span (slot L i) 16 \<inter> span (mp1_list_head L) 4 = {}" if "i \<in> set ys" for i
      using span_vars(2) [OF lay, of i] lt that by auto
    then have "chain m1 p (map (slot L) ys) = chain m p (map (slot L) ys)" for p
      by (intro chain_agree [OF ag]) auto
    with ch show ?thesis by (simp add: Nil m1_def e_def load32_store32)
  next
    case (snoc zs k)
    have k: "k < 2000" "e = slot L k + NEXT" using lt by (simp_all add: snoc e_def)
    have dj: "span (slot L i) 16 \<inter> span (slot L k) 16 = {}" if "i \<in> set (zs @ j # ys)" for i
      using that ds lt by (intro slot_disjoint) (auto simp: snoc)
    have ag: "agree (span (slot L k) 16) m m1" by (simp add: m1_def k add.assoc)
    have "load32 m1 (mp1_list_head L) = load32 m (mp1_list_head L)"
      using span_vars(2) [OF lay k(1)] by (intro agree_load32 [OF ag]) blast
    moreover have "chain m1 (load32 m (mp1_list_head L)) (map (slot L) zs @ slot L k # map (slot L) ys)"
      unfolding m1_def k(2) using ch dj by (intro chain_unlink) (auto simp: snoc)
    ultimately show ?thesis by (simp add: snoc)
  qed
qed

lemma node_location: "node m p = node m' p' \<Longrightarrow> load16 m p = load16 m' p'"
  by (simp add: node_def)

lemma free_write:
  assumes lay: "layout L (vmem L m)" and j: "j < 2000"
  defines "m' \<equiv> mp1_free (slot L j) m"
  shows "i < 2000 \<Longrightarrow> i \<noteq> j \<Longrightarrow> node m' (slot L i) = node m (slot L i)" and "load16 m' (slot L j) = 0"
    and "vmem L m' = vmem L m" and "screen L m' = screen L m"
    and "load32 m' (mp1_list_head L) = load32 m (mp1_list_head L)"
    and "set is \<subseteq> {..<2000} \<Longrightarrow> j \<notin> set is \<Longrightarrow> chain m' p (map (slot L) is) = chain m p (map (slot L) is)"
proof -
  have ag: "agree (span (slot L j) 16) m m'" unfolding m'_def by (rule mp1_free_clears)
  show "node m' (slot L i) = node m (slot L i)" if "i < 2000" "i \<noteq> j"
    using that j by (intro node_agree(1) [OF ag] slot_disjoint)
  show "load16 m' (slot L j) = 0" unfolding m'_def by (rule mp1_free_clears)
  show "vmem L m' = vmem L m" "screen L m' = screen L m" by (rule slot_write [OF lay j ag])+
  show "load32 m' (mp1_list_head L) = load32 m (mp1_list_head L)"
    using span_vars(2) [OF lay j] by (intro agree_load32 [OF ag]) blast
  have "span (slot L i) 16 \<inter> span (slot L j) 16 = {}" if "set is \<subseteq> {..<2000}" "j \<notin> set is" "i \<in> set is" for i
    using that j by (intro slot_disjoint) auto
  then show "chain m' p (map (slot L) is) = chain m p (map (slot L) is)" if "set is \<subseteq> {..<2000}" "j \<notin> set is"
    using that by (intro chain_agree [OF ag]) auto
qed

lemma remove_unlinks:
  assumes inv: "blink_inv L m (xs @ j # ys)"
  defines "e \<equiv> (if xs = [] then mp1_list_head L else slot L (last xs) + NEXT)"
  defines "m' \<equiv> mp1_free (slot L j) (store32 m e (load32 m (slot L j + NEXT)))"
  shows "blink_inv L m' (xs @ ys)" and "blinks L m' (xs @ ys) = blinks L m (xs @ ys)" and "screen L m' = screen L m"
proof -
  define m1 where "m1 = store32 m e (load32 m (slot L j + NEXT))"
  have lay: "layout L (vmem L m)" and ds: "distinct (xs @ j # ys)" and lt: "set (xs @ j # ys) \<subseteq> {..<2000}"
    and used: "set (xs @ j # ys) = {i. i < 2000 \<and> load16 m (slot L i) \<noteq> 0}"
    and small: "\<forall>i\<in>set (xs @ j # ys). load16 m (slot L i) < 2000"
    using inv by (auto simp: blink_inv_def)
  note ch = unlink_chain [OF inv, folded e_def, folded m1_def]
  note w1 = link_write [OF lay ch(2), where v = "load32 m (slot L j + NEXT)", folded m1_def]
  have lay1: "layout L (vmem L m1)" and j: "j < 2000" using w1(2) lay lt by simp_all
  note w2 = free_write [OF lay1 j]
  have m': "m' = mp1_free (slot L j) m1" by (simp add: m'_def m1_def)
  have n: "node m' (slot L i) = node m (slot L i)" if "i < 2000" "i \<noteq> j" for i
    using w2(1) [OF that] w1(1) [OF that(1)] by (simp add: m')
  note l = n [THEN node_location]
  have at: "(i < 2000 \<and> load16 m' (slot L i) \<noteq> 0) = (i < 2000 \<and> load16 m (slot L i) \<noteq> 0 \<and> i \<noteq> j)" for i
    by (cases "i = j") (use l w2(2) in \<open>auto simp: m'\<close>)
  have "set (xs @ ys) = {i. i < 2000 \<and> load16 m (slot L i) \<noteq> 0} - {j}" using ds by (auto simp flip: used)
  also have "\<dots> = {i. i < 2000 \<and> load16 m' (slot L i) \<noteq> 0}" by (auto simp: at)
  finally have used': "set (xs @ ys) = {i. i < 2000 \<and> load16 m' (slot L i) \<noteq> 0}" .
  have ne: "i < 2000 \<and> i \<noteq> j" if "i \<in> set (xs @ ys)" for i using that lt ds by auto
  have "chain m' (load32 m' (mp1_list_head L)) (map (slot L) (xs @ ys))"
    using ch(1) w2(5) w2(6) [of "xs @ ys"] lt ds by (simp add: m')
  moreover have "\<forall>i\<in>set (xs @ ys). load16 m' (slot L i) < 2000" using ne l small by simp
  moreover have "layout L (vmem L m')" using w2(3) lay1 by (simp add: m')
  ultimately show "blink_inv L m' (xs @ ys)" using ds used' unfolding blink_inv_def by simp
  show "blinks L m' (xs @ ys) = blinks L m (xs @ ys)" unfolding blinks_def using ne n by (intro map_cong) simp_all
  show "screen L m' = screen L m" using w2(4) w1(3) by (simp add: m')
qed

lemma ioctl_remove_removes:
  assumes inv: "blink_inv L m is"
  shows "\<exists>r m' js. mp1_ioctl_remove L arg m = Some (r, m') \<and> blink_inv L m' js
    \<and> blinks L m' js = remove_location (ucast arg) (blinks L m is) \<and> screen L m' = screen L m
    \<and> r = (if \<exists>b\<in>set (blinks L m is). location b = ucast arg then 0 else - 1)"
proof (cases "find (\<lambda>i. load16 m (slot L i) = ucast arg) is")
  case None
  then have "\<forall>b\<in>set (blinks L m is). location b \<noteq> ucast arg" by (auto simp: find_None_iff blinks_def node_fields)
  with inv None show ?thesis
    by (intro exI [of _ "- 1"] exI [of _ m] exI [of _ "is"])
      (simp add: mp1_ioctl_remove_def find_helper_finds remove_location_none)
next
  case (Some j)
  then obtain xs ys where eq: "is = xs @ j # ys" and j: "load16 m (slot L j) = ucast arg"
    and ne: "\<forall>i\<in>set xs. load16 m (slot L i) \<noteq> ucast arg" by (auto dest: find_split)
  have lay: "layout L (vmem L m)" and ds: "distinct (xs @ j # ys)" and lt: "set (xs @ j # ys) \<subseteq> {..<2000}"
    and ch: "chain m (load32 m (mp1_list_head L)) (map (slot L) xs @ slot L j # map (slot L) ys)"
    using inv by (auto simp: blink_inv_def eq)
  define e where "e = (if xs = [] then mp1_list_head L else slot L (last xs) + NEXT)"
  have "slot L j \<noteq> slot L i" if "i \<in> set xs" for i using that lt ds by (subst slot_inj) auto
  then have "slot L j \<notin> set (map (slot L) xs)" by auto
  then have "remove_find_prev (slot L j) (mp1_list_head L) m = Some e"
    using find_prev_stops [OF ch] by (simp add: e_def last_map)
  moreover have "slot L j \<noteq> 0" using lt by (intro slot_nonzero [OF lay]) simp
  ultimately have "mp1_ioctl_remove L arg m = Some (0, mp1_free (slot L j) (store32 m e (load32 m (slot L j + NEXT))))"
    using Some inv by (simp add: mp1_ioctl_remove_def find_helper_finds Let_def)
  moreover have "remove_location (ucast arg) (blinks L m is) = blinks L m (xs @ ys)"
    using ne j by (simp add: eq blinks_def remove_location_split node_fields)
  moreover have "\<exists>b\<in>set (blinks L m is). location b = ucast arg" using j by (auto simp: eq blinks_def node_fields)
  ultimately show ?thesis using remove_unlinks [OF inv [unfolded eq]] by (auto simp: e_def)
qed

section \<open>Adding\<close>

text \<open>A buffer that overlaps nothing of the list, its variables and the screen.\<close>

definition apart :: "blink_symbols \<Rightarrow> u32 \<Rightarrow> u32 \<Rightarrow> nat \<Rightarrow> bool" where
  "apart L base a n \<longleftrightarrow> span a n \<inter> span (vmem_base_addr L) 4 = {} \<and> span a n \<inter> span (mp1_list_head L) 4 = {}
     \<and> span a n \<inter> span (blink_array L) 32000 = {} \<and> span a n \<inter> span base 4000 = {}"

lemma apart_write:
  assumes inv: "blink_inv L m is" and ap: "apart L (vmem L m) a n" and ag: "agree (span a n) m m'"
  shows "blink_inv L m' is" and "blinks L m' is = blinks L m is" and "screen L m' = screen L m" and "vmem L m' = vmem L m"
proof -
  show v: "vmem L m' = vmem L m" using ap by (intro vmem_agree [OF ag]) (auto simp: apart_def)
  show "screen L m' = screen L m" using ap by (intro screen_agree [OF ag v]) (auto simp: apart_def)
  have dj: "span (slot L i) 16 \<inter> span a n = {}" if "i < 2000" for i
    using ap slot_span [OF that, of L] by (auto simp: apart_def)
  note n = node_agree [OF ag dj]
  have lt: "set is \<subseteq> {..<2000}" using inv by (auto simp: blink_inv_def)
  have h: "load32 m' (mp1_list_head L) = load32 m (mp1_list_head L)"
    using ap by (intro agree_load32 [OF ag]) (auto simp: apart_def)
  have "chain m' p (map (slot L) is) = chain m p (map (slot L) is)" for p
    using lt dj by (intro chain_agree [OF ag]) auto
  moreover have "{i. i < 2000 \<and> load16 m' (slot L i) \<noteq> 0} = {i. i < 2000 \<and> load16 m (slot L i) \<noteq> 0}"
    using n(3) by auto
  moreover have "\<forall>i\<in>set is. load16 m' (slot L i) = load16 m (slot L i)" using lt n(3) by auto
  ultimately show "blink_inv L m' is" using inv by (simp add: blink_inv_def v h)
  show "blinks L m' is = blinks L m is" unfolding blinks_def using lt n(1) by (intro map_cong) auto
qed

lemma malloc_from_finds:
  "k \<le> 2000 \<Longrightarrow> mp1_malloc_from L (int (2000 - k)) m =
     (case find (\<lambda>i. load16 m (slot L i) = 0) [2000 - k..<2000] of None \<Rightarrow> 0 | Some i \<Rightarrow> slot L i)"
proof (induction k)
  case 0
  show ?case by (simp add: mp1_malloc_from.simps)
next
  case (Suc k)
  let ?i = "2000 - Suc k"
  have up: "[?i..<2000] = ?i # [2000 - k..<2000]" 
    using Suc.prems upt_conv_Cons [of ?i 2000] Suc_diff_le [of "Suc k" 2000] by simp
  have i: "int ?i < 80 * 25" and next_i: "int ?i + 1 = int (2000 - k)" using Suc.prems by simp_all
  have adr: "blink_array L + 16 * word_of_int (int ?i) = slot L ?i" by (simp add: slot_def)
  have "mp1_malloc_from L (int ?i) m
      = (if load16 m (slot L ?i) = 0 then slot L ?i else mp1_malloc_from L (int (2000 - k)) m)"
    unfolding mp1_malloc_from.simps [of L "int ?i"] adr next_i using i by (simp only: if_True)
  moreover have "k \<le> 2000" using Suc.prems by simp
  ultimately show ?case unfolding up by (simp only: Suc.IH find.simps split: if_split) simp
qed

lemma malloc_finds:
  assumes inv: "blink_inv L m is"
  shows "if length is < 2000 then \<exists>i<2000. i \<notin> set is \<and> load16 m (slot L i) = 0 \<and> mp1_malloc L n m = slot L i
    else mp1_malloc L n m = 0"
proof -
  have used: "set is = {i. i < 2000 \<and> load16 m (slot L i) \<noteq> 0}" and ds: "distinct is" using inv by (auto simp: blink_inv_def)
  have eq: "mp1_malloc L n m = (case find (\<lambda>i. load16 m (slot L i) = 0) [0..<2000] of None \<Rightarrow> 0 | Some i \<Rightarrow> slot L i)"
    using malloc_from_finds [of 2000 L m] by (simp add: mp1_malloc_def del: upt.simps)
  have len: "length is = card (set is)" using ds by (simp add: distinct_card)
  show ?thesis
  proof (cases "find (\<lambda>i. load16 m (slot L i) = 0) [0..<2000]")
    case None
    then have "set is = {..<2000}" unfolding used by (auto simp: find_None_iff simp del: upt.simps)
    then have "length is = 2000" by (simp add: len)
    with None show ?thesis by (simp add: eq del: upt.simps)
  next
    case (Some i)
    then obtain as bs where up: "[0..<2000] = as @ i # bs" and i: "load16 m (slot L i) = 0" by (auto dest: find_split)
    have "i \<in> set [0..<2000]" unfolding up by simp
    then have lt: "i < 2000" by simp
    then have "set is \<subset> {..<2000}" using i unfolding used by auto
    then have "card (set is) < card {..<2000 :: nat}" by (intro psubset_card_mono) simp_all
    then have "length is < 2000" by (simp add: len)
    moreover have "i \<notin> set is" using i by (simp add: used)
    moreover have "mp1_malloc L n m = slot L i" by (simp add: eq Some del: upt.simps)
    ultimately show ?thesis using i lt by auto
  qed
qed

text \<open>Filling a free structure and putting it in front of the list.\<close>

lemma insert_slot:
  assumes inv: "blink_inv L m is" and i: "i < 2000" "i \<notin> set is"
    and ag: "agree (span (slot L i) 16) m m2" and b: "node m2 (slot L i) = b" "location b \<noteq> 0" "location b < 2000"
  defines "m4 \<equiv> store32 (store32 m2 (slot L i + NEXT) (load32 m2 (mp1_list_head L))) (mp1_list_head L) (slot L i)"
  shows "blink_inv L m4 (i # is)" and "blinks L m4 (i # is) = b # blinks L m is" and "screen L m4 = screen L m"
    and "vmem L m4 = vmem L m"
proof -
  define m3 where "m3 = store32 m2 (slot L i + NEXT) (load32 m2 (mp1_list_head L))"
  have lay: "layout L (vmem L m)" and lt: "set is \<subseteq> {..<2000}" and used: "set is = {i. i < 2000 \<and> load16 m (slot L i) \<noteq> 0}"
    and ch: "chain m (load32 m (mp1_list_head L)) (map (slot L) is)" using inv by (auto simp: blink_inv_def)
  note w2 = slot_write [OF lay i(1) ag]
  have lay2: "layout L (vmem L m2)" by (simp add: w2 lay)
  have "slot L i + NEXT = mp1_list_head L \<or> (\<exists>k<2000. slot L i + NEXT = slot L k + NEXT)" using i by blast
  note w3 = link_write [OF lay2 this, where v = "load32 m2 (mp1_list_head L)", folded m3_def]
  have lay3: "layout L (vmem L m3)" by (simp add: w3(2) lay2)
  have "mp1_list_head L = mp1_list_head L \<or> (\<exists>k<2000. mp1_list_head L = slot L k + NEXT)" by blast
  note w4 = link_write [OF lay3 this, where v = "slot L i", folded m4_def [folded m3_def]]
  have m4: "m4 = store32 m3 (mp1_list_head L) (slot L i)" by (simp add: m4_def m3_def)
  have n: "node m4 (slot L j) = node m (slot L j)" if "j < 2000" "j \<noteq> i" for j
    using w4(1) w3(1) node_agree(1) [OF ag slot_disjoint [OF that(1) i(1) that(2)]] that by simp
  have ni: "node m4 (slot L i) = b" using w4(1) w3(1) b i by simp
  note l = n [THEN node_location]
  have li: "load16 m4 (slot L i) = location b" using arg_cong [OF ni, of location] by (simp only: node_fields)
  show v: "vmem L m4 = vmem L m" and s: "screen L m4 = screen L m" using w4 w3 w2 by simp_all
  have hd: "load32 m2 (mp1_list_head L) = load32 m (mp1_list_head L)"
    using span_vars(2) [OF lay i(1)] by (intro agree_load32 [OF ag]) blast
  have ag4: "agree (span (mp1_list_head L) 4) m3 m4" by (simp add: m4)
  have ag3: "agree (span (slot L i) 16) m m3" using ag by (simp add: m3_def add.assoc)
  have hdj: "span (slot L j) 16 \<inter> span (mp1_list_head L) 4 = {}" if "j < 2000" for j
    using span_vars(2) [OF lay that] by blast
  have "load32 m4 (slot L i + NEXT) = load32 m (mp1_list_head L)"
    using node_agree(2) [OF ag4 hdj [OF i(1)]] by (simp add: m3_def load32_store32 hd)
  moreover have "chain m4 p (map (slot L) is) = chain m p (map (slot L) is)" for p
  proof -
    have "chain m4 p (map (slot L) is) = chain m3 p (map (slot L) is)" using hdj lt by (intro chain_agree [OF ag4]) auto
    also have "\<dots> = chain m p (map (slot L) is)"
    proof (rule chain_agree [OF ag3], rule ballI)
      fix q
      assume "q \<in> set (map (slot L) is)"
      then obtain j where "j \<in> set is" "q = slot L j" by auto
      then show "span q 16 \<inter> span (slot L i) 16 = {}" using i lt by (metis slot_disjoint subsetD lessThan_iff)
    qed
    finally show ?thesis .
  qed
  moreover have "load32 m4 (mp1_list_head L) = slot L i" by (simp add: m4 load32_store32)
  ultimately have ch4: "chain m4 (load32 m4 (mp1_list_head L)) (map (slot L) (i # is))"
    using ch slot_nonzero [OF lay i(1)] by simp
  have at: "(j < 2000 \<and> load16 m4 (slot L j) \<noteq> 0) = (j = i \<or> j < 2000 \<and> load16 m (slot L j) \<noteq> 0)" for j
    by (cases "j = i") (use l li b i in auto)
  have used4: "set (i # is) = {i. i < 2000 \<and> load16 m4 (slot L i) \<noteq> 0}" unfolding at by (auto simp: used)
  have ne: "j < 2000 \<and> j \<noteq> i" if "j \<in> set is" for j using that lt i by auto
  have "\<forall>j\<in>set (i # is). load16 m4 (slot L j) < 2000"
    using inv ne l li b by (auto simp: blink_inv_def)
  with ch4 used4 lay i inv show "blink_inv L m4 (i # is)" unfolding blink_inv_def v by simp
  show "blinks L m4 (i # is) = b # blinks L m is" using ni ne n by (simp add: blinks_def)
qed

definition fresh :: "blink \<Rightarrow> blink" where
  "fresh b = b\<lparr>countdown := on_length b, status := 1\<rparr>"

text \<open>The copy on the stack that \<open>mp1_ioctl_add\<close> makes of its argument and completes.\<close>

lemma add_temp:
  fixes m :: mem
  assumes "span temp 16 \<inter> span arg 16 = {}"
  defines "m1 \<equiv> snd (ece391_memcpy m temp arg 16)"
  defines "m2 \<equiv> store16 (store16 m1 (temp + STATUS) 1) (temp + COUNTDOWN)
    (load16 (store16 m1 (temp + STATUS) 1) (temp + ON_LENGTH))"
  shows "agree (span temp 16) m m1" and "load16 m1 temp = location (node m arg)"
    and "agree (span temp 16) m m2" and "node m2 temp = fresh (node m arg)"
proof -
  note cp = node_copy [OF assms(1), of m, folded m1_def]
  show "agree (span temp 16) m m1" by (rule cp(2))
  show "load16 m1 temp = location (node m arg)" using arg_cong [OF cp(3), of location] by (simp only: node_fields)
  show "agree (span temp 16) m m2" using cp(2) by (simp add: m2_def add.assoc)
  have "on_length (node m arg) = load16 m1 (temp + ON_LENGTH)" by (simp add: node_fields flip: cp(3))
  then show "node m2 temp = fresh (node m arg)"
    unfolding m2_def by (simp add: node_store cp(3) fresh_def load_store_other)
qed

lemma ioctl_add_adds:
  assumes inv: "blink_inv L m is" and ap: "apart L (vmem L m) temp 16" and sep: "span temp 16 \<inter> span arg 16 = {}"
    and l: "location (node m arg) < 2000" "location (node m arg) \<noteq> 0" and room: "length is < 2000"
  shows "\<exists>m' i. mp1_ioctl_add L temp arg m = (0, m') \<and> blink_inv L m' (i # is)
    \<and> blinks L m' (i # is) = fresh (node m arg) # blinks L m is
    \<and> screen L m' = (screen L m)[unat (location (node m arg)) := on_char (node m arg)] \<and> vmem L m' = vmem L m"
proof -
  define m1 where "m1 = snd (ece391_memcpy m temp arg 16)"
  define m2 where "m2 = store16 (store16 m1 (temp + STATUS) 1) (temp + COUNTDOWN)
    (load16 (store16 m1 (temp + STATUS) 1) (temp + ON_LENGTH))"
  let ?b = "fresh (node m arg)"
  note tmp = add_temp [OF sep, of m, folded m1_def, folded m2_def]
  note w2 = apart_write [OF inv ap tmp(3)]
  obtain i where i: "i < 2000" "i \<notin> set is" "mp1_malloc L 16 m2 = slot L i"
    using malloc_finds [OF w2(1), of 16] room by auto
  have lay: "layout L (vmem L m)" using inv by (simp add: blink_inv_def)
  have nz: "slot L i \<noteq> 0" by (rule slot_nonzero [OF lay i(1)])
  have dj: "span (slot L i) 16 \<inter> span temp 16 = {}" using ap slot_span [OF i(1), of L] by (auto simp: apart_def)
  define m3 where "m3 = snd (ece391_memcpy m2 (slot L i) temp 16)"
  note cp = node_copy [OF dj, of m2, folded m3_def]
  define m4 where "m4 = store32 (store32 m3 (slot L i + NEXT) (load32 m3 (mp1_list_head L))) (mp1_list_head L) (slot L i)"
  have b: "node m3 (slot L i) = ?b" "location ?b \<noteq> 0" "location ?b < 2000" using cp(3) tmp(4) l by (simp_all add: fresh_def)
  note w4 = insert_slot [OF w2(1) i(1,2) cp(2) b, folded m4_def]
  have n4: "node m4 (slot L i) = ?b" using w4(2) by (simp add: blinks_def)
  have f4: "load16 m4 (slot L i) = location (node m arg)" "m4 (slot L i + ON_CHAR) = on_char (node m arg)"
    using arg_cong [OF n4, of location] arg_cong [OF n4, of on_char] by (simp_all add: node_fields fresh_def)
  have lay4: "layout L (vmem L m4)" by (simp add: w4 w2 lay)
  define m5 where "m5 = mp1_poke L (on_char (node m arg)) (push_bit 1 (ucast (location (node m arg)))) m4"
  note w5 = poke_at [OF lay4 l(1), where c = "on_char (node m arg)", folded m5_def]
  have "mp1_ioctl_add L temp arg m = (0, m5)"
    using node_copy(1) [OF sep, of m] l(1) tmp(2) nz cp(1) f4
    by (simp add: mp1_ioctl_add_def split_beta Let_def i m1_def [symmetric] m2_def [symmetric]
        m3_def [symmetric] m4_def [symmetric] m5_def not_le del: push_bit_Suc)
  moreover have k: "node m5 (slot L j) = node m4 (slot L j)" if "j < 2000" for j
    unfolding m5_def by (rule poke_node(1) [OF lay4 l(1) that])
  have lt: "set (i # is) \<subseteq> {..<2000}" using w4(1) by (auto simp: blink_inv_def)
  have "blink_inv L m5 (i # is)"
  proof (rule blink_inv_keep [OF w4(1)])
    show "agree ((\<Union>j\<in>set (i # is). span (slot L j) 16) \<union> span (vmem L m4) 4000) m4 m5"
      by (rule agree_mono [OF w5(1)]) blast
    show "\<forall>j\<in>set (i # is). load16 m5 (slot L j) = load16 m4 (slot L j)" using lt k [THEN node_location] by auto
    have "span (slot L j) 16 \<inter> span (vmem L m4) 4000 = {}" if "j \<in> set (i # is)" for j
      using that lt by (intro span_video [OF lay4]) auto
    then have "chain m5 p (map (slot L) (i # is)) = chain m4 p (map (slot L) (i # is))" for p
      by (intro chain_agree [OF w5(1)]) auto
    then show "chain m5 (load32 m4 (mp1_list_head L)) (map (slot L) (i # is))" using w4(1) by (simp only: blink_inv_def)
  qed
  moreover have "blinks L m5 (i # is) = blinks L m4 (i # is)"
    unfolding blinks_def using lt k by (intro map_cong) auto
  ultimately show ?thesis using w4 w2 w5(2,3) by auto
qed

lemma ioctl_add_refuses:
  assumes inv: "blink_inv L m is" and ap: "apart L (vmem L m) temp 16" and sep: "span temp 16 \<inter> span arg 16 = {}"
    and full: "2000 \<le> location (node m arg) \<or> 2000 \<le> length is"
  shows "\<exists>m'. mp1_ioctl_add L temp arg m = (- 1, m') \<and> blink_inv L m' is \<and> blinks L m' is = blinks L m is
    \<and> screen L m' = screen L m"
proof -
  define m1 where "m1 = snd (ece391_memcpy m temp arg 16)"
  define m2 where "m2 = store16 (store16 m1 (temp + STATUS) 1) (temp + COUNTDOWN)
    (load16 (store16 m1 (temp + STATUS) 1) (temp + ON_LENGTH))"
  note tmp = add_temp [OF sep, of m, folded m1_def, folded m2_def]
  note w1 = apart_write [OF inv ap tmp(1)] and w2 = apart_write [OF inv ap tmp(3)]
  have "mp1_ioctl_add L temp arg m = (- 1, if 2000 \<le> location (node m arg) then m1 else m2)"
    using node_copy(1) [OF sep, of m] tmp(2) full malloc_finds [OF w2(1), of 16]
    by (auto simp: mp1_ioctl_add_def split_beta Let_def m1_def [symmetric] m2_def [symmetric])
  with w1 w2 show ?thesis by simp
qed

section \<open>Synchronising\<close>

text \<open>The record \<open>b\<close> takes its phase from \<open>a\<close>.\<close>

definition sync_with :: "blink \<Rightarrow> blink \<Rightarrow> blink" where
  "sync_with a b = b\<lparr>on_length := on_length a, off_length := off_length a, countdown := countdown a, status := status a\<rparr>"

primrec replace_location :: "u16 \<Rightarrow> (blink \<Rightarrow> blink) \<Rightarrow> blink list \<Rightarrow> blink list" where
  "replace_location l f [] = []"
| "replace_location l f (b # bs) = (if location b = l then f b # bs else b # replace_location l f bs)"

lemma replace_location_split:
  "\<forall>b\<in>set as. location b \<noteq> l \<Longrightarrow> location b = l \<Longrightarrow> replace_location l f (as @ b # bs) = as @ f b # bs"
  by (induction as) auto

lemma node_store_lengths:
  "node (store16 m (p + ON_LENGTH) v) p = (node m p)\<lparr>on_length := v\<rparr>"
  "node (store16 m (p + OFF_LENGTH) v) p = (node m p)\<lparr>off_length := v\<rparr>"
  "load32 (store16 m (p + ON_LENGTH) v) (p + NEXT) = load32 m (p + NEXT)"
  "load32 (store16 m (p + OFF_LENGTH) v) (p + NEXT) = load32 m (p + NEXT)"
  by (simp_all add: node_def load_store_other)

text \<open>The flags after \<open>testb\<close> never differ, so the character shown is always \<open>off_char\<close>.\<close>

lemma sync_copy_eq:
  "sync_copy L p q m =
     (let m1 = store16 m (q + ON_LENGTH) (on_length (node m p));
          m2 = store16 m1 (q + OFF_LENGTH) (off_length (node m1 p));
          m3 = store16 m2 (q + COUNTDOWN) (countdown (node m2 p));
          m4 = store16 m3 (q + STATUS) (status (node m3 p))
      in mp1_poke L (off_char (node m4 q)) (push_bit 1 (ucast (location (node m4 q)))) m4)"
  by (simp add: sync_copy_def node_fields Let_def bit_simps del: push_bit_Suc)

lemma sync_stores:
  fixes L :: blink_symbols and m :: mem
  assumes "i < 2000" "j < 2000"
  defines "p \<equiv> slot L i" and "q \<equiv> slot L j"
  defines "m1 \<equiv> store16 m (q + ON_LENGTH) (on_length (node m p))"
  defines "m2 \<equiv> store16 m1 (q + OFF_LENGTH) (off_length (node m1 p))"
  defines "m3 \<equiv> store16 m2 (q + COUNTDOWN) (countdown (node m2 p))"
  defines "m4 \<equiv> store16 m3 (q + STATUS) (status (node m3 p))"
  shows "node m4 q = sync_with (node m p) (node m q)" and "load32 m4 (q + NEXT) = load32 m (q + NEXT)"
    and "agree (span q 16) m m4"
proof -
  have ag: "agree (span q 16) m m1" "agree (span q 16) m m2" "agree (span q 16) m m3"
    by (simp_all add: m1_def m2_def m3_def add.assoc)
  show "agree (span q 16) m m4" using ag by (simp add: m4_def add.assoc)
  show "load32 m4 (q + NEXT) = load32 m (q + NEXT)"
    by (simp add: m4_def m3_def m2_def m1_def node_store node_store_lengths)
  show "node m4 q = sync_with (node m p) (node m q)"
  proof (cases "i = j")
    case True
    then show ?thesis
      by (simp add: m4_def m3_def m2_def m1_def node_store node_store_lengths sync_with_def p_def q_def)
  next
    case False
    then have "span p 16 \<inter> span q 16 = {}" unfolding p_def q_def using assms(1,2) by (intro slot_disjoint)
    note n = ag [THEN node_agree(1), OF this]
    have "m4 = store16 (store16 (store16 (store16 m (q + ON_LENGTH) (on_length (node m p)))
        (q + OFF_LENGTH) (off_length (node m p))) (q + COUNTDOWN) (countdown (node m p))) (q + STATUS) (status (node m p))"
      unfolding m4_def n unfolding m3_def n unfolding m2_def n unfolding m1_def ..
    then show ?thesis by (simp add: node_store node_store_lengths sync_with_def)
  qed
qed

lemma find_map: "find P (map f xs) = map_option f (find (\<lambda>x. P (f x)) xs)"
  by (induction xs) simp_all

lemma find_blinks:
  "find (\<lambda>b. location b = l) (blinks L m is)
     = map_option (\<lambda>i. node m (slot L i)) (find (\<lambda>i. load16 m (slot L i) = l) is)"
  by (simp add: blinks_def find_map node_fields)

lemma u16_of_u32: "(ucast (ucast (x :: u16) :: u32) :: u16) = x"
  by (rule bit_word_eqI) (simp add: bit_simps)

lemma low_half: "ucast ((arg :: u32) AND 0xFFFF) = (ucast arg :: u16)"
proof -
  have eq: "(0xFFFF :: u32) = mask 16" by (simp add: mask_eq_exp_minus_1)
  show ?thesis unfolding eq by (rule bit_word_eqI) (simp add: bit_simps)
qed

lemma sync_copy_writes:
  assumes inv: "blink_inv L m (xs @ j # ys)" and i: "i < 2000"
  defines "m' \<equiv> sync_copy L (slot L i) (slot L j) m"
  shows "blink_inv L m' (xs @ j # ys)"
    and "blinks L m' (xs @ j # ys) = blinks L m xs @ sync_with (node m (slot L i)) (node m (slot L j)) # blinks L m ys"
    and "screen L m' = (screen L m)[unat (load16 m (slot L j)) := m (slot L j + OFF_CHAR)]"
proof -
  have lay: "layout L (vmem L m)" and lt: "set (xs @ j # ys) \<subseteq> {..<2000}" and ds: "distinct (xs @ j # ys)"
    and ch: "chain m (load32 m (mp1_list_head L)) (map (slot L) (xs @ j # ys))" and l: "load16 m (slot L j) < 2000"
    using inv by (auto simp: blink_inv_def)
  have j: "j < 2000" using lt by simp
  define m4 where "m4 = (let m1 = store16 m (slot L j + ON_LENGTH) (on_length (node m (slot L i)));
          m2 = store16 m1 (slot L j + OFF_LENGTH) (off_length (node m1 (slot L i)));
          m3 = store16 m2 (slot L j + COUNTDOWN) (countdown (node m2 (slot L i)))
      in store16 m3 (slot L j + STATUS) (status (node m3 (slot L i))))"
  note st = sync_stores [OF i j, where L = L and m = m, folded m4_def [unfolded Let_def]]
  note w4 = slot_write [OF lay j st(3)]
  have lay4: "layout L (vmem L m4)" by (simp add: w4 lay)
  have f4: "location (node m4 (slot L j)) = load16 m (slot L j)" "off_char (node m4 (slot L j)) = m (slot L j + OFF_CHAR)"
    unfolding st(1) by (simp_all add: sync_with_def node_fields)
  have m': "m' = mp1_poke L (m (slot L j + OFF_CHAR)) (push_bit 1 (ucast (load16 m (slot L j)))) m4"
    unfolding m'_def sync_copy_eq Let_def m4_def [unfolded Let_def, symmetric] f4 ..
  note w5 = poke_at [OF lay4 l, where c = "m (slot L j + OFF_CHAR)", folded m']
  note n5 = poke_node [OF lay4 l, where c = "m (slot L j + OFF_CHAR)", folded m']
  have n: "node m' (slot L k) = node m (slot L k)" "load32 m' (slot L k + NEXT) = load32 m (slot L k + NEXT)"
    if "k < 2000" "k \<noteq> j" for k
    using n5 [OF that(1)] node_agree [OF st(3) slot_disjoint [OF that(1) j that(2)]] by simp_all
  have nj: "node m' (slot L j) = sync_with (node m (slot L i)) (node m (slot L j))"
      "load32 m' (slot L j + NEXT) = load32 m (slot L j + NEXT)"
    using n5 [OF j] st by simp_all
  have ne: "k < 2000 \<and> k \<noteq> j" if "k \<in> set xs \<or> k \<in> set ys" for k using that lt ds by auto
  have links: "load32 m' (slot L k + NEXT) = load32 m (slot L k + NEXT)" if "k < 2000" for k
    using n(2) nj(2) that by (cases "k = j") simp_all
  have locs: "load16 m' (slot L k) = load16 m (slot L k)" if "k < 2000" for k
    using n(1) [THEN node_location, OF that] arg_cong [OF nj(1), of location]
    by (cases "k = j") (simp_all add: sync_with_def node_fields)
  have "chain m' p (map (slot L) ks) = chain m p (map (slot L) ks)" if "set ks \<subseteq> {..<2000}" for p ks
    using that links by (induction ks arbitrary: p) auto
  with ch lt have ch': "chain m' (load32 m (mp1_list_head L)) (map (slot L) (xs @ j # ys))" by blast
  have "agree (span (slot L j) 16 \<union> span (vmem L m) 4000) m m'"
    using st(3) w5(1) w4(1) by (intro agree_trans [of _ m m4 m']) (auto intro: agree_mono)
  then have "agree ((\<Union>k\<in>set (xs @ j # ys). span (slot L k) 16) \<union> span (vmem L m) 4000) m m'"
    by (rule agree_mono) auto
  then show "blink_inv L m' (xs @ j # ys)" using locs lt by (intro blink_inv_keep [OF inv _ ch']) auto
  show "blinks L m' (xs @ j # ys) = blinks L m xs @ sync_with (node m (slot L i)) (node m (slot L j)) # blinks L m ys"
    using ne n(1) nj(1) by (simp add: blinks_def)
  show "screen L m' = (screen L m)[unat (load16 m (slot L j)) := m (slot L j + OFF_CHAR)]" using w5(3) w4(2) by simp
qed

lemma ioctl_sync_syncs:
  fixes arg :: u32
  assumes inv: "blink_inv L m is"
    and a: "find (\<lambda>b. location b = ucast (drop_bit 16 arg)) (blinks L m is) = Some a"
    and b: "find (\<lambda>b. location b = ucast arg) (blinks L m is) = Some b"
  shows "\<exists>m'. mp1_ioctl_sync L arg m = Some (0, m') \<and> blink_inv L m' is
    \<and> blinks L m' is = replace_location (ucast arg) (sync_with a) (blinks L m is)
    \<and> screen L m' = (screen L m)[unat (location b) := off_char b]"
proof -
  obtain i j where i: "find (\<lambda>i. load16 m (slot L i) = ucast (drop_bit 16 arg)) is = Some i" "a = node m (slot L i)"
    and j: "find (\<lambda>i. load16 m (slot L i) = ucast arg) is = Some j" "b = node m (slot L j)"
    using a b by (auto simp: find_blinks)
  obtain xs ys where eq: "is = xs @ j # ys" and lj: "load16 m (slot L j) = ucast arg"
    and ne: "\<forall>k\<in>set xs. load16 m (slot L k) \<noteq> ucast arg" using j(1) by (auto dest: find_split)
  have lay: "layout L (vmem L m)" and lt: "set is \<subseteq> {..<2000}" using inv by (auto simp: blink_inv_def)
  have "i \<in> set is" using find_split [OF i(1)] by auto
  then have ij: "i < 2000" "j < 2000" using lt by (auto simp: eq)
  have nz: "slot L i \<noteq> 0" "slot L j \<noteq> 0" using ij slot_nonzero [OF lay] by simp_all
  have "mp1_ioctl_sync L arg m = Some (0, sync_copy L (slot L i) (slot L j) m)"
    using i j nz by (simp add: mp1_ioctl_sync_def find_helper_finds [OF inv] low_half)
  moreover have "replace_location (ucast arg) (sync_with a) (blinks L m is)
      = blinks L m xs @ sync_with a (node m (slot L j)) # blinks L m ys"
    using ne lj by (simp add: eq blinks_def replace_location_split node_fields)
  ultimately show ?thesis
    using sync_copy_writes [OF inv [unfolded eq] ij(1)] i(2) j(2) by (simp add: eq node_fields)
qed

lemma ioctl_sync_refuses:
  fixes arg :: u32
  assumes inv: "blink_inv L m is"
    and none: "find (\<lambda>b. location b = ucast (drop_bit 16 arg)) (blinks L m is) = None
      \<or> find (\<lambda>b. location b = ucast arg) (blinks L m is) = None"
  shows "mp1_ioctl_sync L arg m = Some (- 1, m)"
  using none by (auto simp: mp1_ioctl_sync_def find_helper_finds [OF inv] low_half find_blinks)

section \<open>Looking up\<close>

lemma ioctl_find_finds:
  assumes inv: "blink_inv L m is" and temp: "apart L (vmem L m) temp 2" and arg: "apart L (vmem L m) arg 16"
    and sep: "span temp 2 \<inter> span arg 16 = {}"
  shows "\<exists>m'. blink_inv L m' is \<and> blinks L m' is = blinks L m is \<and> screen L m' = screen L m
    \<and> (case find (\<lambda>b. location b = load16 m arg) (blinks L m is) of
         Some b \<Rightarrow> mp1_ioctl_find L temp arg m = Some (0, m') \<and> node m' arg = b
       | None \<Rightarrow> mp1_ioctl_find L temp arg m = Some (- 1, m'))"
proof -
  define m1 where "m1 = blit m temp 2 (\<lambda>i. m (arg + of_nat i))"
  have "span temp 2 \<inter> span arg 2 = {}" using sep span_mono [of 2 16 arg] by auto
  then have cp: "ece391_memcpy m temp arg 2 = (0, m1)"
    using memcpy_copies [of temp 2 arg m] by (simp add: m1_def)
  have l: "load16 m1 temp = load16 m arg" by (simp add: m1_def load16_def blit_def)
  have ag1: "agree (span temp 2) m m1" unfolding m1_def by (rule agree_blit)
  note w1 = apart_write [OF inv temp ag1]
  have fd: "mp1_find_helper L (ucast (load16 m1 temp)) m1
      = Some (case find (\<lambda>i. load16 m1 (slot L i) = load16 m arg) is of None \<Rightarrow> 0 | Some i \<Rightarrow> slot L i)"
    unfolding find_helper_finds [OF w1(1)] l u16_of_u32 ..
  show ?thesis
  proof (cases "find (\<lambda>i. load16 m1 (slot L i) = load16 m arg) is")
    case None
    then have "find (\<lambda>b. location b = load16 m arg) (blinks L m is) = None" unfolding w1(2) [symmetric] find_blinks by simp
    with None w1 show ?thesis by (intro exI [of _ m1]) (simp add: mp1_ioctl_find_def cp fd)
  next
    case (Some i)
    then have b: "find (\<lambda>b. location b = load16 m arg) (blinks L m is) = Some (node m1 (slot L i))"
      unfolding w1(2) [symmetric] find_blinks by simp
    have "i \<in> set is" using find_split [OF Some] by auto
    then have i: "i < 2000" and nz: "slot L i \<noteq> 0"
      using inv slot_nonzero [of L "vmem L m" i] by (auto simp: blink_inv_def)
    have "span arg 16 \<inter> span (slot L i) 16 = {}" using arg slot_span [OF i, of L] by (auto simp: apart_def)
    note cp2 = node_copy [OF this, of m1]
    have "apart L (vmem L m1) arg 16" using arg by (simp add: w1)
    note w2 = apart_write [OF w1(1) this cp2(2)]
    show ?thesis using w1 w2 nz Some cp2
      by (intro exI [of _ "snd (ece391_memcpy m1 arg (slot L i) 16)"]) (simp add: mp1_ioctl_find_def cp fd b split_beta)
  qed
qed

section \<open>Every run\<close>

text \<open>The cleared array with an empty list.\<close>

lemma blink_inv_start:
  assumes lay: "layout L (vmem L m)" and h: "load32 m (mp1_list_head L) = 0"
  defines "m' \<equiv> ece391_memset m (blink_array L) 0 32000"
  shows "blink_inv L m' []" and "screen L m' = screen L m" and "vmem L m' = vmem L m"
proof -
  have m': "m' = blit m (blink_array L) 32000 (\<lambda>_. 0)"
    by (simp add: m'_def ece391_memset_def memset_from_fill fill_fwd_blit)
  have ag: "agree (span (blink_array L) 32000) m m'" unfolding m' by (rule agree_blit)
  show v: "vmem L m' = vmem L m" using lay by (intro vmem_agree [OF ag]) (auto simp: layout_def)
  have h': "load32 m' (mp1_list_head L) = 0"
    using lay agree_load32 [OF ag, of "mp1_list_head L"] h by (auto simp: layout_def)
  show "screen L m' = screen L m" using lay by (intro screen_agree [OF ag v]) (auto simp: layout_def)
  have z: "m' a = 0" if "a \<in> span (blink_array L) 32000" for a using that by (simp add: m' blit_def span_def)
  have "load16 m' (slot L i) = 0" if "i < 2000" for i
  proof -
    have "slot L i \<in> span (slot L i) 16" "slot L i + 1 \<in> span (slot L i) 16" by simp_all
    then show ?thesis using slot_span [OF that, of L] z by (simp add: load16_def subset_iff)
  qed
  with lay h' show "blink_inv L m' []" by (simp add: blink_inv_def v)
qed

text \<open>
  What the program does with the list: it clears the array, writes to its own variables, and calls
  the tasklet and \<open>mp1_ioctl\<close> with buffers apart from the list and locations other than 0.
\<close>

inductive blink_run :: "blink_symbols \<Rightarrow> mem \<Rightarrow> bool" for L where
  start: "layout L (vmem L m) \<Longrightarrow> load32 m (mp1_list_head L) = 0 \<Longrightarrow> blink_run L (ece391_memset m (blink_array L) 0 32000)"
| own: "blink_run L m \<Longrightarrow> apart L (vmem L m) a n \<Longrightarrow> agree (span a n) m m' \<Longrightarrow> blink_run L m'"
| tasklet: "blink_run L m \<Longrightarrow> mp1_rtc_tasklet L m = Some m' \<Longrightarrow> blink_run L m'"
| add: "blink_run L m \<Longrightarrow> apart L (vmem L m) (ebp - 16) 16 \<Longrightarrow> span (ebp - 16) 16 \<inter> span arg 16 = {} \<Longrightarrow>
    location (node m arg) \<noteq> 0 \<Longrightarrow> mp1_ioctl L ebp arg 0 m = Some (Inr (r, m')) \<Longrightarrow> blink_run L m'"
| remove: "blink_run L m \<Longrightarrow> mp1_ioctl L ebp arg 1 m = Some (Inr (r, m')) \<Longrightarrow> blink_run L m'"
| find: "blink_run L m \<Longrightarrow> apart L (vmem L m) (ebp - 2) 2 \<Longrightarrow> apart L (vmem L m) arg 16 \<Longrightarrow>
    span (ebp - 2) 2 \<inter> span arg 16 = {} \<Longrightarrow> mp1_ioctl L ebp arg 2 m = Some (Inr (r, m')) \<Longrightarrow> blink_run L m'"
| sync: "blink_run L m \<Longrightarrow> mp1_ioctl L ebp arg 3 m = Some (Inr (r, m')) \<Longrightarrow> blink_run L m'"

lemma add_keeps:
  assumes "blink_inv L m is" "apart L (vmem L m) temp 16" "span temp 16 \<inter> span arg 16 = {}" "location (node m arg) \<noteq> 0"
  shows "\<exists>js. blink_inv L (snd (mp1_ioctl_add L temp arg m)) js"
proof (cases "location (node m arg) < 2000 \<and> length is < 2000")
  case True
  then show ?thesis using ioctl_add_adds [OF assms(1-3) _ assms(4)] by fastforce
next
  case False
  then show ?thesis using ioctl_add_refuses [OF assms(1-3)] by (fastforce simp: not_less)
qed

lemma blink_run_inv: "blink_run L m \<Longrightarrow> \<exists>is. blink_inv L m is"
proof (induction rule: blink_run.induct)
  case (start m)
  then show ?case using blink_inv_start by blast
next
  case (own m a n m')
  then show ?case using apart_write(1) by blast
next
  case (tasklet m m')
  then show ?case using rtc_tasklet_ticks by fastforce
next
  case (add m ebp arg r m')
  then have m': "m' = snd (mp1_ioctl_add L (ebp - 16) arg m)" by (simp add: mp1_ioctl_def)
  from add show ?case unfolding m' using add_keeps by blast
next
  case (remove m ebp arg r m')
  then show ?case using ioctl_remove_removes [of L m _ arg] by (fastforce simp: mp1_ioctl_def)
next
  case (find m ebp arg r m')
  then obtain "is" where inv: "blink_inv L m is" by blast
  from ioctl_find_finds [OF inv find(2-4)] find.hyps(5) show ?case
    by (auto simp: mp1_ioctl_def split: option.splits)
next
  case (sync m ebp arg r m')
  then obtain "is" where inv: "blink_inv L m is" by blast
  with sync.hyps(2) ioctl_sync_syncs [OF inv, of arg] ioctl_sync_refuses [OF inv, of arg] show ?case
    by (fastforce simp: mp1_ioctl_def)
qed

section \<open>The properties of the list\<close>

text \<open>A memory for examples: the variables at 256 and 260, the array at 4096, the screen at \<open>0x10000\<close>, a
  structure with location 7, characters \<open>A\<close> and \<open>B\<close>, on for 1 tick and off for 3 at \<open>0x20000\<close>.\<close>

definition example_symbols :: blink_symbols where
  "example_symbols = \<lparr>vmem_base_addr = 256, mp1_list_head = 260, blink_array = 4096\<rparr>"

definition example_mem :: mem where
  "example_mem = (\<lambda>_. 0)(258 := 1, 0x20000 := 7, 0x20002 := 65, 0x20003 := 66, 0x20004 := 1, 0x20006 := 3)"

lemma example_layout: "layout example_symbols 0x10000" "vmem example_symbols example_mem = 0x10000"
  "apart example_symbols 0x10000 0x30000 16" "span 0x30000 16 \<inter> span 0x20000 16 = {}"
  by (simp_all add: layout_def apart_def example_symbols_def example_mem_def vmem_def load32_def span_apart span_less push_bit_eq_mult)

lemma example_inv: "blink_inv example_symbols example_mem []"
proof -
  have z: "example_mem a = 0" if "a \<in> span 4096 32000" for a
    using that by (auto simp: span_less example_mem_def)
  have "load16 example_mem (slot example_symbols i) = 0" if "i < 2000" for i
  proof -
    have "slot example_symbols i \<in> span (slot example_symbols i) 16" "slot example_symbols i + 1 \<in> span (slot example_symbols i) 16"
      by simp_all
    then show ?thesis
      using slot_span [OF that, of example_symbols] z by (simp add: load16_def subset_iff example_symbols_def)
  qed
  then show ?thesis using example_layout by (simp add: blink_inv_def example_symbols_def example_mem_def load32_def)
qed

text \<open>The structure of the example, and the list after it was added.\<close>

definition example_blink :: blink where
  "example_blink = \<lparr>location = 7, on_char = 65, off_char = 66, on_length = 1, off_length = 3, countdown = 0, status = 0\<rparr>"

lemma example_node: "node example_mem 0x20000 = example_blink"
  by (simp add: node_def example_mem_def example_blink_def load16_def)

lemma example_added:
  "\<exists>m i. mp1_ioctl_add example_symbols 0x30000 0x20000 example_mem = (0, m) \<and> blink_inv example_symbols m [i]
    \<and> blinks example_symbols m [i] = [fresh example_blink] \<and> screen example_symbols m = (screen example_symbols example_mem)[7 := 65]
    \<and> vmem example_symbols m = 0x10000"
  using ioctl_add_adds [OF example_inv, of "0x30000" "0x20000"] example_layout
  by (simp add: example_node blinks_def example_blink_def)

text \<open>
  C18. A tick of the clock always ends, keeps the list well formed, and does what it should to every
  structure: the countdown goes down, and a structure whose countdown is over changes between its two
  characters, shows the new one at its location and starts the countdown of the other phase. Nothing
  else on the screen changes.
\<close>

theorem blink_tick_refines:
  assumes "blink_inv L m is"
  shows "\<exists>m'. mp1_rtc_tasklet L m = Some m' \<and> blink_inv L m' is \<and> blinks L m' is = map tick (blinks L m is)
    \<and> screen L m' = fold tick_screen (blinks L m is) (screen L m)"
  by (rule rtc_tasklet_ticks [OF assms])

theorem blink_tick_refines_witness:
  "\<exists>m i m'. mp1_ioctl_add example_symbols 0x30000 0x20000 example_mem = (0, m)
    \<and> mp1_rtc_tasklet example_symbols m = Some m' \<and> blinks example_symbols m' [i] = [tick (fresh example_blink)]
    \<and> countdown (tick (fresh example_blink)) = 3 \<and> screen example_symbols m' ! 7 = 66"
proof -
  obtain m i where m: "mp1_ioctl_add example_symbols 0x30000 0x20000 example_mem = (0, m)" "blink_inv example_symbols m [i]"
    "blinks example_symbols m [i] = [fresh example_blink]" using example_added by blast
  obtain m' where "mp1_rtc_tasklet example_symbols m = Some m'" "blinks example_symbols m' [i] = [tick (fresh example_blink)]"
    "screen example_symbols m' = tick_screen (fresh example_blink) (screen example_symbols m)"
    using blink_tick_refines [OF m(2)] by (auto simp: m(3))
  with m(1) show ?thesis
    by (auto simp: tick_def tick_screen_def fresh_def example_blink_def expires_def is_on_def)
qed

text \<open>
  C19. Adding a structure copies it to a free array element, marks it as on with a full countdown, puts it
  in front of the list and shows its first character; it is refused, and nothing but the copy on the
  stack changes, when its location is not on the screen or the array is full. Location 0 is excluded: the allocator takes
  such a structure for a free one.
\<close>

theorem blink_add_refines:
  assumes "blink_inv L m is" and "apart L (vmem L m) temp 16" and "span temp 16 \<inter> span arg 16 = {}"
    and "location (node m arg) \<noteq> 0"
  shows "\<exists>r m' js. mp1_ioctl_add L temp arg m = (r, m') \<and> blink_inv L m' js
    \<and> (if location (node m arg) < 2000 \<and> length is < 2000
       then r = 0 \<and> blinks L m' js = fresh (node m arg) # blinks L m is
         \<and> screen L m' = (screen L m)[unat (location (node m arg)) := on_char (node m arg)]
       else r = - 1 \<and> blinks L m' js = blinks L m is \<and> screen L m' = screen L m)"
proof (cases "location (node m arg) < 2000 \<and> length is < 2000")
  case True
  then show ?thesis using ioctl_add_adds [OF assms(1-3) _ assms(4)] by fastforce
next
  case False
  then show ?thesis using ioctl_add_refuses [OF assms(1-3)] by (fastforce simp: not_less)
qed

theorem blink_add_refines_witness:
  "\<exists>m' js. mp1_ioctl_add example_symbols 0x30000 0x20000 example_mem = (0, m') \<and> blink_inv example_symbols m' js
    \<and> blinks example_symbols m' js = [fresh example_blink] \<and> screen example_symbols m' ! 7 = 65"
proof -
  have "\<exists>r m' js. mp1_ioctl_add example_symbols 0x30000 0x20000 example_mem = (r, m') \<and> blink_inv example_symbols m' js
      \<and> r = 0 \<and> blinks example_symbols m' js = [fresh example_blink]
      \<and> screen example_symbols m' = (screen example_symbols example_mem)[7 := 65]"
    using blink_add_refines [OF example_inv, of "0x30000" "0x20000"] example_layout
    by (simp add: example_node blinks_def example_blink_def)
  then show ?thesis by auto
qed

text \<open>
  C20. Removing a location always ends; it takes the first structure at that location out of the list, frees its array
  element and keeps the order of the others and the screen, and it reports whether there was one.
\<close>

theorem blink_remove_refines:
  assumes "blink_inv L m is"
  shows "\<exists>r m' js. mp1_ioctl_remove L arg m = Some (r, m') \<and> blink_inv L m' js
    \<and> blinks L m' js = remove_location (ucast arg) (blinks L m is) \<and> screen L m' = screen L m
    \<and> r = (if \<exists>b\<in>set (blinks L m is). location b = ucast arg then 0 else - 1)"
  by (rule ioctl_remove_removes [OF assms])

theorem blink_remove_refines_witness:
  "\<exists>m m' js. mp1_ioctl_add example_symbols 0x30000 0x20000 example_mem = (0, m)
    \<and> mp1_ioctl_remove example_symbols 7 m = Some (0, m') \<and> blink_inv example_symbols m' js \<and> blinks example_symbols m' js = []"
proof -
  obtain m i where m: "mp1_ioctl_add example_symbols 0x30000 0x20000 example_mem = (0, m)" "blink_inv example_symbols m [i]"
    "blinks example_symbols m [i] = [fresh example_blink]" using example_added by blast
  then show ?thesis
    using blink_remove_refines [OF m(2), of 7] by (auto simp: fresh_def example_blink_def)
qed

text \<open>
  C21. However the program uses the list, as long as its buffers are apart from it and no location is 0, the list stays
  well formed, and the next tick and every one of the four commands end: add, remove and synchronise for every argument, and find for buffers apart from
  the list. Find delivers the first structure at the location asked for, and -1 if there is none.
\<close>

theorem blink_run_ends:
  assumes "blink_run L m"
  shows "\<exists>is. blink_inv L m is \<and> (\<exists>m'. mp1_rtc_tasklet L m = Some m')
    \<and> (\<forall>cmd \<in> {0, 1, 3}. \<exists>r m'. mp1_ioctl L ebp arg cmd m = Some (Inr (r, m')))
    \<and> (apart L (vmem L m) (ebp - 2) 2 \<and> apart L (vmem L m) arg 16 \<and> span (ebp - 2) 2 \<inter> span arg 16 = {} \<longrightarrow>
        (\<exists>m'. case find (\<lambda>b. location b = load16 m arg) (blinks L m is) of
           Some b \<Rightarrow> mp1_ioctl L ebp arg 2 m = Some (Inr (0, m')) \<and> node m' arg = b
         | None \<Rightarrow> mp1_ioctl L ebp arg 2 m = Some (Inr (- 1, m'))))"
proof -
  obtain "is" where inv: "blink_inv L m is" using blink_run_inv [OF assms] by blast
  have "\<exists>r m'. mp1_ioctl L ebp arg 3 m = Some (Inr (r, m'))"
    using ioctl_sync_syncs [OF inv, of arg] ioctl_sync_refuses [OF inv, of arg]
    by (fastforce simp: mp1_ioctl_def)
  moreover have "\<exists>r m'. mp1_ioctl L ebp arg 1 m = Some (Inr (r, m'))"
    using ioctl_remove_removes [OF inv, of arg] by (auto simp: mp1_ioctl_def)
  moreover have "\<exists>r m'. mp1_ioctl L ebp arg 0 m = Some (Inr (r, m'))"
    by (cases "mp1_ioctl_add L (ebp - 16) arg m") (simp add: mp1_ioctl_def)
  moreover have "\<exists>m'. case find (\<lambda>b. location b = load16 m arg) (blinks L m is) of
        Some b \<Rightarrow> mp1_ioctl L ebp arg 2 m = Some (Inr (0, m')) \<and> node m' arg = b
      | None \<Rightarrow> mp1_ioctl L ebp arg 2 m = Some (Inr (- 1, m'))"
    if "apart L (vmem L m) (ebp - 2) 2 \<and> apart L (vmem L m) arg 16 \<and> span (ebp - 2) 2 \<inter> span arg 16 = {}"
    using ioctl_find_finds [OF inv, of "ebp - 2" arg] that by (auto simp: mp1_ioctl_def split: option.splits)
  ultimately show ?thesis using inv rtc_tasklet_ticks [OF inv] by blast
qed

theorem blink_run_ends_witness:
  "\<exists>m. blink_run example_symbols m \<and> (\<exists>m'. mp1_rtc_tasklet example_symbols m = Some m')
    \<and> (\<exists>r m'. mp1_ioctl example_symbols 0x30010 0x20000 2 m = Some (Inr (r, m')))"
proof -
  let ?m = "ece391_memset example_mem (blink_array example_symbols) 0 32000"
  have run: "blink_run example_symbols ?m"
    using example_layout by (intro blink_run.start) (simp_all add: example_symbols_def example_mem_def load32_def)
  have "apart example_symbols (vmem example_symbols ?m) 0x3000E 2 \<and> apart example_symbols (vmem example_symbols ?m) 0x20000 16
      \<and> span 0x3000E 2 \<inter> span 0x20000 16 = {}"
  proof -
    have "vmem example_symbols ?m = 0x10000"
      using blink_inv_start(3) [of example_symbols example_mem] example_layout by (simp add: example_symbols_def example_mem_def load32_def)
    then show ?thesis by (simp add: apart_def example_symbols_def span_apart span_less)
  qed
  with blink_run_ends [OF run, of "0x30010" "0x20000"] run show ?thesis by (fastforce split: option.splits)
qed

section \<open>Location 0\<close>

text \<open>A list whose first structure is its own successor is never left.\<close>

lemma tasklet_self_loop:
  assumes "tasklet_loop L p m = Some r" "i < 2000" "p = slot L i" "layout L (vmem L m)" "load16 m (slot L i) < 2000"
    "load32 m (slot L i + NEXT) = slot L i"
  shows False
proof -
  have "p = slot L i \<longrightarrow> layout L (vmem L m) \<longrightarrow> load16 m (slot L i) < 2000 \<longrightarrow> load32 m (slot L i + NEXT) = slot L i \<longrightarrow> False"
  proof (rule tasklet_loop.raw_induct [where P = "\<lambda>L' p m r. L' = L \<longrightarrow> p = slot L i \<longrightarrow> layout L (vmem L m) \<longrightarrow>
      load16 m (slot L i) < 2000 \<longrightarrow> load32 m (slot L i + NEXT) = slot L i \<longrightarrow> False", OF _ assms(1), THEN mp, OF _ refl], intro impI)
    fix f L' p m r
    assume IH: "\<And>L' p m r. f L' p m = Some r \<Longrightarrow> L' = L \<longrightarrow> p = slot L i \<longrightarrow> layout L (vmem L m) \<longrightarrow>
        load16 m (slot L i) < 2000 \<longrightarrow> load32 m (slot L i + NEXT) = slot L i \<longrightarrow> False"
      and step: "(if p = 0 then Some m else let m = tasklet_body L' p m in f L' (load32 m (p + NEXT)) m) = Some r"
      and eq: "L' = L" "p = slot L i" and lay: "layout L (vmem L m)" and l: "load16 m (slot L i) < 2000"
      and self: "load32 m (slot L i + NEXT) = slot L i"
    define m1 where "m1 = tasklet_body L (slot L i) m"
    note body = tasklet_body_tick [OF lay assms(2) l, folded m1_def]
    have v: "vmem L m1 = vmem L m" by (rule vmem_agree [OF body(3) span_vars(1) [OF lay assms(2)]])
    have "location (node m1 (slot L i)) = location (node m (slot L i))" by (simp add: body(1))
    then have "load16 m1 (slot L i) < 2000" using l by (simp add: node_fields)
    moreover have "f L (slot L i) m1 = Some r"
      using step slot_nonzero [OF lay assms(2)] body(2) self by (simp add: eq m1_def [symmetric] Let_def)
    ultimately show False using IH [of L "slot L i" m1 r] lay v body(2) self by simp
  qed
  with assms show False by blast
qed

text \<open>Adding a structure with location 0 takes the first array element while it looks free, and it looks free afterwards.\<close>

lemma add_at_zero:
  assumes lay: "layout L (vmem L m)" and temp: "apart L (vmem L m) temp 16" and arg: "apart L (vmem L m) arg 16"
    and sep: "span temp 16 \<inter> span arg 16 = {}" and l: "location (node m arg) = 0" and free: "load16 m (slot L 0) = 0"
  shows "\<exists>m'. mp1_ioctl_add L temp arg m = (0, m') \<and> vmem L m' = vmem L m \<and> node m' arg = node m arg
    \<and> load16 m' (slot L 0) = 0 \<and> load32 m' (mp1_list_head L) = slot L 0
    \<and> load32 m' (slot L 0 + NEXT) = load32 m (mp1_list_head L)"
proof -
  let ?p = "slot L 0" and ?h = "mp1_list_head L" and ?c = "on_char (node m arg)"
  define m1 where "m1 = snd (ece391_memcpy m temp arg 16)"
  define m2 where "m2 = store16 (store16 m1 (temp + STATUS) 1) (temp + COUNTDOWN)
    (load16 (store16 m1 (temp + STATUS) 1) (temp + ON_LENGTH))"
  define m3 where "m3 = snd (ece391_memcpy m2 ?p temp 16)"
  define m4 where "m4 = store32 m3 (?p + NEXT) (load32 m3 ?h)"
  define m5 where "m5 = store32 m4 ?h ?p"
  define m6 where "m6 = mp1_poke L ?c (push_bit 1 (ucast (0 :: u16))) m5"
  have sub: "span ?p 16 \<subseteq> span (blink_array L) 32000" by (rule slot_span) simp
  note tmp = add_temp [OF sep, of m, folded m1_def, folded m2_def]
  have pt: "span ?p 16 \<inter> span temp 16 = {}" "span ?p 16 \<inter> span arg 16 = {}" "span ?p 16 \<inter> span ?h 4 = {}"
    "span arg 16 \<inter> span ?h 4 = {}" "span ?h 4 \<inter> span ?p 16 = {}" "span ?h 4 \<inter> span temp 16 = {}"
    "span arg 16 \<inter> span ?p 16 = {}" "span arg 16 \<inter> span temp 16 = {}"
    using temp arg sub lay sep by (auto simp: apart_def layout_def)
  have h2: "load32 m2 ?h = load32 m ?h" by (rule agree_load32 [OF tmp(3) pt(6)])
  have free2: "load16 m2 ?p = 0" using node_agree(3) [OF tmp(3) pt(1)] free by simp
  have v2: "vmem L m2 = vmem L m" using temp by (intro vmem_agree [OF tmp(3)]) (auto simp: apart_def)
  note cp = node_copy [OF pt(1), of m2, folded m3_def]
  have lay2: "layout L (vmem L m2)" by (simp add: v2 lay)
  have ag4: "agree (span ?p 16) m2 m4" using cp(2) by (simp add: m4_def add.assoc)
  have v4: "vmem L m4 = vmem L m" using slot_write(1) [OF lay2 _ ag4] v2 by simp
  have h3: "load32 m3 ?h = load32 m ?h" using agree_load32 [OF cp(2) pt(5)] h2 by simp
  have ag5: "agree (span ?h 4) m4 m5" by (simp add: m5_def)
  have v5: "vmem L m5 = vmem L m" using v4 lay vmem_agree [OF ag5, of L] by (auto simp: layout_def)
  have lay5: "layout L (vmem L m5)" by (simp add: v5 lay)
  note w6 = poke_at [OF lay5, of 0 ?c, folded m6_def, simplified]
  have n5: "node m5 ?p = fresh (node m arg)" "load32 m5 (?p + NEXT) = load32 m ?h"
    using node_agree [OF ag5 pt(3)] tmp(4) cp(3) h3 link_write(1) [OF lay2] unfolding m4_def
    by (simp_all add: node_def load_store_other load32_store32)
  have f5: "load16 m5 ?p = 0" "m5 (?p + ON_CHAR) = ?c"
    using arg_cong [OF n5(1), of location] arg_cong [OF n5(1), of on_char] l by (simp_all add: node_fields fresh_def)
  have n6: "load16 m6 ?p = 0" "load32 m6 (?p + NEXT) = load32 m ?h"
    using node_agree [OF w6(1) span_video [OF lay5, of 0]] f5 n5(2) by simp_all
  have "span ?h 4 \<inter> span (vmem L m5) 4000 = {}" using lay5 by (auto simp: layout_def)
  then have h6: "load32 m6 ?h = ?p" using agree_load32 [OF w6(1)] by (simp add: m5_def load32_store32)
  have "node m6 arg = node m5 arg" using arg v5 by (intro node_agree(1) [OF w6(1)]) (simp add: apart_def)
  also have "\<dots> = node m4 arg" by (rule node_agree(1) [OF ag5 pt(4)])
  also have "\<dots> = node m2 arg" by (rule node_agree(1) [OF ag4 pt(7)])
  also have "\<dots> = node m arg" by (rule node_agree(1) [OF tmp(3) pt(8)])
  finally have n: "node m6 arg = node m arg" .
  have al: "mp1_malloc L 16 m2 = ?p"
    unfolding mp1_malloc_def mp1_malloc_from.simps [of L 0] using free2 by (simp add: slot_def)
  have "mp1_ioctl_add L temp arg m = (0, m6)"
    using node_copy(1) [OF sep, of m] l tmp(2) slot_nonzero [OF lay, of 0] cp(1) f5
    by (simp add: mp1_ioctl_add_def split_beta Let_def al m1_def [symmetric] m2_def [symmetric]
        m3_def [symmetric] m4_def [symmetric] m5_def [symmetric] m6_def)
  with n6 h6 n w6(2) v5 show ?thesis by auto
qed

text \<open>Adding two structures at location 0 to an empty list makes the list circular: the next tick never ends.\<close>

lemma location_zero_never_ends:
  assumes inv: "blink_inv L m []" and temp: "apart L (vmem L m) temp 16" and arg: "apart L (vmem L m) arg 16"
    and sep: "span temp 16 \<inter> span arg 16 = {}" and l: "location (node m arg) = 0"
  shows "\<exists>m1 m2. mp1_ioctl_add L temp arg m = (0, m1) \<and> mp1_ioctl_add L temp arg m1 = (0, m2) \<and> mp1_rtc_tasklet L m2 = None"
proof -
  have lay: "layout L (vmem L m)" and free: "load16 m (slot L 0) = 0" using inv by (auto simp: blink_inv_def)
  obtain m1 where m1: "mp1_ioctl_add L temp arg m = (0, m1)" "vmem L m1 = vmem L m" "node m1 arg = node m arg"
    "load16 m1 (slot L 0) = 0" "load32 m1 (mp1_list_head L) = slot L 0"
    using add_at_zero [OF lay temp arg sep l free] by blast
  have "layout L (vmem L m1)" "apart L (vmem L m1) temp 16" "apart L (vmem L m1) arg 16" "location (node m1 arg) = 0"
    using lay temp arg l by (simp_all add: m1)
  note z = add_at_zero [OF this(1-3) sep this(4) m1(4)]
  then obtain m2 where m2: "mp1_ioctl_add L temp arg m1 = (0, m2)" "vmem L m2 = vmem L m1" "load16 m2 (slot L 0) = 0"
    "load32 m2 (mp1_list_head L) = slot L 0" "load32 m2 (slot L 0 + NEXT) = slot L 0"
    unfolding m1(5) by blast
  have "mp1_rtc_tasklet L m2 = None"
  proof (rule ccontr)
    assume "mp1_rtc_tasklet L m2 \<noteq> None"
    then obtain r where "tasklet_loop L (slot L 0) m2 = Some r" by (auto simp: mp1_rtc_tasklet_def m2)
    then show False using lay m1 m2 by (intro tasklet_self_loop [of L "slot L 0" m2 r 0]) simp_all
  qed
  with m1(1) m2(1) show ?thesis by blast
qed

end
