(* ===== verification/Fish.thy ===== *)
theory Fish
  imports Blinklist Uprogs
begin

text \<open>
  The demonstration program \<^verbatim>\<open>fish\<close> itself, \<^verbatim>\<open>fish.c\<close>: it maps the screen, reads two pictures from files, makes
  every character that differs from a blank blink between them, and drives the blinking with the
  real-time clock. It runs on the system calls of the user library and on the blink list.
\<close>

section \<open>The program\<close>

text \<open>The addresses of the variables on the stack, and of the frames below which \<open>mp1_ioctl\<close> is called in \<open>main\<close> and in \<open>add_frames\<close>.\<close>

record fish_vars =
  main_struct :: u32
  ret_val_at :: u32
  garbage_at :: u32
  main_ebp :: u32
  frames_struct :: u32
  c0_at :: u32
  c1_at :: u32
  frames_ebp :: u32

text \<open>The next step of a program whose first step may not end either.\<close>

definition wait_then :: "'a res option \<Rightarrow> ('a \<Rightarrow> 'b res option) \<Rightarrow> 'b res option" where
  "wait_then r f = Option.bind r (\<lambda>r. and_then r f)"

definition poke16 :: "'s os \<Rightarrow> u32 \<Rightarrow> u16 \<Rightarrow> 's \<Rightarrow> 's" where
  "poke16 os a v s = set_umem os (store16 (umem os s) a v) s"

text \<open>A call of \<open>mp1_ioctl\<close> and of the tasklet on the memory of the program.\<close>

definition call_ioctl :: "'s os \<Rightarrow> blink_symbols \<Rightarrow> u32 \<Rightarrow> u32 \<Rightarrow> u32 \<Rightarrow> 's \<Rightarrow> (int \<times> 's) res option" where
  "call_ioctl os L ebp arg cmd s =
     wait_then (mp1_ioctl L ebp arg cmd (umem os s)) (\<lambda>(r, m). Some (Inr (r, set_umem os m s)))"

definition call_tasklet :: "'s os \<Rightarrow> blink_symbols \<Rightarrow> 's \<Rightarrow> 's res option" where
  "call_tasklet os L s = map_option (\<lambda>m. Inr (set_umem os m s)) (mp1_rtc_tasklet L (umem os s))"

definition mp1_set_video_mode :: "'s os \<Rightarrow> blink_symbols \<Rightarrow> 's \<Rightarrow> (u32 \<times> 's) res" where
  "mp1_set_video_mode os L s =
     res_bind (ece391_vidmap os (vmem_base_addr L) s) (\<lambda>(r, s).
       Inr (if r = - 1 then 0 else load32 (umem os s) (vmem_base_addr L), s))"

text \<open>The loops of \<open>main\<close> that wait for the clock \<open>n\<close> times and let the tasklet run.\<close>

primrec clock_loop :: "'s os \<Rightarrow> blink_symbols \<Rightarrow> u32 \<Rightarrow> int \<Rightarrow> nat \<Rightarrow> 's \<Rightarrow> 's res option" where
  "clock_loop os L garbage rtc_fd 0 s = Some (Inr s)"
| "clock_loop os L garbage rtc_fd (Suc n) s =
     and_then (ece391_read os rtc_fd garbage 4 s) (\<lambda>(r, s).
     wait_then (call_tasklet os L s) (clock_loop os L garbage rtc_fd n))"

text \<open>Reading the next character of a picture, unless the row has ended; at the end of the file the row ends.\<close>

definition frame_char :: "'s os \<Rightarrow> int \<Rightarrow> u32 \<Rightarrow> bool \<Rightarrow> 's \<Rightarrow> (bool \<times> 's) res" where
  "frame_char os fd c eof s =
     (if umem os s c \<noteq> 10 then
        res_bind (ece391_read os fd c 1 s) (\<lambda>(num_bytes, s).
          if num_bytes = 0 then Inr (True, poke os c 10 s) else Inr (eof, s))
      else Inr (eof, s))"

text \<open>The inner loop of \<open>add_frames\<close>: one row of both pictures.\<close>

definition add_cell :: "'s os \<Rightarrow> blink_symbols \<Rightarrow> fish_vars \<Rightarrow> int \<Rightarrow> int \<Rightarrow> 's \<Rightarrow> (int \<times> 's) res option" where
  "add_cell os L V row col s =
     (let c0 = umem os s (c0_at V);
          c1 = umem os s (c1_at V)
      in if c0 \<noteq> 32 \<and> c0 \<noteq> 10 \<or> c1 \<noteq> 32 \<and> c1 \<noteq> 10
         then let s = poke os (frames_struct V + ON_CHAR) (if c0 = 10 then 32 else c0) s;
                  s = poke os (frames_struct V + OFF_CHAR) (if c1 = 10 then 32 else c1) s;
                  s = poke16 os (frames_struct V + LOCATION) (word_of_int (row * 80 + col + 40)) s
              in call_ioctl os L (frames_ebp V) (frames_struct V) 0 s
         else Some (Inr (0, s)))"

partial_function (option) frame_row :: "'s os \<Rightarrow> blink_symbols \<Rightarrow> fish_vars \<Rightarrow> int \<Rightarrow> int \<Rightarrow> int \<Rightarrow> int \<Rightarrow> bool \<Rightarrow> bool \<Rightarrow> 's
    \<Rightarrow> (bool \<times> bool \<times> 's) res option" where
  "frame_row os L V fd0 fd1 row col eof0 eof1 s =
     (case frame_char os fd0 (c0_at V) eof0 s of Inl e \<Rightarrow> Some (Inl e)
      | Inr (eof0, s) \<Rightarrow> (case frame_char os fd1 (c1_at V) eof1 s of Inl e \<Rightarrow> Some (Inl e)
      | Inr (eof1, s) \<Rightarrow>
          if umem os s (c0_at V) = 10 \<and> umem os s (c1_at V) = 10 then Some (Inr (eof0, eof1, s))
          else Option.bind (add_cell os L V row col s) (\<lambda>r. case r of Inl e \<Rightarrow> Some (Inl e)
            | Inr (r, s) \<Rightarrow> frame_row os L V fd0 fd1 row (col + 1) eof0 eof1 s)))"

text \<open>After a row: a picture that has ended is closed, the other goes on.\<close>

definition row_end :: "'s os \<Rightarrow> int \<Rightarrow> u32 \<Rightarrow> bool \<Rightarrow> 's \<Rightarrow> 's res" where
  "row_end os fd c eof s =
     (if eof then res_bind (ece391_close os fd (poke os c 10 s)) (\<lambda>(r, s). Inr s)
      else Inr (poke os c (of_char (CHR ''0'')) s))"

partial_function (option) frame_rows :: "'s os \<Rightarrow> blink_symbols \<Rightarrow> fish_vars \<Rightarrow> int \<Rightarrow> int \<Rightarrow> int \<Rightarrow> bool \<Rightarrow> bool \<Rightarrow> 's \<Rightarrow> 's res option" where
  "frame_rows os L V fd0 fd1 row eof0 eof1 s =
     (if \<not> eof0 \<or> \<not> eof1 then
        Option.bind (frame_row os L V fd0 fd1 row 0 eof0 eof1 s) (\<lambda>r. case r of Inl e \<Rightarrow> Some (Inl e)
        | Inr (eof0, eof1, s) \<Rightarrow> (case res_bind (row_end os fd0 (c0_at V) eof0 s) (row_end os fd1 (c1_at V) eof1) of
            Inl e \<Rightarrow> Some (Inl e)
          | Inr s \<Rightarrow> frame_rows os L V fd0 fd1 (row + 1) eof0 eof1 s))
      else Some (Inr s))"

text \<open>\<open>add_frames\<close> gives the status with which it halted the program, or \<open>None\<close> when it returned.\<close>

definition add_frames :: "'s os \<Rightarrow> blink_symbols \<Rightarrow> fish_vars \<Rightarrow> u32 \<Rightarrow> u32 \<Rightarrow> int \<Rightarrow> 's \<Rightarrow> (int option \<times> 's) res option" where
  "add_frames os L V f0 f1 rtc_fd s =
     (let s = poke os (c0_at V) (of_char (CHR ''0'')) s;
          s = poke os (c1_at V) (of_char (CHR ''0'')) s;
          s = poke16 os (frames_struct V + ON_LENGTH) 15 s;
          s = poke16 os (frames_struct V + OFF_LENGTH) 15 s
      in and_then (ece391_open os f0 s) (\<lambda>(fd0, s).
         if fd0 < 0 then Some (Inr (Some (- 1), s))
         else and_then (ece391_open os f1 s) (\<lambda>(fd1, s).
           if fd1 < 0 then Some (Inr (Some (- 1), s))
           else wait_then (frame_rows os L V fd0 fd1 0 False False s) (\<lambda>s. Some (Inr (None, s))))))"

text \<open>The part of \<open>main\<close> after the pictures are set up; \<open>i\<close> is 200 when \<open>RTC_REMOVE\<close> is called with it.\<close>

definition fish_show :: "'s os \<Rightarrow> blink_symbols \<Rightarrow> fish_vars \<Rightarrow> int \<Rightarrow> 's \<Rightarrow> (int \<times> 's) res option" where
  "fish_show os L V rtc_fd s =
     and_then (ece391_write os rtc_fd (ret_val_at V) 4 (poke32 os (ret_val_at V) 32 s)) (\<lambda>(r, s).
     wait_then (clock_loop os L (garbage_at V) rtc_fd 200 (poke32 os (ret_val_at V) (word_of_int r) s)) (\<lambda>s.
     let b = main_struct V;
         s = poke os (b + ON_CHAR) (of_char (CHR ''I'')) s;
         s = poke os (b + OFF_CHAR) (of_char (CHR ''M'')) s;
         s = poke16 os (b + ON_LENGTH) 7 s;
         s = poke16 os (b + OFF_LENGTH) 6 s;
         s = poke16 os (b + LOCATION) (6 * 80 + 60) s
     in wait_then (call_ioctl os L (main_ebp V) b 0 s) (\<lambda>(r, s).
        wait_then (clock_loop os L (garbage_at V) rtc_fd 200 s) (\<lambda>s.
        wait_then (call_ioctl os L (main_ebp V) (push_bit 16 40 OR (6 * 80 + 60)) 3 s) (\<lambda>(r, s).
        wait_then (clock_loop os L (garbage_at V) rtc_fd 200 s) (\<lambda>s.
        wait_then (call_ioctl os L (main_ebp V) 200 1 (poke16 os (b + LOCATION) 60 s)) (\<lambda>(r, s).
        wait_then (clock_loop os L (garbage_at V) rtc_fd (80 * 25) s) (\<lambda>s.
        and_then (ece391_close os rtc_fd s) (\<lambda>(r, s). Some (Inr (0, s)))))))))))"

definition fish_main :: "'s os \<Rightarrow> blink_symbols \<Rightarrow> fish_vars \<Rightarrow> 's \<Rightarrow> (int \<times> 's) res option" where
  "fish_main os L V s =
     and_then (mp1_set_video_mode os L (set_umem os (ece391_memset (umem os s) (blink_array L) 0 (16 * 80 * 25)) s)) (\<lambda>(v, s).
     if v = 0 then Some (Inr (- 1, s))
     else and_then (ece391_open os (lit os ''rtc'') s) (\<lambda>(rtc_fd, s).
       wait_then (add_frames os L V (lit os ''frame0.txt'') (lit os ''frame1.txt'') rtc_fd s) (\<lambda>(halted, s).
         case halted of Some st \<Rightarrow> Some (Inr (st, s)) | None \<Rightarrow> fish_show os L V rtc_fd s)))"

section \<open>The loops that wait for the clock\<close>

lemma tasklet_writes:
  assumes inv: "blink_inv L m is" and run: "mp1_rtc_tasklet L m = Some m'"
  shows "agree (span (blink_array L) 32000 \<union> span (vmem L m) 4000) m m'" and "vmem L m' = vmem L m"
proof -
  have lay: "layout L (vmem L m)" and lt: "set is \<subseteq> {..<2000}" using inv by (auto simp: blink_inv_def)
  have "agree ((\<Union>i\<in>set is. span (slot L i) 16) \<union> span (vmem L m) 4000) m m'"
    using inv run tasklet_loop_ticks [of L m "is" "load32 m (mp1_list_head L)"] by (auto simp: blink_inv_def mp1_rtc_tasklet_def)
  then show ag: "agree (span (blink_array L) 32000 \<union> span (vmem L m) 4000) m m'"
    by (rule agree_mono) (use lt slot_span in fastforce)
  show "vmem L m' = vmem L m" using lay by (intro vmem_agree [OF ag]) (auto simp: layout_def)
qed

text \<open>
  What the loops need of the system: while clock interrupts are to come, a read of the clock returns, takes one of them and leaves
  the memory of the program alone, and it keeps doing so whatever the program writes to the region \<open>W\<close>.
\<close>

locale clock_system =
  fixes os :: "'s os" and W :: "u32 set" and rtc_fd :: int and garbage :: u32 and pending :: "nat \<Rightarrow> 's \<Rightarrow> bool"
  assumes umem_set: "umem os (set_umem os m s) = m"
    and clock_read: "pending (Suc n) s \<Longrightarrow>
      \<exists>r s'. ece391_read os rtc_fd garbage 4 s = Inr (r, s') \<and> pending n s' \<and> umem os s' = umem os s"
    and pending_set: "pending n s \<Longrightarrow> agree W (umem os s) m \<Longrightarrow> pending n (set_umem os m s)"
begin

lemma clock_loop_ticks:
  assumes "pending n s" "blink_inv L (umem os s) is" "span (blink_array L) 32000 \<union> span (vmem L (umem os s)) 4000 \<subseteq> W"
  shows "\<exists>s'. clock_loop os L garbage rtc_fd n s = Some (Inr s') \<and> pending 0 s' \<and> blink_inv L (umem os s') is
    \<and> blinks L (umem os s') is = map (tick ^^ n) (blinks L (umem os s) is)"
  using assms
proof (induction n arbitrary: s)
  case 0
  then show ?case by simp
next
  case (Suc n)
  obtain r s1 where s1: "ece391_read os rtc_fd garbage 4 s = Inr (r, s1)" "pending n s1" "umem os s1 = umem os s"
    using clock_read [OF Suc.prems(1)] by blast
  obtain m where m: "mp1_rtc_tasklet L (umem os s) = Some m" "blink_inv L m is" "blinks L m is = map tick (blinks L (umem os s) is)"
    using rtc_tasklet_ticks [OF Suc.prems(2)] by blast
  note w = tasklet_writes [OF Suc.prems(2) m(1)]
  have p: "pending n (set_umem os m s1)"
    using s1 agree_mono [OF w(1) Suc.prems(3)] by (intro pending_set) simp_all
  obtain s' where "clock_loop os L garbage rtc_fd n (set_umem os m s1) = Some (Inr s')" "pending 0 s'"
      "blink_inv L (umem os s') is" "blinks L (umem os s') is = map (tick ^^ n) (blinks L m is)"
    using Suc.IH [OF p] m(2) w(2) Suc.prems(3) by (auto simp: umem_set)
  then show ?case
    using s1 m by (intro exI [of _ s']) (simp add: call_tasklet_def wait_then_def funpow_swap1)
qed

end

end
