(* ===== verification/Fishclock.thy ===== *)
theory Fishclock
  imports Fish Ustreams
begin

text \<open>
  The demonstration program \<^verbatim>\<open>fish\<close> on the kernel: a read of the clock's descriptor goes through the trap and the
  descriptor table to \<open>rtc_read\<close>, which waits for the interrupt of the clock. The kernel is an instance of the system the
  loops of \<open>main\<close> need, so that each interrupt of the clock advances every blinking character by one tick.
\<close>

section \<open>Waiting for the clock through the trap\<close>

text \<open>What the interrupt \<open>i\<close> does to the state.\<close>

definition irq_effect :: "env \<Rightarrow> registers \<Rightarrow> u32 \<Rightarrow> 'a kernel_scheme \<Rightarrow> 'a kernel_scheme" where
  "irq_effect env regs i s = (case irq_handler env (regs\<lparr>int_num := i\<rparr>) s of Inr s' \<Rightarrow> s' | Inl e \<Rightarrow> s)"

text \<open>The clock is open as \<open>fd\<close> in the current process.\<close>

definition clock_open :: "symbols \<Rightarrow> int \<Rightarrow> 'a sys_scheme \<Rightarrow> bool" where
  "clock_open sy fd s \<longleftrightarrow> symbols_ok sy \<and> 0 \<le> fd \<and> fd < 8 \<and> fd \<noteq> 1 \<and> process_count s \<in> {1..6}
     \<and> load32 (mem s) (in_use_at (current_pblock s) fd) AND USE \<noteq> 0
     \<and> load32 (mem s) (fop_ptr_at (current_pblock s) fd) = fops_rtc_functions sy \<and> function_read (fops_rtc s) = Fop_rtc_read"

text \<open>At least \<open>n\<close> interrupts of the clock are to come and none of the keyboard, and the descriptor is outside the region \<open>W\<close>.\<close>

definition clock_pending :: "symbols \<Rightarrow> u32 set \<Rightarrow> int \<Rightarrow> u32 \<Rightarrow> nat \<Rightarrow> u32 list \<times> 'a sys_scheme \<Rightarrow> bool" where
  "clock_pending sy W fd buf n = (\<lambda>(js, s). clock_open sy fd s \<and> buf \<noteq> 0 \<and> span (fd_at (current_pblock s) fd) 48 \<inter> W = {}
     \<and> 1 \<notin> set js \<and> n \<le> count_list js 8)"

lemma write_freq_proc:
  "process_count (snd (write_freq env f s)) = process_count s" "fops_rtc (snd (write_freq env f s)) = fops_rtc s"
  for s :: "'a kernel_scheme"
  by (auto simp: write_freq_def set_rate_def Let_def case_prod_beta outb_def inb_def cli_def sti_def split: option.splits)

lemma rtc_handler_proc:
  "process_count (rtc_handler env s) = process_count s" "fops_rtc (rtc_handler env s) = fops_rtc s" for s :: "'a kernel_scheme"
  by (simp_all add: rtc_handler_def clear_rtc_read_def Let_def outb_def inb_def write_freq_proc)

lemma send_eoi_proc:
  "process_count (send_eoi n s) = process_count s" "fops_rtc (send_eoi n s) = fops_rtc s" for s :: "'a kernel_scheme"
  by (induction n s rule: send_eoi.induct) (simp_all add: send_eoi.simps outb_def)

lemma irq_effect_keeps:
  assumes "i \<noteq> 1"
  shows "mem (irq_effect env regs i s) = mem s" "process_count (irq_effect env regs i s) = process_count s"
    "fops_rtc (irq_effect env regs i s) = fops_rtc s" "RTC_READ (irq_effect env regs i s) = (if i = 8 then 0 else RTC_READ s)"
  using assms
  by (simp_all add: irq_effect_def irq_handler_def pic_handler_def pit_handler_def Let_def cli_and_save_def restore_flags_def
      cli_def sti_def send_eoi_keeps send_eoi_proc rtc_handler_clears rtc_handler_proc)

lemma rtc_read_returns:
  fixes s :: "'a kernel_scheme"
  assumes "iflag s" and pre: "1 \<notin> set pre" "8 \<notin> set pre"
  shows "\<exists>s'. rtc_read (irq_effect env regs) (pre @ 8 # post) s = Inr (0, post, s') \<and> mem s' = mem s
    \<and> process_count s' = process_count s \<and> fops_rtc s' = fops_rtc s"
proof -
  let ?h = "irq_effect env regs" and ?w = "\<lambda>s :: 'a kernel_scheme. RTC_READ s \<noteq> 0"
  let ?P = "\<lambda>t :: 'a kernel_scheme. mem t = mem s \<and> process_count t = process_count s \<and> fops_rtc t = fops_rtc s"
  define u where "u = s\<lparr>RTC_READ := 1\<rparr>"
  have "\<forall>i\<in>set pre. \<forall>t. ?w t \<and> ?P t \<longrightarrow> ?w (restore_flags True (?h i t)) \<and> ?P (restore_flags True (?h i t))"
  proof (intro ballI allI impI)
    fix i and t :: "'a kernel_scheme"
    assume "i \<in> set pre" "?w t \<and> ?P t"
    moreover from this pre have "i \<noteq> 1" "i \<noteq> 8" by auto
    ultimately show "?w (restore_flags True (?h i t)) \<and> ?P (restore_flags True (?h i t))"
      by (simp add: restore_flags_def sti_def cli_def irq_effect_keeps)
  qed
  then have "\<exists>t. ?w t \<and> ?P t \<and> iflag t \<and> spin ?w ?h (pre @ 8 # post) u = spin ?w ?h (8 # post) t"
    using assms(1) by (intro spin_skip_inv) (simp_all add: u_def)
  then obtain t where t: "?w t" "?P t" "iflag t" "spin ?w ?h (pre @ 8 # post) u = spin ?w ?h (8 # post) t" by blast
  have "spin ?w ?h (8 # post) t = Some (post, restore_flags True (?h 8 t))"
    using t by (intro spin_wakes) (simp_all add: restore_flags_def sti_def cli_def irq_effect_keeps)
  with t show ?thesis
    by (simp add: rtc_read_def Let_def u_def [symmetric] opt_res_def irq_effect_keeps restore_flags_def sti_def cli_def)
qed

lemma read_sc_clock:
  assumes "clock_open sy fd s" "buf \<noteq> 0"
  shows "read_sc sy handler junk js fd buf n s = rtc_read handler js s"
proof -
  have "current_pblock s \<noteq> 0" "check_use fd s AND USE \<noteq> 0"
    using assms(1) pblock_nonzero [of s] check_use_load [of s fd] by (simp_all add: clock_open_def)
  moreover have "fops_of sy (fops_rtc_functions sy) s = Inr (fops_rtc s)"
    using assms(1) by (auto simp: fops_of_def clock_open_def symbols_ok_def)
  ultimately show ?thesis
    using assms by (simp add: read_sc_def Let_def clock_open_def call_read_def)
qed

lemma clock_open_cong:
  "mem s' = mem s \<Longrightarrow> process_count s' = process_count s \<Longrightarrow> fops_rtc s' = fops_rtc s \<Longrightarrow> clock_open sy fd s' = clock_open sy fd s"
  by (simp add: clock_open_def)

interpretation fclock: clock_system "kernel_os sy env (irq_effect env regs) lo literals" W fd buf "clock_pending sy W fd buf"
  for sy env regs lo literals W fd buf
proof
  fix m and st :: "u32 list \<times> 'a kernel_scheme"
  obtain js s where st: "st = (js, s)" by (cases st)
  show "umem (kernel_os sy env (irq_effect env regs) lo literals) (set_umem (kernel_os sy env (irq_effect env regs) lo literals) m st) = m"
    by (simp add: st)
next
  fix n and st :: "u32 list \<times> 'a kernel_scheme"
  assume p: "clock_pending sy W fd buf (Suc n) st"
  obtain js s where st: "st = (js, s)" by (cases st)
  have o: "clock_open sy fd s" "span (fd_at (current_pblock s) fd) 48 \<inter> W = {}" "1 \<notin> set js" "Suc n \<le> count_list js 8" "buf \<noteq> 0"
    using p by (simp_all add: clock_pending_def st)
  then have "8 \<in> set js" using count_notin by fastforce
  then obtain pre post where js: "js = pre @ 8 # post" "8 \<notin> set pre" using split_list_first by metis
  let ?s = "restore_flags True s"
  obtain s' where s': "rtc_read (irq_effect env regs) js ?s = Inr (0, post, s')" "mem s' = mem s"
      "process_count s' = process_count s" "fops_rtc s' = fops_rtc s"
    using rtc_read_returns [of ?s pre env regs post] o(3) js by (auto simp: restore_flags_def sti_def)
  have "clock_open sy fd ?s" using o(1) by (simp add: clock_open_def restore_flags_def sti_def)
  then have "ece391_read (kernel_os sy env (irq_effect env regs) lo literals) fd buf 4 (js, s) = Inr (0, (post, restore_flags (iflag s) s'))"
    using s' o(1,5) by (intro kernel_read) (simp_all add: read_sc_clock clock_open_def)
  moreover have "clock_pending sy W fd buf n (post, restore_flags (iflag s) s')"
    using o js s' clock_open_cong [of "restore_flags (iflag s) s'" s] by (simp add: clock_pending_def restore_flags_def sti_def cli_def)
  ultimately show "\<exists>r s'. ece391_read (kernel_os sy env (irq_effect env regs) lo literals) fd buf 4 st = Inr (r, s')
      \<and> clock_pending sy W fd buf n s' \<and> umem (kernel_os sy env (irq_effect env regs) lo literals) s' = umem (kernel_os sy env (irq_effect env regs) lo literals) st"
    using s' by (auto simp: st restore_flags_def sti_def cli_def)
next
  fix n m and st :: "u32 list \<times> 'a kernel_scheme"
  assume p: "clock_pending sy W fd buf n st" and ag: "agree W (umem (kernel_os sy env (irq_effect env regs) lo literals) st) m"
  obtain js s where st: "st = (js, s)" by (cases st)
  have o: "clock_open sy fd s" "span (fd_at (current_pblock s) fd) 48 \<inter> W = {}" "1 \<notin> set js" "n \<le> count_list js 8" "buf \<noteq> 0"
    using p by (simp_all add: clock_pending_def st)
  have "span (fd_at (current_pblock s) fd) 4 \<inter> W = {}" "span (fd_at (current_pblock s) fd + 44) 4 \<inter> W = {}"
    using o(2) span_mono [of 4 48 "fd_at (current_pblock s) fd"] sub_span [of 44 4 48 "fd_at (current_pblock s) fd"] by auto
  note l = this [THEN agree_load32 [OF ag]]
  then show "clock_pending sy W fd buf n (set_umem (kernel_os sy env (irq_effect env regs) lo literals) m st)"
    using o by (simp add: clock_pending_def st clock_open_def)
qed

section \<open>The program and the clock\<close>

text \<open>
  C17. When \<open>n\<close> interrupts of the clock arrive, among any others but the keyboard's, the loop of \<open>main\<close> that waits \<open>n\<close>
  times for the clock ends, the kernel takes it through each of them, and every blinking character has
  advanced by exactly \<open>n\<close> ticks.
\<close>

theorem clock_advances_blinks:
  fixes s :: "'a kernel_scheme"
  assumes "clock_pending sy (span (blink_array L) 32000 \<union> span (vmem L (mem s)) 4000) fd garbage n (js, s)"
    and "blink_inv L (mem s) is"
  shows "\<exists>js' s'. clock_loop (kernel_os sy env (irq_effect env regs) lo literals) L garbage fd n (js, s) = Some (Inr (js', s'))
    \<and> blink_inv L (mem s') is \<and> blinks L (mem s') is = map (tick ^^ n) (blinks L (mem s) is)"
proof -
  let ?os = "kernel_os sy env (irq_effect env regs) lo literals :: (u32 list \<times> 'a kernel_scheme) os"
  have "blink_inv L (umem ?os (js, s)) is"
    "span (blink_array L) 32000 \<union> span (vmem L (umem ?os (js, s))) 4000 \<subseteq> span (blink_array L) 32000 \<union> span (vmem L (mem s)) 4000"
    using assms(2) by simp_all
  from fclock.clock_loop_ticks [OF assms(1) this] show ?thesis by auto
qed

text \<open>The example's list with the clock open as descriptor 2 of the first process.\<close>

definition with_clock :: "mem \<Rightarrow> mem" where
  "with_clock m = store32 (store32 m (fd_at (pcb_addr 1) 2) 0x410020) (fd_at (pcb_addr 1) 2 + 44) 1"

definition clock_state :: "mem \<Rightarrow> kernel" where
  "clock_state m = (systemcalls_initialize kernel_boot)\<lparr>process_count := 1, mem := with_clock m\<rparr>"

lemma with_clock_agree: "agree (span (fd_at (pcb_addr 1) 2) 48) m (with_clock m)"
  by (simp add: with_clock_def add.assoc)

lemma clock_state_open: "clock_open sample_symbols 2 (clock_state m)"
  by (simp add: clock_open_def clock_state_def with_clock_def systemcalls_initialize_def symbols_ok_def sample_symbols_def
      load32_store32 load32_store32_other)

lemma with_clock_example:
  assumes "blink_inv example_symbols m [i]" "vmem example_symbols m = 0x10000"
  shows "blink_inv example_symbols (with_clock m) [i]" "blinks example_symbols (with_clock m) [i] = blinks example_symbols m [i]"
    "vmem example_symbols (with_clock m) = 0x10000"
proof -
  have "apart example_symbols (vmem example_symbols m) (fd_at (pcb_addr 1) 2) 48"
    unfolding assms(2) by (simp add: apart_def example_symbols_def fd_at_def pcb_addr_def span_apart)
  note w = apart_write [OF assms(1) this with_clock_agree]
  show "blink_inv example_symbols (with_clock m) [i]" "blinks example_symbols (with_clock m) [i] = blinks example_symbols m [i]"
    "vmem example_symbols (with_clock m) = 0x10000" using w assms by simp_all
qed

theorem clock_advances_blinks_witness:
  "\<exists>m i js' s'. mp1_ioctl_add example_symbols 0x30000 0x20000 example_mem = (0, m)
    \<and> clock_loop (kernel_os sample_symbols (\<lambda>p es. 0) (irq_effect (\<lambda>p es. 0) (registers.make 0 0 0 0 0 0 0 0 0 0 0 0 0 0 0))
        exec_stack (\<lambda>_. 0)) example_symbols 0x83FFF00 2 3 ([8, 0, 12, 8, 0, 8, 8], clock_state m) = Some (Inr (js', s'))
    \<and> blinks example_symbols (mem s') [i] = [(tick ^^ 3) (fresh example_blink)]"
proof -
  obtain m i where m: "mp1_ioctl_add example_symbols 0x30000 0x20000 example_mem = (0, m)" "blink_inv example_symbols m [i]"
    "blinks example_symbols m [i] = [fresh example_blink]" "vmem example_symbols m = 0x10000" using example_added by blast
  note w = with_clock_example [OF m(2,4)]
  have ms: "mem (clock_state m) = with_clock m" by (simp add: clock_state_def)
  have "clock_pending sample_symbols (span (blink_array example_symbols) 32000 \<union> span (vmem example_symbols (mem (clock_state m))) 4000)
      2 0x83FFF00 3 ([8, 0, 12, 8, 0, 8, 8], clock_state m)"
    using clock_state_open [of m] w(3)
    by (simp add: clock_pending_def ms Int_Un_distrib) (simp add: clock_state_def example_symbols_def fd_at_def pcb_addr_def span_apart)
  from clock_advances_blinks [OF this, of "[i]" "\<lambda>p es. 0" "registers.make 0 0 0 0 0 0 0 0 0 0 0 0 0 0 0" exec_stack "\<lambda>_. 0"] w m
  show ?thesis by (auto simp: ms)
qed

end
