(* ===== verification/Emulate.thy ===== *)
theory Emulate
  imports Ulib Kregion
begin

text \<open>
  The emulation of the system calls under a Linux host, \<^verbatim>\<open>syscalls/ece391emulate.c\<close>, with which the user programs can be
  run and debugged outside the kernel. The host is a record of what its library and its own system calls do. The
  lemmas show that the splitting of a command into words, the joining of the arguments and the copying of directory names are right
  for every command, argument list and name.
\<close>

section \<open>The host and the state of the emulation\<close>

text \<open>
  What the code calls of the host, on the memory of the process and a host state: interrupt 128 with four
  registers, \<open>opendir\<close> of the current directory, \<open>readdir\<close> (the address of the name, 0 at the end), \<open>closedir\<close>, \<open>open\<close>, \<open>close\<close>,
  \<open>mmap\<close> of the first megabyte of a descriptor, and the status that \<open>wait\<close> gives for a child that calls \<open>execv\<close> with a path and
  arguments and kills itself with signal 9 if that returns.
\<close>

record 'h host =
  int80 :: "u32 \<Rightarrow> u32 \<Rightarrow> u32 \<Rightarrow> u32 \<Rightarrow> mem \<times> 'h \<Rightarrow> u32 \<times> mem \<times> 'h"
  h_opendir :: "'h \<Rightarrow> u32 \<times> 'h"
  h_readdir :: "u32 \<Rightarrow> mem \<times> 'h \<Rightarrow> u32 \<times> mem \<times> 'h"
  h_closedir :: "u32 \<Rightarrow> 'h \<Rightarrow> 'h"
  h_open :: "string \<Rightarrow> u32 \<Rightarrow> 'h \<Rightarrow> int \<times> 'h"
  h_close :: "int \<Rightarrow> 'h \<Rightarrow> 'h"
  h_mmap :: "int \<Rightarrow> 'h \<Rightarrow> u32 \<times> 'h"
  h_spawn :: "mem \<Rightarrow> u32 \<Rightarrow> u32 list \<Rightarrow> 'h \<Rightarrow> u32 \<times> 'h"

record 'h emu =
  emem :: mem
  start_esp :: u32
  dir :: u32
  dir_fd :: int
  mem_fd :: int
  hstate :: 'h

section \<open>The calls\<close>

text \<open>\<open>DO_CALL\<close>: results above \<open>0xFFFFC000\<close> are errors.\<close>

definition do_call :: "'h host \<Rightarrow> u32 \<Rightarrow> u32 \<Rightarrow> u32 \<Rightarrow> u32 \<Rightarrow> 'h emu \<Rightarrow> int \<times> 'h emu" where
  "do_call H number ebx ecx edx s =
     (let (eax, m, h) = int80 H number ebx ecx edx (emem s, hstate s)
      in ((if eax \<le> 0xFFFFC000 then sint eax else - 1), s\<lparr>emem := m, hstate := h\<rparr>))"

text \<open>A separator ends a word; the loops over \<open>scan\<close>.\<close>

definition word_end :: "u8 \<Rightarrow> bool" where
  "word_end c \<longleftrightarrow> c = 0 \<or> c = 32 \<or> c = 10"

partial_function (option) skip_word :: "mem \<Rightarrow> u32 \<Rightarrow> u32 option" where
  "skip_word m scan = (if \<not> word_end (m scan) then skip_word m (scan + 1) else Some scan)"

partial_function (option) skip_spaces :: "mem \<Rightarrow> u32 \<Rightarrow> u32 option" where
  "skip_spaces m scan = (if m scan = 32 then skip_spaces m (scan + 1) else Some scan)"

text \<open>The loop over the arguments; \<open>args\<close> has 1024 elements, of which the last is for the terminating null pointer.\<close>

partial_function (option) parse_args :: "mem \<Rightarrow> u32 \<Rightarrow> u32 list \<Rightarrow> (mem \<times> u32 list) res option" where
  "parse_args m scan args =
     Option.bind (skip_spaces m scan) (\<lambda>scan.
       if m scan = 0 \<or> m scan = 10 then Some (Inr (m(scan := 0), args))
       else if 1024 \<le> length args then Some (Inl Bounds)
       else let args = args @ [scan]
            in Option.bind (skip_word m scan) (\<lambda>scan.
                 if m scan \<noteq> 0 then parse_args (m(scan := 0)) (scan + 1) args
                 else parse_args m scan args))"

text \<open>\<open>WIFEXITED\<close>, \<open>WEXITSTATUS\<close> and \<open>WTERMSIG\<close> of the host's library.\<close>

definition exit_code :: "u32 \<Rightarrow> int" where
  "exit_code status =
     (if status AND 0x7F = 0 then uint (drop_bit 8 status AND 0xFF)
      else if status AND 0x7F = 9 then - 1 else 256)"

text \<open>The words of a command: the copy in \<open>buf\<close> with \<open>./\<close> in front, and the pointers to the words in it.\<close>

definition split_command :: "u32 \<Rightarrow> u32 \<Rightarrow> mem \<Rightarrow> (mem \<times> u32 list) res" where
  "split_command buf command m =
     res_bind (opt_res No_return (ece391_strcpy (m(buf := of_char (CHR ''.''), buf + 1 := of_char (CHR ''/''))) (buf + 2) command)) (\<lambda>m.
     res_bind (opt_res No_return (skip_word m (buf + 2))) (\<lambda>scan.
       if m scan \<noteq> 0
       then res_bind (opt_res No_return (parse_args (m(scan := 0)) (scan + 1) [buf])) (\<lambda>r. r)
       else Inr (m, [buf])))"

definition emu_execute :: "'h host \<Rightarrow> u32 \<Rightarrow> u32 \<Rightarrow> 'h emu \<Rightarrow> (int \<times> 'h emu) res" where
  "emu_execute H buf command s =
     res_bind (opt_res No_return (ece391_strlen (emem s) command)) (\<lambda>len.
       if 1023 < len then Inr (- 1, s)
       else res_bind (split_command buf command (emem s)) (\<lambda>(m, args).
         if 1024 \<le> length args then Inl Bounds
         else let (status, h) = h_spawn H m buf args (hstate s)
              in Inr (exit_code status, s\<lparr>emem := m, hstate := h\<rparr>)))"

text \<open>\<open>dot\<close> is the address of the string constant.\<close>

definition emu_open :: "'h host \<Rightarrow> u32 \<Rightarrow> u32 \<Rightarrow> 'h emu \<Rightarrow> (int \<times> 'h emu) res" where
  "emu_open H dot filename s =
     res_bind (opt_res No_return (ece391_strcmp (emem s) filename dot)) (\<lambda>c.
       if 0 = c then
         let (d, h) = h_opendir H (hstate s);
             (fd, h) = h_open H ''/dev/null'' 0 h
         in Inr (fd, s\<lparr>dir := d, dir_fd := fd, hstate := h\<rparr>)
       else
         let (rval, m, h) = int80 H 5 filename 0 0 (emem s, hstate s);
             s = s\<lparr>emem := m, hstate := h\<rparr>
         in Inr (if 0xFFFFC000 < rval then (- 1, s) else (sint rval, s)))"

function join_args :: "mem \<Rightarrow> u32 \<Rightarrow> int \<Rightarrow> u32 \<Rightarrow> int \<Rightarrow> int \<Rightarrow> (int \<times> mem) res" where
  "join_args m argv argc buf nbytes idx =
     (if idx < argc then
        res_bind (opt_res No_return (ece391_strlen m (load32 m (argv + 4 * word_of_int idx)))) (\<lambda>len.
        let len = sint len
        in if nbytes < len then Inr (- 1, m)
           else res_bind (opt_res No_return (ece391_strcpy m buf (load32 m (argv + 4 * word_of_int idx)))) (\<lambda>m.
             let buf = buf + word_of_int len;
                 nbytes = nbytes - len
             in if argc \<le> idx + 1 then (if nbytes < 1 then Inr (- 1, m) else Inr (0, m(buf := 0)))
                else if nbytes < 1 then Inr (- 1, m)
                else join_args (m(buf := of_char (CHR '' ''))) argv argc (buf + 1) (nbytes - 1) (idx + 1)))
      else if nbytes < 1 then Inr (- 1, m) else Inr (0, m(buf := 0)))"
  by pat_completeness auto
termination
  by (relation "measure (\<lambda>(m, argv, argc, buf, nbytes, idx). nat (argc - idx))") auto

declare join_args.simps [simp del]

definition emu_getargs :: "u32 \<Rightarrow> int \<Rightarrow> 'h emu \<Rightarrow> (int \<times> 'h emu) res" where
  "emu_getargs buf nbytes s =
     res_bind (join_args (emem s) (start_esp s + 4) (sint (load32 (emem s) (start_esp s))) buf nbytes 1) (\<lambda>(r, m).
       Inr (r, s\<lparr>emem := m\<rparr>))"

definition emu_vidmap :: "'h host \<Rightarrow> u32 \<Rightarrow> 'h emu \<Rightarrow> int \<times> 'h emu" where
  "emu_vidmap H screen_start s =
     (let s = (if mem_fd s = - 1 then let (fd, h) = h_open H ''/dev/mem'' 2 (hstate s) in s\<lparr>mem_fd := fd, hstate := h\<rparr> else s);
          (mem_image, h) = h_mmap H (mem_fd s) (hstate s);
          s = s\<lparr>hstate := h\<rparr>
      in if mem_image = - 1 then (- 1, s)
         else (0, s\<lparr>emem := store32 (emem s) screen_start (mem_image + 0xB8000)\<rparr>))"

text \<open>Copying a name: the memory, and either the count to return or the pointer and the count at the end of the name.\<close>

partial_function (option) copy_name :: "mem \<Rightarrow> u32 \<Rightarrow> u32 \<Rightarrow> int \<Rightarrow> int \<Rightarrow> (mem \<times> (int + u32 \<times> int)) option" where
  "copy_name m to from nbytes copied =
     (if m from \<noteq> 0 then
        let m = m(to := m from);
            copied = copied + 1
        in if copied = nbytes then Some (m, Inl nbytes)
           else if 32 = copied then Some (m, Inl 32)
           else copy_name m (to + 1) (from + 1) nbytes copied
      else Some (m, Inr (to, copied)))"

function pad_name :: "mem \<Rightarrow> u32 \<Rightarrow> int \<Rightarrow> int \<Rightarrow> int \<times> mem" where
  "pad_name m to nbytes copied =
     (if copied < nbytes \<and> copied < 32 then pad_name (m(to := 0)) (to + 1) nbytes (copied + 1) else (copied, m))"
  by pat_completeness auto
termination
  by (relation "measure (\<lambda>(m, to, nbytes, copied). nat (32 - copied))") auto

declare pad_name.simps [simp del]

definition give_name :: "mem \<Rightarrow> u32 \<Rightarrow> u32 \<Rightarrow> int \<Rightarrow> (int \<times> mem) res" where
  "give_name m to from nbytes =
     res_bind (opt_res No_return (copy_name m to from nbytes 0)) (\<lambda>(m, r).
       case r of Inl n \<Rightarrow> Inr (n, m) | Inr (to, copied) \<Rightarrow> Inr (pad_name m to nbytes copied))"

definition emu_read :: "'h host \<Rightarrow> int \<Rightarrow> u32 \<Rightarrow> int \<Rightarrow> 'h emu \<Rightarrow> (int \<times> 'h emu) res" where
  "emu_read H fd buf nbytes s =
     (if dir s = 0 \<or> dir_fd s \<noteq> fd then Inr (do_call H 3 (word_of_int fd) buf (word_of_int nbytes) s)
      else let (d_name, m, h) = h_readdir H (dir s) (emem s, hstate s);
               s = s\<lparr>emem := m, hstate := h\<rparr>
           in if d_name = 0 then Inr (0, s)
              else res_bind (give_name (emem s) buf d_name nbytes) (\<lambda>(r, m). Inr (r, s\<lparr>emem := m\<rparr>)))"

definition emu_write :: "'h host \<Rightarrow> int \<Rightarrow> u32 \<Rightarrow> int \<Rightarrow> 'h emu \<Rightarrow> int \<times> 'h emu" where
  "emu_write H fd buf nbytes s =
     (if dir s = 0 \<or> dir_fd s \<noteq> fd then do_call H 4 (word_of_int fd) buf (word_of_int nbytes) s else (- 1, s))"

definition emu_close :: "'h host \<Rightarrow> int \<Rightarrow> 'h emu \<Rightarrow> int \<times> 'h emu" where
  "emu_close H fd s =
     (if dir s = 0 \<or> dir_fd s \<noteq> fd then do_call H 6 (word_of_int fd) 0 0 s
      else let s = s\<lparr>hstate := h_closedir H (dir s) (hstate s), dir := 0\<rparr>;
               s = s\<lparr>hstate := h_close H (dir_fd s) (hstate s), dir_fd := - 1\<rparr>
           in (0, s))"

text \<open>\<open>_start\<close>: the stack pointer is kept for \<open>ece391_getargs\<close>, and the result of \<open>main\<close> goes to \<open>ece391_halt\<close>.\<close>

definition emu_start :: "'h host \<Rightarrow> u32 \<Rightarrow> ('h emu \<Rightarrow> (int \<times> 'h emu) res) \<Rightarrow> 'h emu \<Rightarrow> (int \<times> 'h emu) res" where
  "emu_start H esp main s =
     res_bind (main (s\<lparr>start_esp := esp\<rparr>)) (\<lambda>(r, s). Inr (do_call H 1 (word_of_int r) 0 0 s))"

section \<open>The words of a command\<close>

text \<open>The reference: the words of the rest of a line, after its spaces.\<close>

function arg_words :: "u8 list \<Rightarrow> u8 list list" where
  "arg_words xs =
     (let ys = dropWhile (\<lambda>c. c = 32) xs
      in if ys = [] \<or> word_end (hd ys) then []
         else takeWhile (\<lambda>c. \<not> word_end c) ys # arg_words (drop 1 (dropWhile (\<lambda>c. \<not> word_end c) ys)))"
  by pat_completeness auto
termination
proof (relation "measure length")
  fix xs ys :: "u8 list"
  assume ys: "ys = dropWhile (\<lambda>c. c = 32) xs" and ne: "\<not> (ys = [] \<or> word_end (hd ys))"
  from ne obtain c zs where c: "ys = c # zs" "\<not> word_end c" by (cases ys) auto
  have "length (dropWhile (\<lambda>c. \<not> word_end c) zs) \<le> length zs" by (rule length_dropWhile_le)
  moreover have "length ys \<le> length xs" unfolding ys by (rule length_dropWhile_le)
  ultimately show "(drop 1 (dropWhile (\<lambda>c. \<not> word_end c) ys), xs) \<in> measure length" using c by simp
qed simp

declare arg_words.simps [simp del]

definition command_words :: "u8 list \<Rightarrow> u8 list list" where
  "command_words cs = (of_char (CHR ''.'') # of_char (CHR ''/'') # takeWhile (\<lambda>c. \<not> word_end c) cs)
     # arg_words (drop 1 (dropWhile (\<lambda>c. \<not> word_end c) cs))"

lemma arg_words_few: "2 * length (arg_words xs) \<le> Suc (length xs)"
proof (induction xs rule: arg_words.induct)
  case (1 xs)
  let ?ys = "dropWhile (\<lambda>c. c = 32) xs"
  let ?rest = "dropWhile (\<lambda>c. \<not> word_end c) ?ys"
  show ?case
  proof (cases "?ys = [] \<or> word_end (hd ?ys)")
    case True
    then show ?thesis by (simp add: arg_words.simps)
  next
    case False
    then have IH: "2 * length (arg_words (drop 1 ?rest)) \<le> Suc (length (drop 1 ?rest))" using "1" by blast
    define nw nr where "nw = length (takeWhile (\<lambda>c. \<not> word_end c) ?ys)" and "nr = length ?rest"
    have "takeWhile (\<lambda>c. \<not> word_end c) ?ys \<noteq> []" using False by (cases ?ys) auto
    then have "1 \<le> nw" by (simp add: nw_def Suc_le_eq)
    moreover have "nw + nr = length ?ys" unfolding nw_def nr_def by (metis length_append takeWhile_dropWhile_id)
    moreover have "length ?ys \<le> length xs" by (rule length_dropWhile_le)
    moreover have "length (arg_words xs) = Suc (length (arg_words (drop 1 ?rest)))"
      using False by (simp add: arg_words.simps [of xs] Let_def)
    moreover have "length (arg_words (drop 1 ?rest)) = 0" if "nr = 0"
      using that unfolding nr_def length_0_conv by (simp only: drop_Nil) (simp add: arg_words.simps)
    moreover have "2 * length (arg_words (drop 1 ?rest)) \<le> Suc (nr - 1)" using IH by (simp add: nr_def)
    ultimately show ?thesis by linarith
  qed
qed

lemma skip_word_stops:
  "holds_str (ptr_at m p) xs \<Longrightarrow> skip_word m p = Some (p + of_nat (length (takeWhile (\<lambda>c. \<not> word_end c) xs)))
    \<and> holds_str (ptr_at m (p + of_nat (length (takeWhile (\<lambda>c. \<not> word_end c) xs)))) (dropWhile (\<lambda>c. \<not> word_end c) xs)"
proof (induction xs arbitrary: p)
  case Nil
  then show ?case by (subst skip_word.simps) (simp add: holds_str_Nil word_end_def)
next
  case (Cons x xs)
  then have "m p = x" "holds_str (ptr_at m (p + 1)) xs" by (simp_all add: holds_str_Cons)
  with Cons.IH [of "p + 1"] Cons.prems show ?case by (subst skip_word.simps) (simp add: add.assoc)
qed

lemma skip_spaces_stops:
  "holds_str (ptr_at m p) xs \<Longrightarrow> skip_spaces m p = Some (p + of_nat (length (takeWhile (\<lambda>c. c = 32) xs)))
    \<and> holds_str (ptr_at m (p + of_nat (length (takeWhile (\<lambda>c. c = 32) xs)))) (dropWhile (\<lambda>c. c = 32) xs)"
proof (induction xs arbitrary: p)
  case Nil
  then show ?case by (subst skip_spaces.simps) (simp add: holds_str_Nil)
next
  case (Cons x xs)
  then have "m p = x" "holds_str (ptr_at m (p + 1)) xs" by (simp_all add: holds_str_Cons)
  with Cons.IH [of "p + 1"] Cons.prems show ?case by (subst skip_spaces.simps) (simp add: add.assoc)
qed

text \<open>Ending the word at \<open>p\<close>, of length \<open>k\<close>, by a zero.\<close>

lemma holds_str_take:
  assumes "holds_str (ptr_at m p) xs" "k \<le> length xs"
  shows "holds_str (ptr_at (m(p + of_nat k := 0)) p) (take k xs)"
proof -
  have "p + of_nat i \<noteq> p + of_nat k" if "i < k" for i
  proof
    assume "p + of_nat i = p + of_nat k"
    then have "unat (of_nat i :: u32) = unat (of_nat k :: u32)" by simp
    moreover have "i < 2 ^ 32" "k < 2 ^ 32" using that assms by (simp_all add: holds_str_def)
    ultimately show False using that by (simp only: unat_of_nat32)
  qed
  with assms show ?thesis by (simp add: holds_str_def)
qed

abbreviation (input) strings :: "mem \<Rightarrow> u32 list \<Rightarrow> u8 list list \<Rightarrow> bool" where
  "strings m ps ws \<equiv> list_all2 (\<lambda>p w. holds_str (ptr_at m p) w) ps ws"

lemma parse_args_end:
  assumes "skip_spaces m p = Some q" "m q = 0 \<or> m q = 10"
  shows "parse_args m p args = Some (Inr (m(q := 0), args))"
  using assms by (subst parse_args.simps) auto

lemma parse_args_word:
  assumes "skip_spaces m p = Some q" "m q \<noteq> 0" "m q \<noteq> 10" "length args < 1024" "skip_word m q = Some r"
  shows "parse_args m p args = (if m r \<noteq> 0 then parse_args (m(r := 0)) (r + 1) (args @ [q]) else parse_args m r (args @ [q]))"
  using assms by (subst parse_args.simps) (simp add: Let_def)

lemma parse_args_none:
  assumes str: "holds_str (ptr_at m p) xs" and none: "dropWhile (\<lambda>c. c = 32) xs = [] \<or> word_end (hd (dropWhile (\<lambda>c. c = 32) xs))"
  shows "\<exists>m'. parse_args m p args = Some (Inr (m', args)) \<and> agree (span p (Suc (length xs))) m m'"
proof -
  let ?k = "length (takeWhile (\<lambda>c. c = 32) xs)" and ?ys = "dropWhile (\<lambda>c. c = 32) xs"
  let ?q = "p + of_nat ?k"
  have ys: "skip_spaces m p = Some ?q" "holds_str (ptr_at m ?q) ?ys" using skip_spaces_stops [OF str] by simp_all
  have end_q: "m ?q = 0 \<or> m ?q = 10"
  proof (cases ?ys)
    case Nil
    from ys(2) [unfolded Nil] show ?thesis by (simp add: holds_str_Nil)
  next
    case (Cons c zs)
    then have "c \<noteq> 32" using hd_dropWhile [of "\<lambda>c. c = 32" xs] by force
    then show ?thesis using none ys(2) by (simp add: Cons holds_str_Cons word_end_def)
  qed
  have "?k + length ?ys = length xs" using length_append [of "takeWhile (\<lambda>c. c = 32) xs" ?ys] by simp
  then have "?q \<in> span p (Suc (length xs))" using str by (intro in_span) (simp_all add: holds_str_def)
  then have "agree (span p (Suc (length xs))) m (m(?q := 0))" by simp
  with parse_args_end [OF ys(1) end_q] show ?thesis by blast
qed

lemma parse_args_words:
  "holds_str (ptr_at m p) xs \<Longrightarrow> length args + length (arg_words xs) \<le> 1024 \<Longrightarrow>
    \<exists>m' ps. parse_args m p args = Some (Inr (m', args @ ps)) \<and> strings m' ps (arg_words xs)
      \<and> agree (span p (Suc (length xs))) m m'"
proof (induction xs arbitrary: m p args rule: arg_words.induct)
  case (1 xs)
  let ?k = "length (takeWhile (\<lambda>c. c = 32) xs)" and ?ys = "dropWhile (\<lambda>c. c = 32) xs"
  let ?q = "p + of_nat ?k"
  let ?w = "takeWhile (\<lambda>c. \<not> word_end c) ?ys" and ?rest = "dropWhile (\<lambda>c. \<not> word_end c) ?ys"
  let ?r = "?q + of_nat (length ?w)"
  have len: "length xs < 2 ^ 32" "?k + length ?ys = length xs" "length ?w + length ?rest = length ?ys"
    using "1.prems"(1) length_append [of "takeWhile (\<lambda>c. c = 32) xs" ?ys] length_append [of ?w ?rest]
    by (simp_all add: holds_str_def)
  have ys: "skip_spaces m p = Some ?q" "holds_str (ptr_at m ?q) ?ys" using skip_spaces_stops [OF "1.prems"(1)] by simp_all
  show ?case
  proof (cases "?ys = [] \<or> word_end (hd ?ys)")
    case True
    then have "arg_words xs = []" by (simp add: arg_words.simps)
    then show ?thesis using parse_args_none [OF "1.prems"(1) True, of args] by auto
  next
    case False
    have wd: "arg_words xs = ?w # arg_words (drop 1 ?rest)" using False by (simp add: arg_words.simps [of xs] Let_def)
    have q: "m ?q \<noteq> 0" "m ?q \<noteq> 10" using False ys(2) by (cases ?ys; simp add: holds_str_Cons word_end_def)+
    have sw: "skip_word m ?q = Some ?r" "holds_str (ptr_at m ?r) ?rest" using skip_word_stops [OF ys(2)] by simp_all
    have room: "length args < 1024" "length (args @ [?q]) + length (arg_words (drop 1 ?rest)) \<le> 1024" using "1.prems"(2) by (simp_all add: wd)
    have w: "holds_str (ptr_at (m(?r := 0)) ?q) ?w"
      using holds_str_take [OF ys(2), of "length ?w"] len by (simp add: takeWhile_eq_take [symmetric])
    note step = parse_args_word [OF ys(1) q room(1) sw(1)]
    show ?thesis
    proof (cases ?rest)
      case Nil
      from sw(2) [unfolded Nil] have r: "m ?r = 0" by (simp add: holds_str_Nil)
      then have "skip_spaces m ?r = Some ?r" by (subst skip_spaces.simps) simp
      then have "parse_args m p args = Some (Inr (m(?r := 0), args @ [?q]))"
        unfolding step using r by (simp add: parse_args_end)
      moreover have "m(?r := 0) = m" using r by auto
      ultimately show ?thesis using w by (intro exI [of _ m] exI [of _ "[?q]"]) (simp add: wd Nil arg_words.simps [of "[]"])
    next
      case (Cons c zs)
      define m1 where "m1 = m(?r := 0)"
      have r: "m ?r \<noteq> 0" "holds_str (ptr_at m (?r + 1)) zs" using sw(2) by (simp_all add: Cons holds_str_Cons)
      have lz: "?k + length ?w + Suc (length zs) = length xs" using len by (simp add: Cons)
      have dz: "drop 1 ?rest = zs" by (simp add: Cons)
      have "agree (span ?r 1) m m1" by (simp add: m1_def)
      moreover have "span (?r + 1) (Suc (length zs)) \<inter> span ?r 1 = {}"
        using span_next [of 1 "Suc (length zs)" ?r] len lz by auto
      ultimately have "holds_str (ptr_at m1 (?r + 1)) zs" using r(2) by (rule holds_str_agree)
      from "1.IH" [OF refl False, unfolded dz, OF this room(2) [unfolded dz]]
      obtain m' ps where m': "parse_args m1 (?r + 1) (args @ [?q]) = Some (Inr (m', (args @ [?q]) @ ps))"
          "strings m' ps (arg_words zs)" "agree (span (?r + 1) (Suc (length zs))) m1 m'" by blast
      have "span ?q (Suc (length ?w)) \<inter> span (?q + of_nat (Suc (length ?w))) (Suc (length zs)) = {}"
        using len lz by (intro span_next) simp
      then have "holds_str (ptr_at m' ?q) ?w" using w by (intro holds_str_agree [OF m'(3)]) (simp_all add: m1_def ac_simps)
      moreover have "agree (span p (Suc (length xs))) m m'"
      proof (rule agree_trans)
        have "p + of_nat (?k + length ?w) \<in> span p (Suc (length xs))" using len lz by (intro in_span) simp_all
        then show "agree (span p (Suc (length xs))) m m1" by (simp add: m1_def add.assoc)
        have "span (p + of_nat (?k + length ?w + 1)) (Suc (length zs)) \<subseteq> span p (Suc (length xs))"
          using len lz by (intro sub_span) simp_all
        then show "agree (span p (Suc (length xs))) m1 m'" using m'(3) by (elim agree_mono) (simp add: ac_simps)
      qed
      moreover have "parse_args m p args = Some (Inr (m', args @ ?q # ps))" unfolding step using r(1) m'(1) by (simp add: m1_def)
      ultimately show ?thesis using m'(2) by (intro exI [of _ m'] exI [of _ "?q # ps"]) (simp add: wd [unfolded dz])
    qed
  qed
qed

section \<open>Commands\<close>

lemma strcpy_buffer:
  assumes str: "holds_str (ptr_at m src) xs" and dj: "span dest (Suc (length xs)) \<inter> span src (Suc (length xs)) = {}"
  shows "\<exists>m'. ece391_strcpy m dest src = Some m' \<and> holds_str (ptr_at m' dest) xs \<and> agree (span dest (Suc (length xs))) m m'"
proof -
  let ?m' = "blit m dest (Suc (length xs)) (\<lambda>k. if k < length xs then xs ! k else 0)"
  have len: "length xs < 2 ^ 32" using str by (simp add: holds_str_def)
  have "ece391_strcpy m dest src = Some ?m'"
    unfolding ece391_strcpy_eq
  proof (rule strcpy_copy [where src = "\<lambda>m. ptr_at m src", OF str])
    fix m' :: mem and v :: u8 and j k
    assume jk: "j \<le> length xs" "k < j"
    then have "dest + of_nat k \<in> span dest (Suc (length xs))" "src + of_nat j \<in> span src (Suc (length xs))"
      using len by (intro in_span; simp)+
    with dj have "dest + of_nat k \<noteq> src + of_nat j" by (metis disjoint_iff)
    then show "(m'(dest + of_nat k := v)) (src + of_nat j) = m' (src + of_nat j)" by simp
  qed
  with blit_holds_str [OF str] agree_blit show ?thesis by blast
qed

text \<open>
  The command is copied behind \<open>./\<close> and cut into its words, without leaving the buffer and with room for every
  pointer: 1023 characters have at most 512 words.
\<close>

lemma split_command_words:
  assumes cmd: "holds_str (ptr_at m command) cs" "length cs \<le> 1023" and dj: "span buf 1026 \<inter> span command 1024 = {}"
  shows "\<exists>m' ps. split_command buf command m = Inr (m', buf # ps) \<and> strings m' (buf # ps) (command_words cs)
    \<and> length ps \<le> 512 \<and> agree (span buf 1026) m m'"
proof -
  define m0 where "m0 = m(buf := of_char (CHR ''.''), buf + 1 := of_char (CHR ''/''))"
  let ?w = "takeWhile (\<lambda>c. \<not> word_end c) cs" and ?rest = "dropWhile (\<lambda>c. \<not> word_end c) cs"
  let ?b = "buf + 2" and ?r = "buf + 2 + of_nat (length (takeWhile (\<lambda>c. \<not> word_end c) cs))"
  have len: "length ?w + length ?rest = length cs" using length_append [of ?w ?rest] by simp
  have src: "span command (Suc (length cs)) \<subseteq> span command 1024" using cmd(2) by (intro span_mono) simp
  have dst: "span ?b (Suc (length cs)) \<subseteq> span buf 1026" using cmd(2) sub_span [of 2 "Suc (length cs)" 1026 buf] by simp
  have ag0: "agree (span buf 1026) m m0" by (simp add: m0_def)
  have cmd0: "holds_str (ptr_at m0 command) cs" using src dj by (intro holds_str_agree [OF ag0 _ cmd(1)]) auto
  obtain m1 where m1: "ece391_strcpy m0 ?b command = Some m1" "holds_str (ptr_at m1 ?b) cs" "agree (span ?b (Suc (length cs))) m0 m1"
    using strcpy_buffer [OF cmd0, of ?b] src dst dj by fastforce
  have ag1: "agree (span buf 1026) m m1" by (rule agree_trans [OF ag0 agree_mono [OF m1(3) dst]])
  have apart: "span buf 2 \<inter> span ?b (Suc (length cs)) = {}" using cmd(2) span_next [of 2 "Suc (length cs)" buf] by simp
  have "buf \<in> span buf 2" "buf + 1 \<in> span buf 2" by simp_all
  with apart have "buf \<notin> span ?b (Suc (length cs))" "buf + 1 \<notin> span ?b (Suc (length cs))" by blast+
  then have hd: "m1 buf = of_char (CHR ''.'')" "m1 (buf + 1) = of_char (CHR ''/'')"
    using agree_byte [OF m1(3)] by (simp_all add: m0_def)
  let ?cs = "of_char (CHR ''.'') # of_char (CHR ''/'') # cs" and ?pw = "of_char (CHR ''.'') # of_char (CHR ''/'') # ?w"
  have two: "buf + 1 + 1 = ?b" by simp
  have "holds_str (ptr_at m1 (buf + 1)) (of_char (CHR ''/'') # cs)"
    unfolding holds_str_Cons two using hd(2) m1(2) cmd(2) by simp
  then have full: "holds_str (ptr_at m1 buf) ?cs" unfolding holds_str_Cons [of m1 buf] using hd(1) cmd(2) by simp
  have tk: "take (length ?pw) ?cs = ?pw" by (simp add: takeWhile_eq_take [symmetric])
  have sw: "skip_word m1 ?b = Some ?r" "holds_str (ptr_at m1 ?r) ?rest" using skip_word_stops [OF m1(2)] by simp_all
  have split: "split_command buf command m = (if m1 ?r \<noteq> 0
      then res_bind (opt_res No_return (parse_args (m1(?r := 0)) (?r + 1) [buf])) (\<lambda>r. r) else Inr (m1, [buf]))"
    using m1(1) sw(1) by (simp add: split_command_def m0_def)
  show ?thesis
  proof (cases ?rest)
    case Nil
    from sw(2) [unfolded Nil] have "m1 ?r = 0" by (simp add: holds_str_Nil)
    moreover have "command_words cs = [?cs]"
      using len tk by (simp add: command_words_def Nil arg_words.simps [of "[]"] takeWhile_eq_all_conv [symmetric])
    ultimately show ?thesis using full ag1 by (intro exI [of _ m1] exI [of _ "[]"]) (simp add: split)
  next
    case (Cons c zs)
    define m2 where "m2 = m1(?r := 0)"
    have r: "m1 ?r \<noteq> 0" "holds_str (ptr_at m1 (?r + 1)) zs" using sw(2) by (simp_all add: Cons holds_str_Cons)
    have lz: "length ?w + Suc (length zs) = length cs" using len by (simp add: Cons)
    have at: "buf + of_nat (length ?pw) = ?r" by (simp add: add.assoc)
    have p2: "holds_str (ptr_at m2 buf) ?pw"
      using holds_str_take [OF full, of "length ?pw"] len unfolding tk at m2_def [symmetric] by simp
    have "agree (span ?r 1) m1 m2" by (simp add: m2_def)
    moreover have "span (?r + 1) (Suc (length zs)) \<inter> span ?r 1 = {}" using span_next [of 1 "Suc (length zs)" ?r] lz cmd(2) by auto
    ultimately have "holds_str (ptr_at m2 (?r + 1)) zs" using r(2) by (rule holds_str_agree)
    moreover have few: "length (arg_words zs) \<le> 512" using arg_words_few [of zs] lz cmd(2) by linarith
    ultimately obtain m' ps where m': "parse_args m2 (?r + 1) [buf] = Some (Inr (m', [buf] @ ps))" "strings m' ps (arg_words zs)"
        "agree (span (?r + 1) (Suc (length zs))) m2 m'"
      using parse_args_words [of m2 "?r + 1" zs "[buf]"] by auto
    have r1: "buf + of_nat (Suc (length ?pw)) = ?r + 1" by (simp add: ac_simps)
    have "span buf (Suc (length ?pw)) \<inter> span (?r + 1) (Suc (length zs)) = {}"
      using span_next [of "Suc (length ?pw)" "Suc (length zs)" buf] lz cmd(2) unfolding r1 by simp
    then have "holds_str (ptr_at m' buf) ?pw" using p2 by (rule holds_str_agree [OF m'(3)])
    moreover have "agree (span buf 1026) m m'"
    proof (rule agree_trans [OF ag1], rule agree_trans)
      have "buf + of_nat (length ?pw) \<in> span buf 1026" using lz cmd(2) by (intro in_span) simp_all
      then show "agree (span buf 1026) m1 m2" unfolding at by (simp add: m2_def)
      have "span (buf + of_nat (Suc (length ?pw))) (Suc (length zs)) \<subseteq> span buf 1026" using lz cmd(2) by (intro sub_span) simp_all
      then show "agree (span buf 1026) m2 m'" unfolding r1 by (rule agree_mono [OF m'(3)])
    qed
    moreover have "command_words cs = ?pw # arg_words zs" by (simp add: command_words_def Cons)
    moreover have "length ps \<le> 512" using list_all2_lengthD [OF m'(2)] few by simp
    ultimately show ?thesis
      using m'(1,2) r(1) by (intro exI [of _ m'] exI [of _ ps]) (simp add: split m2_def [symmetric])
  qed
qed

section \<open>Arguments\<close>

primrec join :: "u8 list list \<Rightarrow> u8 list" where
  "join [] = []"
| "join (w # ws) = (if ws = [] then w else w @ 32 # join ws)"

lemma holds_str_append:
  assumes "\<forall>i<length w. m (p + of_nat i) = w ! i \<and> w ! i \<noteq> 0" "holds_str (ptr_at m (p + of_nat (length w))) xs"
    "length w + length xs < 2 ^ 32"
  shows "holds_str (ptr_at m p) (w @ xs)"
  using assms
proof (induction w arbitrary: p)
  case Nil
  then show ?case by simp
next
  case (Cons x w)
  have step: "\<forall>i<length w. m (p + 1 + of_nat i) = w ! i \<and> w ! i \<noteq> 0"
    using Cons.prems(1) by (auto simp: All_less_Suc2 add.assoc)
  have e: "p + of_nat (length (x # w)) = p + 1 + of_nat (length w)" by (simp add: add.assoc)
  note Cons.prems(2) [unfolded e]
  then have "holds_str (ptr_at m (p + 1)) (w @ xs)" using Cons.IH [OF step] Cons.prems(3) by simp
  then show ?case unfolding append_Cons holds_str_Cons using Cons.prems(1,3) by (auto simp: All_less_Suc2)
qed

text \<open>The arguments from \<open>idx\<close> on: pointers in the array \<open>argv\<close> to strings, all outside the region \<open>W\<close>.\<close>

definition arguments :: "mem \<Rightarrow> u32 set \<Rightarrow> u32 \<Rightarrow> int \<Rightarrow> u8 list list \<Rightarrow> bool" where
  "arguments m W argv idx ws \<longleftrightarrow> (\<forall>k<length ws. let a = argv + 4 * word_of_int (idx + int k) in
     span a 4 \<inter> W = {} \<and> span (load32 m a) (Suc (length (ws ! k))) \<inter> W = {} \<and> length (ws ! k) < 2 ^ 31
     \<and> holds_str (ptr_at m (load32 m a)) (ws ! k))"

lemma arguments_Cons:
  "arguments m W argv idx (w # ws) \<longleftrightarrow> span (argv + 4 * word_of_int idx) 4 \<inter> W = {}
     \<and> span (load32 m (argv + 4 * word_of_int idx)) (Suc (length w)) \<inter> W = {} \<and> length w < 2 ^ 31
     \<and> holds_str (ptr_at m (load32 m (argv + 4 * word_of_int idx))) w \<and> arguments m W argv (idx + 1) ws"
  by (simp add: arguments_def Let_def All_less_Suc2 ac_simps)

lemma arguments_agree:
  assumes "arguments m W argv idx ws" and ag: "agree W m m'" and "V \<subseteq> W"
  shows "arguments m' V argv idx ws"
  unfolding arguments_def Let_def
proof (intro allI impI)
  fix k
  assume "k < length ws"
  then have a: "span (argv + 4 * word_of_int (idx + int k)) 4 \<inter> W = {}"
    "span (load32 m (argv + 4 * word_of_int (idx + int k))) (Suc (length (ws ! k))) \<inter> W = {}" "length (ws ! k) < 2 ^ 31"
    "holds_str (ptr_at m (load32 m (argv + 4 * word_of_int (idx + int k)))) (ws ! k)"
    using assms(1) by (simp_all add: arguments_def Let_def)
  note l = agree_load32 [OF ag a(1)]
  show "span (argv + 4 * word_of_int (idx + int k)) 4 \<inter> V = {}
      \<and> span (load32 m' (argv + 4 * word_of_int (idx + int k))) (Suc (length (ws ! k))) \<inter> V = {} \<and> length (ws ! k) < 2 ^ 31
      \<and> holds_str (ptr_at m' (load32 m' (argv + 4 * word_of_int (idx + int k)))) (ws ! k)"
    unfolding l using a holds_str_agree [OF ag a(2,4)] assms(3) by blast
qed

text \<open>One turn of the loop: the argument \<open>w\<close> is copied to \<open>buf\<close>, and the rest goes behind it and a space.\<close>

lemma join_args_step:
  assumes w: "holds_str (ptr_at m (load32 m (argv + 4 * word_of_int idx))) w" "length w < 2 ^ 31"
    and cp: "ece391_strcpy m buf (load32 m (argv + 4 * word_of_int idx)) = Some m1"
    and n: "length w \<le> n" and argc: "argc = idx + int (Suc (length ws))"
  shows "join_args m argv argc buf (int n) idx = (if n \<le> length w then Inr (- 1, m1)
    else if ws = [] then Inr (0, m1(buf + of_nat (length w) := 0))
    else join_args (m1(buf + of_nat (length w) := 32)) argv argc (buf + of_nat (length w) + 1) (int (n - length w - 1)) (idx + 1))"
proof -
  have len: "ece391_strlen m (load32 m (argv + 4 * word_of_int idx)) = Some (of_nat (length w))"
    unfolding ece391_strlen_eq by (rule strlen_holds [OF w(1)])
  have sl: "sint (of_nat (length w) :: u32) = int (length w)" using sint_small [of "int (length w)"] w(2) by simp
  show ?thesis
    using len sl cp n argc by (auto simp: join_args.simps [of m] of_nat_diff Let_def diff_diff_eq add.commute)
qed

lemma join_args_too_long:
  assumes "holds_str (ptr_at m (load32 m (argv + 4 * word_of_int idx))) w" "length w < 2 ^ 31" "n < length w" "idx < argc"
  shows "join_args m argv argc buf (int n) idx = Inr (- 1, m)"
proof -
  have "ece391_strlen m (load32 m (argv + 4 * word_of_int idx)) = Some (of_nat (length w))"
    unfolding ece391_strlen_eq by (rule strlen_holds [OF assms(1)])
  moreover have "sint (of_nat (length w) :: u32) = int (length w)" using sint_small [of "int (length w)"] assms(2) by simp
  ultimately show ?thesis using assms(3,4) by (simp add: join_args.simps [of m])
qed

text \<open>The line so far, a space and the rest make up the line.\<close>

lemma line_joined:
  assumes w: "holds_str (ptr_at m1 buf) w" and xs: "holds_str (ptr_at m' (buf + of_nat (length w) + 1)) xs"
    and ag: "agree (span (buf + of_nat (length w) + 1) (Suc k)) (m1(buf + of_nat (length w) := 32)) m'"
    and len: "length w + Suc k < 2 ^ 31" "length xs < k"
  shows "holds_str (ptr_at m' buf) (w @ 32 # xs)"
proof (rule holds_str_append)
  let ?b = "buf + of_nat (length w)" and ?m2 = "m1(buf + of_nat (length w) := 32)"
  have b1: "buf + of_nat (Suc (length w)) = ?b + 1" by (simp add: ac_simps)
  have apart: "span buf (Suc (length w)) \<inter> span (?b + 1) (Suc k) = {}"
    using span_next [of "Suc (length w)" "Suc k" buf] len unfolding b1 by simp
  have keep: "m' (buf + of_nat i) = ?m2 (buf + of_nat i)" if "i \<le> length w" for i
  proof -
    have "buf + of_nat i \<in> span buf (Suc (length w))" using that len by (intro in_span) simp_all
    then show ?thesis using apart by (intro agree_byte [OF ag]) blast
  qed
  have "buf + of_nat i \<noteq> ?b" if "i < length w" for i
  proof -
    have "span buf (length w) \<inter> span ?b 1 = {}" using len by (intro span_next) simp
    moreover have "buf + of_nat i \<in> span buf (length w)" using that len by (intro in_span) simp_all
    moreover have "?b \<in> span ?b 1" by simp
    ultimately show ?thesis by (metis disjoint_iff)
  qed
  then show "\<forall>i<length w. m' (buf + of_nat i) = w ! i \<and> w ! i \<noteq> 0" using w keep by (simp add: holds_str_def)
  have "m' ?b = 32" using keep [of "length w"] by simp
  then show "holds_str (ptr_at m' ?b) (32 # xs)" unfolding holds_str_Cons using xs len by simp
  show "length w + length (32 # xs) < 2 ^ 32" using len by simp
qed

lemma join_args_joins:
  assumes "arguments m (span buf (Suc n)) argv idx ws" "n < 2 ^ 31" "argc = idx + int (length ws)"
  shows "\<exists>m'. agree (span buf (Suc n)) m m' \<and>
    (if length (join ws) < n then join_args m argv argc buf (int n) idx = Inr (0, m') \<and> holds_str (ptr_at m' buf) (join ws)
     else join_args m argv argc buf (int n) idx = Inr (- 1, m'))"
  using assms
proof (induction ws arbitrary: m buf n idx)
  case Nil
  define m0 where "m0 = m(buf := 0)"
  have "agree (span buf (Suc n)) m m0" "holds_str (ptr_at m0 buf) []" by (simp_all add: m0_def holds_str_def)
  moreover have "join_args m argv argc buf (int n) idx = (if 0 < n then Inr (0, m0) else Inr (- 1, m))"
    using Nil by (simp add: join_args.simps m0_def)
  ultimately show ?case by (cases "0 < n") (auto intro: exI [of _ m0] exI [of _ m])
next
  case (Cons w ws)
  let ?W = "span buf (Suc n)" and ?p = "load32 m (argv + 4 * word_of_int idx)" and ?b = "buf + of_nat (length w)"
  have a: "span ?p (Suc (length w)) \<inter> ?W = {}" "length w < 2 ^ 31" "holds_str (ptr_at m ?p) w" "arguments m ?W argv (idx + 1) ws"
    using Cons.prems(1) by (simp_all add: arguments_Cons)
  have argc: "argc = idx + int (Suc (length ws))" "idx < argc" using Cons.prems(3) by simp_all
  show ?case
  proof (cases "n < length w")
    case True
    then show ?thesis using join_args_too_long [OF a(3,2) _ argc(2)] by (intro exI [of _ m]) auto
  next
    case False
    have sub: "span buf (Suc (length w)) \<subseteq> ?W" using False by (intro span_mono) simp
    then have "span buf (Suc (length w)) \<inter> span ?p (Suc (length w)) = {}" using a(1) by blast
    then obtain m1 where m1: "ece391_strcpy m buf ?p = Some m1" "holds_str (ptr_at m1 buf) w" "agree (span buf (Suc (length w))) m m1"
      using strcpy_buffer [OF a(3)] by blast
    have ag1: "agree ?W m m1" by (rule agree_mono [OF m1(3) sub])
    have le: "length w \<le> n" using False by simp
    note step = join_args_step [OF a(3,2) m1(1) le argc(1)]
    consider "n \<le> length w" | "length w < n" "ws = []" | "length w < n" "ws \<noteq> []" by linarith
    then show ?thesis
    proof cases
      case 1
      then show ?thesis using ag1 by (intro exI [of _ m1]) (auto simp: step)
    next
      case 2
      have "m1 ?b = 0" using m1(2) by (simp add: holds_str_def)
      then have "m1(?b := 0) = m1" by auto
      then show ?thesis using 2 ag1 m1(2) by (intro exI [of _ m1]) (simp add: step)
    next
      case 3
      define m2 where "m2 = m1(?b := 32)"
      define k where "k = n - length w - 1"
      have kn: "length w + Suc k = n" using 3 by (simp add: k_def)
      have "?b \<in> ?W" using kn Cons.prems(2) by (intro in_span) simp_all
      then have ag2: "agree ?W m m2" using ag1 by (simp add: m2_def)
      have b1: "buf + of_nat (Suc (length w)) = ?b + 1" by (simp add: ac_simps)
      have subk: "span (?b + 1) (Suc k) \<subseteq> ?W"
        using sub_span [of "Suc (length w)" "Suc k" "Suc n" buf] kn Cons.prems(2) unfolding b1 by simp
      obtain m' where m': "agree (span (?b + 1) (Suc k)) m2 m'"
        "if length (join ws) < k then join_args m2 argv argc (?b + 1) (int k) (idx + 1) = Inr (0, m') \<and> holds_str (ptr_at m' (?b + 1)) (join ws)
         else join_args m2 argv argc (?b + 1) (int k) (idx + 1) = Inr (- 1, m')"
        using Cons.IH [OF arguments_agree [OF a(4) ag2 subk]] argc(1) Cons.prems(2) kn by fastforce
      have "holds_str (ptr_at m' buf) (w @ 32 # join ws)" if "length (join ws) < k" "holds_str (ptr_at m' (?b + 1)) (join ws)"
        using line_joined [OF m1(2) that(2) m'(1) [unfolded m2_def]] that(1) kn Cons.prems(2) by simp
      moreover have "length (join (w # ws)) < n \<longleftrightarrow> length (join ws) < k" using kn 3 by auto
      moreover have "join_args m argv argc buf (int n) idx = join_args m2 argv argc (?b + 1) (int k) (idx + 1)"
        using 3 by (simp add: step m2_def k_def)
      moreover have "agree ?W m m'" by (rule agree_trans [OF ag2 agree_mono [OF m'(1) subk]])
      ultimately show ?thesis using m'(2) 3 by (intro exI [of _ m']) (auto split: if_splits)
    qed
  qed
qed

section \<open>Directory names\<close>

text \<open>The bytes of a name, filled up with zeros.\<close>

definition name_bytes :: "u8 list \<Rightarrow> nat \<Rightarrow> u8" where
  "name_bytes xs i = (if i < length xs then xs ! i else 0)"

lemma blit_Suc: "n < 2 ^ 32 \<Longrightarrow> (blit m d n f)(d + of_nat n := f n) = blit m d (Suc n) f"
  using blit_append [of n 1 m d f "\<lambda>_. f n"] blit_update [of "blit m d n f" "d + of_nat n" "f n"]
  by (auto simp: less_Suc_eq intro!: blit_cong)

lemma pad_name_pads:
  assumes N: "N = min (nat nbytes) 32"
  shows "length xs \<le> k \<Longrightarrow> k \<le> N \<Longrightarrow>
    pad_name (blit m buf k (name_bytes xs)) (buf + of_nat k) nbytes (int k) = (int N, blit m buf N (name_bytes xs))"
proof (induction "N - k" arbitrary: k)
  case 0
  then have "k = N" by simp
  moreover have "\<not> (int N < nbytes \<and> int N < 32)" using N by linarith
  ultimately show ?case by (subst pad_name.simps) (simp only: if_False)
next
  case (Suc d)
  then have k: "k < N" "int k < nbytes" "int k < 32" using N by linarith+
  have "(blit m buf k (name_bytes xs))(buf + of_nat k := 0) = blit m buf (Suc k) (name_bytes xs)"
    using blit_Suc [of k m buf "name_bytes xs"] k Suc.prems by (simp add: name_bytes_def)
  then show ?case
    using Suc.hyps(1) [of "Suc k"] Suc.hyps(2) Suc.prems k by (simp add: pad_name.simps [of "blit m buf k (name_bytes xs)"] ac_simps)
qed

lemma copy_name_copies:
  assumes N: "N = min (nat nbytes) 32" and pos: "0 < nbytes" and str: "holds_str (ptr_at m from) xs"
    and dj: "span buf 32 \<inter> span from (Suc (length xs)) = {}"
  shows "k < N \<Longrightarrow> k \<le> length xs \<Longrightarrow>
    copy_name (blit m buf k (name_bytes xs)) (buf + of_nat k) (from + of_nat k) nbytes (int k) =
    (if length xs < N then Some (blit m buf (length xs) (name_bytes xs), Inr (buf + of_nat (length xs), int (length xs)))
     else Some (blit m buf N (name_bytes xs), Inl (int N)))"
proof (induction "N - k" arbitrary: k)
  case 0
  then show ?case by simp
next
  case (Suc d)
  let ?m = "blit m buf k (name_bytes xs)"
  have k32: "k < 32" using Suc.prems(1) N by simp
  have len: "length xs < 2 ^ 32" using str by (simp add: holds_str_def)
  have "from + of_nat k \<in> span from (Suc (length xs))" using Suc.prems(2) len by (intro in_span) simp_all
  then have "from + of_nat k \<notin> span buf k" using dj span_mono [of k 32 buf] k32 by auto
  then have at: "?m (from + of_nat k) = m (from + of_nat k)" using agree_byte [OF agree_blit] by blast
  show ?case
  proof (cases "k = length xs")
    case True
    then have "?m (from + of_nat k) = 0" using at str by (simp add: holds_str_def)
    then show ?thesis using True Suc.prems(1) by (subst copy_name.simps) simp
  next
    case False
    then have lt: "k < length xs" using Suc.prems(2) by simp
    then have b: "?m (from + of_nat k) = xs ! k" "xs ! k \<noteq> 0" using at str by (simp_all add: holds_str_def)
    have up: "?m(buf + of_nat k := xs ! k) = blit m buf (Suc k) (name_bytes xs)"
      using blit_Suc [of k m buf "name_bytes xs"] k32 lt by (simp add: name_bytes_def)
    have step: "copy_name ?m (buf + of_nat k) (from + of_nat k) nbytes (int k) =
        (if int (Suc k) = nbytes then Some (blit m buf (Suc k) (name_bytes xs), Inl nbytes)
         else if Suc k = 32 then Some (blit m buf (Suc k) (name_bytes xs), Inl 32)
         else copy_name (blit m buf (Suc k) (name_bytes xs)) (buf + of_nat (Suc k)) (from + of_nat (Suc k)) nbytes (int (Suc k)))"
      using b by (subst copy_name.simps) (auto simp: Let_def up ac_simps)
    consider "int (Suc k) = nbytes" | "int (Suc k) \<noteq> nbytes" "Suc k = 32" | "int (Suc k) \<noteq> nbytes" "Suc k \<noteq> 32" by blast
    then show ?thesis
    proof cases
      case 1
      then have "N = Suc k" using N k32 by simp
      then show ?thesis unfolding step using 1 lt by simp
    next
      case 2
      then have "N = Suc k" using N Suc.prems(1) by simp
      then show ?thesis unfolding step using 2 lt by simp
    next
      case 3
      then have "Suc k < N" using N Suc.prems(1) k32 by linarith
      then show ?thesis unfolding step using 3 Suc.hyps(1) [of "Suc k"] Suc.hyps(2) lt by simp
    qed
  qed
qed

lemma give_name_gives:
  assumes pos: "0 < nbytes" and str: "holds_str (ptr_at m from) xs" and dj: "span buf 32 \<inter> span from (Suc (length xs)) = {}"
  shows "give_name m buf from nbytes = Inr (int (min (nat nbytes) 32), blit m buf (min (nat nbytes) 32) (name_bytes xs))"
proof -
  let ?N = "min (nat nbytes) 32"
  have "copy_name m buf from nbytes 0 =
    (if length xs < ?N then Some (blit m buf (length xs) (name_bytes xs), Inr (buf + of_nat (length xs), int (length xs)))
     else Some (blit m buf ?N (name_bytes xs), Inl (int ?N)))"
    using copy_name_copies [OF refl pos str dj, of 0] pos by simp
  then show ?thesis using pad_name_pads [OF refl, of xs "length xs" nbytes m buf] by (simp add: give_name_def)
qed

section \<open>Properties of the emulation\<close>

lemma takeWhile_word: "\<forall>c\<in>set w. \<not> word_end c \<Longrightarrow> word_end d \<Longrightarrow>
    takeWhile (\<lambda>c. \<not> word_end c) (w @ d # xs) = w \<and> dropWhile (\<lambda>c. \<not> word_end c) (w @ d # xs) = d # xs"
  by (induction w) auto

text \<open>Joining words by spaces and cutting the line again gives the words back.\<close>

lemma arg_words_join: "\<forall>w\<in>set ws. w \<noteq> [] \<and> (\<forall>c\<in>set w. \<not> word_end c) \<Longrightarrow> arg_words (join ws) = ws"
proof (induction ws)
  case Nil
  show ?case by (simp add: arg_words.simps)
next
  case (Cons w ws)
  then obtain c v where w: "w = c # v" "\<not> word_end c" by (cases w) auto
  then have c: "c \<noteq> 32" by (auto simp: word_end_def)
  show ?case
  proof (cases "ws = []")
    case True
    have v: "takeWhile (\<lambda>c. \<not> word_end c) v = v" "dropWhile (\<lambda>c. \<not> word_end c) v = []"
      using Cons.prems unfolding w(1) takeWhile_eq_all_conv dropWhile_eq_Nil_conv by simp_all
    have "arg_words (c # v) = [c # v]" using w c by (subst arg_words.simps) (simp add: v arg_words.simps [of "[]"])
    then show ?thesis using True w by simp
  next
    case False
    have "word_end 32" by (simp add: word_end_def)
    then have "takeWhile (\<lambda>c. \<not> word_end c) (c # v @ 32 # join ws) = c # v" "dropWhile (\<lambda>c. \<not> word_end c) (c # v @ 32 # join ws) = 32 # join ws"
      using takeWhile_word [of w 32 "join ws"] Cons.prems by (simp_all add: w(1))
    then show ?thesis using False Cons w c by (simp add: arg_words.simps [of "c # v @ 32 # join ws"])
  qed
qed

text \<open>
  C33. The emulated \<open>execute\<close> refuses a command of more than 1023 characters. Every other command it cuts into its words
  inside its buffer, without overflow of the buffer or of the array of pointers, and starts the program whose name is the first word, in
  the current directory, with exactly these words; its result is the exit code, -1 for a program that could not be started, or 256
  for one that was killed.
\<close>

theorem emulated_execute:
  assumes "holds_str (ptr_at (emem s) command) cs" and "span buf 1026 \<inter> span command 1024 = {}"
  shows "if 1023 < length cs then emu_execute H buf command s = Inr (- 1, s)
    else \<exists>m' ps. strings m' (buf # ps) (command_words cs) \<and> agree (span buf 1026) (emem s) m'
      \<and> emu_execute H buf command s = (let (status, h) = h_spawn H m' buf (buf # ps) (hstate s)
          in Inr (exit_code status, s\<lparr>emem := m', hstate := h\<rparr>))"
proof -
  have len: "length cs < 2 ^ 32" using assms(1) by (simp add: holds_str_def)
  have sl: "ece391_strlen (emem s) command = Some (of_nat (length cs))"
    unfolding ece391_strlen_eq by (rule strlen_holds [OF assms(1)])
  have big: "(1023 < (of_nat (length cs) :: u32)) = (1023 < length cs)"
    using unat_of_nat32 [OF len] by (simp add: word_less_nat_alt)
  show ?thesis
  proof (cases "1023 < length cs")
    case True
    then show ?thesis using sl big by (simp add: emu_execute_def)
  next
    case False
    then obtain m' ps where m': "split_command buf command (emem s) = Inr (m', buf # ps)"
      "strings m' (buf # ps) (command_words cs)" "length ps \<le> 512" "agree (span buf 1026) (emem s) m'"
      using split_command_words [OF assms(1) _ assms(2)] by auto
    have "emu_execute H buf command s = (let (status, h) = h_spawn H m' buf (buf # ps) (hstate s)
        in Inr (exit_code status, s\<lparr>emem := m', hstate := h\<rparr>))"
      using False sl big m'(1,3) by (simp add: emu_execute_def)
    with False m'(2,4) show ?thesis by auto
  qed
qed

text \<open>A host for examples: one directory with the name \<open>ab\<close>, every program exits with the number of its arguments.\<close>

definition example_host :: "unit host" where
  "example_host = \<lparr>int80 = (\<lambda>n b c d (m, h). (0, m, h)), h_opendir = (\<lambda>h. (8, h)), h_readdir = (\<lambda>d (m, h). (0x100, m, h)),
     h_closedir = (\<lambda>d h. h), h_open = (\<lambda>p f h. (3, h)), h_close = (\<lambda>fd h. h), h_mmap = (\<lambda>fd h. (0, h)),
     h_spawn = (\<lambda>m path args h. (256 * of_nat (length args), h))\<rparr>"

definition example_emu :: "mem \<Rightarrow> unit emu" where
  "example_emu m = \<lparr>emem = m, start_esp = 0x200, dir = 8, dir_fd = 3, mem_fd = - 1, hstate = ()\<rparr>"

text \<open>The command \<open>ls a b\<close>.\<close>

theorem emulated_execute_witness:
  "\<exists>s'. emu_execute example_host 0x1000 0 (example_emu (str_ptr [108, 115, 32, 97, 32, 98])) = Inr (3, s')"
proof -
  let ?s = "example_emu (str_ptr [108, 115, 32, 97, 32, 98])"
  have "holds_str (ptr_at (emem ?s) 0) [108, 115, 32, 97, 32, 98]"
    using holds_str_ptr [of "[108, 115, 32, 97, 32, 98]"] by (simp add: example_emu_def)
  moreover have "span 0x1000 1026 \<inter> span (0 :: u32) 1024 = {}" using span_apart [of 0 1024 "0x1000" 1026] by simp
  ultimately obtain m' ps where "strings m' (0x1000 # ps) (command_words [108, 115, 32, 97, 32, 98])"
      "emu_execute example_host 0x1000 0 ?s = (let (status, h) = h_spawn example_host m' 0x1000 (0x1000 # ps) (hstate ?s)
          in Inr (exit_code status, ?s\<lparr>emem := m', hstate := h\<rparr>))"
    using emulated_execute [of ?s 0 "[108, 115, 32, 97, 32, 98]" "0x1000" example_host] by auto
  moreover have "command_words [108, 115, 32, 97, 32, 98] = [[46, 47, 108, 115], [97], [98]]"
    by (simp add: command_words_def word_end_def arg_words.simps)
  ultimately have "length ps = 2" by (auto dest: list_all2_lengthD)
  with \<open>emu_execute _ _ _ _ = _\<close> show ?thesis by (auto simp: example_host_def exit_code_def)
qed

text \<open>
  C34. The emulated \<open>getargs\<close> gives a program its arguments joined by spaces, such that cutting the line into words gives the arguments
  back; it fails exactly when the line and its end do not fit in the buffer. It writes to the buffer and the byte after it at most.
\<close>

theorem emulated_getargs:
  assumes "arguments (emem s) (span buf (Suc n)) (start_esp s + 4) 1 ws" and "n < 2 ^ 31"
    and "sint (load32 (emem s) (start_esp s)) = 1 + int (length ws)"
    and "\<forall>w\<in>set ws. w \<noteq> [] \<and> (\<forall>c\<in>set w. \<not> word_end c)"
  shows "\<exists>m'. agree (span buf (Suc n)) (emem s) m' \<and>
    (if length (join ws) < n
     then emu_getargs buf (int n) s = Inr (0, s\<lparr>emem := m'\<rparr>) \<and> holds_str (ptr_at m' buf) (join ws) \<and> arg_words (join ws) = ws
     else emu_getargs buf (int n) s = Inr (- 1, s\<lparr>emem := m'\<rparr>))"
  using join_args_joins [OF assms(1,2), of "1 + int (length ws)"] assms(3) arg_words_join [OF assms(4)]
  by (auto simp: emu_getargs_def)

text \<open>A program started with the arguments \<open>a\<close> and \<open>bc\<close>.\<close>

definition example_args :: mem where
  "example_args = (\<lambda>_. 0)(0x200 := 3, 0x209 := 3, 0x20C := 0x10, 0x20D := 3, 0x300 := 97, 0x310 := 98, 0x311 := 99)"

lemma example_arguments: "arguments example_args (span 0x1000 17) 0x204 1 [[97], [98, 99]]"
proof -
  have l: "load32 example_args 0x208 = 0x300" "load32 example_args 0x20C = 0x310"
    by (simp_all add: example_args_def load32_def push_bit_eq_mult)
  have h: "holds_str (ptr_at example_args 0x300) [97]" "holds_str (ptr_at example_args 0x310) [98, 99]"
    unfolding holds_str_Cons holds_str_Nil by (simp_all add: example_args_def)
  show ?thesis
    unfolding arguments_Cons using h by (simp add: l span_apart) (simp add: arguments_def)
qed

theorem emulated_getargs_witness:
  "\<exists>m'. emu_getargs 0x1000 16 (example_emu example_args) = Inr (0, (example_emu example_args)\<lparr>emem := m'\<rparr>)
    \<and> holds_str (ptr_at m' 0x1000) [97, 32, 98, 99]"
proof -
  have "\<exists>m'. agree (span 0x1000 (Suc 16)) (emem (example_emu example_args)) m' \<and>
      (if length (join [[97], [98, 99]]) < 16
       then emu_getargs 0x1000 (int 16) (example_emu example_args) = Inr (0, (example_emu example_args)\<lparr>emem := m'\<rparr>)
         \<and> holds_str (ptr_at m' 0x1000) (join [[97], [98, 99]]) \<and> arg_words (join [[97], [98, 99]]) = [[97], [98, 99]]
       else emu_getargs 0x1000 (int 16) (example_emu example_args) = Inr (- 1, (example_emu example_args)\<lparr>emem := m'\<rparr>))"
    using example_arguments
    by (intro emulated_getargs) (simp_all add: example_emu_def example_args_def load32_def word_end_def)
  then show ?thesis by auto
qed

text \<open>
  Reading the directory under the emulation gives one name: as many of its bytes as asked for but at most 32, filled up with zeros,
  and their number; nothing else is written.
\<close>

theorem emulated_directory:
  assumes "dir s \<noteq> 0" and "h_readdir H (dir s) (emem s, hstate s) = (d_name, m, h)" and "d_name \<noteq> 0"
    and "holds_str (ptr_at m d_name) xs" and "span buf 32 \<inter> span d_name (Suc (length xs)) = {}" and "0 < nbytes"
  shows "emu_read H (dir_fd s) buf nbytes s =
    Inr (int (min (nat nbytes) 32), s\<lparr>emem := blit m buf (min (nat nbytes) 32) (name_bytes xs), hstate := h\<rparr>)"
  using assms give_name_gives [OF assms(6,4,5)] by (simp add: emu_read_def)

theorem emulated_directory_witness:
  "emu_read example_host 3 0x1000 32 (example_emu ((\<lambda>_. 0)(0x100 := 97, 0x101 := 98)))
    = Inr (32, (example_emu ((\<lambda>_. 0)(0x100 := 97, 0x101 := 98)))\<lparr>emem := blit ((\<lambda>_. 0)(0x100 := 97, 0x101 := 98)) 0x1000 32 (name_bytes [97, 98])\<rparr>)"
proof -
  define m :: mem where "m = (\<lambda>_. 0)(0x100 := 97, 0x101 := 98)"
  have "holds_str (ptr_at m 0x100) [97, 98]" unfolding holds_str_Cons holds_str_Nil by (simp add: m_def)
  moreover have "span 0x1000 32 \<inter> span (0x100 :: u32) (Suc (length [97 :: u8, 98])) = {}"
    using span_apart [of "0x100" "Suc (length [97 :: u8, 98])" "0x1000" 32] by simp
  ultimately have "emu_read example_host (dir_fd (example_emu m)) 0x1000 32 (example_emu m) =
      Inr (int (min (nat 32) 32), (example_emu m)\<lparr>emem := blit m 0x1000 (min (nat 32) 32) (name_bytes [97, 98]), hstate := ()\<rparr>)"
    by (intro emulated_directory) (simp_all add: example_emu_def example_host_def)
  then show ?thesis unfolding m_def [symmetric] by (simp add: example_emu_def)
qed

end
