(* ===== verification/Spec2Isabelle.thy ===== *)
theory Spec2Isabelle
  imports Klib_Mem Klib_String Machine Console Pic Rtc Page Process Filesys Terminal Syscalls Fdtable Exec Idt Shells Boot
    Ulib Syserr Ukernel Uprogs Ustreams Ulisting Execfail Testcode Kregion Blink Blinklist Fish Fishclock Emulate
begin

text \<open>
  A verification of the teaching operating system in \<^verbatim>\<open>src\<close>: a kernel for the 80386 with paging, a read-only file
  system, three text terminals and ten system calls (\<^verbatim>\<open>src/student-distrib\<close>), and the programs that run on it
  (\<^verbatim>\<open>src/syscalls\<close>, \<^verbatim>\<open>src/fish\<close>).

  \<^bold>\<open>How the code is modelled.\<close> Memory is a function from 32-bit addresses to bytes, and pointers are
  words; a structure the code reaches through pointers (process control blocks, descriptor entries, the file system image, the
  multiboot information, user buffers) is read and written at the address the code computes, so
  that aliasing and overlap are part of the statements. Global variables are the fields of one extensible record that grows
  from theory to theory: \<open>machine\<close> (memory, port events, interrupt flag), \<open>console\<close>, \<open>rtc\<close>, \<open>page\<close>, \<open>proc\<close>, \<open>fs\<close>,
  \<open>terminals\<close>, \<open>sys\<close>. Machine integers are words of their width; C's \<open>int\<close> is an \<open>int\<close> where the code cannot leave its
  range. Port input comes from an environment, a function of the port and the events so far. Every function that can fault
  has a result of the sum type \<open>res\<close>: \<open>Inl\<close> a fault (null pointer, array bound, division, a loop that never ends, an
  uninitialised value), \<open>Inr\<close> the result with the new state. Loops are recursive functions with a termination proof;
  those that can run forever are partial functions with \<open>None\<close> for that, and the properties prove that they return. A loop
  that waits for an interrupt is \<open>spin\<close> over the list of interrupts that arrive. What a local variable held before its first
  assignment, the addresses of arrays on the stack and the addresses the linker chooses (\<open>symbols\<close>) are arguments.

  \<^bold>\<open>The theories.\<close>

  \<^item> \<open>Kprelude\<close>: types, faults, results, little-endian loads and stores, blocks of bytes, the shared lemmas on words.
  \<^item> \<open>Klib_Mem\<close>, \<open>Klib_String\<close> (\<^verbatim>\<open>lib.c\<close>): memory and string routines. The word-wise assembly of \<open>memcpy\<close>, \<open>memset\<close> and
    \<open>memmove\<close> is equal to copying bytes for every alignment and every allowed overlap; \<open>itoa\<close> is inverse to reading digits.
  \<^item> \<open>Machine\<close> (\<^verbatim>\<open>lib.h\<close>), \<open>Console\<close> (\<^verbatim>\<open>lib.c\<close>): ports, flags, text output and \<open>printf\<close>. The locale \<open>text_console\<close> is the contract
    of a routine that puts characters on a text page; it refines an abstract 80 by 25 terminal and is interpreted for \<open>putc\<close> here and for
    \<open>term_putc\<close> in \<open>Terminal\<close>.
  \<^item> \<open>Pic\<close> (\<^verbatim>\<open>i8259.c\<close>, \<^verbatim>\<open>pit.c\<close>), \<open>Rtc\<close> (\<^verbatim>\<open>rtc.c\<close>): the device drivers, with the state of the device read off its port events.
  \<^item> \<open>Page\<close> (\<^verbatim>\<open>page.c\<close>): page tables and the translation of addresses; what user code can reach, and that
    frames of processes are kept apart.
  \<^item> \<open>Process\<close> (\<^verbatim>\<open>sched.c\<close>): the process queue, a stack by the locale \<open>bounded_stack\<close>, and the task switch.
  \<^item> \<open>Filesys\<close> (\<^verbatim>\<open>filesys_mod.c\<close>): directory and files; \<open>read_data\<close> against the abstract contents of a file.
  \<^item> \<open>Terminal\<close> (\<^verbatim>\<open>terminal.c\<close>, \<^verbatim>\<open>keyboard.c\<close>): the three terminals, the keyboard, line input.
  \<^item> \<open>Syscalls\<close>, \<open>Fdtable\<close>, \<open>Exec\<close>, \<open>Execfail\<close> (\<^verbatim>\<open>syscalls.c\<close>): the calls; the descriptor table as the locale
    \<open>descriptor_table\<close> that \<open>open_sc\<close> and \<open>close_sc\<close> implement; \<open>execute\<close>, \<open>halt\<close> and the arguments; the commands that are refused.
  \<^item> \<open>Idt\<close> (\<^verbatim>\<open>idt.c\<close>, \<^verbatim>\<open>handler.S\<close>): the descriptor table of interrupts, the handlers and the dispatch of system calls.
  \<^item> \<open>Shells\<close>, \<open>Boot\<close> (\<^verbatim>\<open>kernel.c\<close>, \<^verbatim>\<open>multiboot.h\<close>, \<^verbatim>\<open>x86_desc.h\<close>): the entry of the kernel up to the three shells.
  \<^item> \<open>Testcode\<close> (\<^verbatim>\<open>testcode.c\<close>): the self tests.
  \<^item> \<open>Ulib\<close> (\<^verbatim>\<open>ece391support.c\<close>, \<^verbatim>\<open>ece391syscall.S\<close>), \<open>Syserr\<close> (\<^verbatim>\<open>ece391syserr.c\<close>), \<open>Uprogs\<close> (the programs \<^verbatim>\<open>cat\<close>, \<^verbatim>\<open>ls\<close>, \<^verbatim>\<open>grep\<close>,
    \<^verbatim>\<open>shell\<close>, \<^verbatim>\<open>hello\<close>, \<^verbatim>\<open>counter\<close>, \<^verbatim>\<open>testprint\<close>, \<^verbatim>\<open>pingpong\<close>, \<^verbatim>\<open>sigtest\<close>): user programs over a record \<open>os\<close> of what a program can do.
    What they need of the system are the locales \<open>refusing_system\<close> and \<open>stream_system\<close>.
  \<^item> \<open>Ukernel\<close>, \<open>Ustreams\<close>, \<open>Ulisting\<close>: the kernel as the system under the programs; \<open>table_system\<close> extends \<open>descriptor_table\<close> by what the
    programs do with it. The locales are interpreted on \<open>handler_syscall\<close>, which gives the results about whole programs.

  \<^item> \<open>Emulate\<close> (\<^verbatim>\<open>ece391emulate.c\<close>): the system calls emulated on a Linux host, whose own calls are a record of functions; commands are cut
    into words without leaving the buffer, arguments joined and directory names copied in memory; joining writes one byte past its buffer when
    the arguments fill it exactly.
  \<^item> \<open>Kregion\<close>: regions of memory and frame lemmas for the code that works on structures and strings of a program.
  \<^item> \<open>Blink\<close>, \<open>Blinklist\<close> (\<^verbatim>\<open>blink.S\<close>, the routines of \<^verbatim>\<open>fish.c\<close>), \<open>Fish\<close>, \<open>Fishclock\<close> (\<^verbatim>\<open>fish.c\<close>): the demonstration program. Its linked list
    lives in memory at the offsets of the assembly; \<open>blink_inv\<close> relates it to a list of records, on which a tick, adding, removing,
    synchronising and looking up are plain list functions, and \<open>blink_run\<close> is the set of memories the program can reach. The locale
    \<open>clock_system\<close> is what the program needs of the clock; it is interpreted on the kernel, down to the interrupt handler.

  \<^bold>\<open>How the parts meet.\<close> \<open>entry\<close> runs the initialisers in the order of the code and starts the shells by \<open>execute\<close>; \<open>handler_syscall\<close> dispatches
  to the calls; the calls reach files, directory, clock and terminal through the tables of file operations, whose
  entries are the constructors of \<open>fop\<close>; terminal output goes through \<open>putc\<close> or \<open>term_putc\<close> to a text page, keyboard input through \<open>key_step\<close>
  to the line buffers. The properties follow these paths: a boot that ends in three shells, a \<open>halt\<close> that gives back what
  \<open>execute\<close> took, a program that opens, reads and prints a file on the screen, a program that each interrupt of the clock takes one
  step further.

  \<^bold>\<open>Bounds.\<close> The queue has six places, the descriptor table eight, the directory 63 entries and a file at most 1023 blocks, as in
  the code. No fuel is used. Statements about files assume that the image, the buffers and the control
  blocks do not overlap where the code relies on it; statements about the blink list assume the same of its array of 2000 elements, the
  screen and the buffers, and that no location is 0, which the allocator takes for a free element.

  \<^bold>\<open>Not modelled.\<close> The boot loader and the first instructions of \<^verbatim>\<open>boot.S\<close>; what runs after the \<open>iret\<close> of \<open>execute\<close> and \<open>change_task\<close> and after the \<open>leave\<close> of \<open>halt\<close>, whose outcomes are
  the registers these instructions load; preemption, because the
  timer handler's switch is commented out in the code; the aliasing of the video page that \<open>vidmap\<close> gives a program with the screen,
  for which the program's memory is one region; the copies of the user library in \<^verbatim>\<open>src/fish\<close>.

  \<^bold>\<open>Where the model is coarser than the code.\<close> Interrupts arrive only where a call waits for them, not between two statements; so the few instructions of
  \<^verbatim>\<open>handler.S\<close> in which the result of a call lies below the stack pointer cannot be hit, and no tick of the clock is lost while \<^verbatim>\<open>fish\<close> works on its
  list. Memory is total: kernel accesses to unmapped pages do not fault, apart from the null pointers the code reads through. The line buffers of the
  keyboard and the string \<open>itoa\<close> works on in the kernel are lists, without the terminating zero; the user library's \<open>itoa\<close> is in memory. The
  screen of \<^verbatim>\<open>fish\<close> is the characters of the text page, not their attributes.
\<close>

end
